(* ===== verification/Rcore_Prelude.thy ===== *)
theory Rcore_Prelude
  imports Main "HOL-Library.Word" "HOL-Library.Multiset"
begin

text \<open>
  Shared vocabulary of the development.

  \<^item> \<open>fault\<close>: the ways in which the kernel code stops instead of returning (Rust panics and
    a spin lock that is taken twice by its holder); a fallible operation returns
    \<open>fault + 'a\<close>, and \<open>bind_res\<close> sequences such operations.
  \<^item> \<open>usize_bound\<close>, \<open>u32_bound\<close> and the casts between the integer types that the sources use.
    Identifiers, sizes and offsets are \<open>nat\<close> with the casts written out, bit sets are words.
  \<^item> list operations of the Rust collections: the first matching index of
    \<^verbatim>\<open>iter().enumerate().find(..)\<close>, \<^verbatim>\<open>Vec::remove\<close>, \<^verbatim>\<open>Vec::pop\<close>, overwriting a slice.
  \<^item> little-endian byte encodings of unsigned integers, with their round trips.
  \<^item> the collections \<open>res_simps\<close> (evaluation of fallible code) and \<open>layout_simps\<close>
    (constants of the on-disk layout).
\<close>

named_theorems res_simps \<open>evaluation rules of fallible operations\<close>
named_theorems layout_simps \<open>constants of the on-disk layout\<close>

section \<open>Faults\<close>

datatype fault =
    UnwrapNone        \<comment> \<open>\<^verbatim>\<open>Option::unwrap\<close>, \<^verbatim>\<open>expect\<close> or \<^verbatim>\<open>?\<close> applied to \<^verbatim>\<open>None\<close> in a place that panics\<close>
  | IndexOutOfBounds  \<comment> \<open>slice or array index, or a slice range, out of range\<close>
  | AssertFailed      \<comment> \<open>\<^verbatim>\<open>assert!\<close> or \<^verbatim>\<open>assert_eq!\<close>\<close>
  | ArithOverflow     \<comment> \<open>checked integer arithmetic (the dev profile builds with overflow checks)\<close>
  | DivByZero         \<comment> \<open>integer division by zero\<close>
  | OutOfBlockCache   \<comment> \<open>the explicit panic of the block cache manager\<close>
  | SelfDeadlock      \<comment> \<open>a spin lock acquired again while its guard is alive\<close>
  | Unimplemented     \<comment> \<open>\<^verbatim>\<open>todo!()\<close> and \<^verbatim>\<open>unimplemented!()\<close>\<close>
  | OutOfMemory       \<comment> \<open>\<^verbatim>\<open>handle_alloc_error\<close> of the kernel's allocator\<close>
  | InvalidValue      \<comment> \<open>bytes that are no value of the type they are read at\<close>

type_synonym 'a res = "fault + 'a"

definition bind_res :: "'a res \<Rightarrow> ('a \<Rightarrow> 'b res) \<Rightarrow> 'b res" where
  "bind_res r f = (case r of Inl e \<Rightarrow> Inl e | Inr x \<Rightarrow> f x)"

definition unwrap :: "'a option \<Rightarrow> 'a res" where
  "unwrap v = (case v of None \<Rightarrow> Inl UnwrapNone | Some x \<Rightarrow> Inr x)"

definition assert_res :: "bool \<Rightarrow> unit res" where
  "assert_res b = (if b then Inr () else Inl AssertFailed)"

lemma bind_res_simps [simp, res_simps]:
  "bind_res (Inl e) f = Inl e"
  "bind_res (Inr x) f = f x"
  by (simp_all add: bind_res_def)

lemma unwrap_simps [simp, res_simps]:
  "unwrap None = Inl UnwrapNone"
  "unwrap (Some x) = Inr x"
  by (simp_all add: unwrap_def)

lemma assert_res_simps [simp, res_simps]:
  "assert_res True = Inr ()"
  "assert_res False = Inl AssertFailed"
  by (simp_all add: assert_res_def)

lemma bind_res_eq_Inr:
  "bind_res r f = Inr y \<longleftrightarrow> (\<exists>x. r = Inr x \<and> f x = Inr y)"
  by (cases r) simp_all

lemma bind_res_eq_Inl:
  "bind_res r f = Inl e \<longleftrightarrow> r = Inl e \<or> (\<exists>x. r = Inr x \<and> f x = Inl e)"
  by (cases r) simp_all

lemma bind_res_Inr_elim [elim!]:
  assumes "bind_res r f = Inr y"
  obtains x where "r = Inr x" "f x = Inr y"
  using assms by (auto simp: bind_res_eq_Inr)

lemma unwrap_eq_Inr [simp]: "unwrap v = Inr x \<longleftrightarrow> v = Some x"
  by (cases v) simp_all

lemma assert_res_eq_Inr [simp]: "assert_res b = Inr u \<longleftrightarrow> b"
  by (simp add: assert_res_def)

section \<open>Computations that may not end\<close>

text \<open>None is a computation that does not return.\<close>

type_synonym 'a run = "'a res option"

definition bind_run :: "'a run \<Rightarrow> ('a \<Rightarrow> 'b run) \<Rightarrow> 'b run" where
  "bind_run r f = (case r of None \<Rightarrow> None | Some (Inl e) \<Rightarrow> Some (Inl e) | Some (Inr x) \<Rightarrow> f x)"

lemma bind_run_simps [simp]:
  "bind_run None f = None" "bind_run (Some (Inl e)) f = Some (Inl e)" "bind_run (Some (Inr x)) f = f x"
  by (simp_all add: bind_run_def)

lemma bind_run_Inr_elim [elim!]:
  assumes "bind_run r f = Some (Inr y)"
  obtains x where "r = Some (Inr x)" "f x = Some (Inr y)"
  using assms by (auto simp: bind_run_def split: option.splits sum.splits)

lemma bind_run_eq_Inr: "bind_run r f = Some (Inr y) \<longleftrightarrow> (\<exists>x. r = Some (Inr x) \<and> f x = Some (Inr y))"
  by (auto simp: bind_run_def split: option.splits sum.splits)

section \<open>Machine integers\<close>

abbreviation usize_bound :: nat where "usize_bound \<equiv> 2 ^ 64"
abbreviation u32_bound :: nat where "u32_bound \<equiv> 2 ^ 32"

text \<open>\<^verbatim>\<open>x as u32\<close>, \<^verbatim>\<open>x as isize\<close> and \<^verbatim>\<open>x as usize\<close> on a 64-bit target.\<close>

definition as_u32 :: "nat \<Rightarrow> nat" where
  "as_u32 x = x mod u32_bound"

definition usize_as_isize :: "nat \<Rightarrow> int" where
  "usize_as_isize x =
     (if x mod usize_bound < 2 ^ 63 then int (x mod usize_bound)
      else int (x mod usize_bound) - 2 ^ 64)"

definition isize_as_usize :: "int \<Rightarrow> nat" where
  "isize_as_usize i = nat (i mod 2 ^ 64)"

text \<open>\<^verbatim>\<open>x as i32\<close> of a \<^verbatim>\<open>usize\<close> and of an \<^verbatim>\<open>isize\<close>, and the bit pattern of an \<^verbatim>\<open>i32\<close>.\<close>

definition int_as_i32 :: "int \<Rightarrow> int" where
  "int_as_i32 i = (if i mod 2 ^ 32 < 2 ^ 31 then i mod 2 ^ 32 else i mod 2 ^ 32 - 2 ^ 32)"

definition i32_bits :: "int \<Rightarrow> nat" where
  "i32_bits i = nat (i mod 2 ^ 32)"

definition in_isize :: "int \<Rightarrow> bool" where
  "in_isize i \<longleftrightarrow> - (2 ^ 63) \<le> i \<and> i < 2 ^ 63"

lemma as_u32_small [simp]: "x < u32_bound \<Longrightarrow> as_u32 x = x"
  by (simp add: as_u32_def)

lemma as_u32_less [simp]: "as_u32 x < u32_bound"
  by (simp add: as_u32_def)

lemma usize_as_isize_small [simp]: "x < 2 ^ 63 \<Longrightarrow> usize_as_isize x = int x"
  by (simp add: usize_as_isize_def)

lemma isize_as_usize_nonneg: "0 \<le> i \<Longrightarrow> i < 2 ^ 63 \<Longrightarrow> isize_as_usize i = nat i"
  by (simp add: isize_as_usize_def)

lemma isize_as_usize_neg: "i < 0 \<Longrightarrow> - (2 ^ 63) \<le> i \<Longrightarrow> isize_as_usize i = nat (i + 2 ^ 64)"
proof -
  assume "i < 0" "- (2 ^ 63) \<le> i"
  then have "(i + 2 ^ 64) mod 2 ^ 64 = i + 2 ^ 64"
    by (intro mod_pos_pos_trivial) simp_all
  then show ?thesis by (simp add: isize_as_usize_def)
qed

lemma isize_round_trip: "in_isize i \<Longrightarrow> usize_as_isize (isize_as_usize i) = i"
proof (cases "0 \<le> i")
  case True
  assume "in_isize i"
  with True show ?thesis
    by (simp add: in_isize_def isize_as_usize_nonneg nat_less_iff)
next
  case False
  assume "in_isize i"
  with False have "nat (i + 2 ^ 64) < 2 ^ 64" "\<not> nat (i + 2 ^ 64) < 2 ^ 63"
    by (simp_all add: in_isize_def nat_less_iff)
  with False \<open>in_isize i\<close> show ?thesis
    by (simp add: in_isize_def isize_as_usize_neg usize_as_isize_def)
qed

lemma eq_div_mod: "(j :: nat) = k \<longleftrightarrow> j div c = k div c \<and> j mod c = k mod c"
  by (metis div_mult_mod_eq)

text \<open>\<^verbatim>\<open>1 << k\<close>.\<close>

lemma bit_one_shifted: "bit (push_bit k (1 :: 64 word)) n \<longleftrightarrow> n = k \<and> k < 64"
  by (auto simp: bit_simps)

lemma bit_not_word_iff: "bit (ring_bit_operations_class.not (w :: 64 word)) n \<longleftrightarrow> n < 64 \<and> \<not> bit w n"
  by (simp add: bit_simps)

text \<open>\<^verbatim>\<open>usize::trailing_zeros\<close>.\<close>

function zeros_from :: "nat \<Rightarrow> 64 word \<Rightarrow> nat" where
  "zeros_from k w = (if 64 \<le> k then 64 else if bit w k then k else zeros_from (k + 1) w)"
  by pat_completeness auto
termination by (relation "measure (\<lambda>(k, _). 64 - k)") auto

declare zeros_from.simps [simp del]

definition trailing_zeros :: "64 word \<Rightarrow> nat" where
  "trailing_zeros w = zeros_from 0 w"

lemma zeros_from_spec:
  "k \<le> 64 \<Longrightarrow> zeros_from k w \<le> 64 \<and> (\<forall>j. k \<le> j \<and> j < zeros_from k w \<longrightarrow> \<not> bit w j) \<and>
   (zeros_from k w < 64 \<longrightarrow> k \<le> zeros_from k w \<and> bit w (zeros_from k w))"
proof (induction k w rule: zeros_from.induct)
  case (1 k w)
  show ?case
  proof (cases "64 \<le> k \<or> bit w k")
    case True
    then show ?thesis using 1(2) by (subst (1 2 3 4 5) zeros_from.simps) auto
  next
    case False
    then have "zeros_from k w = zeros_from (k + 1) w" by (subst zeros_from.simps) simp
    moreover have "\<not> bit w j" if "k \<le> j" "j < zeros_from (k + 1) w" for j
      using that 1(1) False by (cases "j = k") auto
    ultimately show ?thesis using 1(1) False by auto
  qed
qed

text \<open>Alignment to a page, as the system calls test it.\<close>

lemma trailing_zeros_page: "trailing_zeros (of_nat a) < 12 \<longleftrightarrow> a mod 4096 \<noteq> 0"
proof -
  have b: "bit (of_nat a :: 64 word) j \<longleftrightarrow> bit a j" if "j < 12" for j
    using that by (simp add: bit_simps)
  have z: "trailing_zeros (of_nat a) \<le> 64" "\<And>j. j < trailing_zeros (of_nat a) \<Longrightarrow> \<not> bit (of_nat a :: 64 word) j"
    "trailing_zeros (of_nat a) < 64 \<Longrightarrow> bit (of_nat a :: 64 word) (trailing_zeros (of_nat a))"
    using zeros_from_spec [of 0 "of_nat a"] by (auto simp: trailing_zeros_def)
  have "a mod 4096 = 0 \<longleftrightarrow> (\<forall>j<12. \<not> bit a j)"
  proof -
    have "take_bit 12 a = a mod 4096" by (simp add: take_bit_eq_mod)
    moreover have "take_bit 12 a = 0 \<longleftrightarrow> (\<forall>j<12. \<not> bit a j)"
      by (auto simp: bit_eq_iff bit_take_bit_iff)
    ultimately show ?thesis by simp
  qed
  moreover have "trailing_zeros (of_nat a) < 12 \<longleftrightarrow> (\<exists>j<12. bit a j)"
  proof
    assume l: "trailing_zeros (of_nat a) < 12"
    then have "bit (of_nat a :: 64 word) (trailing_zeros (of_nat a))" by (intro z(3)) simp
    with b [OF l] l show "\<exists>j<12. bit a j" by blast
  next
    assume "\<exists>j<12. bit a j"
    then obtain j where "j < 12" "bit (of_nat a :: 64 word) j" using b by blast
    then show "trailing_zeros (of_nat a) < 12" using z(2) [of j] by linarith
  qed
  ultimately show ?thesis by simp
qed

section \<open>Lists\<close>

text \<open>\<^verbatim>\<open>iter().enumerate().find(|(_, x)| p(x)).map(|(i, _)| i)\<close>: the first index that satisfies \<open>p\<close>.\<close>

fun find_index :: "('a \<Rightarrow> bool) \<Rightarrow> 'a list \<Rightarrow> nat option" where
  "find_index p [] = None"
| "find_index p (x # xs) = (if p x then Some 0 else map_option Suc (find_index p xs))"

text \<open>\<^verbatim>\<open>Vec::remove(i)\<close>: the list without its element at position \<open>i\<close>, for \<open>i\<close> in range.\<close>

definition remove_nth :: "nat \<Rightarrow> 'a list \<Rightarrow> 'a list" where
  "remove_nth i xs = take i xs @ drop (Suc i) xs"

text \<open>\<^verbatim>\<open>dst[off..off + src.len()].copy_from_slice(src)\<close>, for a range inside \<open>dst\<close>.\<close>

definition copy_into :: "nat \<Rightarrow> 'a list \<Rightarrow> 'a list \<Rightarrow> 'a list" where
  "copy_into off src dst = take off dst @ src @ drop (off + length src) dst"

text \<open>\<^verbatim>\<open>xs[off..off + len]\<close>.\<close>

definition slice_of :: "nat \<Rightarrow> nat \<Rightarrow> 'a list \<Rightarrow> 'a list" where
  "slice_of off len xs = take len (drop off xs)"

lemma find_index_None [simp]: "find_index p xs = None \<longleftrightarrow> (\<forall>x\<in>set xs. \<not> p x)"
  by (induction xs) auto

lemma find_index_SomeD:
  "find_index p xs = Some i \<Longrightarrow> i < length xs \<and> p (xs ! i) \<and> (\<forall>j<i. \<not> p (xs ! j))"
proof (induction xs arbitrary: i)
  case (Cons x xs)
  then show ?case
    by (cases i) (auto simp: less_Suc_eq_0_disj split: if_splits)
qed simp

lemma find_index_Some_iff:
  "find_index p xs = Some i \<longleftrightarrow> i < length xs \<and> p (xs ! i) \<and> (\<forall>j<i. \<not> p (xs ! j))"
proof
  assume r: "i < length xs \<and> p (xs ! i) \<and> (\<forall>j<i. \<not> p (xs ! j))"
  then have "find_index p xs \<noteq> None"
    by (auto intro: nth_mem)
  then obtain k where k: "find_index p xs = Some k"
    using option.exhaust by metis
  with r find_index_SomeD [OF k] have "k = i"
    by (metis linorder_neqE_nat)
  with k show "find_index p xs = Some i" by simp
qed (rule find_index_SomeD)

lemma length_remove_nth [simp]: "i < length xs \<Longrightarrow> length (remove_nth i xs) = length xs - 1"
  by (simp add: remove_nth_def)

lemma map_remove_nth: "map f (remove_nth i xs) = remove_nth i (map f xs)"
  by (simp add: remove_nth_def take_map drop_map)

lemma mset_remove_nth: "i < length xs \<Longrightarrow> mset (remove_nth i xs) = mset xs - {#xs ! i#}"
proof -
  assume "i < length xs"
  then have "xs = take i xs @ xs ! i # drop (Suc i) xs"
    by (simp add: id_take_nth_drop)
  then have "mset xs = mset (take i xs) + {#xs ! i#} + mset (drop (Suc i) xs)"
    by (metis mset_append mset.simps(2) union_mset_add_mset_left union_mset_add_mset_right
        add_mset_add_single)
  then show ?thesis by (simp add: remove_nth_def)
qed

lemma set_remove_nth_subset: "set (remove_nth i xs) \<subseteq> set xs"
  by (auto simp: remove_nth_def dest: in_set_takeD in_set_dropD)

lemma remove_nth_decomp:
  "i < length xs \<Longrightarrow> \<exists>ys zs. xs = ys @ xs ! i # zs \<and> remove_nth i xs = ys @ zs"
  unfolding remove_nth_def using id_take_nth_drop by blast

lemma distinct_remove_nth [intro]: "distinct xs \<Longrightarrow> i < length xs \<Longrightarrow> distinct (remove_nth i xs)"
  using remove_nth_decomp [of i xs] by (metis distinct_append distinct.simps(2) Int_iff
      disjoint_insert(2) list.simps(15))

lemma set_remove_nth_distinct:
  "distinct xs \<Longrightarrow> i < length xs \<Longrightarrow> set (remove_nth i xs) = set xs - {xs ! i}"
proof -
  assume d: "distinct xs" and "i < length xs"
  then obtain ys zs where "xs = ys @ xs ! i # zs" "remove_nth i xs = ys @ zs"
    using remove_nth_decomp by blast
  with d show ?thesis
    by (metis (no_types) Diff_insert_absorb Un_insert_right distinct.simps(2) distinct_append
        Un_iff disjoint_iff list.set_intros(1) list.simps(15) set_append)
qed

lemma length_copy_into [simp]:
  "off + length src \<le> length dst \<Longrightarrow> length (copy_into off src dst) = length dst"
  by (simp add: copy_into_def)

lemma length_slice_of [simp]: "off + len \<le> length xs \<Longrightarrow> length (slice_of off len xs) = len"
  by (simp add: slice_of_def)

lemma slice_of_copy_into [simp]:
  "off + length src \<le> length dst \<Longrightarrow> slice_of off (length src) (copy_into off src dst) = src"
  by (simp add: slice_of_def copy_into_def)

lemma take_slice: "take i xs @ slice_of i n xs = take (i + n) xs"
  by (simp add: slice_of_def take_add)

lemma nth_copy_into:
  "off + length src \<le> length dst \<Longrightarrow> i < length dst \<Longrightarrow>
   copy_into off src dst ! i = (if off \<le> i \<and> i < off + length src then src ! (i - off) else dst ! i)"
  by (auto simp: copy_into_def nth_append min_def)

lemma nth_slice_of: "off + len \<le> length xs \<Longrightarrow> i < len \<Longrightarrow> slice_of off len xs ! i = xs ! (off + i)"
  by (simp add: slice_of_def)

section \<open>Little-endian encodings\<close>

type_synonym byte = "8 word"

text \<open>The \<open>n\<close> low bytes of a number, least significant byte first, and the number of a byte list.\<close>

fun le_bytes :: "nat \<Rightarrow> nat \<Rightarrow> byte list" where
  "le_bytes 0 x = []"
| "le_bytes (Suc n) x = of_nat (x mod 256) # le_bytes n (x div 256)"

fun le_nat :: "byte list \<Rightarrow> nat" where
  "le_nat [] = 0"
| "le_nat (b # bs) = unat b + 256 * le_nat bs"

lemma length_le_bytes [simp]: "length (le_bytes n x) = n"
  by (induction n arbitrary: x) auto

lemma unat_byte_less [simp]: "unat (b :: byte) < 256"
  using unsigned_less [of b] by simp

lemma le_nat_less: "le_nat bs < 256 ^ length bs"
proof (induction bs)
  case (Cons b bs)
  have "unat b + 256 * le_nat bs < 256 * (1 + le_nat bs)" by simp
  also have "\<dots> \<le> 256 * 256 ^ length bs"
    using Cons by (intro mult_le_mono2) simp
  finally show ?case by simp
qed simp

lemma le_nat_le_bytes: "le_nat (le_bytes n x) = x mod 256 ^ n"
proof (induction n arbitrary: x)
  case (Suc n)
  have "le_nat (le_bytes (Suc n) x) = x mod 256 + 256 * (x div 256 mod 256 ^ n)"
    by (simp add: Suc unat_of_nat)
  then show ?case by (simp add: mod_mult2_eq)
qed simp

lemma le_bytes_le_nat: "length bs = n \<Longrightarrow> le_bytes n (le_nat bs) = bs"
proof (induction bs arbitrary: n)
  case (Cons b bs)
  have "(unat b + 256 * le_nat bs) mod 256 = unat b" by simp
  moreover have "(unat b + 256 * le_nat bs) div 256 = le_nat bs" by simp
  ultimately show ?case using Cons by auto
qed simp

lemma le_nat_le_bytes_4 [simp]: "x < u32_bound \<Longrightarrow> le_nat (le_bytes 4 x) = x"
  by (simp add: le_nat_le_bytes)

lemma le_nat_4_less: "length bs = 4 \<Longrightarrow> le_nat bs < u32_bound"
  using le_nat_less [of bs] by simp

end
