(* ===== verification/Kernel_Context.thy ===== *)
theory Kernel_Context
  imports Rcore_Prelude
begin

text \<open>
  tg-kernel-context: the saved state of a thread (\<^verbatim>\<open>LocalContext\<close> of \<^verbatim>\<open>lib.rs\<close>) with its accessors, and the
  pieces of the portal between address spaces that are plain code (\<^verbatim>\<open>foreign/mod.rs\<close>,
  \<^verbatim>\<open>multislot_portal.rs\<close>). Register accesses index the array of the 31 registers x1 to x31; register
  numbers outside that range are the panics of the index.
\<close>

unbundle bit_operations_syntax

section \<open>Thread contexts\<close>

record local_context =
  sctx :: nat
  x_regs :: "nat list"
  sepc :: nat
  supervisor :: bool
  interrupt :: bool

definition lc_empty :: local_context where
  "lc_empty = \<lparr>sctx = 0, x_regs = replicate 31 0, sepc = 0, supervisor = False, interrupt = False\<rparr>"

definition lc_user :: "nat \<Rightarrow> local_context" where
  "lc_user pc = \<lparr>sctx = 0, x_regs = replicate 31 0, sepc = pc, supervisor = False, interrupt = True\<rparr>"

definition lc_thread :: "nat \<Rightarrow> bool \<Rightarrow> local_context" where
  "lc_thread pc intr = \<lparr>sctx = 0, x_regs = replicate 31 0, sepc = pc, supervisor = True, interrupt = intr\<rparr>"

definition lc_x :: "nat \<Rightarrow> local_context \<Rightarrow> nat res" where
  "lc_x n ctx =
     (if n = 0 then Inl ArithOverflow
      else if n - 1 < length (x_regs ctx) then Inr (x_regs ctx ! (n - 1))
      else Inl IndexOutOfBounds)"

text \<open>A write through \<^verbatim>\<open>x_mut(n)\<close>.\<close>

definition lc_set_x :: "nat \<Rightarrow> nat \<Rightarrow> local_context \<Rightarrow> local_context res" where
  "lc_set_x n v ctx =
     (if n = 0 then Inl ArithOverflow
      else if n - 1 < length (x_regs ctx) then Inr (ctx\<lparr>x_regs := (x_regs ctx)[n - 1 := v]\<rparr>)
      else Inl IndexOutOfBounds)"

definition lc_a :: "nat \<Rightarrow> local_context \<Rightarrow> nat res" where
  "lc_a n ctx = lc_x (n + 10) ctx"

definition lc_set_a :: "nat \<Rightarrow> nat \<Rightarrow> local_context \<Rightarrow> local_context res" where
  "lc_set_a n v ctx = lc_set_x (n + 10) v ctx"

definition lc_ra :: "local_context \<Rightarrow> nat res" where
  "lc_ra ctx = lc_x 1 ctx"

definition lc_sp :: "local_context \<Rightarrow> nat res" where
  "lc_sp ctx = lc_x 2 ctx"

definition lc_set_sp :: "nat \<Rightarrow> local_context \<Rightarrow> local_context res" where
  "lc_set_sp v ctx = lc_set_x 2 v ctx"

definition lc_pc :: "local_context \<Rightarrow> nat" where
  "lc_pc ctx = sepc ctx"

definition lc_set_pc :: "nat \<Rightarrow> local_context \<Rightarrow> local_context" where
  "lc_set_pc v ctx = ctx\<lparr>sepc := v\<rparr>"

definition lc_move_next :: "local_context \<Rightarrow> local_context" where
  "lc_move_next ctx = ctx\<lparr>sepc := (sepc ctx + 4) mod usize_bound\<rparr>"

text \<open>\<^verbatim>\<open>build_sstatus\<close> on the value read from the register.\<close>

definition build_sstatus :: "64 word \<Rightarrow> bool \<Rightarrow> bool \<Rightarrow> 64 word" where
  "build_sstatus sstatus super intr =
     (let s1 = (if super then sstatus OR push_bit 8 1 else sstatus AND NOT (push_bit 8 1))
      in if intr then s1 OR push_bit 5 1 else s1 AND NOT (push_bit 5 1))"

section \<open>The portal\<close>

record portal_cache =
  pc_a0 :: nat
  pc_a1 :: nat
  pc_satp :: nat
  pc_sstatus :: "64 word"
  pc_sepc :: nat
  pc_stvec :: nat
  pc_sscratch :: nat

definition portal_cache_init ::
  "64 word \<Rightarrow> nat \<Rightarrow> nat \<Rightarrow> nat \<Rightarrow> bool \<Rightarrow> bool \<Rightarrow> portal_cache \<Rightarrow> portal_cache" where
  "portal_cache_init sstatus satp pc a0 super intr c =
     c\<lparr>pc_satp := satp, pc_sepc := pc, pc_a0 := a0, pc_sstatus := build_sstatus sstatus super intr\<rparr>"

record foreign_context =
  fc_context :: local_context
  fc_satp :: nat

text \<open>
  \<^verbatim>\<open>ForeignContext::execute\<close>. The address of the code and of the cache in the common space, the value of
  \<^verbatim>\<open>sstatus\<close> and the trip itself (\<^verbatim>\<open>LocalContext::execute\<close>, which runs the thread until it traps, on the
  context and the cache) are arguments.
\<close>

definition fc_execute ::
  "(local_context \<Rightarrow> portal_cache \<Rightarrow> (64 word \<times> local_context \<times> portal_cache) res) \<Rightarrow> nat \<Rightarrow> nat \<Rightarrow> 64 word \<Rightarrow>
   foreign_context \<Rightarrow> portal_cache \<Rightarrow> (64 word \<times> foreign_context \<times> portal_cache) res" where
  "fc_execute run entry address sstatus_now fc cache =
     (let super = supervisor (fc_context fc);
          intr = interrupt (fc_context fc);
          ctx1 = (fc_context fc)\<lparr>supervisor := True, interrupt := False\<rparr>
      in bind_res (lc_a 0 ctx1) (\<lambda>a0.
         let cache1 = portal_cache_init sstatus_now (fc_satp fc) (sepc ctx1) a0 super intr cache
         in bind_res (lc_set_a 0 address (lc_set_pc entry ctx1)) (\<lambda>ctx2.
            bind_res (run ctx2 cache1) (\<lambda>(sstatus, ctx3, cache2).
            bind_res (lc_set_a 0 (pc_a0 cache2) (ctx3\<lparr>supervisor := super, interrupt := intr\<rparr>)) (\<lambda>ctx4.
              Inr (sstatus, fc\<lparr>fc_context := ctx4\<rparr>, cache2))))))"

text \<open>\<^verbatim>\<open>PortalText::aligned_size\<close> for a code of \<open>len\<close> half words, and the layout of the portal.\<close>

definition aligned_size :: "nat \<Rightarrow> nat" where
  "aligned_size len = (len * 2 + 7) div 8 * 8"

record multislot_portal =
  slot_count :: nat
  text_size :: nat

abbreviation sizeof_portal :: nat where "sizeof_portal \<equiv> 16"
abbreviation sizeof_cache :: nat where "sizeof_cache \<equiv> 56"

definition calculate_size :: "nat \<Rightarrow> nat \<Rightarrow> nat" where
  "calculate_size text_len slots = sizeof_portal + aligned_size text_len + slots * sizeof_cache"

definition init_transit :: "nat \<Rightarrow> nat \<Rightarrow> multislot_portal" where
  "init_transit text_len slots = \<lparr>slot_count = slots, text_size = aligned_size text_len\<rparr>"

definition text_offset :: "multislot_portal \<Rightarrow> nat" where
  "text_offset p = sizeof_portal"

definition cache_offset :: "multislot_portal \<Rightarrow> nat \<Rightarrow> nat" where
  "cache_offset p key = sizeof_portal + text_size p + key * sizeof_cache"

definition portal_total_size :: "multislot_portal \<Rightarrow> nat" where
  "portal_total_size p = cache_offset p (slot_count p)"

section \<open>Facts\<close>

definition lc_wf :: "local_context \<Rightarrow> bool" where
  "lc_wf ctx \<longleftrightarrow> length (x_regs ctx) = 31"

named_theorems ctx_simps \<open>accessors on contexts with 31 registers\<close>

lemma lc_wf_new [simp]: "lc_wf lc_empty" "lc_wf (lc_user pc)" "lc_wf (lc_thread pc i)"
  by (simp_all add: lc_wf_def lc_empty_def lc_user_def lc_thread_def)

lemma lc_a_ok [ctx_simps]: "lc_wf ctx \<Longrightarrow> n < 22 \<Longrightarrow> lc_a n ctx = Inr (x_regs ctx ! (9 + n))"
  by (simp add: lc_a_def lc_x_def lc_wf_def)

lemma lc_set_a_ok [ctx_simps]:
  "lc_wf ctx \<Longrightarrow> n < 22 \<Longrightarrow> lc_set_a n v ctx = Inr (ctx\<lparr>x_regs := (x_regs ctx)[9 + n := v]\<rparr>)"
  by (simp add: lc_set_a_def lc_set_x_def lc_wf_def)

lemma lc_wf_upd [simp]:
  "lc_wf (ctx\<lparr>x_regs := (x_regs ctx)[i := v]\<rparr>) = lc_wf ctx"
  "lc_wf (ctx\<lparr>sepc := p\<rparr>) = lc_wf ctx"
  "lc_wf (ctx\<lparr>supervisor := s\<rparr>) = lc_wf ctx"
  "lc_wf (ctx\<lparr>interrupt := b\<rparr>) = lc_wf ctx"
  by (simp_all add: lc_wf_def)

lemma lc_wf_move_next [simp]: "lc_wf (lc_move_next ctx) = lc_wf ctx"
  by (simp add: lc_move_next_def)

text \<open>The bits of the status register that a context decides, and the others.\<close>

lemma build_sstatus_bits:
  "bit (build_sstatus s super intr) n = (if n = 8 then super else if n = 5 then intr else bit s n)"
proof (cases "n < 64")
  case True
  then show ?thesis
    unfolding build_sstatus_def Let_def
    by (simp only: bit_or_iff bit_and_iff bit_not_word_iff bit_one_shifted if_split_asm split: if_splits) auto
next
  case False
  then show ?thesis by (auto dest: bit_imp_le_length)
qed

text \<open>
  A trip through the portal: the thread's own privilege and interrupt flags go into the cache, the
  code of the portal is entered with interrupts off and in supervisor mode with the address of the cache
  in a0, and on return the context has the flags it had, the thread's a0, and the registers and the
  program counter that the trap left.
\<close>

theorem foreign_execute_protocol:
  assumes wf: "lc_wf (fc_context fc)"
    and run: "\<forall>c k st c' k'. run c k = Inr (st, c', k') \<longrightarrow> lc_wf c'"
  shows "fc_execute run entry address now fc cache =
    bind_res (run ((fc_context fc)\<lparr>supervisor := True, interrupt := False, sepc := entry,
          x_regs := (x_regs (fc_context fc))[9 := address]\<rparr>)
        (cache\<lparr>pc_satp := fc_satp fc, pc_sepc := sepc (fc_context fc), pc_a0 := x_regs (fc_context fc) ! 9,
          pc_sstatus := build_sstatus now (supervisor (fc_context fc)) (interrupt (fc_context fc))\<rparr>))
      (\<lambda>(st, ctx, cache').
        Inr (st, fc\<lparr>fc_context := ctx\<lparr>supervisor := supervisor (fc_context fc),
          interrupt := interrupt (fc_context fc), x_regs := (x_regs ctx)[9 := pc_a0 cache']\<rparr>\<rparr>, cache'))"
proof -
  have "lc_set_a 0 address (lc_set_pc entry ((fc_context fc)\<lparr>supervisor := True, interrupt := False\<rparr>)) =
      Inr ((fc_context fc)\<lparr>supervisor := True, interrupt := False, sepc := entry,
        x_regs := (x_regs (fc_context fc))[9 := address]\<rparr>)"
    using wf by (simp add: lc_set_pc_def lc_set_a_def lc_set_x_def lc_wf_def)
  moreover have "lc_set_a 0 v (ctx\<lparr>supervisor := s, interrupt := i\<rparr>) =
      Inr (ctx\<lparr>supervisor := s, interrupt := i, x_regs := (x_regs ctx)[9 := v]\<rparr>)" if "lc_wf ctx" for v s i ctx
    using that by (simp add: lc_set_a_def lc_set_x_def lc_wf_def)
  moreover define R where "R = run ((fc_context fc)\<lparr>supervisor := True, interrupt := False, sepc := entry,
          x_regs := (x_regs (fc_context fc))[9 := address]\<rparr>)
        (cache\<lparr>pc_satp := fc_satp fc, pc_sepc := sepc (fc_context fc), pc_a0 := x_regs (fc_context fc) ! 9,
          pc_sstatus := build_sstatus now (supervisor (fc_context fc)) (interrupt (fc_context fc))\<rparr>)"
  moreover have "lc_wf c'" if "R = Inr (st, c', k')" for st c' k' using run that unfolding R_def by blast
  ultimately show ?thesis
    using wf unfolding R_def [symmetric]
    by (cases R) (auto simp: fc_execute_def portal_cache_init_def lc_a_ok Let_def R_def [symmetric])
qed

text \<open>A thread at address 0 that traps at once at address 4.\<close>

definition trap_at_4 :: "local_context \<Rightarrow> portal_cache \<Rightarrow> (64 word \<times> local_context \<times> portal_cache) res" where
  "trap_at_4 ctx cache = (if lc_wf ctx then Inr (0, ctx\<lparr>sepc := 4\<rparr>, cache) else Inl IndexOutOfBounds)"

definition zero_cache :: portal_cache where
  "zero_cache = \<lparr>pc_a0 = 0, pc_a1 = 0, pc_satp = 0, pc_sstatus = 0, pc_sepc = 0, pc_stvec = 0, pc_sscratch = 0\<rparr>"

theorem foreign_execute_protocol_witness:
  "\<exists>cache'. fc_execute trap_at_4 100 200 0 \<lparr>fc_context = lc_user 0, fc_satp = 5\<rparr> zero_cache =
     Inr (0, \<lparr>fc_context = (lc_user 0)\<lparr>sepc := 4\<rparr>, fc_satp = 5\<rparr>, cache') \<and> pc_satp cache' = 5"
  using foreign_execute_protocol [of "\<lparr>fc_context = lc_user 0, fc_satp = 5\<rparr>" trap_at_4 100 200 0 zero_cache]
  by (auto simp: trap_at_4_def lc_user_def zero_cache_def lc_wf_def list_update_same_conv split: if_splits)

text \<open>A portal of the declared size holds its header, its code and its slots without overlap.\<close>

lemma portal_layout:
  "key < slot_count p \<Longrightarrow> text_offset p + text_size p \<le> cache_offset p key \<and>
   cache_offset p key + sizeof_cache \<le> portal_total_size p \<and>
   (key + 1 < slot_count p \<longrightarrow> cache_offset p key + sizeof_cache \<le> cache_offset p (key + 1))"
  by (auto simp: text_offset_def cache_offset_def portal_total_size_def)

lemma portal_size: "portal_total_size (init_transit len n) = calculate_size len n \<and> 2 * len \<le> aligned_size len"
  by (simp add: portal_total_size_def init_transit_def calculate_size_def cache_offset_def aligned_size_def)

end
