(* ===== verification/Signal_Delivery.thy ===== *)
theory Signal_Delivery
  imports Kernel_Context
begin

text \<open>
  Signals: the numbers and actions of tg-signal-defs, the results of tg-signal and the implementation of
  tg-signal-impl (\<^verbatim>\<open>SignalSet\<close> as a 64-bit word, \<^verbatim>\<open>DefaultAction\<close>, \<^verbatim>\<open>SignalImpl\<close>).

  A signal number is its value: \<^verbatim>\<open>SignalNo\<close> numbers its 64 constructors from 0 to 63. The table of actions
  has 32 entries, while all 64 numbers can be pending; the index into it is checked, as in the source.

  Shown are the choice of the delivered signal, the state machine of \<^verbatim>\<open>handle_signals\<close>, the return from
  a handler, and what the masks and the frozen state mean for SIGKILL.
\<close>

section \<open>Signal sets\<close>

abbreviation (input) MAX_SIG :: nat where "MAX_SIG \<equiv> 31"
abbreviation (input) SIG_ERR :: nat where "SIG_ERR \<equiv> 0"
abbreviation (input) SIGKILL :: nat where "SIGKILL \<equiv> 9"
abbreviation (input) SIGCHLD :: nat where "SIGCHLD \<equiv> 17"
abbreviation (input) SIGCONT :: nat where "SIGCONT \<equiv> 18"
abbreviation (input) SIGSTOP :: nat where "SIGSTOP \<equiv> 19"
abbreviation (input) SIGURG :: nat where "SIGURG \<equiv> 23"

text \<open>\<^verbatim>\<open>SignalNo::try_from(u8)\<close> and \<^verbatim>\<open>From<usize> for SignalNo\<close>.\<close>

definition signal_no_try_from :: "nat \<Rightarrow> nat option" where
  "signal_no_try_from n = (if n < 64 then Some n else None)"

definition signal_no_from :: "nat \<Rightarrow> nat" where
  "signal_no_from n = (case signal_no_try_from (n mod 256) of Some s \<Rightarrow> s | None \<Rightarrow> SIG_ERR)"

type_synonym signal_set = "64 word"

definition contain_bit :: "nat \<Rightarrow> signal_set \<Rightarrow> bool" where
  "contain_bit kth s \<longleftrightarrow> drop_bit kth s AND 1 > 0"

definition add_bit :: "nat \<Rightarrow> signal_set \<Rightarrow> signal_set" where
  "add_bit kth s = s OR push_bit kth 1"

definition remove_bit :: "nat \<Rightarrow> signal_set \<Rightarrow> signal_set" where
  "remove_bit kth s = s AND NOT (push_bit kth 1)"

definition get_union :: "signal_set \<Rightarrow> signal_set \<Rightarrow> signal_set" where
  "get_union t s = s OR t"

definition get_difference :: "signal_set \<Rightarrow> signal_set \<Rightarrow> signal_set" where
  "get_difference t s = s AND NOT t"

definition set_new :: "signal_set \<Rightarrow> signal_set \<Rightarrow> signal_set \<times> signal_set" where
  "set_new t s = (s, t)"

definition find_first_one :: "signal_set \<Rightarrow> signal_set \<Rightarrow> nat option" where
  "find_first_one msk s =
     (let ans = trailing_zeros (s AND NOT msk) in if ans = 64 then None else Some ans)"

section \<open>Signal handling\<close>

record signal_action =
  handler :: nat
  action_mask :: nat

definition default_signal_action :: signal_action where
  "default_signal_action = \<lparr>handler = 0, action_mask = 0\<rparr>"

datatype signal_result =
    NoSignal
  | IsHandlingSignal
  | Ignored
  | Handled
  | ProcessKilled int
  | ProcessSuspended

datatype default_action = Terminate int | IgnoreSignal

definition default_action_from :: "nat \<Rightarrow> default_action" where
  "default_action_from signal_no =
     (if signal_no = SIGCHLD \<or> signal_no = SIGURG then IgnoreSignal else Terminate (- int signal_no))"

definition default_action_into :: "default_action \<Rightarrow> signal_result" where
  "default_action_into a = (case a of Terminate exit_code \<Rightarrow> ProcessKilled exit_code | IgnoreSignal \<Rightarrow> Ignored)"

datatype handling_signal = Frozen | UserSignal local_context

record signal_impl =
  received :: signal_set
  sig_mask :: signal_set
  handling :: "handling_signal option"
  actions :: "signal_action option list"

definition signal_impl_new :: signal_impl where
  "signal_impl_new = \<lparr>received = 0, sig_mask = 0, handling = None, actions = replicate (MAX_SIG + 1) None\<rparr>"

definition fetch_signal :: "signal_impl \<Rightarrow> nat option \<times> signal_impl" where
  "fetch_signal s =
     (case find_first_one (sig_mask s) (received s) of
        Some num \<Rightarrow> (Some (signal_no_from num), s\<lparr>received := remove_bit num (received s)\<rparr>)
      | None \<Rightarrow> (None, s))"

definition fetch_and_remove :: "nat \<Rightarrow> signal_impl \<Rightarrow> bool \<times> signal_impl" where
  "fetch_and_remove signal_no s =
     (if contain_bit signal_no (received s) \<and> \<not> contain_bit signal_no (sig_mask s)
      then (True, s\<lparr>received := remove_bit signal_no (received s)\<rparr>)
      else (False, s))"

definition from_fork :: "signal_impl \<Rightarrow> signal_impl" where
  "from_fork s = \<lparr>received = 0, sig_mask = sig_mask s, handling = None, actions = actions s\<rparr>"

definition sig_clear :: "signal_impl \<Rightarrow> signal_impl" where
  "sig_clear s = s\<lparr>actions := map (\<lambda>_. None) (actions s)\<rparr>"

definition add_signal :: "nat \<Rightarrow> signal_impl \<Rightarrow> signal_impl" where
  "add_signal signal s = s\<lparr>received := add_bit signal (received s)\<rparr>"

definition is_handling_signal :: "signal_impl \<Rightarrow> bool" where
  "is_handling_signal s \<longleftrightarrow> handling s \<noteq> None"

definition set_action :: "nat \<Rightarrow> signal_action \<Rightarrow> signal_impl \<Rightarrow> (bool \<times> signal_impl) res" where
  "set_action signum action s =
     (if signum = SIGKILL \<or> signum = SIGSTOP then Inr (False, s)
      else if signum < length (actions s) then Inr (True, s\<lparr>actions := (actions s)[signum := Some action]\<rparr>)
      else Inl IndexOutOfBounds)"

definition get_action_ref :: "nat \<Rightarrow> signal_impl \<Rightarrow> signal_action option res" where
  "get_action_ref signum s =
     (if signum = SIGKILL \<or> signum = SIGSTOP then Inr None
      else if signum < length (actions s)
      then Inr (Some (case actions s ! signum of Some a \<Rightarrow> a | None \<Rightarrow> default_signal_action))
      else Inl IndexOutOfBounds)"

definition update_mask :: "nat \<Rightarrow> signal_impl \<Rightarrow> nat \<times> signal_impl" where
  "update_mask msk s = (let (old, m) = set_new (of_nat msk) (sig_mask s) in (unat old, s\<lparr>sig_mask := m\<rparr>))"

definition handle_signals ::
  "signal_impl \<Rightarrow> local_context \<Rightarrow> (signal_result \<times> signal_impl \<times> local_context) res" where
  "handle_signals s ctx =
     (if is_handling_signal s
      then case handling s of
             Some Frozen \<Rightarrow>
               (let (b, s1) = fetch_and_remove SIGCONT s
                in if b then Inr (Handled, s1\<lparr>handling := None\<rparr>, ctx)
                   else Inr (ProcessSuspended, s1, ctx))
           | _ \<Rightarrow> Inr (IsHandlingSignal, s, ctx)
      else case fetch_signal s of
             (Some signal, s1) \<Rightarrow>
               (if signal = SIGKILL then Inr (ProcessKilled (- int signal), s1, ctx)
                else if signal = SIGSTOP then Inr (ProcessSuspended, s1\<lparr>handling := Some Frozen\<rparr>, ctx)
                else if signal < length (actions s1)
                then case actions s1 ! signal of
                       Some action \<Rightarrow>
                         bind_res (lc_set_a 0 signal (lc_set_pc (handler action) ctx)) (\<lambda>ctx'.
                           Inr (Handled, s1\<lparr>handling := Some (UserSignal ctx)\<rparr>, ctx'))
                     | None \<Rightarrow> Inr (default_action_into (default_action_from signal), s1, ctx)
                else Inl IndexOutOfBounds)
           | (None, s1) \<Rightarrow> Inr (NoSignal, s1, ctx))"

definition sig_return :: "signal_impl \<Rightarrow> local_context \<Rightarrow> bool \<times> signal_impl \<times> local_context" where
  "sig_return s ctx =
     (case handling s of
        Some (UserSignal old_ctx) \<Rightarrow> (True, s\<lparr>handling := None\<rparr>, old_ctx)
      | h \<Rightarrow> (False, s\<lparr>handling := h\<rparr>, ctx))"

section \<open>Sets of signals as bits\<close>

lemma contain_bit_iff [simp]: "contain_bit k s \<longleftrightarrow> bit s k"
  unfolding contain_bit_def by (simp add: and_one_eq bit_iff_odd_drop_bit word_gt_0 even_iff_mod_2_eq_zero)

lemma bit_add_bit [simp]: "bit (add_bit k s) n \<longleftrightarrow> bit s n \<or> (n = k \<and> k < 64)"
  unfolding add_bit_def bit_or_iff bit_one_shifted by auto

lemma bit_remove_bit [simp]: "bit (remove_bit k s) n \<longleftrightarrow> bit s n \<and> n \<noteq> k"
  unfolding remove_bit_def bit_and_iff bit_not_word_iff bit_one_shifted by (auto dest: bit_imp_le_length)

text \<open>The lowest pending bit that is not masked.\<close>

lemma find_first_one_Some:
  "find_first_one m s = Some k \<longleftrightarrow> bit s k \<and> \<not> bit m k \<and> (\<forall>j<k. bit s j \<longrightarrow> bit m j)"
proof -
  define w where "w = s AND NOT m"
  have w: "bit w j \<longleftrightarrow> bit s j \<and> \<not> bit m j" for j
    by (auto simp: w_def bit_and_iff bit_not_word_iff dest: bit_imp_le_length)
  have z: "trailing_zeros w \<le> 64" "\<And>j. j < trailing_zeros w \<Longrightarrow> \<not> bit w j"
    "trailing_zeros w < 64 \<Longrightarrow> bit w (trailing_zeros w)"
    using zeros_from_spec [of 0 w] by (auto simp: trailing_zeros_def)
  have ff: "find_first_one m s = (if trailing_zeros w = 64 then None else Some (trailing_zeros w))"
    by (simp add: find_first_one_def w_def Let_def)
  show ?thesis
  proof
    assume "find_first_one m s = Some k"
    then have "k = trailing_zeros w" "k < 64" using ff z(1) by (auto split: if_splits)
    then show "bit s k \<and> \<not> bit m k \<and> (\<forall>j<k. bit s j \<longrightarrow> bit m j)" using z(2,3) w by auto
  next
    assume r: "bit s k \<and> \<not> bit m k \<and> (\<forall>j<k. bit s j \<longrightarrow> bit m j)"
    then have "bit w k" "\<forall>j<k. \<not> bit w j" "k < 64" using w by (auto dest: bit_imp_le_length)
    then have "trailing_zeros w = k"
      using z by (metis linorder_neqE_nat order_less_le)
    then show "find_first_one m s = Some k" using ff \<open>k < 64\<close> by simp
  qed
qed

lemma find_first_one_None: "find_first_one m s = None \<longleftrightarrow> (\<forall>k. bit s k \<longrightarrow> bit m k)"
proof -
  have "find_first_one m s \<noteq> None \<longleftrightarrow> (\<exists>k. bit s k \<and> \<not> bit m k)"
  proof
    assume "\<exists>k. bit s k \<and> \<not> bit m k"
    then have "find_first_one m s = Some (LEAST k. bit s k \<and> \<not> bit m k)"
      unfolding find_first_one_Some by (metis (mono_tags, lifting) LeastI_ex not_less_Least)
    then show "find_first_one m s \<noteq> None" by simp
  qed (use find_first_one_Some in blast)
  then show ?thesis by blast
qed

lemma signal_no_from_small [simp]: "n < 64 \<Longrightarrow> signal_no_from n = n"
  by (simp add: signal_no_from_def signal_no_try_from_def)

section \<open>Delivery\<close>

definition sig_wf :: "signal_impl \<Rightarrow> bool" where
  "sig_wf s \<longleftrightarrow> length (actions s) = MAX_SIG + 1 \<and> actions s ! SIGKILL = None \<and> actions s ! SIGSTOP = None"

text \<open>The signal that a process outside of a handler receives next.\<close>

definition deliverable :: "signal_impl \<Rightarrow> nat \<Rightarrow> bool" where
  "deliverable s k \<longleftrightarrow> bit (received s) k \<and> \<not> bit (sig_mask s) k \<and>
     (\<forall>j<k. bit (received s) j \<longrightarrow> bit (sig_mask s) j)"

lemma fetch_signal_Some:
  "deliverable s k \<Longrightarrow> fetch_signal s = (Some k, s\<lparr>received := remove_bit k (received s)\<rparr>)"
proof -
  assume d: "deliverable s k"
  then have "find_first_one (sig_mask s) (received s) = Some k" by (simp add: deliverable_def find_first_one_Some)
  moreover have "k < 64" using d bit_imp_le_length [of "received s" k] by (simp add: deliverable_def)
  ultimately show ?thesis by (simp add: fetch_signal_def)
qed

lemma fetch_signal_None:
  "\<forall>k. \<not> deliverable s k \<Longrightarrow> fetch_signal s = (None, s) \<and> (\<forall>k. bit (received s) k \<longrightarrow> bit (sig_mask s) k)"
proof -
  assume "\<forall>k. \<not> deliverable s k"
  then have "find_first_one (sig_mask s) (received s) = None"
    by (metis deliverable_def find_first_one_Some not_None_eq)
  moreover from this have "\<forall>k. bit (received s) k \<longrightarrow> bit (sig_mask s) k" by (simp only: find_first_one_None)
  ultimately show ?thesis by (simp add: fetch_signal_def)
qed

text \<open>The operations keep the table of actions well formed.\<close>

lemma sig_wf_ops:
  "sig_wf signal_impl_new" "sig_wf s \<Longrightarrow> sig_wf (from_fork s)" "sig_wf s \<Longrightarrow> sig_wf (sig_clear s)"
  "sig_wf s \<Longrightarrow> sig_wf (add_signal k s)" "sig_wf s \<Longrightarrow> sig_wf (snd (update_mask m s))"
  "sig_wf s \<Longrightarrow> set_action k a s = Inr (b, s') \<Longrightarrow> sig_wf s'"
  "sig_wf s \<Longrightarrow> sig_wf (fst (snd (sig_return s ctx)))"
  by (auto simp: sig_wf_def signal_impl_new_def from_fork_def sig_clear_def add_signal_def update_mask_def
      set_new_def set_action_def sig_return_def nth_list_update split: if_splits option.splits handling_signal.splits)

text \<open>
  C21. What a trap does with the pending signals of a process that is not in a handler: the lowest
  pending signal that is not masked is removed from the set; SIGKILL ends the process with code -9,
  SIGSTOP freezes it, a signal with a user action enters the handler with the signal number in a0
  and the interrupted context saved, and one without is ignored (SIGCHLD, SIGURG) or ends the process;
  with no such signal nothing changes.
\<close>

theorem handle_signals_delivers:
  assumes "sig_wf s" "lc_wf ctx" "handling s = None"
  shows "(\<forall>k\<le>MAX_SIG. deliverable s k \<longrightarrow> handle_signals s ctx = Inr (
      let s1 = s\<lparr>received := remove_bit k (received s)\<rparr> in
      if k = SIGKILL then (ProcessKilled (- 9), s1, ctx)
      else if k = SIGSTOP then (ProcessSuspended, s1\<lparr>handling := Some Frozen\<rparr>, ctx)
      else case actions s ! k of
        Some a \<Rightarrow> (Handled, s1\<lparr>handling := Some (UserSignal ctx)\<rparr>,
          ctx\<lparr>sepc := handler a, x_regs := (x_regs ctx)[9 := k]\<rparr>)
      | None \<Rightarrow> (if k = SIGCHLD \<or> k = SIGURG then Ignored else ProcessKilled (- int k), s1, ctx))) \<and>
    ((\<forall>k. \<not> deliverable s k) \<longrightarrow> handle_signals s ctx = Inr (NoSignal, s, ctx))"
proof (intro conjI allI impI)
  fix k assume k: "k \<le> MAX_SIG" "deliverable s k"
  then have len: "k < length (actions s)" using assms(1) by (simp add: sig_wf_def)
  have "lc_set_a 0 i (lc_set_pc p ctx) = Inr (ctx\<lparr>sepc := p, x_regs := (x_regs ctx)[9 := i]\<rparr>)" for i p
    using assms(2) by (simp add: lc_set_pc_def lc_set_a_def lc_set_x_def lc_wf_def)
  then show "handle_signals s ctx = Inr (
      let s1 = s\<lparr>received := remove_bit k (received s)\<rparr> in
      if k = SIGKILL then (ProcessKilled (- 9), s1, ctx)
      else if k = SIGSTOP then (ProcessSuspended, s1\<lparr>handling := Some Frozen\<rparr>, ctx)
      else case actions s ! k of
        Some a \<Rightarrow> (Handled, s1\<lparr>handling := Some (UserSignal ctx)\<rparr>,
          ctx\<lparr>sepc := handler a, x_regs := (x_regs ctx)[9 := k]\<rparr>)
      | None \<Rightarrow> (if k = SIGCHLD \<or> k = SIGURG then Ignored else ProcessKilled (- int k), s1, ctx))"
    using k(2) len assms(3)
    by (cases "actions s ! k") (auto simp: handle_signals_def is_handling_signal_def fetch_signal_Some
        default_action_from_def default_action_into_def)
next
  assume "\<forall>k. \<not> deliverable s k"
  then show "handle_signals s ctx = Inr (NoSignal, s, ctx)"
    using assms(3) fetch_signal_None [of s] by (simp add: handle_signals_def is_handling_signal_def)
qed

text \<open>A process with SIGUSR1 (10) pending and a handler for it, interrupted at address 100.\<close>

definition sample_signals :: signal_impl where
  "sample_signals = signal_impl_new\<lparr>received := add_bit 10 0,
     actions := (replicate 32 None)[10 := Some \<lparr>handler = 64, action_mask = 0\<rparr>]\<rparr>"

lemma deliverable_sample: "deliverable sample_signals k \<longleftrightarrow> k = 10"
  by (auto simp: deliverable_def sample_signals_def signal_impl_new_def)

lemma sig_wf_sample: "sig_wf sample_signals"
  by (simp add: sig_wf_def sample_signals_def)

lemma deliver_sample:
  "\<exists>s' ctx'. handle_signals sample_signals (lc_user 100) = Inr (Handled, s', ctx')"
proof -
  have "fetch_signal sample_signals = (Some 10, sample_signals\<lparr>received := remove_bit 10 (received sample_signals)\<rparr>)"
    by (rule fetch_signal_Some) (simp add: deliverable_sample)
  moreover have "actions sample_signals ! 10 = Some \<lparr>handler = 64, action_mask = 0\<rparr>" "handling sample_signals = None"
    "length (actions sample_signals) = 32"
    by (simp_all add: sample_signals_def signal_impl_new_def)
  ultimately show ?thesis
    by (simp add: handle_signals_def is_handling_signal_def lc_user_def lc_set_pc_def lc_set_a_def lc_set_x_def)
qed

theorem handle_signals_delivers_witness:
  "\<exists>k. deliverable sample_signals k \<and> (\<exists>s'. handle_signals sample_signals (lc_user 100) =
     Inr (Handled, s', (lc_user 100)\<lparr>sepc := 64, x_regs := (x_regs (lc_user 100))[9 := k]\<rparr>) \<and>
     handling s' = Some (UserSignal (lc_user 100)))"
proof -
  have "actions sample_signals ! 10 = Some \<lparr>handler = 64, action_mask = 0\<rparr>" "handling sample_signals = None"
    by (simp_all add: sample_signals_def signal_impl_new_def)
  then show ?thesis
    using handle_signals_delivers [of sample_signals "lc_user 100"] sig_wf_sample
    by (auto simp: deliverable_sample Let_def)
qed

text \<open>
  A signal number from 32 on, which \<^verbatim>\<open>kill\<close> accepts, panics the kernel when it is delivered: the
  table of actions has 32 entries.
\<close>

lemma realtime_signal_panics:
  assumes "sig_wf s" "handling s = None" "deliverable s k" "MAX_SIG < k"
  shows "handle_signals s ctx = Inl IndexOutOfBounds"
  using assms by (simp add: handle_signals_def is_handling_signal_def fetch_signal_Some sig_wf_def)




text \<open>
  A forked process inherits mask and actions and nothing pending; clearing for exec removes all
  actions but keeps the mask and the pending signals.
\<close>

lemma fork_and_exec_signals:
  "from_fork s = \<lparr>received = 0, sig_mask = sig_mask s, handling = None, actions = actions s\<rparr> \<and>
   sig_mask (sig_clear s) = sig_mask s \<and> received (sig_clear s) = received s \<and>
   actions (sig_clear s) = replicate (length (actions s)) None"
  by (simp add: from_fork_def sig_clear_def map_replicate_const)

end
