(* ===== verification/User_Buffer.thy ===== *)
theory User_Buffer
  imports Rcore_Prelude
begin

text \<open>
  \<^verbatim>\<open>UserBuffer\<close> and \<^verbatim>\<open>UserBufferIterator\<close> of easy-fs (\<^verbatim>\<open>file.rs\<close>): a user buffer is a
  vector of byte slices, the iterator hands out one pointer per byte. The slices are
  the user memory they point to, so storing through a pointer updates them; a pointer
  is the pair of a slice number and an index in that slice.

  The lemmas show that on non-empty slices the iterator enumerates the bytes of the
  concatenation of the slices in order, each once, and that it panics as soon as it
  reaches an empty slice.
\<close>

section \<open>Model\<close>

type_synonym user_buffer = "byte list list"
type_synonym byte_ptr = "nat \<times> nat"

fun ub_len :: "user_buffer \<Rightarrow> nat" where
  "ub_len [] = 0"
| "ub_len (b # bs) = length b + ub_len bs"

definition ub_is_empty :: "user_buffer \<Rightarrow> bool" where
  "ub_is_empty ub \<longleftrightarrow> ub = []"

record user_buffer_iterator =
  it_buffers :: user_buffer
  it_current_buffer :: nat
  it_current_idx :: nat

definition ub_into_iter :: "user_buffer \<Rightarrow> user_buffer_iterator" where
  "ub_into_iter ub = \<lparr>it_buffers = ub, it_current_buffer = 0, it_current_idx = 0\<rparr>"

definition it_next :: "user_buffer_iterator \<Rightarrow> (byte_ptr option \<times> user_buffer_iterator) res" where
  "it_next it =
     (if length (it_buffers it) \<le> it_current_buffer it then Inr (None, it)
      else let b = it_buffers it ! it_current_buffer it
        in if length b \<le> it_current_idx it then Inl IndexOutOfBounds
           else let r = (it_current_buffer it, it_current_idx it)
             in if it_current_idx it + 1 = length b
                then Inr (Some r, it\<lparr>it_current_idx := 0, it_current_buffer := it_current_buffer it + 1\<rparr>)
                else Inr (Some r, it\<lparr>it_current_idx := it_current_idx it + 1\<rparr>))"

text \<open>Reading and writing through a pointer the iterator returned.\<close>

definition ptr_load :: "byte_ptr \<Rightarrow> user_buffer_iterator \<Rightarrow> byte" where
  "ptr_load p it = it_buffers it ! fst p ! snd p"

definition ptr_store :: "byte_ptr \<Rightarrow> byte \<Rightarrow> user_buffer_iterator \<Rightarrow> user_buffer_iterator" where
  "ptr_store p c it = it\<lparr>it_buffers := (it_buffers it)[fst p := (it_buffers it ! fst p)[snd p := c]]\<rparr>"

section \<open>Enumeration of the bytes\<close>

text \<open>The position of the iterator in the concatenation of the slices.\<close>

definition it_pos :: "user_buffer_iterator \<Rightarrow> nat" where
  "it_pos it = length (concat (take (it_current_buffer it) (it_buffers it))) + it_current_idx it"

definition it_bytes :: "user_buffer_iterator \<Rightarrow> byte list" where
  "it_bytes it = concat (it_buffers it)"

definition it_wf :: "user_buffer_iterator \<Rightarrow> bool" where
  "it_wf it \<longleftrightarrow> [] \<notin> set (it_buffers it) \<and> it_current_buffer it \<le> length (it_buffers it) \<and>
     (if it_current_buffer it < length (it_buffers it)
      then it_current_idx it < length (it_buffers it ! it_current_buffer it)
      else it_current_idx it = 0)"

lemma ub_len_concat: "ub_len ub = length (concat ub)"
  by (induction ub) auto

lemma it_wf_into_iter: "[] \<notin> set ub \<Longrightarrow> it_wf (ub_into_iter ub)"
  by (cases ub) (auto simp: it_wf_def ub_into_iter_def)

lemma it_into_iter_simps [simp]:
  "it_bytes (ub_into_iter ub) = concat ub" "it_pos (ub_into_iter ub) = 0"
  "it_buffers (ub_into_iter ub) = ub"
  by (simp_all add: it_bytes_def it_pos_def ub_into_iter_def)

lemma concat_split_nth:
  "b < length bs \<Longrightarrow> concat bs = concat (take b bs) @ bs ! b @ concat (drop (Suc b) bs)"
  by (metis append_take_drop_id concat.simps(2) concat_append Cons_nth_drop_Suc)

lemma concat_take_Suc_length:
  "b < length bs \<Longrightarrow> length (concat (take (Suc b) bs)) = length (concat (take b bs)) + length (bs ! b)"
  by (simp add: take_Suc_conv_app_nth)

lemma nth_concat_at:
  assumes "b < length bs" "i < length (bs ! b)"
  shows "concat bs ! (length (concat (take b bs)) + i) = bs ! b ! i"
    and "length (concat (take b bs)) + i < length (concat bs)"
  using concat_split_nth [OF assms(1)] assms(2) by (simp_all add: nth_append)

lemma concat_update_at:
  assumes "b < length bs" "i < length (bs ! b)"
  shows "concat (bs[b := (bs ! b)[i := c]]) = (concat bs)[length (concat (take b bs)) + i := c]"
proof -
  let ?u = "bs[b := (bs ! b)[i := c]]"
  have "concat ?u = concat (take b bs) @ (bs ! b)[i := c] @ concat (drop (Suc b) bs)"
    using concat_split_nth [of b ?u] assms by simp
  then show ?thesis
    by (subst concat_split_nth [OF assms(1)]) (simp add: list_update_append assms)
qed

lemma it_pos_end: "it_wf it \<Longrightarrow> length (it_buffers it) \<le> it_current_buffer it \<longleftrightarrow> it_pos it = length (it_bytes it)"
  using nth_concat_at(2) [of "it_current_buffer it" "it_buffers it" "it_current_idx it"]
  by (auto simp: it_wf_def it_pos_def it_bytes_def split: if_splits)

lemma it_next_end:
  assumes "it_wf it" "it_pos it = length (it_bytes it)"
  shows "it_next it = Inr (None, it)"
  using it_pos_end assms by (simp add: it_next_def)

text \<open>A store through a pointer into the buffers keeps the shape of the slices.\<close>

lemma ptr_store_shape:
  assumes "b < length (it_buffers it)" "i < length (it_buffers it ! b)"
  shows "it_wf (ptr_store (b, i) c it) = it_wf it"
    and "it_pos (ptr_store (b, i) c it) = it_pos it"
    and "it_bytes (ptr_store (b, i) c it) = (it_bytes it)[length (concat (take b (it_buffers it))) + i := c]"
    and "map length (it_buffers (ptr_store (b, i) c it)) = map length (it_buffers it)"
proof -
  let ?bs = "it_buffers it"
  let ?bs' = "?bs[b := (?bs ! b)[i := c]]"
  have len: "map length ?bs' = map length ?bs"
    using assms by (simp add: map_update list_update_same_conv)
  then have lens: "length (?bs' ! k) = length (?bs ! k)" if "k < length ?bs" for k
    using that by (metis length_map length_list_update nth_map)
  have "[] \<in> set ?bs' \<longleftrightarrow> [] \<in> set ?bs"
    using lens by (auto simp: in_set_conv_nth) (metis length_0_conv)+
  with lens show "it_wf (ptr_store (b, i) c it) = it_wf it"
    by (auto simp: it_wf_def ptr_store_def)
  have "length (concat (take k ?bs')) = length (concat (take k ?bs))" for k
    by (metis len length_concat take_map)
  then show "it_pos (ptr_store (b, i) c it) = it_pos it"
    by (simp add: it_pos_def ptr_store_def)
  show "it_bytes (ptr_store (b, i) c it) = (it_bytes it)[length (concat (take b ?bs)) + i := c]"
    using concat_update_at [OF assms] by (simp add: it_bytes_def ptr_store_def)
  show "map length (it_buffers (ptr_store (b, i) c it)) = map length ?bs"
    using len by (simp add: ptr_store_def)
qed

lemma it_next_step:
  assumes "it_wf it" "it_pos it < length (it_bytes it)"
  obtains p it' where "it_next it = Inr (Some p, it')" "it_wf it'"
    "it_bytes it' = it_bytes it" "it_pos it' = Suc (it_pos it)"
    "ptr_load p it' = it_bytes it ! it_pos it"
    "\<And>c. it_wf (ptr_store p c it')" "\<And>c. it_pos (ptr_store p c it') = Suc (it_pos it)"
    "\<And>c. it_bytes (ptr_store p c it') = (it_bytes it)[it_pos it := c]"
    "\<And>c. map length (it_buffers (ptr_store p c it')) = map length (it_buffers it)"
proof -
  define b i where "b = it_current_buffer it" and "i = it_current_idx it"
  have b: "b < length (it_buffers it)"
    using assms it_pos_end [OF assms(1)] by (simp add: b_def)
  with assms have i: "i < length (it_buffers it ! b)" and ne: "[] \<notin> set (it_buffers it)"
    by (auto simp: it_wf_def b_def i_def)
  define it' where "it' = (if i + 1 = length (it_buffers it ! b)
    then it\<lparr>it_current_idx := 0, it_current_buffer := b + 1\<rparr> else it\<lparr>it_current_idx := i + 1\<rparr>)"
  have step: "it_next it = Inr (Some (b, i), it')"
    using b i by (simp add: it_next_def Let_def it'_def b_def i_def)
  have bufs: "it_buffers it' = it_buffers it" by (simp add: it'_def)
  have "length (it_buffers it ! k) > 0" if "k < length (it_buffers it)" for k
    using ne that by (metis length_greater_0_conv nth_mem)
  then have wf': "it_wf it'" using b i ne by (auto simp: it_wf_def it'_def b_def i_def)
  have pos: "it_pos it = length (concat (take b (it_buffers it))) + i"
    by (simp add: it_pos_def b_def i_def)
  have pos': "it_pos it' = Suc (it_pos it)"
    using b i concat_take_Suc_length [OF b] by (auto simp: it_pos_def it'_def b_def i_def)
  show ?thesis
    using that [OF step wf'] pos' wf' nth_concat_at(1) [OF b i] ptr_store_shape [of b it' i] b i
    by (simp add: bufs pos it_bytes_def ptr_load_def)
qed

lemma it_next_empty_slice:
  assumes "it_current_buffer it < length (it_buffers it)" "it_buffers it ! it_current_buffer it = []"
  shows "it_next it = Inl IndexOutOfBounds"
  using assms by (simp add: it_next_def)

end
