(* ===== verification/Pipe_Ring.thy ===== *)
theory Pipe_Ring
  imports User_Buffer
begin

text \<open>
  The pipe of easy-fs (\<^verbatim>\<open>pipe.rs\<close>): a ring buffer of 32 bytes with head, tail and a status
  that tells the full ring from the empty one, the two ends, and the byte loops of
  \<^verbatim>\<open>PipeReader::read\<close> and \<^verbatim>\<open>PipeWriter::write\<close>. The weak reference to the write end is the
  number of strong references that are left (\<open>Some 0\<close>: upgrading it fails).

  The ring is an implementation of the interface \<open>bounded_fifo\<close>, a first-in first-out
  queue with a capacity; the read and write loops are shown to move exactly
  the longest possible prefix.
\<close>

section \<open>Model\<close>

abbreviation RING_BUFFER_SIZE :: nat where "RING_BUFFER_SIZE \<equiv> 32"

datatype ring_buffer_status = Full | Empty | Normal

record pipe_ring_buffer =
  arr :: "byte list"
  head :: nat
  tail :: nat
  status :: ring_buffer_status
  write_end :: "nat option"

definition prb_new :: pipe_ring_buffer where
  "prb_new = \<lparr>arr = replicate RING_BUFFER_SIZE 0, head = 0, tail = 0, status = Empty, write_end = None\<rparr>"

definition set_write_end :: "nat \<Rightarrow> pipe_ring_buffer \<Rightarrow> pipe_ring_buffer" where
  "set_write_end strong r = r\<lparr>write_end := Some strong\<rparr>"

definition write_byte :: "byte \<Rightarrow> pipe_ring_buffer \<Rightarrow> pipe_ring_buffer" where
  "write_byte c r =
     (let r1 = r\<lparr>status := Normal, arr := (arr r)[tail r := c], tail := (tail r + 1) mod RING_BUFFER_SIZE\<rparr>
      in if tail r1 = head r1 then r1\<lparr>status := Full\<rparr> else r1)"

definition read_byte :: "pipe_ring_buffer \<Rightarrow> byte \<times> pipe_ring_buffer" where
  "read_byte r =
     (let c = arr r ! head r;
          r1 = r\<lparr>status := Normal, head := (head r + 1) mod RING_BUFFER_SIZE\<rparr>
      in (c, if head r1 = tail r1 then r1\<lparr>status := Empty\<rparr> else r1))"

definition available_read :: "pipe_ring_buffer \<Rightarrow> nat" where
  "available_read r =
     (if status r = Empty then 0
      else if head r < tail r then tail r - head r
      else tail r + RING_BUFFER_SIZE - head r)"

definition available_write :: "pipe_ring_buffer \<Rightarrow> nat" where
  "available_write r = (if status r = Full then 0 else RING_BUFFER_SIZE - available_read r)"

definition all_write_ends_closed :: "pipe_ring_buffer \<Rightarrow> bool res" where
  "all_write_ends_closed r = bind_res (unwrap (write_end r)) (\<lambda>strong. Inr (strong = 0))"

text \<open>The loop of \<^verbatim>\<open>PipeReader::read\<close>: at most \<open>n\<close> more rounds, \<open>done\<close> bytes read so far.\<close>

fun pipe_read_loop :: "nat \<Rightarrow> nat \<Rightarrow> nat \<Rightarrow> user_buffer_iterator \<Rightarrow> pipe_ring_buffer
    \<Rightarrow> (int \<times> user_buffer_iterator \<times> pipe_ring_buffer) res" where
  "pipe_read_loop 0 want already it r = Inr (int already, it, r)"
| "pipe_read_loop (Suc n) want already it r =
     bind_res (it_next it) (\<lambda>(p, it1).
       case p of
         None \<Rightarrow> Inr (int already, it1, r)
       | Some byte_ref \<Rightarrow>
           (let (c, r1) = read_byte r; it2 = ptr_store byte_ref c it1
            in if already + 1 = want then Inr (int want, it2, r1)
               else pipe_read_loop n want (already + 1) it2 r1))"

definition pipe_read :: "user_buffer \<Rightarrow> pipe_ring_buffer \<Rightarrow> (int \<times> user_buffer \<times> pipe_ring_buffer) res" where
  "pipe_read buf r =
     (let want_to_read = ub_len buf; loop_read = available_read r
      in if loop_read = 0
         then bind_res (all_write_ends_closed r) (\<lambda>closed. Inr (if closed then 0 else - 2, buf, r))
         else bind_res (pipe_read_loop loop_read want_to_read 0 (ub_into_iter buf) r)
           (\<lambda>(n, it, r'). Inr (n, it_buffers it, r')))"

fun pipe_write_loop :: "nat \<Rightarrow> nat \<Rightarrow> nat \<Rightarrow> user_buffer_iterator \<Rightarrow> pipe_ring_buffer
    \<Rightarrow> (int \<times> pipe_ring_buffer) res" where
  "pipe_write_loop 0 want already it r = Inr (int already, r)"
| "pipe_write_loop (Suc n) want already it r =
     bind_res (it_next it) (\<lambda>(p, it1).
       case p of
         None \<Rightarrow> Inr (int already, r)
       | Some byte_ref \<Rightarrow>
           (let r1 = write_byte (ptr_load byte_ref it1) r
            in if already + 1 = want then Inr (int want, r1)
               else pipe_write_loop n want (already + 1) it1 r1))"

definition pipe_write :: "user_buffer \<Rightarrow> pipe_ring_buffer \<Rightarrow> (int \<times> pipe_ring_buffer) res" where
  "pipe_write buf r =
     (let want_to_write = ub_len buf; loop_write = available_write r
      in if loop_write = 0 then Inr (- 2, r)
         else pipe_write_loop loop_write want_to_write 0 (ub_into_iter buf) r)"

text \<open>A fresh pipe: the reader and the single strong reference of the writer share the ring.\<close>

definition make_pipe :: pipe_ring_buffer where
  "make_pipe = set_write_end 1 prb_new"

section \<open>The interface of a bounded queue\<close>

locale bounded_fifo =
  fixes push :: "'a \<Rightarrow> 'q \<Rightarrow> 'q"
    and pop :: "'q \<Rightarrow> 'a \<times> 'q"
    and contents :: "'q \<Rightarrow> 'a list"
    and room :: "'q \<Rightarrow> nat"
    and invar :: "'q \<Rightarrow> bool"
  assumes contents_push: "invar q \<Longrightarrow> 0 < room q \<Longrightarrow> contents (push x q) = contents q @ [x]"
    and invar_push: "invar q \<Longrightarrow> 0 < room q \<Longrightarrow> invar (push x q)"
    and room_push: "invar q \<Longrightarrow> 0 < room q \<Longrightarrow> room (push x q) = room q - 1"
    and fst_pop: "invar q \<Longrightarrow> contents q \<noteq> [] \<Longrightarrow> fst (pop q) = hd (contents q)"
    and contents_pop: "invar q \<Longrightarrow> contents q \<noteq> [] \<Longrightarrow> contents (snd (pop q)) = tl (contents q)"
    and invar_pop: "invar q \<Longrightarrow> contents q \<noteq> [] \<Longrightarrow> invar (snd (pop q))"
    and room_pop: "invar q \<Longrightarrow> contents q \<noteq> [] \<Longrightarrow> room (snd (pop q)) = room q + 1"
begin

lemma push_all:
  assumes "invar q" "length xs \<le> room q"
  shows "contents (fold push xs q) = contents q @ xs \<and> invar (fold push xs q)
    \<and> room (fold push xs q) = room q - length xs"
  using assms
proof (induction xs arbitrary: q)
  case (Cons x xs)
  then have "0 < room q" by simp
  with Cons show ?case by (simp add: contents_push invar_push room_push)
qed simp

lemma pop_all:
  assumes "invar q" "n \<le> length (contents q)"
  shows "contents (((\<lambda>q. snd (pop q)) ^^ n) q) = drop n (contents q) \<and> invar (((\<lambda>q. snd (pop q)) ^^ n) q)
    \<and> room (((\<lambda>q. snd (pop q)) ^^ n) q) = room q + n"
  using assms
proof (induction n)
  case (Suc n)
  define q' where "q' = ((\<lambda>q. snd (pop q)) ^^ n) q"
  with Suc have q': "contents q' = drop n (contents q)" "invar q'" "room q' = room q + n" by simp_all
  with Suc.prems have "contents q' \<noteq> []" by simp
  with q' show ?case
    by (simp add: contents_pop invar_pop room_pop drop_Suc tl_drop flip: q'_def)
qed simp

lemma push_then_pop:
  assumes "invar q" "length xs \<le> room q"
  shows "contents (((\<lambda>q. snd (pop q)) ^^ length (contents q)) (fold push xs q)) = xs"
  using push_all [OF assms] pop_all [of "fold push xs q" "length (contents q)"] by simp

end

section \<open>The ring implements the queue\<close>

definition prb_inv :: "pipe_ring_buffer \<Rightarrow> bool" where
  "prb_inv r \<longleftrightarrow> length (arr r) = RING_BUFFER_SIZE \<and> head r < RING_BUFFER_SIZE \<and>
     tail r < RING_BUFFER_SIZE \<and> (status r = Normal \<longleftrightarrow> head r \<noteq> tail r)"

definition ring_bytes :: "pipe_ring_buffer \<Rightarrow> byte list" where
  "ring_bytes r = map (\<lambda>i. arr r ! ((head r + i) mod RING_BUFFER_SIZE)) [0..<available_read r]"

lemma length_ring_bytes [simp]: "length (ring_bytes r) = available_read r"
  by (simp add: ring_bytes_def)

lemma ring_bytes_eq_Nil [simp]: "ring_bytes r = [] \<longleftrightarrow> available_read r = 0"
  by (simp add: ring_bytes_def)

lemma available_read_le: "prb_inv r \<Longrightarrow> available_read r \<le> RING_BUFFER_SIZE"
  by (auto simp: prb_inv_def available_read_def)

lemma available_room: "prb_inv r \<Longrightarrow> available_write r = RING_BUFFER_SIZE - available_read r"
  by (cases "status r") (auto simp: prb_inv_def available_read_def available_write_def)

lemma write_byte_inv: "prb_inv r \<Longrightarrow> 0 < available_write r \<Longrightarrow> prb_inv (write_byte c r)"
  by (auto simp: prb_inv_def write_byte_def Let_def)

lemma write_byte_available:
  "prb_inv r \<Longrightarrow> 0 < available_write r \<Longrightarrow> available_read (write_byte c r) = available_read r + 1"
  by (cases "status r")
    (auto simp: prb_inv_def write_byte_def Let_def available_read_def available_write_def mod_Suc split: if_splits)

lemma tail_position:
  "prb_inv r \<Longrightarrow> 0 < available_write r \<Longrightarrow> (head r + available_read r) mod RING_BUFFER_SIZE = tail r"
  by (cases "status r") (auto simp: prb_inv_def available_read_def available_write_def)

lemma write_byte_bytes:
  assumes "prb_inv r" "0 < available_write r"
  shows "ring_bytes (write_byte c r) = ring_bytes r @ [c]"
proof -
  have le: "available_read r < RING_BUFFER_SIZE"
    using assms available_room by simp
  have ne: "(head r + i) mod RING_BUFFER_SIZE \<noteq> tail r" if "i < available_read r" for i
  proof -
    have "(head r + i) mod RING_BUFFER_SIZE \<noteq> (head r + available_read r) mod RING_BUFFER_SIZE"
      using that le mod_eq_dvd_iff_nat [of "head r + i" "head r + available_read r" RING_BUFFER_SIZE]
      by (auto dest: dvd_imp_le)
    then show ?thesis using tail_position assms by simp
  qed
  have old: "(arr r)[tail r := c] ! ((head r + i) mod RING_BUFFER_SIZE)
      = arr r ! ((head r + i) mod RING_BUFFER_SIZE)" if "i < available_read r" for i
    by (rule nth_list_update_neq) (use ne [OF that] in simp)
  have "arr (write_byte c r) = (arr r)[tail r := c]" "head (write_byte c r) = head r"
    by (simp_all add: write_byte_def Let_def)
  then show ?thesis
    using assms tail_position [OF assms] write_byte_available [OF assms] old
    by (simp add: ring_bytes_def prb_inv_def)
qed

lemma read_byte_inv: "prb_inv r \<Longrightarrow> 0 < available_read r \<Longrightarrow> prb_inv (snd (read_byte r))"
  by (auto simp: prb_inv_def read_byte_def Let_def)

lemma read_byte_available:
  "prb_inv r \<Longrightarrow> 0 < available_read r \<Longrightarrow> available_read (snd (read_byte r)) = available_read r - 1"
  by (cases "status r")
    (auto simp: prb_inv_def read_byte_def Let_def available_read_def mod_Suc split: if_splits)

lemma read_byte_bytes:
  assumes "prb_inv r" "0 < available_read r"
  shows "fst (read_byte r) = hd (ring_bytes r)" "ring_bytes (snd (read_byte r)) = tl (ring_bytes r)"
proof -
  show "fst (read_byte r) = hd (ring_bytes r)"
    using assms by (simp add: read_byte_def Let_def ring_bytes_def hd_map upt_conv_Cons prb_inv_def)
  have "arr (snd (read_byte r)) = arr r" "head (snd (read_byte r)) = (head r + 1) mod RING_BUFFER_SIZE"
    by (simp_all add: read_byte_def Let_def)
  then show "ring_bytes (snd (read_byte r)) = tl (ring_bytes r)"
    using read_byte_available [OF assms] assms
    by (intro nth_equalityI) (simp_all add: ring_bytes_def nth_tl mod_add_left_eq less_diff_conv)
qed

lemma ring_room:
  "prb_inv r \<Longrightarrow> 0 < available_write r \<Longrightarrow> available_write (write_byte c r) = available_write r - 1"
  "prb_inv r \<Longrightarrow> 0 < available_read r \<Longrightarrow> available_write (snd (read_byte r)) = available_write r + 1"
  using available_read_le [of r]
  by (simp_all add: available_room write_byte_inv write_byte_available read_byte_inv read_byte_available
      Suc_diff_le)

interpretation ring: bounded_fifo write_byte read_byte ring_bytes available_write prb_inv
  by unfold_locales
    (simp_all add: write_byte_bytes write_byte_inv read_byte_bytes read_byte_inv ring_room)

section \<open>The byte loops\<close>

lemma pipe_write_loop_spec:
  assumes "it_wf it" "n \<le> available_write r" "prb_inv r" "0 < n" "already < want"
    and "want - already = length (it_bytes it) - it_pos it" "it_pos it \<le> length (it_bytes it)"
  shows "pipe_write_loop n want already it r =
    Inr (int (already + min n (want - already)),
      fold write_byte (take (min n (want - already)) (drop (it_pos it) (it_bytes it))) r)"
  using assms
proof (induction n arbitrary: already it r)
  case (Suc n)
  then have pos: "it_pos it < length (it_bytes it)" by simp
  obtain p it' where st: "it_next it = Inr (Some p, it')" "it_wf it'" "it_bytes it' = it_bytes it"
      "it_pos it' = Suc (it_pos it)" "ptr_load p it' = it_bytes it ! it_pos it"
    using it_next_step [OF Suc.prems(1) pos] by metis
  let ?r = "write_byte (it_bytes it ! it_pos it) r"
  have r: "prb_inv ?r" "n \<le> available_write ?r"
    using Suc.prems by (simp_all add: write_byte_inv ring_room)
  have cons: "drop (it_pos it) (it_bytes it) = it_bytes it ! it_pos it # drop (Suc (it_pos it)) (it_bytes it)"
    using pos by (simp add: Cons_nth_drop_Suc)
  consider (last) "already + 1 = want \<or> n = 0" | (more) "already + 1 < want" "0 < n"
    using Suc.prems(5) by linarith
  then show ?case
  proof cases
    case more
    have rest: "want - (already + 1) = length (it_bytes it') - it_pos it'" "it_pos it' \<le> length (it_bytes it')"
      using Suc.prems pos st by simp_all
    have m: "min (Suc n) (want - already) = Suc (min n (want - (already + 1)))"
      using more by simp
    show ?thesis
      unfolding m using Suc.IH [OF st(2) r(2,1) more(2,1) rest] more st cons by simp
  next
    case last
    with Suc.prems(5) have "min (Suc n) (want - already) = 1" by auto
    with last show ?thesis using st cons by (auto simp: Let_def)
  qed
qed simp

lemma pipe_read_loop_spec:
  assumes "it_wf it" "n \<le> available_read r" "prb_inv r" "0 < n" "already < want"
    and "want - already = length (it_bytes it) - it_pos it" "it_pos it \<le> length (it_bytes it)"
  shows "\<exists>it'. pipe_read_loop n want already it r =
      Inr (int (already + min n (want - already)), it', ((\<lambda>q. snd (read_byte q)) ^^ min n (want - already)) r)
    \<and> it_bytes it' = copy_into (it_pos it) (take (min n (want - already)) (ring_bytes r)) (it_bytes it)
    \<and> map length (it_buffers it') = map length (it_buffers it)"
  using assms
proof (induction n arbitrary: already it r)
  case (Suc n)
  then have pos: "it_pos it < length (it_bytes it)" and av: "0 < available_read r" by simp_all
  obtain c r1 where rb: "read_byte r = (c, r1)" by (cases "read_byte r")
  have r1: "prb_inv r1" "available_read r1 = available_read r - 1" "ring_bytes r = c # ring_bytes r1"
    using read_byte_inv [OF Suc.prems(3) av] read_byte_available [OF Suc.prems(3) av]
      read_byte_bytes [OF Suc.prems(3) av] av rb by (metis fst_conv snd_conv hd_Cons_tl ring_bytes_eq_Nil less_irrefl)+
  obtain p it1 where st: "it_next it = Inr (Some p, it1)" "it_wf (ptr_store p c it1)"
      "it_bytes (ptr_store p c it1) = (it_bytes it)[it_pos it := c]"
      "it_pos (ptr_store p c it1) = Suc (it_pos it)"
      "map length (it_buffers (ptr_store p c it1)) = map length (it_buffers it)"
    using it_next_step [OF Suc.prems(1) pos] by metis
  have one: "(it_bytes it)[it_pos it := c] = copy_into (it_pos it) [c] (it_bytes it)"
    using pos by (simp add: copy_into_def upd_conv_take_nth_drop)
  consider (last) "already + 1 = want \<or> n = 0" | (more) "already + 1 < want" "0 < n"
    using Suc.prems(5) by linarith
  then show ?case
  proof cases
    case more
    let ?m = "min n (want - (already + 1))"
    have n: "n \<le> available_read r1" using Suc.prems r1 by simp
    have rest: "want - (already + 1) = length (it_bytes (ptr_store p c it1)) - it_pos (ptr_store p c it1)"
        "it_pos (ptr_store p c it1) \<le> length (it_bytes (ptr_store p c it1))"
      using Suc.prems pos st by simp_all
    have m: "min (Suc n) (want - already) = Suc ?m"
      using more by simp
    have "length (take ?m (ring_bytes r1)) + Suc (it_pos it) \<le> length (it_bytes it)"
      using Suc.prems n by simp
    then have "copy_into (Suc (it_pos it)) (take ?m (ring_bytes r1)) ((it_bytes it)[it_pos it := c])
        = copy_into (it_pos it) (c # take ?m (ring_bytes r1)) (it_bytes it)"
      using pos by (simp add: copy_into_def upd_conv_take_nth_drop ac_simps)
    then show ?thesis
      unfolding m using Suc.IH [OF st(2) n r1(1) more(2,1) rest] more st rb r1
      by (auto simp: funpow_Suc_right simp del: funpow.simps(2))
  next
    case last
    with Suc.prems(5) have "min (Suc n) (want - already) = 1" by auto
    with last show ?thesis using st rb r1 one by (auto simp: Let_def)
  qed
qed simp

lemma concat_ne_Nil: "[] \<notin> set buf \<Longrightarrow> concat buf = [] \<longleftrightarrow> buf = []"
  by (cases buf) auto

lemma pipe_write_runs:
  assumes "prb_inv r" "[] \<notin> set buf" "0 < available_write r"
  shows "pipe_write buf r = Inr (int (min (available_write r) (length (concat buf))),
    fold write_byte (take (min (available_write r) (length (concat buf))) (concat buf)) r)"
proof (cases "buf = []")
  case True
  with assms(3) show ?thesis
    by (cases "available_write r") (simp_all add: pipe_write_def it_next_def ub_into_iter_def)
next
  case False
  then have "0 < length (concat buf)" using concat_ne_Nil [OF assms(2)] by blast
  then show ?thesis
    using pipe_write_loop_spec [OF it_wf_into_iter [OF assms(2)] le_refl assms(1,3)] assms(3)
    by (simp add: pipe_write_def ub_len_concat Let_def)
qed

lemma pipe_read_runs:
  assumes "prb_inv r" "[] \<notin> set buf" "0 < available_read r"
  defines "k \<equiv> min (available_read r) (length (concat buf))"
  shows "\<exists>buf'. pipe_read buf r = Inr (int k, buf', ((\<lambda>q. snd (read_byte q)) ^^ k) r)
      \<and> concat buf' = copy_into 0 (take k (ring_bytes r)) (concat buf)
      \<and> map length buf' = map length buf"
proof (cases "buf = []")
  case True
  with assms(3) show ?thesis
    by (cases "available_read r")
      (simp_all add: k_def pipe_read_def it_next_def ub_into_iter_def copy_into_def)
next
  case False
  then have "0 < length (concat buf)" using concat_ne_Nil [OF assms(2)] by blast
  then show ?thesis
    using pipe_read_loop_spec [OF it_wf_into_iter [OF assms(2)] le_refl assms(1,3), of 0 "ub_len buf"] assms(3)
    by (auto simp: k_def pipe_read_def ub_len_concat Let_def it_bytes_def)
qed

lemma make_pipe_simps [simp]:
  "prb_inv make_pipe" "available_read make_pipe = 0" "available_write make_pipe = RING_BUFFER_SIZE"
  "ring_bytes make_pipe = []" "write_end make_pipe = Some 1"
  by (simp_all add: make_pipe_def set_write_end_def prb_new_def prb_inv_def available_read_def
      available_write_def ring_bytes_def)

text \<open>
  C9. A pipe write moves the longest prefix of the user bytes that fits, in order, to the end of
  the queue and returns its length; it returns -2 and changes nothing when the ring is full.
\<close>

theorem pipe_write_correct:
  assumes "prb_inv r" "[] \<notin> set buf"
  shows "if available_write r = 0 then pipe_write buf r = Inr (- 2, r)
    else \<exists>r'. pipe_write buf r = Inr (int (min (available_write r) (length (concat buf))), r')
      \<and> prb_inv r' \<and> ring_bytes r' = ring_bytes r @ take (available_write r) (concat buf)"
proof (cases "available_write r = 0")
  case False
  let ?k = "min (available_write r) (length (concat buf))"
  have "pipe_write buf r = Inr (int ?k, fold write_byte (take ?k (concat buf)) r)"
    using pipe_write_runs [OF assms] False by simp
  then show ?thesis
    using False ring.push_all [OF assms(1), of "take ?k (concat buf)"] by (auto simp: min_def)
qed (simp add: pipe_write_def)

theorem pipe_write_correct_witness:
  "\<exists>r'. pipe_write [[7, 8], [9]] make_pipe = Inr (3, r') \<and> prb_inv r' \<and> ring_bytes r' = [7, 8, 9]"
  using pipe_write_correct [of make_pipe "[[7, 8], [9]]"] by (simp add: make_pipe_simps)

text \<open>
  C10. A pipe read moves the longest prefix of the queued bytes that fits, in order, to the front of
  the user slices and returns its length; on an empty ring it returns 0 when every write end is
  closed and -2 otherwise.
\<close>

theorem pipe_read_correct:
  assumes "prb_inv r" "[] \<notin> set buf" "write_end r = Some writers"
  shows "if available_read r = 0 then pipe_read buf r = Inr (if writers = 0 then 0 else - 2, buf, r)
    else \<exists>buf' r'. pipe_read buf r = Inr (int (min (available_read r) (length (concat buf))), buf', r')
      \<and> concat buf' = copy_into 0 (take (length (concat buf)) (ring_bytes r)) (concat buf)
      \<and> map length buf' = map length buf \<and> prb_inv r'
      \<and> ring_bytes r' = drop (length (concat buf)) (ring_bytes r)"
proof (cases "available_read r = 0")
  case True
  then show ?thesis using assms(3) by (simp add: pipe_read_def all_write_ends_closed_def)
next
  case False
  then show ?thesis
    using pipe_read_runs [OF assms(1,2)] ring.pop_all [OF assms(1), of "min (available_read r) (length (concat buf))"]
    by (fastforce simp: min_def)
qed

theorem pipe_read_correct_witness:
  "\<exists>buf' r'. pipe_read [[0, 0, 0]] (write_byte 7 (write_byte 9 make_pipe)) = Inr (2, buf', r')
     \<and> concat buf' = [9, 7, 0] \<and> ring_bytes r' = []"
proof -
  let ?r = "write_byte 7 (write_byte 9 make_pipe)"
  have "prb_inv ?r" "ring_bytes ?r = [9, 7]" "write_end ?r = Some 1"
    using ring.push_all [of make_pipe "[9, 7]"] by (simp_all add: write_byte_def Let_def)
  moreover from this have "available_read ?r = 2" by (metis length_ring_bytes length_Cons list.size(3) numeral_2_eq_2)
  ultimately show ?thesis
    using pipe_read_correct [of ?r "[[0, 0, 0]]" 1] by (auto simp: copy_into_def)
qed

text \<open>
  C30. A read or write of an empty user slice (a system call with count 0) makes the kernel panic
  on the first byte of the iteration, whenever there is something to read or room to write.
\<close>

theorem pipe_zero_length_panics:
  "pipe_write [[]] r = (if available_write r = 0 then Inr (- 2, r) else Inl IndexOutOfBounds)
   \<and> pipe_read [[]] r =
       (if available_read r = 0
        then bind_res (all_write_ends_closed r) (\<lambda>closed. Inr (if closed then 0 else - 2, [[]], r))
        else Inl IndexOutOfBounds)"
proof -
  have "it_next (ub_into_iter [[]]) = Inl IndexOutOfBounds"
    by (rule it_next_empty_slice) (simp_all add: ub_into_iter_def)
  then show ?thesis
    by (cases "available_write r"; cases "available_read r") (simp_all add: pipe_write_def pipe_read_def)
qed

end
