(* ===== verification/Block_Cache.thy ===== *)
theory Block_Cache
  imports Rcore_Prelude
begin

text \<open>
  The block cache of easy-fs (\<^verbatim>\<open>block_cache.rs\<close>): at most 16 cached blocks in a queue, looked up by block id,
  replaced from the front and written back when they are dropped or synchronised.

  The block device (\<^verbatim>\<open>BlockDevice\<close>) is a map from block ids to blocks that returns what was written last. A
  caller takes a block with \<^verbatim>\<open>get_block_cache(id, device).lock()\<close> and keeps it until the end of the statement; \<open>held\<close>
  lists the blocks that are taken. They cannot be replaced (their strong count is above 1), and taking one of
  them again waits for ever on the spin lock, here the fault \<open>SelfDeadlock\<close>.

  The code above the cache only uses the operations of \<open>block_ops\<close>. The locale \<open>block_store\<close> states what it relies on:
  the store behaves like an array of blocks. The cache manager interprets it, so that everything proved in the
  locale holds for the code over the cache.
\<close>

abbreviation BLOCK_SZ :: nat where "BLOCK_SZ \<equiv> 512"
abbreviation BLOCK_CACHE_SIZE :: nat where "BLOCK_CACHE_SIZE \<equiv> 16"

section \<open>Cached blocks\<close>

record block_cache =
  cache :: "byte list"
  modified :: bool

definition block_cache_new :: "nat \<Rightarrow> (nat \<Rightarrow> byte list) \<Rightarrow> block_cache" where
  "block_cache_new block_id block_device = \<lparr>cache = block_device block_id, modified = False\<rparr>"

definition cache_sync :: "nat \<Rightarrow> block_cache \<Rightarrow> (nat \<Rightarrow> byte list) \<Rightarrow> block_cache \<times> (nat \<Rightarrow> byte list)" where
  "cache_sync block_id c block_device =
     (if modified c then (c\<lparr>modified := False\<rparr>, block_device(block_id := cache c)) else (c, block_device))"

section \<open>The cache manager\<close>

record cache_manager =
  disk :: "nat \<Rightarrow> byte list"
  queue :: "(nat \<times> block_cache) list"
  held :: "nat list"

definition cache_manager_new :: "(nat \<Rightarrow> byte list) \<Rightarrow> cache_manager" where
  "cache_manager_new d = \<lparr>disk = d, queue = [], held = []\<rparr>"

text \<open>A miss in a full queue drops the first block that nobody holds; dropping a block synchronises it.\<close>

definition replace_one :: "cache_manager \<Rightarrow> cache_manager res" where
  "replace_one s =
     (if length (queue s) = BLOCK_CACHE_SIZE then
        (case find_index (\<lambda>pair. fst pair \<notin> set (held s)) (queue s) of
           Some idx \<Rightarrow>
             Inr (s\<lparr>queue := remove_nth idx (queue s),
               disk := snd (cache_sync (fst (queue s ! idx)) (snd (queue s ! idx)) (disk s))\<rparr>)
         | None \<Rightarrow> Inl OutOfBlockCache)
      else Inr s)"

definition get_block_cache :: "nat \<Rightarrow> cache_manager \<Rightarrow> cache_manager res" where
  "get_block_cache block_id s =
     (case map_of (queue s) block_id of
        Some _ \<Rightarrow> Inr s
      | None \<Rightarrow>
          bind_res (replace_one s) (\<lambda>s1.
            Inr (s1\<lparr>queue := queue s1 @ [(block_id, block_cache_new block_id (disk s1))]\<rparr>)))"

text \<open>Taking and releasing a block, and its bytes while it is taken.\<close>

definition cache_lock :: "nat \<Rightarrow> cache_manager \<Rightarrow> cache_manager res" where
  "cache_lock block_id s =
     bind_res (get_block_cache block_id s) (\<lambda>s1.
       if block_id \<in> set (held s1) then Inl SelfDeadlock else Inr (s1\<lparr>held := block_id # held s1\<rparr>))"

definition cache_unlock :: "nat \<Rightarrow> cache_manager \<Rightarrow> cache_manager" where
  "cache_unlock block_id s = s\<lparr>held := remove1 block_id (held s)\<rparr>"

definition cache_get :: "nat \<Rightarrow> cache_manager \<Rightarrow> byte list" where
  "cache_get block_id s = (case map_of (queue s) block_id of Some c \<Rightarrow> cache c | None \<Rightarrow> [])"

text \<open>Writing through \<^verbatim>\<open>get_mut\<close>, which marks the block as modified.\<close>

definition cache_put :: "nat \<Rightarrow> byte list \<Rightarrow> cache_manager \<Rightarrow> cache_manager" where
  "cache_put block_id bytes s =
     s\<lparr>queue := map (\<lambda>(i, c). if i = block_id then (i, c\<lparr>cache := bytes, modified := True\<rparr>) else (i, c)) (queue s)\<rparr>"

fun sync_queue :: "(nat \<times> block_cache) list \<Rightarrow> (nat \<Rightarrow> byte list) \<Rightarrow> (nat \<times> block_cache) list \<times> (nat \<Rightarrow> byte list)" where
  "sync_queue [] d = ([], d)"
| "sync_queue ((i, c) # q) d =
     (let (c', d1) = cache_sync i c d; (q', d2) = sync_queue q d1 in ((i, c') # q', d2))"

definition block_cache_sync_all :: "cache_manager \<Rightarrow> cache_manager res" where
  "block_cache_sync_all s =
     (if held s \<noteq> [] then Inl SelfDeadlock
      else let (q, d) = sync_queue (queue s) (disk s) in Inr (s\<lparr>queue := q, disk := d\<rparr>))"

section \<open>The interface of a block store\<close>

text \<open>Code over a state that may stop with a fault, and its sequencing.\<close>

type_synonym ('s, 'a) io = "'s \<Rightarrow> ('a \<times> 's) res"

definition return_io :: "'a \<Rightarrow> ('s, 'a) io" where
  "return_io a s = Inr (a, s)"

definition bind_io :: "('s, 'a) io \<Rightarrow> ('a \<Rightarrow> ('s, 'b) io) \<Rightarrow> ('s, 'b) io" where
  "bind_io m f s = bind_res (m s) (\<lambda>(a, s'). f a s')"

definition lift_io :: "'a res \<Rightarrow> ('s, 'a) io" where
  "lift_io r s = bind_res r (\<lambda>a. Inr (a, s))"

record 's block_ops =
  bs_lock :: "nat \<Rightarrow> 's \<Rightarrow> 's res"
  bs_unlock :: "nat \<Rightarrow> 's \<Rightarrow> 's"
  bs_get :: "nat \<Rightarrow> 's \<Rightarrow> byte list"
  bs_put :: "nat \<Rightarrow> byte list \<Rightarrow> 's \<Rightarrow> 's"
  bs_sync :: "'s \<Rightarrow> 's res"

text \<open>
  \<^verbatim>\<open>get_block_cache(id, device).lock().read(offset, f)\<close> and \<^verbatim>\<open>...modify(offset, f)\<close> for a type of \<open>len\<close> bytes. The
  closure works on the bytes of the value and may use the store; the one of \<^verbatim>\<open>modify\<close> returns the new
  bytes as well.
\<close>

definition bc_read ::
  "'s block_ops \<Rightarrow> nat \<Rightarrow> nat \<Rightarrow> nat \<Rightarrow> (byte list \<Rightarrow> ('s, 'a) io) \<Rightarrow> ('s, 'a) io" where
  "bc_read ops block_id offset len f s =
     bind_res (bs_lock ops block_id s) (\<lambda>s1.
     bind_res (assert_res (offset + len \<le> BLOCK_SZ)) (\<lambda>_.
     bind_res (f (slice_of offset len (bs_get ops block_id s1)) s1) (\<lambda>(a, s2).
       Inr (a, bs_unlock ops block_id s2))))"

definition bc_modify ::
  "'s block_ops \<Rightarrow> nat \<Rightarrow> nat \<Rightarrow> nat \<Rightarrow> (byte list \<Rightarrow> ('s, 'a \<times> byte list) io) \<Rightarrow> ('s, 'a) io" where
  "bc_modify ops block_id offset len f s =
     bind_res (bs_lock ops block_id s) (\<lambda>s1.
     bind_res (assert_res (offset + len \<le> BLOCK_SZ)) (\<lambda>_.
     bind_res (f (slice_of offset len (bs_get ops block_id s1)) s1) (\<lambda>((a, bytes), s2).
       Inr (a, bs_unlock ops block_id (bs_put ops block_id (copy_into offset bytes (bs_get ops block_id s2)) s2)))))"

text \<open>Closures that do not touch the store.\<close>

definition pure_read :: "(byte list \<Rightarrow> 'a res) \<Rightarrow> byte list \<Rightarrow> ('s, 'a) io" where
  "pure_read f bytes = lift_io (f bytes)"

definition pure_modify :: "(byte list \<Rightarrow> ('a \<times> byte list) res) \<Rightarrow> byte list \<Rightarrow> ('s, 'a \<times> byte list) io" where
  "pure_modify f bytes = lift_io (f bytes)"

lemma io_simps [res_simps]:
  "return_io a s = Inr (a, s)" "lift_io (Inr a) s = Inr (a, s)" "lift_io (Inl e) s = Inl e"
  by (simp_all add: return_io_def lift_io_def)

lemma bind_io_pure [simp, res_simps]:
  "bind_io (return_io a) f = f a" "bind_io (lift_io (Inr a)) f = f a" "bind_io (lift_io (Inl e)) f = lift_io (Inl e)"
  by (simp_all add: fun_eq_iff bind_io_def io_simps)

text \<open>\<^verbatim>\<open>block_cache_sync_all()\<close> in the code above the cache.\<close>

definition sync_all :: "'s block_ops \<Rightarrow> ('s, unit) io" where
  "sync_all ops s = bind_res (bs_sync ops s) (\<lambda>s'. Inr ((), s'))"

text \<open>
  The store as an array of blocks \<open>view\<close> of which the blocks \<open>locked\<close> are taken, of at most 16 at a time. After a
  synchronisation the \<open>device\<close> holds the array.
\<close>

locale block_store =
  fixes ops :: "'s block_ops"
    and ok :: "'s \<Rightarrow> bool"
    and view :: "'s \<Rightarrow> nat \<Rightarrow> byte list"
    and locked :: "'s \<Rightarrow> nat list"
    and device :: "'s \<Rightarrow> nat \<Rightarrow> byte list"
  assumes lock: "ok s \<Longrightarrow> length (locked s) < BLOCK_CACHE_SIZE \<Longrightarrow> b \<notin> set (locked s) \<Longrightarrow>
      \<exists>s'. bs_lock ops b s = Inr s' \<and> ok s' \<and> view s' = view s \<and> locked s' = b # locked s"
    and lock_twice: "ok s \<Longrightarrow> b \<in> set (locked s) \<Longrightarrow> bs_lock ops b s = Inl SelfDeadlock"
    and unlock: "ok s \<Longrightarrow> ok (bs_unlock ops b s) \<and> view (bs_unlock ops b s) = view s \<and>
      locked (bs_unlock ops b s) = remove1 b (locked s)"
    and get: "ok s \<Longrightarrow> b \<in> set (locked s) \<Longrightarrow> bs_get ops b s = view s b"
    and put: "ok s \<Longrightarrow> b \<in> set (locked s) \<Longrightarrow> length bs = BLOCK_SZ \<Longrightarrow>
      ok (bs_put ops b bs s) \<and> view (bs_put ops b bs s) = (view s)(b := bs) \<and> locked (bs_put ops b bs s) = locked s"
    and sync: "ok s \<Longrightarrow> locked s = [] \<Longrightarrow>
      \<exists>s'. bs_sync ops s = Inr s' \<and> ok s' \<and> view s' = view s \<and> locked s' = [] \<and> device s' = view s"
    and block_length: "ok s \<Longrightarrow> length (view s b) = BLOCK_SZ"

text \<open>
  \<open>m\<close> returns \<open>a\<close> from the state \<open>s\<close>, leaves the array \<open>v\<close> and releases what it takes. The closure of \<^verbatim>\<open>modify\<close>
  returns the bytes \<open>bs\<close> in addition.
\<close>

definition store_returns ::
  "('s \<Rightarrow> bool) \<Rightarrow> ('s \<Rightarrow> nat \<Rightarrow> byte list) \<Rightarrow> ('s \<Rightarrow> nat list) \<Rightarrow> ('s, 'a) io \<Rightarrow> 's \<Rightarrow> 'a \<Rightarrow>
   (nat \<Rightarrow> byte list) \<Rightarrow> bool" where
  "store_returns ok view locked m s a v \<longleftrightarrow>
     (\<exists>s'. m s = Inr (a, s') \<and> ok s' \<and> view s' = v \<and> locked s' = locked s)"

text \<open>\<open>m\<close> returns from the state \<open>s\<close> a value and an array that satisfy \<open>P\<close>, and releases what it takes.\<close>

definition store_runs ::
  "('s \<Rightarrow> bool) \<Rightarrow> ('s \<Rightarrow> nat \<Rightarrow> byte list) \<Rightarrow> ('s \<Rightarrow> nat list) \<Rightarrow> ('s, 'a) io \<Rightarrow> 's \<Rightarrow>
   ('a \<Rightarrow> (nat \<Rightarrow> byte list) \<Rightarrow> bool) \<Rightarrow> bool" where
  "store_runs ok view locked m s P \<longleftrightarrow>
     (\<exists>a s'. m s = Inr (a, s') \<and> ok s' \<and> locked s' = locked s \<and> P a (view s'))"

text \<open>The same, and what it leaves is on the device.\<close>

definition store_commits ::
  "('s \<Rightarrow> bool) \<Rightarrow> ('s \<Rightarrow> nat \<Rightarrow> byte list) \<Rightarrow> ('s \<Rightarrow> nat list) \<Rightarrow> ('s \<Rightarrow> nat \<Rightarrow> byte list) \<Rightarrow> ('s, 'a) io \<Rightarrow> 's \<Rightarrow>
   ('a \<Rightarrow> (nat \<Rightarrow> byte list) \<Rightarrow> bool) \<Rightarrow> bool" where
  "store_commits ok view locked device m s P \<longleftrightarrow>
     (\<exists>a s'. m s = Inr (a, s') \<and> ok s' \<and> locked s' = locked s \<and> device s' = view s' \<and> P a (view s'))"

context block_store
begin

abbreviation commits :: "('s, 'a) io \<Rightarrow> 's \<Rightarrow> ('a \<Rightarrow> (nat \<Rightarrow> byte list) \<Rightarrow> bool) \<Rightarrow> bool" where
  "commits \<equiv> store_commits ok view locked device"

abbreviation runs :: "('s, 'a) io \<Rightarrow> 's \<Rightarrow> ('a \<Rightarrow> (nat \<Rightarrow> byte list) \<Rightarrow> bool) \<Rightarrow> bool" where
  "runs \<equiv> store_runs ok view locked"

abbreviation returns :: "('s, 'a) io \<Rightarrow> 's \<Rightarrow> 'a \<Rightarrow> (nat \<Rightarrow> byte list) \<Rightarrow> bool" where
  "returns \<equiv> store_returns ok view locked"

lemma returns_return: "ok s \<Longrightarrow> view s = v \<Longrightarrow> returns (return_io a) s a v"
  by (simp add: store_returns_def io_simps)

lemma returns_lift: "ok s \<Longrightarrow> r = Inr a \<Longrightarrow> view s = v \<Longrightarrow> returns (lift_io r) s a v"
  by (simp add: store_returns_def io_simps)

lemma returns_bind:
  assumes "returns m s a v" "\<And>s'. ok s' \<Longrightarrow> view s' = v \<Longrightarrow> locked s' = locked s \<Longrightarrow> returns (f a) s' b w"
  shows "returns (bind_io m f) s b w"
proof -
  obtain s' where s': "m s = Inr (a, s')" "ok s'" "view s' = v" "locked s' = locked s"
    using assms(1) by (auto simp: store_returns_def)
  from assms(2) [OF s'(2-4)] show ?thesis using s'(1,4) by (simp add: store_returns_def bind_io_def)
qed

text \<open>A state in which another block can be taken.\<close>

lemma returns_read:
  assumes s: "ok s" "length (locked s) < BLOCK_CACHE_SIZE" "b \<notin> set (locked s)" and len: "off + n \<le> BLOCK_SZ"
    and f: "\<And>s'. ok s' \<Longrightarrow> view s' = view s \<Longrightarrow> locked s' = b # locked s \<Longrightarrow>
      returns (f (slice_of off n (view s b))) s' a v"
  shows "returns (bc_read ops b off n f) s a v"
proof -
  obtain s1 where s1: "bs_lock ops b s = Inr s1" "ok s1" "view s1 = view s" "locked s1 = b # locked s"
    using lock [OF s] by blast
  obtain s2 where s2: "f (slice_of off n (view s b)) s1 = Inr (a, s2)" "ok s2" "view s2 = v" "locked s2 = b # locked s"
    using f [OF s1(2-4)] s1(4) by (auto simp: store_returns_def)
  have "bs_get ops b s1 = view s b" using get [OF s1(2), of b] s1 by simp
  then show ?thesis
    using s1(1) s2 len unlock [OF s2(2), of b] by (simp add: bc_read_def store_returns_def)
qed

lemma returns_modify:
  assumes s: "ok s" "length (locked s) < BLOCK_CACHE_SIZE" "b \<notin> set (locked s)" and len: "off + n \<le> BLOCK_SZ"
    and f: "\<And>s'. ok s' \<Longrightarrow> view s' = view s \<Longrightarrow> locked s' = b # locked s \<Longrightarrow>
      returns (f (slice_of off n (view s b))) s' (a, bs) v"
    and bs: "length bs = n"
  shows "returns (bc_modify ops b off n f) s a (v(b := copy_into off bs (v b)))"
proof -
  obtain s1 where s1: "bs_lock ops b s = Inr s1" "ok s1" "view s1 = view s" "locked s1 = b # locked s"
    using lock [OF s] by blast
  obtain s2 where s2: "f (slice_of off n (view s b)) s1 = Inr ((a, bs), s2)" "ok s2" "view s2 = v" "locked s2 = b # locked s"
    using f [OF s1(2-4)] s1(4) by (auto simp: store_returns_def)
  have g: "bs_get ops b s1 = view s b" "bs_get ops b s2 = v b"
    using get [OF s1(2), of b] get [OF s2(2), of b] s1 s2 by simp_all
  have "length (copy_into off bs (v b)) = BLOCK_SZ" using bs len block_length [OF s2(2), of b] s2(3) by simp
  then have p: "ok (bs_put ops b (copy_into off bs (v b)) s2)"
    "view (bs_put ops b (copy_into off bs (v b)) s2) = v(b := copy_into off bs (v b))"
    "locked (bs_put ops b (copy_into off bs (v b)) s2) = b # locked s"
    using put [OF s2(2), of b] s2 by simp_all
  show ?thesis
    using s1(1) s2(1) g len p unlock [OF p(1), of b] by (simp add: bc_modify_def store_returns_def)
qed

lemma returns_pure_read:
  assumes "ok s" "length (locked s) < BLOCK_CACHE_SIZE" "b \<notin> set (locked s)" "off + n \<le> BLOCK_SZ"
    and "f (slice_of off n (view s b)) = Inr a"
  shows "returns (bc_read ops b off n (pure_read f)) s a (view s)"
  using assms by (intro returns_read) (auto simp: pure_read_def store_returns_def io_simps)

lemma returns_pure_modify:
  assumes "ok s" "length (locked s) < BLOCK_CACHE_SIZE" "b \<notin> set (locked s)" "off + n \<le> BLOCK_SZ"
    and "f (slice_of off n (view s b)) = Inr (a, bs)" "length bs = n"
  shows "returns (bc_modify ops b off n (pure_modify f)) s a ((view s)(b := copy_into off bs (view s b)))"
  using assms by (intro returns_modify) (auto simp: pure_modify_def store_returns_def io_simps)

text \<open>Whole blocks.\<close>

lemma whole_block [simp]:
  "length xs = n \<Longrightarrow> slice_of 0 n xs = xs" "length ys = n \<Longrightarrow> length xs = n \<Longrightarrow> copy_into 0 ys xs = ys"
  by (simp_all add: slice_of_def copy_into_def)

lemma returns_block_read:
  assumes "ok s" "length (locked s) < BLOCK_CACHE_SIZE" "b \<notin> set (locked s)" "f (view s b) = Inr a"
  shows "returns (bc_read ops b 0 BLOCK_SZ (pure_read f)) s a (view s)"
  using assms block_length [OF assms(1)] by (intro returns_pure_read) simp_all

lemma returns_block_modify:
  assumes "ok s" "length (locked s) < BLOCK_CACHE_SIZE" "b \<notin> set (locked s)" "f (view s b) = Inr (a, bs)"
    "length bs = BLOCK_SZ"
  shows "returns (bc_modify ops b 0 BLOCK_SZ (pure_modify f)) s a ((view s)(b := bs))"
  using returns_pure_modify [OF assms(1-3), of 0 BLOCK_SZ f a bs] assms(4,5) block_length [OF assms(1)] by simp

lemma pure_modify_fault:
  assumes "ok s" "length (locked s) < BLOCK_CACHE_SIZE" "b \<notin> set (locked s)" "off + n \<le> BLOCK_SZ"
    and "f (slice_of off n (view s b)) = Inl e"
  shows "bc_modify ops b off n (pure_modify f) s = Inl e"
proof -
  obtain s1 where s1: "bs_lock ops b s = Inr s1" "ok s1" "view s1 = view s" "locked s1 = b # locked s"
    using lock [OF assms(1-3)] by blast
  then show ?thesis using assms(4,5) get [OF s1(2), of b] by (simp add: bc_modify_def pure_modify_def io_simps)
qed

text \<open>The rules of \<open>runs\<close>.\<close>

lemma returns_runs: "returns m s a v \<Longrightarrow> P a v \<Longrightarrow> runs m s P"
  by (auto simp: store_returns_def store_runs_def)

lemma runsE:
  assumes "runs m s P"
  obtains a s' where "m s = Inr (a, s')" "ok s'" "locked s' = locked s" "P a (view s')" "returns m s a (view s')"
  using assms by (auto simp: store_runs_def store_returns_def)

lemma runs_mono: "runs m s P \<Longrightarrow> (\<And>a v. P a v \<Longrightarrow> Q a v) \<Longrightarrow> runs m s Q"
  by (auto simp: store_runs_def)

lemma runs_return: "ok s \<Longrightarrow> P a (view s) \<Longrightarrow> runs (return_io a) s P"
  by (simp add: store_runs_def io_simps)

lemma runs_bind:
  assumes "runs m s P" "\<And>a s'. ok s' \<Longrightarrow> locked s' = locked s \<Longrightarrow> P a (view s') \<Longrightarrow> runs (f a) s' Q"
  shows "runs (bind_io m f) s Q"
proof -
  obtain a s' where s': "m s = Inr (a, s')" "ok s'" "locked s' = locked s" "P a (view s')"
    using assms(1) by (auto simp: store_runs_def)
  from assms(2) [OF s'(2-4)] show ?thesis using s'(1,3) by (simp add: store_runs_def bind_io_def)
qed

lemma runs_read:
  assumes s: "ok s" "length (locked s) < BLOCK_CACHE_SIZE" "b \<notin> set (locked s)" and len: "off + n \<le> BLOCK_SZ"
    and f: "\<And>s'. ok s' \<Longrightarrow> view s' = view s \<Longrightarrow> locked s' = b # locked s \<Longrightarrow> runs (f (slice_of off n (view s b))) s' P"
  shows "runs (bc_read ops b off n f) s P"
proof -
  obtain s1 where s1: "bs_lock ops b s = Inr s1" "ok s1" "view s1 = view s" "locked s1 = b # locked s"
    using lock [OF s] by blast
  obtain a s2 where s2: "f (slice_of off n (view s b)) s1 = Inr (a, s2)" "ok s2" "locked s2 = b # locked s" "P a (view s2)"
    using f [OF s1(2-4)] s1(4) by (auto simp: store_runs_def)
  have "bs_get ops b s1 = view s b" using get [OF s1(2), of b] s1 by simp
  then show ?thesis using s1(1) s2 len unlock [OF s2(2), of b] by (simp add: bc_read_def store_runs_def)
qed

lemma runs_modify:
  assumes s: "ok s" "length (locked s) < BLOCK_CACHE_SIZE" "b \<notin> set (locked s)" and len: "off + n \<le> BLOCK_SZ"
    and f: "\<And>s'. ok s' \<Longrightarrow> view s' = view s \<Longrightarrow> locked s' = b # locked s \<Longrightarrow>
      runs (f (slice_of off n (view s b))) s' (\<lambda>(a, bs) v. length bs = n \<and> P a (v(b := copy_into off bs (v b))))"
  shows "runs (bc_modify ops b off n f) s P"
proof -
  obtain s1 where s1: "bs_lock ops b s = Inr s1" "ok s1" "view s1 = view s" "locked s1 = b # locked s"
    using lock [OF s] by blast
  obtain a bs s2 where s2: "f (slice_of off n (view s b)) s1 = Inr ((a, bs), s2)" "ok s2" "locked s2 = b # locked s"
    "length bs = n" "P a ((view s2)(b := copy_into off bs (view s2 b)))"
    using f [OF s1(2-4)] s1(4) by (auto simp: store_runs_def)
  have g: "bs_get ops b s1 = view s b" "bs_get ops b s2 = view s2 b"
    using get [OF s1(2), of b] get [OF s2(2), of b] s1 s2 by simp_all
  have "length (copy_into off bs (view s2 b)) = BLOCK_SZ" using s2(4) len block_length [OF s2(2), of b] by simp
  then have p: "ok (bs_put ops b (copy_into off bs (view s2 b)) s2)"
    "view (bs_put ops b (copy_into off bs (view s2 b)) s2) = (view s2)(b := copy_into off bs (view s2 b))"
    "locked (bs_put ops b (copy_into off bs (view s2 b)) s2) = b # locked s"
    using put [OF s2(2), of b] s2 by simp_all
  show ?thesis
    using s1(1) s2(1,5) g len p unlock [OF p(1), of b] by (simp add: bc_modify_def store_runs_def)
qed

lemma runs_block_modify:
  assumes s: "ok s" "length (locked s) < BLOCK_CACHE_SIZE" "b \<notin> set (locked s)"
    and f: "\<And>s'. ok s' \<Longrightarrow> view s' = view s \<Longrightarrow> locked s' = b # locked s \<Longrightarrow>
      runs (f (view s b)) s' (\<lambda>(a, bs) v. length bs = BLOCK_SZ \<and> P a (v(b := bs)))"
  shows "runs (bc_modify ops b 0 BLOCK_SZ f) s P"
proof (rule runs_modify [OF s])
  fix s' assume s': "ok s'" "view s' = view s" "locked s' = b # locked s"
  obtain r s2 where "f (view s b) s' = Inr (r, s2)" "ok s2" "locked s2 = locked s'" "length (snd r) = BLOCK_SZ"
    "P (fst r) ((view s2)(b := snd r))"
    using f [OF s'] by (force simp: store_runs_def)
  then show "runs (f (slice_of 0 BLOCK_SZ (view s b))) s'
      (\<lambda>(a, bs) v. length bs = BLOCK_SZ \<and> P a (v(b := copy_into 0 bs (v b))))"
    using block_length [OF s(1), of b] block_length [of s2 b] by (auto simp: store_runs_def)
qed simp

lemma returns_sync:
  assumes "ok s" "locked s = []"
  shows "returns (sync_all ops) s () (view s)"
  using sync [OF assms] assms(2) by (auto simp: store_returns_def sync_all_def)

text \<open>The rules of \<open>commits\<close>.\<close>

lemma commits_runs: "commits m s P \<Longrightarrow> runs m s P"
  by (auto simp: store_runs_def store_commits_def)

lemma commits_mono: "commits m s P \<Longrightarrow> (\<And>a v. P a v \<Longrightarrow> Q a v) \<Longrightarrow> commits m s Q"
  by (auto simp: store_commits_def)

lemma commits_bind:
  assumes "runs m s P" "\<And>a s'. ok s' \<Longrightarrow> locked s' = locked s \<Longrightarrow> P a (view s') \<Longrightarrow> commits (f a) s' Q"
  shows "commits (bind_io m f) s Q"
proof -
  obtain a s' where s': "m s = Inr (a, s')" "ok s'" "locked s' = locked s" "P a (view s')"
    using assms(1) by (auto simp: store_runs_def)
  from assms(2) [OF s'(2-4)] show ?thesis using s'(1,3) by (simp add: store_commits_def bind_io_def)
qed

lemma commits_sync:
  assumes "ok s" "locked s = []" "P () (view s)"
  shows "commits (sync_all ops) s P"
  using sync [OF assms(1,2)] assms(2,3) by (auto simp: store_commits_def sync_all_def)

lemma commits_synced:
  assumes "ok s" "locked s = []" "P a (view s)"
  shows "commits (bind_io (sync_all ops) (\<lambda>_. return_io a)) s P"
  using sync [OF assms(1,2)] assms(2,3) by (auto simp: store_commits_def sync_all_def bind_io_def return_io_def)

lemma commitsE:
  assumes "commits m s P"
  obtains a s' where "m s = Inr (a, s')" "ok s'" "locked s' = locked s" "device s' = view s'" "P a (view s')"
  using assms by (auto simp: store_commits_def)

end

section \<open>The cache manager is a block store\<close>

definition cache_ops :: "cache_manager block_ops" where
  "cache_ops = \<lparr>bs_lock = cache_lock, bs_unlock = cache_unlock, bs_get = cache_get, bs_put = cache_put,
     bs_sync = block_cache_sync_all\<rparr>"

definition cache_view :: "cache_manager \<Rightarrow> nat \<Rightarrow> byte list" where
  "cache_view s b = (case map_of (queue s) b of Some c \<Rightarrow> cache c | None \<Rightarrow> disk s b)"

text \<open>
  No block is cached twice, held blocks are cached and distinct, blocks have the block size, and a
  block that is not marked as modified agrees with the device.
\<close>

definition cache_ok :: "cache_manager \<Rightarrow> bool" where
  "cache_ok s \<longleftrightarrow> length (queue s) \<le> BLOCK_CACHE_SIZE \<and> distinct (map fst (queue s)) \<and>
     distinct (held s) \<and> set (held s) \<subseteq> fst ` set (queue s) \<and> (\<forall>b. length (disk s b) = BLOCK_SZ) \<and>
     (\<forall>(i, c) \<in> set (queue s). length (cache c) = BLOCK_SZ \<and> (\<not> modified c \<longrightarrow> cache c = disk s i))"

lemma cache_ok_new: "\<forall>b. length (d b) = BLOCK_SZ \<Longrightarrow> cache_ok (cache_manager_new d)"
  by (simp add: cache_ok_def cache_manager_new_def)

lemma map_of_remove_nth:
  assumes "distinct (map fst q)" "idx < length q"
  shows "map_of (remove_nth idx q) = (map_of q)(fst (q ! idx) := None)"
proof -
  obtain ys zs where q: "q = ys @ q ! idx # zs" "remove_nth idx q = ys @ zs" using remove_nth_decomp [OF assms(2)] by blast
  obtain k c where k: "q ! idx = (k, c)" by fastforce
  have q': "q = ys @ (k, c) # zs" using q(1) k by simp
  from assms(1) have "distinct (map fst (ys @ (k, c) # zs))" by (simp only: q')
  then have d: "k \<notin> set (map fst ys)" "k \<notin> set (map fst zs)" by auto
  have n: "map_of ys k = None" "map_of zs k = None" using d by (simp_all add: map_of_eq_None_iff)
  have "map_of (ys @ zs) x = ((map_of (ys @ (k, c) # zs))(k := None)) x" for x
    using n by (cases "x = k") (simp_all add: map_add_def split: option.split)
  then have "map_of (ys @ zs) = (map_of (ys @ (k, c) # zs))(k := None)" by (rule ext)
  then show ?thesis using q(2) k q' by (metis fst_conv)
qed

lemma replace_one_ok:
  assumes s: "cache_ok s" and l: "length (held s) < BLOCK_CACHE_SIZE"
  obtains s' where "replace_one s = Inr s'" "cache_ok s'" "cache_view s' = cache_view s" "held s' = held s"
    "length (queue s') < BLOCK_CACHE_SIZE" "fst ` set (queue s') \<subseteq> fst ` set (queue s)"
proof (cases "length (queue s) = BLOCK_CACHE_SIZE")
  case False
  then show ?thesis using that [of s] s by (auto simp: replace_one_def cache_ok_def)
next
  case True
  have dq: "distinct (map fst (queue s))" using s by (simp add: cache_ok_def)
  have "card (fst ` set (queue s)) = BLOCK_CACHE_SIZE" using True distinct_card [OF dq] by simp
  moreover have "card (set (held s)) < BLOCK_CACHE_SIZE" using l s distinct_card [of "held s"] by (simp add: cache_ok_def)
  ultimately have "\<not> fst ` set (queue s) \<subseteq> set (held s)" by (metis List.finite_set card_mono not_le)
  then obtain idx where f: "find_index (\<lambda>pair. fst pair \<notin> set (held s)) (queue s) = Some idx"
    by (metis (mono_tags, lifting) find_index_None image_subsetI not_Some_eq)
  then have idx: "idx < length (queue s)" "fst (queue s ! idx) \<notin> set (held s)" by (simp_all add: find_index_Some_iff)
  obtain k c where kc: "queue s ! idx = (k, c)" by fastforce
  then have mem: "(k, c) \<in> set (queue s)" using idx(1) by (metis nth_mem)
  define d where "d = snd (cache_sync k c (disk s))"
  have ck: "map_of (queue s) k = Some c" using mem dq by simp
  have cc: "length (cache c) = BLOCK_SZ" "\<not> modified c \<Longrightarrow> cache c = disk s k" using s mem by (auto simp: cache_ok_def)
  have d: "d = (disk s)(k := cache c)" using cc(2) by (auto simp: d_def cache_sync_def)
  let ?q = "remove_nth idx (queue s)"
  define s' where "s' = s\<lparr>queue := ?q, disk := d\<rparr>"
  have mo: "map_of ?q = (map_of (queue s))(k := None)" using map_of_remove_nth [OF dq idx(1)] kc by simp
  have v: "cache_view s' = cache_view s"
    by (auto simp: cache_view_def s'_def mo d ck fun_eq_iff split: option.split)
  have dq': "distinct (map fst ?q)" using dq idx(1) by (simp add: map_remove_nth distinct_remove_nth)
  have keys: "fst ` set ?q = fst ` set (queue s) - {k}"
    using set_remove_nth_distinct [OF dq] idx(1) kc by (metis fst_conv length_map map_remove_nth nth_map set_map)
  have sub: "set ?q \<subseteq> set (queue s)" by (rule set_remove_nth_subset)
  have "length (cache c') = BLOCK_SZ \<and> (\<not> modified c' \<longrightarrow> cache c' = d i)" if x: "(i, c') \<in> set ?q" for i c'
  proof -
    have "i \<noteq> k" using x keys by force
    then show ?thesis using s sub x by (auto simp: cache_ok_def d)
  qed
  then have "cache_ok s'"
    using s dq' keys idx(2) kc cc(1) idx(1) unfolding cache_ok_def s'_def by (auto simp: d)
  moreover have "replace_one s = Inr s'" using True f kc by (simp add: replace_one_def s'_def d_def)
  ultimately show ?thesis using that [of s'] v True idx(1) keys by (simp add: s'_def)
qed

lemma cache_lock_ok:
  assumes s: "cache_ok s" and l: "length (held s) < BLOCK_CACHE_SIZE" and b: "b \<notin> set (held s)"
  shows "\<exists>s'. cache_lock b s = Inr s' \<and> cache_ok s' \<and> cache_view s' = cache_view s \<and> held s' = b # held s"
proof (cases "map_of (queue s) b")
  case (Some c)
  then have "b \<in> fst ` set (queue s)" by (metis map_of_eq_None_iff option.distinct(1))
  then show ?thesis
    using s b Some by (auto simp: cache_lock_def get_block_cache_def cache_ok_def cache_view_def fun_eq_iff split: option.split)
next
  case None
  obtain s1 where s1: "replace_one s = Inr s1" "cache_ok s1" "cache_view s1 = cache_view s" "held s1 = held s"
    "length (queue s1) < BLOCK_CACHE_SIZE" "fst ` set (queue s1) \<subseteq> fst ` set (queue s)"
    by (rule replace_one_ok [OF s l])
  have nb: "b \<notin> fst ` set (queue s1)" using None s1(6) by (metis map_of_eq_None_iff subsetD)
  then have m: "map_of (queue s1) b = None" by (simp add: map_of_eq_None_iff)
  define s' where "s' = s1\<lparr>queue := queue s1 @ [(b, block_cache_new b (disk s1))], held := b # held s1\<rparr>"
  have "cache_lock b s = Inr s'" using None s1(1,4) b by (simp add: cache_lock_def get_block_cache_def s'_def)
  moreover have "cache_view s' = cache_view s1"
    using m by (auto simp: cache_view_def s'_def fun_eq_iff map_add_def block_cache_new_def split: option.splits)
  moreover have "cache_ok s'"
    using s1(2,4,5) nb b by (auto simp: cache_ok_def s'_def block_cache_new_def)
  ultimately show ?thesis using s1(3,4) by (intro exI [of _ s']) (simp add: s'_def)
qed

lemma map_of_put:
  "map_of (map (\<lambda>(i, c). if i = b then (i, f c) else (i, c)) q) x =
   (if x = b then map_option f (map_of q x) else map_of q x)"
  by (induction q) auto

lemma cache_put_ok:
  assumes s: "cache_ok s" and b: "b \<in> set (held s)" and bs: "length bs = BLOCK_SZ"
  shows "cache_ok (cache_put b bs s) \<and> cache_view (cache_put b bs s) = (cache_view s)(b := bs) \<and>
    held (cache_put b bs s) = held s"
proof -
  obtain c where c: "map_of (queue s) b = Some c"
    using s b by (metis cache_ok_def map_of_eq_None_iff not_None_eq subsetD)
  let ?g = "\<lambda>(i, c). if i = b then (i, c\<lparr>cache := bs, modified := True\<rparr>) else (i, c)"
  have fst: "map fst (map ?g (queue s)) = map fst (queue s)" by (induction "queue s") auto
  have q: "queue (cache_put b bs s) = map ?g (queue s)" "disk (cache_put b bs s) = disk s" "held (cache_put b bs s) = held s"
    by (simp_all add: cache_put_def)
  have "fst ` set (map ?g (queue s)) = fst ` set (queue s)" using fst by (metis set_map)
  moreover have "distinct (map fst (map ?g (queue s)))" using fst s by (simp only: cache_ok_def)
  moreover have "\<forall>(i, c) \<in> set (map ?g (queue s)). length (cache c) = BLOCK_SZ \<and> (\<not> modified c \<longrightarrow> cache c = disk s i)"
    using s bs by (auto simp: cache_ok_def split: if_splits)
  ultimately have "cache_ok (cache_put b bs s)"
    using s unfolding cache_ok_def q by (simp only: length_map) blast
  moreover have "cache_view (cache_put b bs s) x = ((cache_view s)(b := bs)) x" for x
    using c by (auto simp: cache_view_def cache_put_def map_of_put split: option.splits)
  ultimately show ?thesis by (simp add: cache_put_def fun_eq_iff)
qed

text \<open>Synchronising cleans the whole queue and brings the device up to date.\<close>

lemma sync_queue_ok:
  assumes "distinct (map fst q)" "\<forall>(i, c) \<in> set q. \<not> modified c \<longrightarrow> cache c = d i" "sync_queue q d = (q', d')"
  shows "map fst q' = map fst q \<and> map (\<lambda>x. cache (snd x)) q' = map (\<lambda>x. cache (snd x)) q \<and> (\<forall>(i, c) \<in> set q'. \<not> modified c) \<and>
    d' = (\<lambda>b. case map_of q b of Some c \<Rightarrow> cache c | None \<Rightarrow> d b)"
  using assms
proof (induction q arbitrary: d q' d')
  case (Cons x q)
  obtain i c where x: "x = (i, c)" by fastforce
  obtain c1 d1 q2 d2 where r: "cache_sync i c d = (c1, d1)" "sync_queue q d1 = (q2, d2)" "q' = (i, c1) # q2" "d' = d2"
    using Cons.prems(3) x by (auto split: prod.splits)
  have c1: "cache c1 = cache c" "\<not> modified c1" "d1 = d(i := cache c)"
    using r(1) Cons.prems(2) x by (auto simp: cache_sync_def split: if_splits)
  have i: "i \<notin> fst ` set q" using Cons.prems(1) x by auto
  have "\<forall>(j, c) \<in> set q. \<not> modified c \<longrightarrow> cache c = d1 j" using Cons.prems(2) i c1(3) by force
  from Cons.IH [OF _ this r(2)] Cons.prems(1) x
  have "map fst q2 = map fst q" "map (\<lambda>x. cache (snd x)) q2 = map (\<lambda>x. cache (snd x)) q" "\<forall>(i, c) \<in> set q2. \<not> modified c"
    "d2 = (\<lambda>b. case map_of q b of Some c \<Rightarrow> cache c | None \<Rightarrow> d1 b)" by auto
  note ih = this
  have "map_of q i = None" using i by (simp add: map_of_eq_None_iff)
  then have "d2 = (\<lambda>b. case map_of (x # q) b of Some c \<Rightarrow> cache c | None \<Rightarrow> d b)"
    unfolding ih(4) x c1(3) by (auto simp: fun_eq_iff split: option.split)
  then show ?case using x r(3,4) c1 ih(1-3) by simp
qed simp

lemma map_of_same_caches:
  "map fst q' = map fst q \<Longrightarrow> map (\<lambda>x. cache (snd x)) q' = map (\<lambda>x. cache (snd x)) q \<Longrightarrow>
   map_option cache (map_of q' b) = map_option cache (map_of q b)"
proof (induction q' arbitrary: q)
  case (Cons x q')
  then obtain y ys where "q = y # ys" by (cases q) auto
  with Cons show ?case by (cases x; cases y) auto
qed simp

lemma cache_sync_all_ok:
  assumes s: "cache_ok s" and h: "held s = []"
  obtains s' where "block_cache_sync_all s = Inr s'" "cache_ok s'" "cache_view s' = cache_view s" "held s' = []"
    "disk s' = cache_view s"
proof -
  obtain q d where q: "sync_queue (queue s) (disk s) = (q, d)" by fastforce
  have clean: "\<forall>(i, c) \<in> set (queue s). \<not> modified c \<longrightarrow> cache c = disk s i" using s by (auto simp: cache_ok_def)
  have e: "map fst q = map fst (queue s)" "map (\<lambda>x. cache (snd x)) q = map (\<lambda>x. cache (snd x)) (queue s)"
    "\<forall>(i, c) \<in> set q. \<not> modified c" "d = cache_view s"
    using sync_queue_ok [OF _ clean q] s by (simp_all add: cache_ok_def cache_view_def fun_eq_iff)
  define s' where "s' = s\<lparr>queue := q, disk := d\<rparr>"
  have len: "length q = length (queue s)" using e(1) by (metis length_map)
  have dq: "distinct (map fst q)" using e(1) s by (simp add: cache_ok_def)
  have mo: "map_option cache (map_of q b) = map_option cache (map_of (queue s) b)" for b
    by (rule map_of_same_caches [OF e(1,2)])
  have "cache_view s' b = cache_view s b" for b
    using mo [of b] e(4) by (auto simp: cache_view_def s'_def split: option.splits)
  then have v: "cache_view s' = cache_view s" by blast
  have ent: "length (cache c) = BLOCK_SZ \<and> cache c = d i" if "(i, c) \<in> set q" for i c
  proof -
    have "map_of q i = Some c" using that dq by simp
    then obtain c0 where c0: "map_of (queue s) i = Some c0" "cache c0 = cache c"
      using mo [of i] by (cases "map_of (queue s) i") auto
    then have "(i, c0) \<in> set (queue s)" by (meson map_of_SomeD)
    then have "length (cache c0) = BLOCK_SZ" using s by (auto simp: cache_ok_def)
    then show ?thesis using c0 e(4) by (simp add: cache_view_def)
  qed
  have "length (d b) = BLOCK_SZ" for b
    using s e(4) by (auto simp: cache_view_def cache_ok_def split: option.split dest!: map_of_SomeD)
  then have "cache_ok s'"
    using s len dq h ent unfolding cache_ok_def s'_def by auto
  then show ?thesis using that [of s'] q h v e(4) by (simp add: block_cache_sync_all_def s'_def)
qed

interpretation cache_store: block_store cache_ops cache_ok cache_view held disk
proof
  fix s :: cache_manager and b :: nat and bs :: "byte list"
  assume s: "cache_ok s"
  show "\<exists>s'. bs_lock cache_ops b s = Inr s' \<and> cache_ok s' \<and> cache_view s' = cache_view s \<and> held s' = b # held s"
    if "length (held s) < BLOCK_CACHE_SIZE" "b \<notin> set (held s)"
    using cache_lock_ok [OF s that] by (simp add: cache_ops_def)
  show "bs_lock cache_ops b s = Inl SelfDeadlock" if "b \<in> set (held s)"
  proof -
    have "map_of (queue s) b \<noteq> None" using s that by (auto simp: cache_ok_def map_of_eq_None_iff)
    then show ?thesis using that by (auto simp: cache_ops_def cache_lock_def get_block_cache_def)
  qed
  show "cache_ok (bs_unlock cache_ops b s) \<and> cache_view (bs_unlock cache_ops b s) = cache_view s \<and>
      held (bs_unlock cache_ops b s) = remove1 b (held s)"
    using s set_remove1_subset [of b "held s"]
    by (auto simp: cache_ops_def cache_unlock_def cache_ok_def cache_view_def fun_eq_iff split: option.split)
  show "bs_get cache_ops b s = cache_view s b" if "b \<in> set (held s)"
  proof -
    have "map_of (queue s) b \<noteq> None" using s that by (auto simp: cache_ok_def map_of_eq_None_iff)
    then show ?thesis by (auto simp: cache_ops_def cache_get_def cache_view_def)
  qed
  show "cache_ok (bs_put cache_ops b bs s) \<and> cache_view (bs_put cache_ops b bs s) = (cache_view s)(b := bs) \<and>
      held (bs_put cache_ops b bs s) = held s" if "b \<in> set (held s)" "length bs = BLOCK_SZ"
    using cache_put_ok [OF s that] by (simp add: cache_ops_def)
  show "\<exists>s'. bs_sync cache_ops s = Inr s' \<and> cache_ok s' \<and> cache_view s' = cache_view s \<and> held s' = [] \<and> disk s' = cache_view s"
    if "held s = []"
    using cache_sync_all_ok [OF s that] by (metis block_ops.select_convs(5) cache_ops_def)
  show "length (cache_view s b) = BLOCK_SZ"
    using s by (auto simp: cache_view_def cache_ok_def split: option.split dest!: map_of_SomeD)
qed

section \<open>Properties\<close>

text \<open>Requests to the cache, and the same requests to a plain array of blocks.\<close>

datatype block_request = ReadAt nat nat nat | WriteAt nat nat "byte list" | SyncAll

fun serve_request :: "block_request \<Rightarrow> cache_manager \<Rightarrow> (byte list \<times> cache_manager) res" where
  "serve_request (ReadAt b off n) s = bc_read cache_ops b off n (pure_read Inr) s"
| "serve_request (WriteAt b off bs) s = bc_modify cache_ops b off (length bs) (pure_modify (\<lambda>_. Inr ([], bs))) s"
| "serve_request SyncAll s = bind_res (block_cache_sync_all s) (\<lambda>s'. Inr ([], s'))"

fun serve_requests :: "block_request list \<Rightarrow> cache_manager \<Rightarrow> (byte list list \<times> cache_manager) res" where
  "serve_requests [] s = Inr ([], s)"
| "serve_requests (r # rs) s =
     bind_res (serve_request r s) (\<lambda>(x, s1). bind_res (serve_requests rs s1) (\<lambda>(xs, s2). Inr (x # xs, s2)))"

fun array_request :: "block_request \<Rightarrow> (nat \<Rightarrow> byte list) \<Rightarrow> byte list \<times> (nat \<Rightarrow> byte list)" where
  "array_request (ReadAt b off n) d = (slice_of off n (d b), d)"
| "array_request (WriteAt b off bs) d = ([], d(b := copy_into off bs (d b)))"
| "array_request SyncAll d = ([], d)"

fun array_requests :: "block_request list \<Rightarrow> (nat \<Rightarrow> byte list) \<Rightarrow> byte list list \<times> (nat \<Rightarrow> byte list)" where
  "array_requests [] d = ([], d)"
| "array_requests (r # rs) d =
     (let (x, d1) = array_request r d; (xs, d2) = array_requests rs d1 in (x # xs, d2))"

fun request_fits :: "block_request \<Rightarrow> bool" where
  "request_fits (ReadAt b off n) \<longleftrightarrow> off + n \<le> BLOCK_SZ"
| "request_fits (WriteAt b off bs) \<longleftrightarrow> off + length bs \<le> BLOCK_SZ"
| "request_fits SyncAll \<longleftrightarrow> True"

lemma serve_request_refines:
  assumes "cache_ok s" "held s = []" "request_fits r" "array_request r (cache_view s) = (x, d)"
  obtains s' where "serve_request r s = Inr (x, s')" "cache_ok s'" "held s' = []" "cache_view s' = d"
proof (cases r)
  case (ReadAt b off n)
  have "store_returns cache_ok cache_view held (bc_read cache_ops b off n (pure_read Inr)) s
      (slice_of off n (cache_view s b)) (cache_view s)"
    using assms ReadAt by (intro cache_store.returns_pure_read) simp_all
  then obtain s' where "serve_request r s = Inr (slice_of off n (cache_view s b), s')" "cache_ok s'" "held s' = held s"
    "cache_view s' = cache_view s"
    unfolding ReadAt serve_request.simps store_returns_def by blast
  then show ?thesis using that [of s'] assms(2,4) ReadAt by auto
next
  case (WriteAt b off bs)
  have "store_returns cache_ok cache_view held (bc_modify cache_ops b off (length bs) (pure_modify (\<lambda>_. Inr ([], bs)))) s
      ([] :: byte list) ((cache_view s)(b := copy_into off bs (cache_view s b)))"
    using assms WriteAt by (intro cache_store.returns_pure_modify) simp_all
  then obtain s' where "serve_request r s = Inr ([], s')" "cache_ok s'" "held s' = held s"
    "cache_view s' = (cache_view s)(b := copy_into off bs (cache_view s b))"
    unfolding WriteAt serve_request.simps store_returns_def by blast
  then show ?thesis using that [of s'] assms(2,4) WriteAt by simp
next
  case SyncAll
  obtain s' where "block_cache_sync_all s = Inr s'" "cache_ok s'" "cache_view s' = cache_view s" "held s' = []"
    using cache_sync_all_ok [OF assms(1,2)] by blast
  then show ?thesis using that [of s'] SyncAll assms(4) by simp
qed

lemma serve_requests_refine:
  "cache_ok s \<Longrightarrow> held s = [] \<Longrightarrow> list_all request_fits rs \<Longrightarrow> array_requests rs (cache_view s) = (xs, d) \<Longrightarrow>
   \<exists>s'. serve_requests rs s = Inr (xs, s') \<and> cache_ok s' \<and> held s' = [] \<and> cache_view s' = d"
proof (induction rs arbitrary: s xs)
  case (Cons r rs)
  obtain x d1 ys where a: "array_request r (cache_view s) = (x, d1)" "array_requests rs d1 = (ys, d)" "xs = x # ys"
    using Cons.prems(4) by (auto split: prod.splits)
  obtain s1 where "serve_request r s = Inr (x, s1)" "cache_ok s1" "held s1 = []" "cache_view s1 = d1"
    using serve_request_refines [OF _ _ _ a(1)] Cons.prems by auto
  then show ?case using Cons.IH [of s1 ys] Cons.prems(3) a by auto
qed simp

text \<open>
  C7. The block cache is transparent: any sequence of reads and writes inside blocks and of synchronisations, started with
  an empty cache, returns what a plain array of blocks returns, whatever is evicted on the way, and after a final
  synchronisation the device holds exactly the contents of that array.
\<close>

theorem block_cache_transparent:
  assumes "\<forall>b. length (d b) = BLOCK_SZ" "list_all request_fits rs"
  shows "\<exists>s s'. serve_requests rs (cache_manager_new d) = Inr (fst (array_requests rs d), s) \<and>
    block_cache_sync_all s = Inr s' \<and> disk s' = snd (array_requests rs d)"
proof -
  have n: "cache_ok (cache_manager_new d)" "held (cache_manager_new d) = []" "cache_view (cache_manager_new d) = d"
    using cache_ok_new [OF assms(1)] by (simp_all add: cache_manager_new_def cache_view_def fun_eq_iff)
  obtain s where s: "serve_requests rs (cache_manager_new d) = Inr (fst (array_requests rs d), s)" "cache_ok s"
    "held s = []" "cache_view s = snd (array_requests rs d)"
    using serve_requests_refine [OF n(1,2) assms(2), of "fst (array_requests rs d)" "snd (array_requests rs d)"] n(3) by auto
  obtain s' where "block_cache_sync_all s = Inr s'" "disk s' = cache_view s"
    using cache_sync_all_ok [OF s(2,3)] by blast
  then show ?thesis using s by auto
qed

theorem block_cache_transparent_witness:
  "\<exists>s s'. serve_requests [WriteAt 3 510 [7, 8], ReadAt 3 509 3, ReadAt 9 0 2] (cache_manager_new (\<lambda>_. replicate 512 1)) =
     Inr ([[], [1, 7, 8], [1, 1]], s) \<and> block_cache_sync_all s = Inr s' \<and> disk s' 3 = replicate 510 1 @ [7, 8]"
proof -
  define d :: "nat \<Rightarrow> byte list" where "d = (\<lambda>_. replicate 512 1)"
  define rs where "rs = [WriteAt 3 510 [7, 8], ReadAt 3 509 3, ReadAt 9 0 2]"
  have fits: "list_all request_fits rs" by (simp add: rs_def)
  have c: "copy_into 510 [7, 8] (replicate 512 (1 :: byte)) = replicate 510 1 @ [7, 8]" by (simp add: copy_into_def)
  have v: "array_requests rs d = ([[], [1, 7, 8], [1, 1]], d(3 := replicate 510 1 @ [7, 8]))"
    by (simp add: rs_def d_def c slice_of_def numeral_2_eq_2)
  have "\<forall>b. length (d b) = BLOCK_SZ" by (simp add: d_def)
  from block_cache_transparent [OF this fits] show ?thesis
    unfolding v fst_conv snd_conv rs_def [symmetric] d_def [symmetric] by (metis fun_upd_same)
qed

end
