(* ===== verification/Byte_Codec.thy ===== *)
theory Byte_Codec
  imports Rcore_Prelude
begin

text \<open>
  Values inside the bytes of a block: arrays of \<^verbatim>\<open>u32\<close> (index blocks) and of \<^verbatim>\<open>u64\<close> (bitmap blocks), as the block cache
  gives them out by reinterpreting a block, checked indexing of such arrays and slices, and the UTF-8 test
  that \<^verbatim>\<open>core::str::from_utf8\<close> applies to file names. All encodings are little-endian, as on the
  64-bit RISC-V target.
\<close>

section \<open>Arrays in a block\<close>

text \<open>The consecutive pieces of \<open>n\<close> bytes.\<close>

definition chunks :: "nat \<Rightarrow> 'a list \<Rightarrow> 'a list list" where
  "chunks n xs = map (\<lambda>i. slice_of (n * i) n xs) [0..<length xs div n]"

definition u32s :: "byte list \<Rightarrow> nat list" where
  "u32s bytes = map le_nat (chunks 4 bytes)"

definition u32_bytes :: "nat list \<Rightarrow> byte list" where
  "u32_bytes ns = concat (map (le_bytes 4) ns)"

definition u64s :: "byte list \<Rightarrow> 64 word list" where
  "u64s bytes = map (\<lambda>c. of_nat (le_nat c)) (chunks 8 bytes)"

definition u64_bytes :: "64 word list \<Rightarrow> byte list" where
  "u64_bytes ws = concat (map (\<lambda>w. le_bytes 8 (unat w)) ws)"

lemma length_concat_same: "\<forall>x \<in> set xss. length x = n \<Longrightarrow> length (concat xss) = n * length xss"
  by (induction xss) auto

lemma slice_of_concat:
  "\<forall>x \<in> set xss. length x = n \<Longrightarrow> i < length xss \<Longrightarrow> slice_of (n * i) n (concat xss) = xss ! i"
proof (induction xss arbitrary: i)
  case (Cons x xss)
  then show ?case by (cases i) (simp_all add: slice_of_def)
qed simp

lemma chunks_concat:
  assumes "\<forall>x \<in> set xss. length x = n" "0 < n"
  shows "chunks n (concat xss) = xss"
proof (rule nth_equalityI)
  have l: "length (concat xss) = n * length xss" by (rule length_concat_same [OF assms(1)])
  then show "length (chunks n (concat xss)) = length xss" using assms(2) by (simp add: chunks_def)
  then show "chunks n (concat xss) ! i = xss ! i" if "i < length (chunks n (concat xss))" for i
    using that l assms by (simp add: chunks_def slice_of_concat)
qed

lemma concat_slices: "n * k = length xs \<Longrightarrow> concat (map (\<lambda>i. slice_of (n * i) n xs) [0..<k]) = xs"
proof (induction k arbitrary: xs)
  case (Suc k)
  have s: "slice_of (n * i) n xs = slice_of (n * i) n (take (n * k) xs)" if "i < k" for i
  proof -
    have "n * i + n \<le> n * k" using that by (metis Suc_leI mult_Suc_right add.commute mult_le_mono2)
    then show ?thesis by (simp add: slice_of_def drop_take min_def)
  qed
  have "concat (map (\<lambda>i. slice_of (n * i) n xs) [0..<k]) = concat (map (\<lambda>i. slice_of (n * i) n (take (n * k) xs)) [0..<k])"
    by (rule arg_cong [where f = concat]) (simp add: s)
  also have "\<dots> = take (n * k) xs" by (rule Suc.IH) (use Suc.prems in \<open>simp add: min_def\<close>)
  finally show ?case using Suc.prems by (simp add: slice_of_def)
qed simp

lemma concat_chunks: "n dvd length xs \<Longrightarrow> concat (chunks n xs) = xs"
  unfolding chunks_def by (rule concat_slices) simp

lemma length_chunks [simp]: "length (chunks n xs) = length xs div n"
  by (simp add: chunks_def)

lemma chunk_length: "c \<in> set (chunks n xs) \<Longrightarrow> length c = n"
proof -
  assume "c \<in> set (chunks n xs)"
  then obtain i where i: "i < length xs div n" "c = slice_of (n * i) n xs" by (auto simp: chunks_def)
  then have "Suc i * n \<le> length xs" by (metis Suc_leI div_times_less_eq_dividend mult_le_mono1 le_trans)
  then show ?thesis using i(2) by (simp add: slice_of_def algebra_simps)
qed

lemma length_u32s [simp]: "length (u32s bytes) = length bytes div 4"
  by (simp add: u32s_def)

lemma length_u64s [simp]: "length (u64s bytes) = length bytes div 8"
  by (simp add: u64s_def)

lemma length_u32_bytes [simp]: "length (u32_bytes ns) = 4 * length ns"
  by (induction ns) (simp_all add: u32_bytes_def)

lemma length_u64_bytes [simp]: "length (u64_bytes ws) = 8 * length ws"
  by (induction ws) (simp_all add: u64_bytes_def)

lemma u32s_u32_bytes: "\<forall>n \<in> set ns. n < u32_bound \<Longrightarrow> u32s (u32_bytes ns) = ns"
  by (simp add: u32s_def u32_bytes_def chunks_concat map_idI)

lemma u32_bytes_u32s: "4 dvd length bytes \<Longrightarrow> u32_bytes (u32s bytes) = bytes"
proof -
  assume d: "4 dvd length bytes"
  have "map (le_bytes 4 \<circ> le_nat) (chunks 4 bytes) = chunks 4 bytes"
    by (rule map_idI) (use chunk_length in \<open>auto intro!: le_bytes_le_nat\<close>)
  then show ?thesis using concat_chunks [OF d] by (simp add: u32s_def u32_bytes_def)
qed

lemma u64s_u64_bytes: "u64s (u64_bytes ws) = ws"
proof -
  have "unat w mod 256 ^ 8 = unat w" for w :: "64 word"
    using unsigned_less [of w, where 'a = nat] by simp
  then show ?thesis by (simp add: u64s_def u64_bytes_def chunks_concat map_idI le_nat_le_bytes)
qed

lemma u64_bytes_u64s: "8 dvd length bytes \<Longrightarrow> u64_bytes (u64s bytes) = bytes"
proof -
  assume d: "8 dvd length bytes"
  have "le_bytes 8 (unat (of_nat (le_nat c) :: 64 word)) = c" if "c \<in> set (chunks 8 bytes)" for c
  proof -
    have l: "length c = 8" using that by (rule chunk_length)
    then have "le_nat c < 2 ^ 64" using le_nat_less [of c] by simp
    then have "unat (of_nat (le_nat c) :: 64 word) = le_nat c" by (simp add: unat_of_nat)
    then show ?thesis using l by (simp add: le_bytes_le_nat)
  qed
  then have "map ((\<lambda>w. le_bytes 8 (unat w)) \<circ> (\<lambda>c. of_nat (le_nat c) :: 64 word)) (chunks 8 bytes) = chunks 8 bytes"
    by (intro map_idI) simp
  then show ?thesis using concat_chunks [OF d] by (simp add: u64s_def u64_bytes_def)
qed

lemma u32s_less: "n \<in> set (u32s bytes) \<Longrightarrow> n < u32_bound"
proof -
  assume "n \<in> set (u32s bytes)"
  then obtain c where "c \<in> set (chunks 4 bytes)" "n = le_nat c" by (auto simp: u32s_def)
  then show ?thesis using le_nat_4_less chunk_length by metis
qed

lemma u32s_nth_less: "i < length bytes div 4 \<Longrightarrow> u32s bytes ! i < u32_bound"
  using u32s_less [of "u32s bytes ! i" bytes] by simp

lemma u32s_update: "b < u32_bound \<Longrightarrow> u32s (u32_bytes ((u32s bytes)[i := b])) = (u32s bytes)[i := b]"
proof (rule u32s_u32_bytes, rule ballI)
  fix n assume "b < u32_bound" "n \<in> set ((u32s bytes)[i := b])"
  then show "n < u32_bound" using set_update_subset_insert [of "u32s bytes" i b] u32s_less by blast
qed

section \<open>Checked accesses\<close>

text \<open>\<^verbatim>\<open>xs[i]\<close>, \<^verbatim>\<open>xs[i] = x\<close>, \<^verbatim>\<open>xs[off..off + len]\<close>, \<^verbatim>\<open>a - b\<close> and \<^verbatim>\<open>iter.next().unwrap()\<close>.\<close>

definition index_res :: "'a list \<Rightarrow> nat \<Rightarrow> 'a res" where
  "index_res xs i = (if i < length xs then Inr (xs ! i) else Inl IndexOutOfBounds)"

definition update_res :: "'a list \<Rightarrow> nat \<Rightarrow> 'a \<Rightarrow> 'a list res" where
  "update_res xs i x = (if i < length xs then Inr (xs[i := x]) else Inl IndexOutOfBounds)"

definition slice_res :: "nat \<Rightarrow> nat \<Rightarrow> 'a list \<Rightarrow> 'a list res" where
  "slice_res off len xs = (if off + len \<le> length xs then Inr (slice_of off len xs) else Inl IndexOutOfBounds)"

definition sub_res :: "nat \<Rightarrow> nat \<Rightarrow> nat res" where
  "sub_res a b = (if b \<le> a then Inr (a - b) else Inl ArithOverflow)"

definition add_res :: "nat \<Rightarrow> nat \<Rightarrow> nat \<Rightarrow> nat res" where
  "add_res bound a b = (if a + b < bound then Inr (a + b) else Inl ArithOverflow)"

fun next_res :: "'a list \<Rightarrow> ('a \<times> 'a list) res" where
  "next_res [] = Inl UnwrapNone"
| "next_res (x # xs) = Inr (x, xs)"

lemma checked_simps [simp, res_simps]:
  "i < length xs \<Longrightarrow> index_res xs i = Inr (xs ! i)"
  "i < length xs \<Longrightarrow> update_res xs i x = Inr (xs[i := x])"
  "off + len \<le> length xs \<Longrightarrow> slice_res off len xs = Inr (slice_of off len xs)"
  "b \<le> a \<Longrightarrow> sub_res a b = Inr (a - b)"
  "a + b < bound \<Longrightarrow> add_res bound a b = Inr (a + b)"
  by (simp_all add: index_res_def update_res_def slice_res_def sub_res_def add_res_def)

lemma next_res_Inr: "next_res xs = Inr (x, r) \<longleftrightarrow> xs = x # r"
  by (cases xs) auto

section \<open>UTF-8\<close>

text \<open>The well-formed byte sequences of the Unicode standard, one to four bytes per character.\<close>

definition continuation :: "nat \<Rightarrow> nat \<Rightarrow> byte \<Rightarrow> bool" where
  "continuation lo hi b \<longleftrightarrow> lo \<le> unat b \<and> unat b \<le> hi"

fun valid_utf8 :: "byte list \<Rightarrow> bool" where
  "valid_utf8 [] \<longleftrightarrow> True"
| "valid_utf8 (a # bs) \<longleftrightarrow>
     (let x = unat a; lo = (if x = 0xE0 then 0xA0 else if x = 0xF0 then 0x90 else 0x80);
          hi = (if x = 0xED then 0x9F else if x = 0xF4 then 0x8F else 0xBF)
      in if x < 0x80 then valid_utf8 bs
         else if 0xC2 \<le> x \<and> x \<le> 0xDF then
           (case bs of b # r \<Rightarrow> continuation 0x80 0xBF b \<and> valid_utf8 r | _ \<Rightarrow> False)
         else if 0xE0 \<le> x \<and> x \<le> 0xEF then
           (case bs of b # c # r \<Rightarrow> continuation lo hi b \<and> continuation 0x80 0xBF c \<and> valid_utf8 r | _ \<Rightarrow> False)
         else if 0xF0 \<le> x \<and> x \<le> 0xF4 then
           (case bs of b # c # d # r \<Rightarrow>
              continuation lo hi b \<and> continuation 0x80 0xBF c \<and> continuation 0x80 0xBF d \<and> valid_utf8 r
            | _ \<Rightarrow> False)
         else False)"


lemma valid_utf8_ascii: "\<forall>b \<in> set bytes. unat b < 0x80 \<Longrightarrow> valid_utf8 bytes"
  by (induction bytes) (simp_all add: Let_def)

end
