(* ===== verification/Bitmap_Alloc.thy ===== *)
theory Bitmap_Alloc
  imports Block_Cache Byte_Codec
begin

text \<open>
  The bitmaps of easy-fs (\<^verbatim>\<open>bitmap.rs\<close>): a run of blocks of 4096 bits each, of which a set bit is an inode or data block
  in use. \<open>Bitmap::alloc\<close> and \<open>Bitmap::dealloc\<close> work on the 64 words of one block at a time through the block store; the lemmas
  say what they do to the set \<open>used_bits\<close>.
\<close>

unbundle bit_operations_syntax

section \<open>The code\<close>

abbreviation BLOCK_BITS :: nat where "BLOCK_BITS \<equiv> 4096"

record bitmap =
  start_block_id :: nat
  blocks :: nat

definition decomposition :: "nat \<Rightarrow> nat \<times> nat \<times> nat" where
  "decomposition n = (n div BLOCK_BITS, n mod BLOCK_BITS div 64, n mod BLOCK_BITS mod 64)"

definition bitmap_new :: "nat \<Rightarrow> nat \<Rightarrow> bitmap" where
  "bitmap_new start n = \<lparr>start_block_id = start, blocks = n\<rparr>"

text \<open>\<^verbatim>\<open>u64::trailing_ones\<close>.\<close>

definition trailing_ones :: "64 word \<Rightarrow> nat" where
  "trailing_ones w = trailing_zeros (NOT w)"

text \<open>The closure that \<^verbatim>\<open>alloc\<close> runs on one block.\<close>

definition alloc_in_block :: "nat \<Rightarrow> byte list \<Rightarrow> (nat option \<times> byte list) res" where
  "alloc_in_block block_id bytes =
     (let bitmap_block = u64s bytes in
      case find_index (\<lambda>bits64. bits64 \<noteq> - 1) bitmap_block of
        Some bits64_pos \<Rightarrow>
          let inner_pos = trailing_ones (bitmap_block ! bits64_pos) in
          Inr (Some (block_id * BLOCK_BITS + bits64_pos * 64 + inner_pos),
            u64_bytes (bitmap_block[bits64_pos := (bitmap_block ! bits64_pos) OR push_bit inner_pos 1]))
      | None \<Rightarrow> Inr (None, bytes))"

fun bitmap_alloc_loop :: "'s block_ops \<Rightarrow> bitmap \<Rightarrow> nat list \<Rightarrow> ('s, nat option) io" where
  "bitmap_alloc_loop ops bm [] = return_io None"
| "bitmap_alloc_loop ops bm (block_id # ids) =
     bind_io (bc_modify ops (block_id + start_block_id bm) 0 BLOCK_SZ (pure_modify (alloc_in_block block_id)))
       (\<lambda>pos. if pos \<noteq> None then return_io pos else bitmap_alloc_loop ops bm ids)"

definition bitmap_alloc :: "'s block_ops \<Rightarrow> bitmap \<Rightarrow> ('s, nat option) io" where
  "bitmap_alloc ops bm = bitmap_alloc_loop ops bm [0..<blocks bm]"

definition dealloc_in_block :: "nat \<Rightarrow> nat \<Rightarrow> byte list \<Rightarrow> (unit \<times> byte list) res" where
  "dealloc_in_block bits64_pos inner_pos bytes =
     (let bitmap_block = u64s bytes; w = bitmap_block ! bits64_pos in
      bind_res (assert_res (w AND push_bit inner_pos 1 > 0)) (\<lambda>_.
        Inr ((), u64_bytes (bitmap_block[bits64_pos := w - push_bit inner_pos 1]))))"

definition bitmap_dealloc :: "'s block_ops \<Rightarrow> bitmap \<Rightarrow> nat \<Rightarrow> ('s, unit) io" where
  "bitmap_dealloc ops bm n =
     (let (block_pos, bits64_pos, inner_pos) = decomposition n in
      bc_modify ops (block_pos + start_block_id bm) 0 BLOCK_SZ (pure_modify (dealloc_in_block bits64_pos inner_pos)))"

definition bitmap_maximum :: "bitmap \<Rightarrow> nat" where
  "bitmap_maximum bm = blocks bm * BLOCK_BITS"

section \<open>The set of used bits\<close>

definition block_bit :: "byte list \<Rightarrow> nat \<Rightarrow> bool" where
  "block_bit bytes k \<longleftrightarrow> bit (u64s bytes ! (k div 64)) (k mod 64)"

definition used_bits :: "bitmap \<Rightarrow> (nat \<Rightarrow> byte list) \<Rightarrow> nat set" where
  "used_bits bm v = {n. n < bitmap_maximum bm \<and> block_bit (v (n div BLOCK_BITS + start_block_id bm)) (n mod BLOCK_BITS)}"

definition bitmap_blocks :: "bitmap \<Rightarrow> nat set" where
  "bitmap_blocks bm = {start_block_id bm ..< start_block_id bm + blocks bm}"

lemma trailing_ones_spec:
  assumes "w \<noteq> - 1"
  shows "trailing_ones w < 64" "\<not> bit w (trailing_ones w)" "\<And>j. j < trailing_ones w \<Longrightarrow> bit w j"
proof -
  have z: "zeros_from 0 (NOT w) \<le> 64" "\<And>j. j < zeros_from 0 (NOT w) \<Longrightarrow> \<not> bit (NOT w) j"
    "zeros_from 0 (NOT w) < 64 \<Longrightarrow> bit (NOT w) (zeros_from 0 (NOT w))"
    using zeros_from_spec [of 0 "NOT w"] by auto
  have "\<exists>j<64. \<not> bit w j"
  proof (rule ccontr)
    assume "\<not> (\<exists>j<64. \<not> bit w j)"
    then have "w = - 1" by (intro bit_word_eqI) auto
    with assms show False ..
  qed
  then have l: "zeros_from 0 (NOT w) < 64" using z(1,2) by (metis bit_not_word_iff le_neq_implies_less)
  then show "trailing_ones w < 64" "\<not> bit w (trailing_ones w)"
    using z(3) by (simp_all add: trailing_ones_def trailing_zeros_def bit_not_word_iff)
  show "bit w j" if "j < trailing_ones w" for j
    using z(2) [of j] that l by (simp add: trailing_ones_def trailing_zeros_def bit_not_word_iff)
qed

lemma bit_two_power: "bit ((2 :: 64 word) ^ k) n \<longleftrightarrow> n = k \<and> k < 64"
  using bit_one_shifted [of k n] by simp

lemma block_bit_set:
  assumes "length bytes = BLOCK_SZ" "p < 64" "i < 64" "k < BLOCK_BITS"
  shows "block_bit (u64_bytes ((u64s bytes)[p := (u64s bytes ! p) OR push_bit i 1])) k \<longleftrightarrow>
    k = p * 64 + i \<or> block_bit bytes k"
proof -
  have "k div 64 < 64" using assms(4) by simp
  moreover have "k = p * 64 + i \<longleftrightarrow> k div 64 = p \<and> k mod 64 = i" using assms(3) by auto
  ultimately show ?thesis
    using assms(1,2,3) by (auto simp: block_bit_def u64s_u64_bytes nth_list_update bit_or_iff bit_two_power)
qed

text \<open>Subtracting a set bit clears it.\<close>

lemma bit_minus_push_bit:
  assumes "bit (w :: 64 word) i"
  shows "bit (w - push_bit i 1) n \<longleftrightarrow> bit w n \<and> n \<noteq> i"
proof -
  have i: "i < 64" using assms bit_imp_le_length by fastforce
  have "w - push_bit i 1 = w AND NOT (push_bit i 1)"
  proof -
    have "w AND push_bit i 1 = push_bit i 1"
      using assms i by (intro bit_word_eqI) (auto simp: bit_and_iff bit_two_power)
    moreover have "(w AND push_bit i 1) OR (w AND NOT (push_bit i 1)) = w"
      by (intro bit_word_eqI) (auto simp: bit_simps)
    moreover have "(w AND push_bit i 1) + (w AND NOT (push_bit i 1)) = (w AND push_bit i 1) OR (w AND NOT (push_bit i 1))"
      by (rule disjunctive_add) (auto simp: bit_simps)
    ultimately show ?thesis by (metis add_diff_cancel_left')
  qed
  then show ?thesis using i by (auto simp: bit_and_iff bit_not_word_iff bit_two_power dest: bit_imp_le_length)
qed


text \<open>The closures on one block: the first free bit is taken, and a used bit is freed.\<close>

lemma alloc_in_block_full:
  assumes "length bytes = BLOCK_SZ" "\<forall>k<BLOCK_BITS. block_bit bytes k"
  shows "alloc_in_block i bytes = Inr (None, bytes)"
proof -
  have "w = - 1" if w: "w \<in> set (u64s bytes)" for w
  proof (rule bit_word_eqI)
    fix n assume n: "n < LENGTH(64)"
    obtain p where p: "p < 64" "w = u64s bytes ! p" using w assms(1) by (auto simp: in_set_conv_nth)
    have "p * 64 + n < BLOCK_BITS" "(p * 64 + n) div 64 = p" "(p * 64 + n) mod 64 = n" using p(1) n by auto
    then show "bit w n = bit (- 1 :: 64 word) n" using assms(2) p(2) n by (metis block_bit_def bit_minus_1_iff possible_bit_word)
  qed
  then have "find_index (\<lambda>w. w \<noteq> - 1) (u64s bytes) = None" by auto
  then show ?thesis unfolding alloc_in_block_def Let_def by (simp only: option.case)
qed

lemma alloc_in_block_free:
  assumes l: "length bytes = BLOCK_SZ" and k: "k < BLOCK_BITS" "\<not> block_bit bytes k" "\<And>j. j < k \<Longrightarrow> block_bit bytes j"
  obtains bytes' where "alloc_in_block i bytes = Inr (Some (i * BLOCK_BITS + k), bytes')" "length bytes' = BLOCK_SZ"
    "\<And>j. j < BLOCK_BITS \<Longrightarrow> block_bit bytes' j \<longleftrightarrow> j = k \<or> block_bit bytes j"
proof -
  have "u64s bytes ! (k div 64) \<noteq> - 1" using k(1,2) by (auto simp: block_bit_def bit_minus_1_iff)
  moreover have "k div 64 < length (u64s bytes)" using k(1) l by simp
  ultimately have "find_index (\<lambda>w. w \<noteq> - 1) (u64s bytes) \<noteq> None" unfolding find_index_None using nth_mem by blast
  then obtain p where f: "find_index (\<lambda>w. w \<noteq> - 1) (u64s bytes) = Some p" by blast
  define w where "w = u64s bytes ! p"
  define n where "n = trailing_ones w"
  have p: "p < 64" "w \<noteq> - 1" "\<And>j. j < p \<Longrightarrow> u64s bytes ! j = - 1"
    using f l by (auto simp: find_index_Some_iff w_def)
  have n: "n < 64" "\<not> bit w n" "\<And>j. j < n \<Longrightarrow> bit w j" using trailing_ones_spec [OF p(2)] by (simp_all add: n_def)
  have "\<not> block_bit bytes (p * 64 + n)" using n(1,2) by (simp add: block_bit_def w_def)
  moreover have "block_bit bytes j" if j: "j < p * 64 + n" for j
  proof (cases "j div 64 < p")
    case True
    then show ?thesis using p(3) by (simp add: block_bit_def bit_minus_1_iff)
  next
    case False
    moreover have "j div 64 * 64 + j mod 64 < p * 64 + n" using j by simp
    moreover have "j div 64 \<le> p" using j n(1) by (simp add: less_mult_imp_div_less flip: less_Suc_eq_le)
    ultimately have "j div 64 = p" "j mod 64 < n" by simp_all
    then show ?thesis using n(3) by (simp add: block_bit_def w_def)
  qed
  ultimately have pk: "p * 64 + n = k" using k(2,3) by (metis linorder_neqE_nat)
  show ?thesis
  proof (rule that)
    show "alloc_in_block i bytes = Inr (Some (i * BLOCK_BITS + k), u64_bytes ((u64s bytes)[p := u64s bytes ! p OR push_bit n 1]))"
      unfolding alloc_in_block_def Let_def f option.case pk [symmetric] n_def w_def by (simp only: add.assoc)
  qed (use l block_bit_set [OF l p(1) n(1)] pk in auto)
qed

lemma dealloc_in_block_used:
  assumes l: "length bytes = BLOCK_SZ" and k: "k < BLOCK_BITS" "block_bit bytes k"
  obtains bytes' where "dealloc_in_block (k div 64) (k mod 64) bytes = Inr ((), bytes')" "length bytes' = BLOCK_SZ"
    "\<And>j. j < BLOCK_BITS \<Longrightarrow> block_bit bytes' j \<longleftrightarrow> j \<noteq> k \<and> block_bit bytes j"
proof -
  define w where "w = u64s bytes ! (k div 64)"
  have b: "bit w (k mod 64)" using k(2) by (simp add: block_bit_def w_def)
  then have "bit (w AND push_bit (k mod 64) 1) (k mod 64)" by (simp add: bit_and_iff bit_two_power)
  then have "w AND push_bit (k mod 64) 1 \<noteq> 0" by (metis bit_0_eq bot_apply bot_bool_def)
  then have "w AND push_bit (k mod 64) 1 > 0" by (simp add: word_gt_0)
  then have e: "dealloc_in_block (k div 64) (k mod 64) bytes = Inr ((), u64_bytes ((u64s bytes)[k div 64 := w - push_bit (k mod 64) 1]))"
    by (simp add: dealloc_in_block_def w_def Let_def)
  have "block_bit (u64_bytes ((u64s bytes)[k div 64 := w - push_bit (k mod 64) 1])) j \<longleftrightarrow> j \<noteq> k \<and> block_bit bytes j" if "j < BLOCK_BITS" for j
  proof -
    have "j div 64 < 64" using that by simp
    moreover have "j = k \<longleftrightarrow> j div 64 = k div 64 \<and> j mod 64 = k mod 64" by (rule eq_div_mod)
    ultimately show ?thesis
      using l bit_minus_push_bit [OF b, of "j mod 64"] unfolding block_bit_def u64s_u64_bytes
      by (cases "j div 64 = k div 64") (simp_all add: w_def conj_commute)
  qed
  then show ?thesis using that [OF e] l by simp
qed

lemma dealloc_in_block_free: "\<not> block_bit bytes k \<Longrightarrow> dealloc_in_block (k div 64) (k mod 64) bytes = Inl AssertFailed"
proof -
  assume "\<not> block_bit bytes k"
  then have "u64s bytes ! (k div 64) AND push_bit (k mod 64) 1 = 0"
    by (intro bit_word_eqI) (auto simp: block_bit_def bit_and_iff bit_two_power)
  then show ?thesis by (simp add: dealloc_in_block_def Let_def)
qed


section \<open>Allocation through the store\<close>

lemma bitmap_block_mem: "i < blocks bm \<Longrightarrow> i + start_block_id bm \<in> bitmap_blocks bm"
  by (simp add: bitmap_blocks_def)

lemma bit_block: "n < bitmap_maximum bm \<Longrightarrow> n div BLOCK_BITS < blocks bm"
  by (simp add: bitmap_maximum_def less_mult_imp_div_less)

lemma used_bits_upd:
  assumes n: "n < bitmap_maximum bm"
    and b: "\<And>j. j < BLOCK_BITS \<Longrightarrow> block_bit bytes j \<longleftrightarrow>
      (if j = n mod BLOCK_BITS then new else block_bit (v (n div BLOCK_BITS + start_block_id bm)) j)"
  shows "used_bits bm (v(n div BLOCK_BITS + start_block_id bm := bytes)) =
    (if new then insert n (used_bits bm v) else used_bits bm v - {n})"
proof -
  have e: "block_bit ((v(n div BLOCK_BITS + start_block_id bm := bytes)) (m div BLOCK_BITS + start_block_id bm)) (m mod BLOCK_BITS) \<longleftrightarrow>
    (if m = n then new else block_bit (v (m div BLOCK_BITS + start_block_id bm)) (m mod BLOCK_BITS))" for m
  proof (cases "m div BLOCK_BITS = n div BLOCK_BITS")
    case True
    have "m = n \<longleftrightarrow> m mod BLOCK_BITS = n mod BLOCK_BITS" using True eq_div_mod [of m n BLOCK_BITS] by simp
    then show ?thesis using True b [of "m mod BLOCK_BITS"] by simp
  qed auto
  show ?thesis unfolding used_bits_def e using n by auto
qed

context block_store
begin

lemma alloc_loop_full:
  assumes "ok s" "length (locked s) < BLOCK_CACHE_SIZE" "bitmap_blocks bm \<inter> set (locked s) = {}"
    and "\<forall>m<bitmap_maximum bm. m \<in> used_bits bm (view s)" "set is \<subseteq> {..<blocks bm}"
  shows "returns (bitmap_alloc_loop ops bm is) s None (view s)"
  using assms
proof (induction "is" arbitrary: s)
  case Nil
  then show ?case by (simp add: returns_return)
next
  case (Cons i "is")
  let ?b = "i + start_block_id bm"
  have i: "i < blocks bm" using Cons.prems(5) by simp
  have full: "block_bit (view s ?b) k" if "k < BLOCK_BITS" for k
  proof -
    have "i * BLOCK_BITS + k < bitmap_maximum bm"
      using that i mult_le_mono1 [of "Suc i" "blocks bm" BLOCK_BITS] by (simp add: bitmap_maximum_def)
    then have "i * BLOCK_BITS + k \<in> used_bits bm (view s)" using Cons.prems(4) by blast
    then show ?thesis using that by (simp add: used_bits_def)
  qed
  have nl: "?b \<notin> set (locked s)" using Cons.prems(3) bitmap_block_mem [OF i] by blast
  have "alloc_in_block i (view s ?b) = Inr (None, view s ?b)"
    using full by (intro alloc_in_block_full) (simp_all add: block_length [OF Cons.prems(1)])
  from returns_block_modify [where f = "alloc_in_block i", OF Cons.prems(1,2) nl this] have
    "returns (bc_modify ops ?b 0 BLOCK_SZ (pure_modify (alloc_in_block i))) s None (view s)"
    by (simp add: block_length [OF Cons.prems(1)])
  moreover have "returns (bitmap_alloc_loop ops bm is) s' None (view s)"
    if "ok s'" "view s' = view s" "locked s' = locked s" for s'
    using Cons.IH [of s'] Cons.prems(2-5) that by simp
  ultimately show ?case unfolding bitmap_alloc_loop.simps by (intro returns_bind) auto
qed

text \<open>\<^verbatim>\<open>alloc\<close> takes the least free bit.\<close>

lemma alloc_loop_free:
  assumes "ok s" "length (locked s) < BLOCK_CACHE_SIZE" "bitmap_blocks bm \<inter> set (locked s) = {}"
    and n: "n < bitmap_maximum bm" "n \<notin> used_bits bm (view s)" "\<And>m. m < n \<Longrightarrow> m \<in> used_bits bm (view s)"
    and "a \<le> n div BLOCK_BITS"
  shows "\<exists>v'. returns (bitmap_alloc_loop ops bm [a..<blocks bm]) s (Some n) v' \<and>
    used_bits bm v' = insert n (used_bits bm (view s)) \<and> (\<forall>b. b \<notin> bitmap_blocks bm \<longrightarrow> v' b = view s b)"
  using assms
proof (induction "blocks bm - a" arbitrary: a s)
  case 0
  then show ?case using bit_block [of n bm] by simp
next
  case (Suc k)
  have a: "a < blocks bm" using Suc.hyps(2) by simp
  then have loop: "[a..<blocks bm] = a # [Suc a..<blocks bm]" by (rule upt_conv_Cons)
  let ?b = "a + start_block_id bm" and ?v = "view s"
  have l: "length (?v ?b) = BLOCK_SZ" by (rule block_length [OF Suc.prems(1)])
  have nl: "?b \<notin> set (locked s)" using Suc.prems(3) bitmap_block_mem [OF a] by blast
  have bits: "a * BLOCK_BITS + j \<in> used_bits bm ?v \<longleftrightarrow> block_bit (?v ?b) j" if "j < BLOCK_BITS" for j
    using that a mult_le_mono1 [of "Suc a" "blocks bm" BLOCK_BITS] by (simp add: used_bits_def bitmap_maximum_def)
  show ?case
  proof (cases "a = n div BLOCK_BITS")
    case True
    define r where "r = n mod BLOCK_BITS"
    have n: "n = a * BLOCK_BITS + r" "r < BLOCK_BITS" using True by (simp_all add: r_def)
    have "\<not> block_bit (?v ?b) r" using bits [OF n(2)] n(1) Suc.prems(5) by simp
    moreover have "block_bit (?v ?b) j" if "j < r" for j
      using bits [of j] Suc.prems(6) [of "a * BLOCK_BITS + j"] that n by simp
    ultimately obtain bytes where b: "alloc_in_block a (?v ?b) = Inr (Some n, bytes)" "length bytes = BLOCK_SZ"
      "\<And>j. j < BLOCK_BITS \<Longrightarrow> block_bit bytes j \<longleftrightarrow> j = r \<or> block_bit (?v ?b) j"
      using alloc_in_block_free [OF l n(2)] n(1) by metis
    define v' where "v' = ?v(?b := bytes)"
    have "returns (bitmap_alloc_loop ops bm [a..<blocks bm]) s (Some n) v'"
      unfolding loop bitmap_alloc_loop.simps v'_def
      using returns_block_modify [where f = "alloc_in_block a", OF Suc.prems(1,2) nl b(1,2)]
      by (rule returns_bind) (auto dest: returns_return [where a = "Some n"])
    moreover have "used_bits bm v' = insert n (used_bits bm ?v)"
      using used_bits_upd [of n bm bytes True ?v] Suc.prems(4) b(3) True by (simp add: v'_def r_def)
    ultimately show ?thesis using bitmap_block_mem [OF a] by (intro exI [of _ v']) (auto simp: v'_def)
  next
    case False
    then have a': "Suc a \<le> n div BLOCK_BITS" using Suc.prems(7) by simp
    have "block_bit (?v ?b) j" if "j < BLOCK_BITS" for j
    proof -
      have "Suc a * BLOCK_BITS \<le> n" using a' by (metis div_times_less_eq_dividend mult_le_mono1 le_trans)
      then show ?thesis using bits [OF that] Suc.prems(6) [of "a * BLOCK_BITS + j"] that by simp
    qed
    then have "alloc_in_block a (?v ?b) = Inr (None, ?v ?b)" using l by (intro alloc_in_block_full) simp_all
    from returns_block_modify [where f = "alloc_in_block a", OF Suc.prems(1,2) nl this] l
    have "returns (bc_modify ops ?b 0 BLOCK_SZ (pure_modify (alloc_in_block a))) s None ?v" by simp
    then obtain s1 where s1: "bc_modify ops ?b 0 BLOCK_SZ (pure_modify (alloc_in_block a)) s = Inr (None, s1)" "ok s1"
      "view s1 = ?v" "locked s1 = locked s" by (auto simp: store_returns_def)
    have "\<exists>v'. returns (bitmap_alloc_loop ops bm [Suc a..<blocks bm]) s1 (Some n) v' \<and>
      used_bits bm v' = insert n (used_bits bm (view s1)) \<and> (\<forall>b. b \<notin> bitmap_blocks bm \<longrightarrow> v' b = view s1 b)"
      using Suc.hyps(1) [of "Suc a" s1] Suc.hyps(2) Suc.prems s1 a' by simp
    then show ?thesis using s1 unfolding loop by (auto simp: store_returns_def bind_io_def)
  qed
qed

lemma alloc_full:
  assumes "ok s" "length (locked s) < BLOCK_CACHE_SIZE" "bitmap_blocks bm \<inter> set (locked s) = {}"
    and "used_bits bm (view s) = {..<bitmap_maximum bm}"
  shows "returns (bitmap_alloc ops bm) s None (view s)"
  using assms by (auto simp: bitmap_alloc_def intro: alloc_loop_full)

lemma alloc_least:
  assumes "ok s" "length (locked s) < BLOCK_CACHE_SIZE" "bitmap_blocks bm \<inter> set (locked s) = {}"
    and "n < bitmap_maximum bm" "n \<notin> used_bits bm (view s)" "\<And>m. m < n \<Longrightarrow> m \<in> used_bits bm (view s)"
  obtains v' where "returns (bitmap_alloc ops bm) s (Some n) v'" "used_bits bm v' = insert n (used_bits bm (view s))"
    "\<And>b. b \<notin> bitmap_blocks bm \<Longrightarrow> v' b = view s b"
  using alloc_loop_free [OF assms(1-5), of 0] assms(6) by (auto simp: bitmap_alloc_def)

lemma alloc_first:
  assumes "ok s" "length (locked s) < BLOCK_CACHE_SIZE" "bitmap_blocks bm \<inter> set (locked s) = {}"
    and k: "k < bitmap_maximum bm" "k \<notin> used_bits bm (view s)"
  obtains n v' where "returns (bitmap_alloc ops bm) s (Some n) v'" "used_bits bm v' = insert n (used_bits bm (view s))"
    "\<And>b. b \<notin> bitmap_blocks bm \<Longrightarrow> v' b = view s b" "n \<notin> used_bits bm (view s)" "\<And>m. m < n \<Longrightarrow> m \<in> used_bits bm (view s)" "n \<le> k"
proof -
  let ?u = "used_bits bm (view s)"
  define n where "n = (LEAST n. n \<notin> ?u)"
  have n: "n \<notin> ?u" "n \<le> k" unfolding n_def by (rule LeastI [of "\<lambda>n. n \<notin> ?u", OF k(2)], rule Least_le [of "\<lambda>n. n \<notin> ?u", OF k(2)])
  have below: "m \<in> ?u" if "m < n" for m using not_less_Least [of m "\<lambda>n. n \<notin> ?u"] that unfolding n_def by blast
  show ?thesis using alloc_least [OF assms(1-3) _ n(1) below] n k(1) below that by (metis le_less_trans)
qed

lemma dealloc_used:
  assumes s: "ok s" "length (locked s) < BLOCK_CACHE_SIZE" "bitmap_blocks bm \<inter> set (locked s) = {}"
    and n: "n \<in> used_bits bm (view s)"
  obtains v' where "returns (bitmap_dealloc ops bm n) s () v'" "used_bits bm v' = used_bits bm (view s) - {n}"
    "\<And>b. b \<notin> bitmap_blocks bm \<Longrightarrow> v' b = view s b"
proof -
  let ?b = "n div BLOCK_BITS + start_block_id bm"
  have n': "n < bitmap_maximum bm" "block_bit (view s ?b) (n mod BLOCK_BITS)" using n by (simp_all add: used_bits_def)
  have b: "?b \<in> bitmap_blocks bm" by (intro bitmap_block_mem bit_block n')
  obtain bytes where bytes: "dealloc_in_block (n mod BLOCK_BITS div 64) (n mod BLOCK_BITS mod 64) (view s ?b) = Inr ((), bytes)"
    "length bytes = BLOCK_SZ"
    "\<And>j. j < BLOCK_BITS \<Longrightarrow> block_bit bytes j \<longleftrightarrow> j \<noteq> n mod BLOCK_BITS \<and> block_bit (view s ?b) j"
    using dealloc_in_block_used [OF block_length [OF s(1)] _ n'(2)] by (metis mod_less_divisor zero_less_numeral)
  have nl: "?b \<notin> set (locked s)" using s(3) b by blast
  show ?thesis
  proof (rule that)
    show "returns (bitmap_dealloc ops bm n) s () ((view s)(?b := bytes))"
      using returns_block_modify [where f = "dealloc_in_block (n mod BLOCK_BITS div 64) (n mod BLOCK_BITS mod 64)", OF s(1,2) nl bytes(1,2)] by (simp add: bitmap_dealloc_def decomposition_def)
    show "used_bits bm ((view s)(?b := bytes)) = used_bits bm (view s) - {n}"
      using used_bits_upd [of n bm bytes False "view s"] n'(1) bytes(3) by simp
  qed (use b in auto)
qed

lemma dealloc_free:
  assumes s: "ok s" "length (locked s) < BLOCK_CACHE_SIZE" "bitmap_blocks bm \<inter> set (locked s) = {}"
    and n: "n < bitmap_maximum bm" "n \<notin> used_bits bm (view s)"
  shows "bitmap_dealloc ops bm n s = Inl AssertFailed"
proof -
  let ?b = "n div BLOCK_BITS + start_block_id bm"
  have nl: "?b \<notin> set (locked s)" using s(3) bitmap_block_mem [OF bit_block [OF n(1)]] by blast
  have "\<not> block_bit (view s ?b) (n mod BLOCK_BITS)" using n by (simp add: used_bits_def)
  then have "dealloc_in_block (n mod BLOCK_BITS div 64) (n mod BLOCK_BITS mod 64) (slice_of 0 BLOCK_SZ (view s ?b)) = Inl AssertFailed"
    using block_length [OF s(1)] by (simp add: dealloc_in_block_free)
  from pure_modify_fault [where f = "dealloc_in_block (n mod BLOCK_BITS div 64) (n mod BLOCK_BITS mod 64)", OF s(1,2) nl _ this] show ?thesis by (simp add: bitmap_dealloc_def decomposition_def)
qed

end

end
