(* ===== verification/Disk_Layout.thy ===== *)
theory Disk_Layout
  imports Bitmap_Alloc
begin

text \<open>
  The on-disk structures of easy-fs (\<^verbatim>\<open>layout.rs\<close>, with the link counts of chapter 6): the super block, the 132-byte disk inode
  with 28 direct, 128 singly and 128 * 128 doubly indirect blocks, and the 32-byte directory entry.

  A structure in a block is a record together with its \<^verbatim>\<open>repr(C)\<close> encoding; the three padding bytes of the disk inode
  are part of the record because field assignments keep them. Sizes and block numbers are \<^verbatim>\<open>u32\<close> values, as \<open>nat\<close>, and
  every conversion, subtraction and index that can fail is written out. Loops over block numbers take the remaining
  \<^verbatim>\<open>new_blocks\<close> iterator as a list.
\<close>

section \<open>Constants\<close>

abbreviation EFS_MAGIC :: nat where "EFS_MAGIC \<equiv> 0x3b800001"
abbreviation INODE_DIRECT_COUNT :: nat where "INODE_DIRECT_COUNT \<equiv> 28"
abbreviation NAME_LENGTH_LIMIT :: nat where "NAME_LENGTH_LIMIT \<equiv> 27"
abbreviation INODE_INDIRECT1_COUNT :: nat where "INODE_INDIRECT1_COUNT \<equiv> 128"
abbreviation INODE_INDIRECT2_COUNT :: nat where "INODE_INDIRECT2_COUNT \<equiv> 16384"
abbreviation DIRECT_BOUND :: nat where "DIRECT_BOUND \<equiv> 28"
abbreviation INDIRECT1_BOUND :: nat where "INDIRECT1_BOUND \<equiv> 156"
abbreviation INDIRECT2_BOUND :: nat where "INDIRECT2_BOUND \<equiv> 16540"
abbreviation DIRENT_SZ :: nat where "DIRENT_SZ \<equiv> 32"
abbreviation SUPER_BLOCK_SZ :: nat where "SUPER_BLOCK_SZ \<equiv> 24"
abbreviation DISK_INODE_SZ :: nat where "DISK_INODE_SZ \<equiv> 132"

text \<open>\<^verbatim>\<open>a.div_ceil(b)\<close>.\<close>

definition div_ceil :: "nat \<Rightarrow> nat \<Rightarrow> nat" where
  "div_ceil a b = (if a mod b = 0 then a div b else a div b + 1)"

section \<open>The super block\<close>

record super_block =
  magic :: nat
  sb_total_blocks :: nat
  inode_bitmap_blocks :: nat
  inode_area_blocks :: nat
  data_bitmap_blocks :: nat
  data_area_blocks :: nat

definition super_block_of :: "byte list \<Rightarrow> super_block" where
  "super_block_of bytes =
     (let f = u32s bytes in
      \<lparr>magic = f ! 0, sb_total_blocks = f ! 1, inode_bitmap_blocks = f ! 2, inode_area_blocks = f ! 3,
       data_bitmap_blocks = f ! 4, data_area_blocks = f ! 5\<rparr>)"

definition super_block_bytes :: "super_block \<Rightarrow> byte list" where
  "super_block_bytes sb =
     u32_bytes [magic sb, sb_total_blocks sb, inode_bitmap_blocks sb, inode_area_blocks sb,
       data_bitmap_blocks sb, data_area_blocks sb]"

definition sb_initialize :: "nat \<Rightarrow> nat \<Rightarrow> nat \<Rightarrow> nat \<Rightarrow> nat \<Rightarrow> super_block" where
  "sb_initialize all_blocks inode_bitmap inode_area data_bitmap data_area =
     \<lparr>magic = EFS_MAGIC, sb_total_blocks = all_blocks, inode_bitmap_blocks = inode_bitmap,
      inode_area_blocks = inode_area, data_bitmap_blocks = data_bitmap, data_area_blocks = data_area\<rparr>"

definition sb_is_valid :: "super_block \<Rightarrow> bool" where
  "sb_is_valid sb \<longleftrightarrow> magic sb = EFS_MAGIC"

section \<open>Disk inodes\<close>

datatype disk_inode_type = File | Directory

record disk_inode =
  di_size :: nat
  direct :: "nat list"
  indirect1 :: nat
  indirect2 :: nat
  di_type :: disk_inode_type
  di_padding :: "byte list"
  link_num :: nat

text \<open>The encoding; the type is the byte 0 or 1, and reading any other value is undefined behaviour.\<close>

definition disk_inode_of :: "byte list \<Rightarrow> disk_inode res" where
  "disk_inode_of bytes =
     (let f = u32s (take 124 bytes); t = unat (bytes ! 124) in
      if 1 < t then Inl InvalidValue
      else Inr \<lparr>di_size = f ! 0, direct = slice_of 1 INODE_DIRECT_COUNT f, indirect1 = f ! 29, indirect2 = f ! 30,
        di_type = (if t = 0 then File else Directory), di_padding = slice_of 125 3 bytes,
        link_num = le_nat (slice_of 128 4 bytes)\<rparr>)"

definition disk_inode_bytes :: "disk_inode \<Rightarrow> byte list" where
  "disk_inode_bytes di =
     u32_bytes (di_size di # direct di @ [indirect1 di, indirect2 di]) @
     [case di_type di of File \<Rightarrow> 0 | Directory \<Rightarrow> 1] @ di_padding di @ le_bytes 4 (link_num di)"

definition di_initialize :: "disk_inode_type \<Rightarrow> disk_inode \<Rightarrow> disk_inode" where
  "di_initialize t di =
     di\<lparr>di_size := 0, direct := map (\<lambda>_. 0) (direct di), indirect1 := 0, indirect2 := 0, di_type := t, link_num := 1\<rparr>"

definition di_is_dir :: "disk_inode \<Rightarrow> bool" where
  "di_is_dir di \<longleftrightarrow> di_type di = Directory"

definition di_is_file :: "disk_inode \<Rightarrow> bool" where
  "di_is_file di \<longleftrightarrow> di_type di = File"

text \<open>\<^verbatim>\<open>_data_blocks\<close> and \<^verbatim>\<open>data_blocks\<close>.\<close>

definition data_blocks_of :: "nat \<Rightarrow> nat" where
  "data_blocks_of n = div_ceil n BLOCK_SZ"

definition data_blocks :: "disk_inode \<Rightarrow> nat" where
  "data_blocks di = data_blocks_of (di_size di)"

definition total_blocks :: "nat \<Rightarrow> nat" where
  "total_blocks n =
     (let d = data_blocks_of n;
          t1 = (if d > INODE_DIRECT_COUNT then d + 1 else d);
          t2 = (if d > INDIRECT1_BOUND then t1 + 1 + div_ceil (d - INDIRECT1_BOUND) INODE_INDIRECT1_COUNT else t1)
      in as_u32 t2)"

definition blocks_num_needed :: "disk_inode \<Rightarrow> nat \<Rightarrow> nat res" where
  "blocks_num_needed di new_size =
     bind_res (assert_res (new_size \<ge> di_size di)) (\<lambda>_.
       sub_res (total_blocks new_size) (total_blocks (di_size di)))"

definition get_block_id :: "'s block_ops \<Rightarrow> disk_inode \<Rightarrow> nat \<Rightarrow> ('s, nat) io" where
  "get_block_id ops di inner_id =
     (if inner_id < INODE_DIRECT_COUNT then lift_io (index_res (direct di) inner_id)
      else if inner_id < INDIRECT1_BOUND then
        bc_read ops (indirect1 di) 0 BLOCK_SZ
          (pure_read (\<lambda>bytes. index_res (u32s bytes) (inner_id - INODE_DIRECT_COUNT)))
      else let last = inner_id - INDIRECT1_BOUND in
        bind_io (bc_read ops (indirect2 di) 0 BLOCK_SZ
            (pure_read (\<lambda>bytes. index_res (u32s bytes) (last div INODE_INDIRECT1_COUNT)))) (\<lambda>indirect1.
        bc_read ops indirect1 0 BLOCK_SZ
          (pure_read (\<lambda>bytes. index_res (u32s bytes) (last mod INODE_INDIRECT1_COUNT)))))"

section \<open>Growing a file\<close>

text \<open>\<^verbatim>\<open>while current < limit { slots[current] = new_blocks.next().unwrap(); current += 1 }\<close>, in phases 1 and 2.\<close>

function fill_slots :: "nat \<Rightarrow> nat \<Rightarrow> nat list \<Rightarrow> nat list \<Rightarrow> (nat \<times> nat list \<times> nat list) res" where
  "fill_slots current limit slots new_blocks =
     (if current < limit then
        bind_res (next_res new_blocks) (\<lambda>(b, rest).
        bind_res (update_res slots current b) (\<lambda>slots'.
          fill_slots (current + 1) limit slots' rest))
      else Inr (current, slots, new_blocks))"
  by pat_completeness auto
termination by (relation "measure (\<lambda>(current, limit, _, _). limit - current)") auto

declare fill_slots.simps [simp del]

text \<open>One step of phase 3, in the blocks \<open>indirect2\<close> and \<open>indirect2[a0]\<close>.\<close>

definition fill_indirect2_slot ::
  "'s block_ops \<Rightarrow> nat \<Rightarrow> nat \<Rightarrow> nat list \<Rightarrow> nat list \<Rightarrow> ('s, nat list \<times> nat list) io" where
  "fill_indirect2_slot ops a0 b0 slots new_blocks =
     bind_io (lift_io
       (if b0 = 0 then
          bind_res (next_res new_blocks) (\<lambda>(b, rest).
          bind_res (update_res slots a0 b) (\<lambda>slots'. Inr (slots', rest)))
        else Inr (slots, new_blocks))) (\<lambda>(slots1, new1).
     bind_io (lift_io (index_res slots1 a0)) (\<lambda>block.
     bind_io (bc_modify ops block 0 BLOCK_SZ (pure_modify (\<lambda>bytes.
         bind_res (next_res new1) (\<lambda>(b, rest).
         bind_res (update_res (u32s bytes) b0 b) (\<lambda>slots'. Inr (rest, u32_bytes slots')))))) (\<lambda>new2.
       return_io (slots1, new2))))"

definition next_slot :: "nat \<Rightarrow> nat \<Rightarrow> nat \<times> nat" where
  "next_slot a0 b0 = (if b0 + 1 = INODE_INDIRECT1_COUNT then (a0 + 1, 0) else (a0, b0 + 1))"

lemma fill_indirect2_slot_consumes:
  assumes "fill_indirect2_slot ops a0 b0 slots new s = Inr ((slots', rest), s')"
  shows "length rest < length new"
  using assms unfolding fill_indirect2_slot_def bc_modify_def pure_modify_def lift_io_def bind_io_def return_io_def
  by (auto simp: next_res_Inr split: if_splits prod.splits)

function fill_indirect2 ::
  "'s block_ops \<Rightarrow> nat \<times> nat \<Rightarrow> nat \<times> nat \<Rightarrow> nat list \<Rightarrow> nat list \<Rightarrow> ('s, nat list) io" where
  "fill_indirect2 ops (a1, b1) (a0, b0) slots new_blocks s =
     (if a0 < a1 \<or> a0 = a1 \<and> b0 < b1 then
        (case fill_indirect2_slot ops a0 b0 slots new_blocks s of
           Inl e \<Rightarrow> Inl e
         | Inr ((slots', rest), s') \<Rightarrow> fill_indirect2 ops (a1, b1) (next_slot a0 b0) slots' rest s')
      else Inr (slots, s))"
  by pat_completeness auto
termination
  by (relation "measure (\<lambda>(ops, _, _, _, new, _). length new)") (auto dest: fill_indirect2_slot_consumes)

declare fill_indirect2.simps [simp del]

text \<open>The three phases: direct blocks, the indirect block, and the doubly indirect blocks.\<close>

definition increase_phase3 :: "'s block_ops \<Rightarrow> nat \<Rightarrow> nat \<Rightarrow> nat list \<Rightarrow> disk_inode \<Rightarrow> ('s, disk_inode) io" where
  "increase_phase3 ops current_blocks all_blocks new_blocks di =
     (if all_blocks > INODE_INDIRECT1_COUNT then
        bind_io (lift_io
          (if current_blocks = INODE_INDIRECT1_COUNT then
             bind_res (next_res new_blocks) (\<lambda>(b, rest). Inr (di\<lparr>indirect2 := b\<rparr>, rest))
           else Inr (di, new_blocks))) (\<lambda>(di, new_blocks).
        bind_io (lift_io (sub_res current_blocks INODE_INDIRECT1_COUNT)) (\<lambda>current_blocks.
        let all_blocks = all_blocks - INODE_INDIRECT1_COUNT;
            from = (current_blocks div INODE_INDIRECT1_COUNT, current_blocks mod INODE_INDIRECT1_COUNT);
            upto = (all_blocks div INODE_INDIRECT1_COUNT, all_blocks mod INODE_INDIRECT1_COUNT) in
        bind_io (bc_modify ops (indirect2 di) 0 BLOCK_SZ (\<lambda>bytes.
            bind_io (fill_indirect2 ops upto from (u32s bytes) new_blocks) (\<lambda>slots.
              return_io ((), u32_bytes slots)))) (\<lambda>_.
          return_io di)))
      else return_io di)"

definition increase_phase2 :: "'s block_ops \<Rightarrow> nat \<Rightarrow> nat \<Rightarrow> nat list \<Rightarrow> disk_inode \<Rightarrow> ('s, disk_inode) io" where
  "increase_phase2 ops current_blocks all_blocks new_blocks di =
     (if all_blocks > INODE_DIRECT_COUNT then
        bind_io (lift_io
          (if current_blocks = INODE_DIRECT_COUNT then
             bind_res (next_res new_blocks) (\<lambda>(b, rest). Inr (di\<lparr>indirect1 := b\<rparr>, rest))
           else Inr (di, new_blocks))) (\<lambda>(di, new_blocks).
        bind_io (lift_io (sub_res current_blocks INODE_DIRECT_COUNT)) (\<lambda>current_blocks.
        let all_blocks = all_blocks - INODE_DIRECT_COUNT in
        bind_io (bc_modify ops (indirect1 di) 0 BLOCK_SZ (pure_modify (\<lambda>bytes.
            bind_res (fill_slots current_blocks (min all_blocks INODE_INDIRECT1_COUNT) (u32s bytes) new_blocks)
              (\<lambda>(current, slots, rest). Inr ((current, rest), u32_bytes slots))))) (\<lambda>(current_blocks, new_blocks).
          increase_phase3 ops current_blocks all_blocks new_blocks di)))
      else return_io di)"

definition di_increase_size :: "'s block_ops \<Rightarrow> nat \<Rightarrow> nat list \<Rightarrow> disk_inode \<Rightarrow> ('s, disk_inode) io" where
  "di_increase_size ops new_size new_blocks di =
     (let current_blocks = data_blocks di; di = di\<lparr>di_size := new_size\<rparr>; all_blocks = data_blocks di in
      bind_io (lift_io (fill_slots current_blocks (min all_blocks INODE_DIRECT_COUNT) (direct di) new_blocks))
        (\<lambda>(current_blocks, slots, new_blocks).
          increase_phase2 ops current_blocks all_blocks new_blocks (di\<lparr>direct := slots\<rparr>)))"

section \<open>Releasing the blocks of a file\<close>

text \<open>The direct blocks are collected and their slots cleared.\<close>

function clear_direct :: "nat \<Rightarrow> nat \<Rightarrow> nat list \<Rightarrow> nat list \<Rightarrow> (nat list \<times> nat list) res" where
  "clear_direct current limit slots v =
     (if current < limit then
        bind_res (index_res slots current) (\<lambda>b.
        bind_res (update_res slots current 0) (\<lambda>slots'. clear_direct (current + 1) limit slots' (v @ [b])))
      else Inr (slots, v))"
  by pat_completeness auto
termination by (relation "measure (\<lambda>(current, limit, _, _). limit - current)") auto

declare clear_direct.simps [simp del]

text \<open>The entries below a limit of an index block; its bytes stay, and the block is marked as modified.\<close>

function push_entries :: "nat \<Rightarrow> nat \<Rightarrow> nat list \<Rightarrow> nat list \<Rightarrow> nat list res" where
  "push_entries current limit slots v =
     (if current < limit then
        bind_res (index_res slots current) (\<lambda>b. push_entries (current + 1) limit slots (v @ [b]))
      else Inr v)"
  by pat_completeness auto
termination by (relation "measure (\<lambda>(current, limit, _, _). limit - current)") auto

declare push_entries.simps [simp del]

fun push_full_blocks :: "'s block_ops \<Rightarrow> nat list \<Rightarrow> nat list \<Rightarrow> ('s, nat list) io" where
  "push_full_blocks ops [] v = return_io v"
| "push_full_blocks ops (entry # entries) v =
     bind_io (bc_modify ops entry 0 BLOCK_SZ (pure_modify (\<lambda>bytes. Inr (v @ [entry] @ u32s bytes, bytes))))
       (push_full_blocks ops entries)"

definition clear_indirect2 :: "'s block_ops \<Rightarrow> nat \<Rightarrow> nat \<Rightarrow> nat list \<Rightarrow> nat list \<Rightarrow> ('s, nat list) io" where
  "clear_indirect2 ops a1 b1 slots v =
     bind_io (push_full_blocks ops (take a1 slots) v) (\<lambda>v.
       if b1 > 0 then
         bind_io (lift_io (index_res slots a1)) (\<lambda>entry.
         bc_modify ops entry 0 BLOCK_SZ (pure_modify (\<lambda>bytes. Inr (v @ [entry] @ take b1 (u32s bytes), bytes))))
       else return_io v)"

definition di_clear_size :: "'s block_ops \<Rightarrow> disk_inode \<Rightarrow> ('s, nat list \<times> disk_inode) io" where
  "di_clear_size ops di =
     (let n = data_blocks di in
      bind_io (lift_io (clear_direct 0 (min n INODE_DIRECT_COUNT) (direct di) [])) (\<lambda>(slots, v).
      let di = di\<lparr>di_size := 0, direct := slots\<rparr> in
      if n > INODE_DIRECT_COUNT then
        let v = v @ [indirect1 di]; n = n - INODE_DIRECT_COUNT in
        bind_io (bc_modify ops (indirect1 di) 0 BLOCK_SZ (pure_modify (\<lambda>bytes.
            bind_res (push_entries 0 (min n INODE_INDIRECT1_COUNT) (u32s bytes) v) (\<lambda>v. Inr (v, bytes))))) (\<lambda>v.
        let di = di\<lparr>indirect1 := 0\<rparr> in
        if n > INODE_INDIRECT1_COUNT then
          let v = v @ [indirect2 di]; n = n - INODE_INDIRECT1_COUNT in
          bind_io (lift_io (assert_res (n \<le> INODE_INDIRECT2_COUNT))) (\<lambda>_.
          bind_io (bc_modify ops (indirect2 di) 0 BLOCK_SZ (\<lambda>bytes.
              bind_io (clear_indirect2 ops (n div INODE_INDIRECT1_COUNT) (n mod INODE_INDIRECT1_COUNT)
                (u32s bytes) v) (\<lambda>v. return_io (v, bytes)))) (\<lambda>v.
            return_io (v, di\<lparr>indirect2 := 0\<rparr>)))
        else return_io (v, di))
      else return_io (v, di)))"

section \<open>Reading and writing\<close>

text \<open>One iteration reads or writes the part of the range that lies in one block.\<close>

definition block_end :: "nat \<Rightarrow> nat \<Rightarrow> nat" where
  "block_end start stop = min ((start div BLOCK_SZ + 1) * BLOCK_SZ) stop"

lemma block_end_progress: "block_end start stop \<noteq> stop \<Longrightarrow> start < block_end start stop \<and> block_end start stop < stop"
proof -
  have "start < (start div BLOCK_SZ + 1) * BLOCK_SZ" using dividend_less_div_times [of BLOCK_SZ start] by simp
  then show "block_end start stop \<noteq> stop \<Longrightarrow> ?thesis" by (auto simp: block_end_def min_def split: if_splits)
qed

function di_read_loop ::
  "'s block_ops \<Rightarrow> disk_inode \<Rightarrow> nat \<Rightarrow> nat \<Rightarrow> nat \<Rightarrow> nat \<Rightarrow> byte list \<Rightarrow> ('s, nat \<times> byte list) io" where
  "di_read_loop ops di stop start start_block read_size buf s =
     (let end_current_block = block_end start stop; block_read_size = end_current_block - start in
      case bind_io (lift_io (slice_res read_size block_read_size buf)) (\<lambda>_.
           bind_io (get_block_id ops di (as_u32 start_block)) (\<lambda>block.
           bc_read ops block 0 BLOCK_SZ (pure_read (slice_res (start mod BLOCK_SZ) block_read_size)))) s of
        Inl e \<Rightarrow> Inl e
      | Inr (src, s') \<Rightarrow>
          let buf' = copy_into read_size src buf; read_size' = read_size + block_read_size in
          if end_current_block = stop then Inr ((read_size', buf'), s')
          else di_read_loop ops di stop end_current_block (start_block + 1) read_size' buf' s')"
  by pat_completeness auto
termination
proof (relation "measure (\<lambda>(_, _, stop, start, _, _, _, _). stop - start)", goal_cases)
  case (2 ops di stop start start_block read_size buf s)
  then show ?case using block_end_progress [of start stop] by auto
qed simp

declare di_read_loop.simps [simp del]

definition di_read_at :: "'s block_ops \<Rightarrow> disk_inode \<Rightarrow> nat \<Rightarrow> byte list \<Rightarrow> ('s, nat \<times> byte list) io" where
  "di_read_at ops di offset buf =
     bind_io (lift_io (add_res usize_bound offset (length buf))) (\<lambda>e.
     let stop = min e (di_size di) in
     if offset \<ge> stop then return_io (0, buf)
     else di_read_loop ops di stop offset (offset div BLOCK_SZ) 0 buf)"

function di_write_loop ::
  "'s block_ops \<Rightarrow> disk_inode \<Rightarrow> nat \<Rightarrow> nat \<Rightarrow> nat \<Rightarrow> nat \<Rightarrow> byte list \<Rightarrow> ('s, nat) io" where
  "di_write_loop ops di stop start start_block write_size buf s =
     (let end_current_block = block_end start stop; block_write_size = end_current_block - start in
      case bind_io (get_block_id ops di (as_u32 start_block)) (\<lambda>block.
           bc_modify ops block 0 BLOCK_SZ (pure_modify (\<lambda>bytes.
             bind_res (slice_res write_size block_write_size buf) (\<lambda>src.
             bind_res (slice_res (start mod BLOCK_SZ) block_write_size bytes) (\<lambda>_.
               Inr ((), copy_into (start mod BLOCK_SZ) src bytes)))))) s of
        Inl e \<Rightarrow> Inl e
      | Inr (_, s') \<Rightarrow>
          if end_current_block = stop then Inr (write_size + block_write_size, s')
          else di_write_loop ops di stop end_current_block (start_block + 1) (write_size + block_write_size) buf s')"
  by pat_completeness auto
termination
proof (relation "measure (\<lambda>(_, _, stop, start, _, _, _, _). stop - start)", goal_cases)
  case (2 ops di stop start start_block write_size buf s)
  then show ?case using block_end_progress [of start stop] by auto
qed simp

declare di_write_loop.simps [simp del]

definition di_write_at :: "'s block_ops \<Rightarrow> disk_inode \<Rightarrow> nat \<Rightarrow> byte list \<Rightarrow> ('s, nat) io" where
  "di_write_at ops di offset buf =
     bind_io (lift_io (add_res usize_bound offset (length buf))) (\<lambda>e.
     let stop = min e (di_size di) in
     bind_io (lift_io (assert_res (offset \<le> stop))) (\<lambda>_.
       di_write_loop ops di stop offset (offset div BLOCK_SZ) 0 buf))"

section \<open>Directory entries\<close>

record dir_entry =
  de_name :: "byte list"
  inode_number :: nat

definition dirent_empty :: dir_entry where
  "dirent_empty = \<lparr>de_name = replicate (NAME_LENGTH_LIMIT + 1) 0, inode_number = 0\<rparr>"

definition dirent_new :: "byte list \<Rightarrow> nat \<Rightarrow> dir_entry res" where
  "dirent_new name n =
     bind_res (slice_res 0 (length name) (replicate (NAME_LENGTH_LIMIT + 1) 0)) (\<lambda>_ :: byte list.
       Inr \<lparr>de_name = copy_into 0 name (replicate (NAME_LENGTH_LIMIT + 1) 0), inode_number = n\<rparr>)"

definition dirent_bytes :: "dir_entry \<Rightarrow> byte list" where
  "dirent_bytes d = de_name d @ le_bytes 4 (inode_number d)"

definition dirent_of :: "byte list \<Rightarrow> dir_entry" where
  "dirent_of bytes = \<lparr>de_name = take (NAME_LENGTH_LIMIT + 1) bytes, inode_number = le_nat (drop (NAME_LENGTH_LIMIT + 1) bytes)\<rparr>"

text \<open>\<^verbatim>\<open>(0..).find(|i| self.name[*i] == 0)\<close> runs out of the array when no byte is zero.\<close>

definition dirent_name :: "dir_entry \<Rightarrow> byte list res" where
  "dirent_name d =
     (case find_index (\<lambda>b. b = 0) (de_name d) of
        None \<Rightarrow> Inl IndexOutOfBounds
      | Some len \<Rightarrow> if valid_utf8 (take len (de_name d)) then Inr (take len (de_name d)) else Inl UnwrapNone)"

end
