(* ===== verification/Easy_Fs.thy ===== *)
theory Easy_Fs
  imports Disk_Layout
begin

text \<open>
  The file system object (\<^verbatim>\<open>efs.rs\<close>): formatting a device, opening it, the positions of inodes and data blocks, and
  the allocation of both. The object itself never changes after \<^verbatim>\<open>create\<close> or \<^verbatim>\<open>open\<close>, the bitmaps live on the device; its
  mutex is taken at most once by every operation of \<^verbatim>\<open>vfs.rs\<close> and is not part of the state.
\<close>

record easy_fs =
  inode_bitmap :: bitmap
  data_bitmap :: bitmap
  inode_area_start_block :: nat
  data_area_start_block :: nat

abbreviation INODES_PER_BLOCK :: nat where "INODES_PER_BLOCK \<equiv> 3"

text \<open>A closure on a disk inode as a closure on its bytes.\<close>

definition on_disk_inode :: "(disk_inode \<Rightarrow> ('s, 'a \<times> disk_inode) io) \<Rightarrow> byte list \<Rightarrow> ('s, 'a \<times> byte list) io" where
  "on_disk_inode f bytes =
     bind_io (lift_io (disk_inode_of bytes)) (\<lambda>di.
     bind_io (f di) (\<lambda>(a, di'). return_io (a, disk_inode_bytes di')))"

definition get_disk_inode_pos :: "easy_fs \<Rightarrow> nat \<Rightarrow> (nat \<times> nat) res" where
  "get_disk_inode_pos fs inode_id =
     bind_res (add_res u32_bound (inode_area_start_block fs) (inode_id div INODES_PER_BLOCK)) (\<lambda>block_id.
       Inr (block_id, inode_id mod INODES_PER_BLOCK * DISK_INODE_SZ))"

definition get_data_block_id :: "easy_fs \<Rightarrow> nat \<Rightarrow> nat res" where
  "get_data_block_id fs data_block_id = add_res u32_bound (data_area_start_block fs) data_block_id"

definition alloc_inode :: "'s block_ops \<Rightarrow> easy_fs \<Rightarrow> ('s, nat) io" where
  "alloc_inode ops fs =
     bind_io (bitmap_alloc ops (inode_bitmap fs)) (\<lambda>v.
     bind_io (lift_io (unwrap v)) (\<lambda>n. return_io (as_u32 n)))"

definition alloc_data :: "'s block_ops \<Rightarrow> easy_fs \<Rightarrow> ('s, nat) io" where
  "alloc_data ops fs =
     bind_io (bitmap_alloc ops (data_bitmap fs)) (\<lambda>v.
     bind_io (lift_io (unwrap v)) (\<lambda>n.
       lift_io (add_res u32_bound (as_u32 n) (data_area_start_block fs))))"

text \<open>Clearing a block byte by byte.\<close>

definition zero_block :: "'s block_ops \<Rightarrow> nat \<Rightarrow> ('s, unit) io" where
  "zero_block ops block_id = bc_modify ops block_id 0 BLOCK_SZ (pure_modify (\<lambda>bytes. Inr ((), map (\<lambda>_. 0) bytes)))"

definition dealloc_data :: "'s block_ops \<Rightarrow> easy_fs \<Rightarrow> nat \<Rightarrow> ('s, unit) io" where
  "dealloc_data ops fs block_id =
     bind_io (zero_block ops block_id) (\<lambda>_.
     bind_io (lift_io (sub_res block_id (data_area_start_block fs))) (\<lambda>n.
       bitmap_dealloc ops (data_bitmap fs) n))"

definition efs_get_inode_id :: "easy_fs \<Rightarrow> nat \<Rightarrow> nat \<Rightarrow> nat res" where
  "efs_get_inode_id fs block_id block_offset =
     bind_res (sub_res (as_u32 block_id) (inode_area_start_block fs)) (\<lambda>d.
       add_res u32_bound (d * INODES_PER_BLOCK) (as_u32 (block_offset div DISK_INODE_SZ)))"

fun zero_blocks :: "'s block_ops \<Rightarrow> nat list \<Rightarrow> ('s, unit) io" where
  "zero_blocks ops [] = return_io ()"
| "zero_blocks ops (i # is) = bind_io (zero_block ops i) (\<lambda>_. zero_blocks ops is)"

text \<open>
  The sizes of the areas. The subtractions of \<^verbatim>\<open>create\<close> are checked; once they have succeeded, the
  other sums are at most \<^verbatim>\<open>total_blocks\<close>.
\<close>

definition efs_layout :: "nat \<Rightarrow> nat \<Rightarrow> (nat \<times> nat \<times> nat) res" where
  "efs_layout n_blocks n_inode_bitmap =
     (let inode_num = bitmap_maximum (bitmap_new 1 n_inode_bitmap);
          n_inode_area = as_u32 (div_ceil (inode_num * DISK_INODE_SZ) BLOCK_SZ) in
      bind_res (add_res u32_bound n_inode_bitmap n_inode_area) (\<lambda>inode_total_blocks.
      bind_res (sub_res n_blocks 1) (\<lambda>t.
      bind_res (sub_res t inode_total_blocks) (\<lambda>data_total_blocks.
      let n_data_bitmap = div_ceil data_total_blocks 4097 in
        Inr (n_inode_area, n_data_bitmap, data_total_blocks - n_data_bitmap)))))"

definition efs_object :: "nat \<Rightarrow> nat \<Rightarrow> nat \<Rightarrow> easy_fs" where
  "efs_object n_inode_bitmap n_inode_area n_data_bitmap =
     \<lparr>inode_bitmap = bitmap_new 1 n_inode_bitmap,
      data_bitmap = bitmap_new (1 + n_inode_bitmap + n_inode_area) n_data_bitmap,
      inode_area_start_block = 1 + n_inode_bitmap,
      data_area_start_block = 1 + (n_inode_bitmap + n_inode_area) + n_data_bitmap\<rparr>"

definition init_inode_at :: "'s block_ops \<Rightarrow> easy_fs \<Rightarrow> nat \<Rightarrow> disk_inode_type \<Rightarrow> ('s, unit) io" where
  "init_inode_at ops fs inode_id t =
     bind_io (lift_io (get_disk_inode_pos fs inode_id)) (\<lambda>(block_id, offset).
       bc_modify ops block_id offset DISK_INODE_SZ (on_disk_inode (\<lambda>di. return_io ((), di_initialize t di))))"

definition efs_create :: "'s block_ops \<Rightarrow> nat \<Rightarrow> nat \<Rightarrow> ('s, easy_fs) io" where
  "efs_create ops n_blocks n_inode_bitmap =
     bind_io (lift_io (efs_layout n_blocks n_inode_bitmap)) (\<lambda>(n_inode_area, n_data_bitmap, n_data_area).
     let fs = efs_object n_inode_bitmap n_inode_area n_data_bitmap in
     bind_io (zero_blocks ops [0..<n_blocks]) (\<lambda>_.
     bind_io (bc_modify ops 0 0 SUPER_BLOCK_SZ (pure_modify (\<lambda>_.
         Inr ((), super_block_bytes
           (sb_initialize n_blocks n_inode_bitmap n_inode_area n_data_bitmap n_data_area))))) (\<lambda>_.
     bind_io (alloc_inode ops fs) (\<lambda>root.
     bind_io (lift_io (assert_res (root = 0))) (\<lambda>_.
     bind_io (init_inode_at ops fs 0 Directory) (\<lambda>_.
     bind_io (sync_all ops) (\<lambda>_. return_io fs)))))))"

text \<open>The closure of \<^verbatim>\<open>open\<close> on the super block.\<close>

definition efs_of_super_block :: "byte list \<Rightarrow> easy_fs res" where
  "efs_of_super_block bytes =
     (let sb = super_block_of bytes in
       bind_res (assert_res (sb_is_valid sb)) (\<lambda>_.
       bind_res (add_res u32_bound (inode_bitmap_blocks sb) (inode_area_blocks sb)) (\<lambda>inode_total_blocks.
       bind_res (add_res u32_bound 1 inode_total_blocks) (\<lambda>data_bitmap_start.
       bind_res (add_res u32_bound 1 (inode_bitmap_blocks sb)) (\<lambda>inode_area_start.
       bind_res (add_res u32_bound data_bitmap_start (data_bitmap_blocks sb)) (\<lambda>data_area_start.
         Inr \<lparr>inode_bitmap = bitmap_new 1 (inode_bitmap_blocks sb),
           data_bitmap = bitmap_new data_bitmap_start (data_bitmap_blocks sb),
           inode_area_start_block = inode_area_start,
           data_area_start_block = data_area_start\<rparr>))))))"

definition efs_open :: "'s block_ops \<Rightarrow> ('s, easy_fs) io" where
  "efs_open ops = bc_read ops 0 0 SUPER_BLOCK_SZ (pure_read efs_of_super_block)"

end
