(* ===== verification/Layout_Codec.thy ===== *)
theory Layout_Codec
  imports Disk_Layout
begin

text \<open>
  The encodings of the on-disk structures are inverse to their decodings: super blocks, disk inodes and
  directory entries come back as they were written, and the bytes of a value are those it was read from. The last
  part says which names a directory entry can hold.
\<close>

section \<open>Super blocks and inodes\<close>

definition sb_wf :: "super_block \<Rightarrow> bool" where
  "sb_wf sb \<longleftrightarrow> list_all (\<lambda>n. n < u32_bound) [magic sb, sb_total_blocks sb, inode_bitmap_blocks sb, inode_area_blocks sb,
     data_bitmap_blocks sb, data_area_blocks sb]"

definition di_wf :: "disk_inode \<Rightarrow> bool" where
  "di_wf di \<longleftrightarrow> length (direct di) = INODE_DIRECT_COUNT \<and> length (di_padding di) = 3 \<and> link_num di < u32_bound \<and>
     list_all (\<lambda>n. n < u32_bound) (di_size di # direct di @ [indirect1 di, indirect2 di])"

lemma length_super_block_bytes [simp]: "length (super_block_bytes sb) = SUPER_BLOCK_SZ"
  by (simp add: super_block_bytes_def)

lemma super_block_round_trip: "sb_wf sb \<Longrightarrow> super_block_of (super_block_bytes sb) = sb"
  by (simp add: super_block_of_def super_block_bytes_def sb_wf_def u32s_u32_bytes)

lemma length_disk_inode_bytes [simp]: "di_wf di \<Longrightarrow> length (disk_inode_bytes di) = DISK_INODE_SZ"
  by (simp add: di_wf_def disk_inode_bytes_def)

lemma disk_inode_round_trip:
  assumes "di_wf di"
  shows "disk_inode_of (disk_inode_bytes di) = Inr di"
proof -
  let ?f = "di_size di # direct di @ [indirect1 di, indirect2 di]"
  have l: "length (u32_bytes ?f) = 124" using assms by (simp add: di_wf_def)
  have "u32s (u32_bytes ?f) = ?f" using assms by (intro u32s_u32_bytes) (simp add: di_wf_def list_all_iff)
  then have "u32s (take 124 (disk_inode_bytes di)) = ?f" using l by (simp add: disk_inode_bytes_def)
  moreover have "disk_inode_bytes di ! 124 = (case di_type di of File \<Rightarrow> 0 | Directory \<Rightarrow> 1)"
    using l by (simp add: disk_inode_bytes_def nth_append)
  moreover have "slice_of 125 3 (disk_inode_bytes di) = di_padding di"
    "slice_of 128 4 (disk_inode_bytes di) = le_bytes 4 (link_num di)"
    using l assms by (simp_all add: disk_inode_bytes_def slice_of_def di_wf_def)
  moreover have "slice_of 1 INODE_DIRECT_COUNT ?f = direct di" "?f ! 29 = indirect1 di" "?f ! 30 = indirect2 di"
    using assms by (simp_all add: slice_of_def di_wf_def nth_append)
  ultimately show ?thesis
    using assms unfolding disk_inode_of_def by (cases "di_type di") (simp_all add: di_wf_def)
qed

lemma disk_inode_of_wf:
  assumes "length bytes = DISK_INODE_SZ" "disk_inode_of bytes = Inr di"
  shows "di_wf di" "disk_inode_bytes di = bytes"
proof -
  define f where "f = u32s (take 124 bytes)"
  have f: "length f = 31" "\<forall>n \<in> set f. n < u32_bound" using assms(1) u32s_less by (auto simp: f_def)
  have split: "f = f ! 0 # slice_of 1 28 f @ [f ! 29, f ! 30]"
  proof (rule nth_equalityI)
    show "f ! i = (f ! 0 # slice_of 1 28 f @ [f ! 29, f ! 30]) ! i" if "i < length f" for i
    proof -
      consider "i = 0" | j where "i = Suc j" "j < 28" | "i = 29" | "i = 30" using \<open>i < length f\<close> f(1) by (cases i) force+
      then show ?thesis using f(1) by cases (simp_all add: nth_append slice_of_def)
    qed
  qed (use f(1) in simp)
  have t: "unat (bytes ! 124) \<le> 1" using assms(2) by (auto simp: disk_inode_of_def Let_def split: if_splits)
  then have di: "di = \<lparr>di_size = f ! 0, direct = slice_of 1 INODE_DIRECT_COUNT f, indirect1 = f ! 29, indirect2 = f ! 30,
        di_type = (if unat (bytes ! 124) = 0 then File else Directory), di_padding = slice_of 125 3 bytes,
        link_num = le_nat (slice_of 128 4 bytes)\<rparr>"
    using assms(2) by (simp add: disk_inode_of_def f_def Let_def)
  have l4: "length (slice_of 128 4 bytes) = 4" using assms(1) by simp
  have fl: "x < u32_bound" if "x \<in> set (f ! 0 # slice_of 1 28 f @ [f ! 29, f ! 30])" for x
    using f(2) that by (subst (asm) split [symmetric]) blast
  show "di_wf di"
    using assms(1) f(1) le_nat_4_less [OF l4] fl by (simp add: di_wf_def di list_all_iff)
  have "u32_bytes f = take 124 bytes" unfolding f_def using assms(1) by (intro u32_bytes_u32s) simp
  then have "u32_bytes (f ! 0 # slice_of 1 28 f @ [f ! 29, f ! 30]) = take 124 bytes" using split by simp
  moreover have "(case di_type di of File \<Rightarrow> 0 | Directory \<Rightarrow> 1) = bytes ! 124"
  proof -
    have "bytes ! 124 = (if unat (bytes ! 124) = 0 then 0 else 1)"
      by (rule unsigned_word_eqI [where 'a = nat]) (use t in auto)
    then show ?thesis by (simp add: di split: if_splits)
  qed
  moreover have "le_bytes 4 (le_nat (slice_of 128 4 bytes)) = slice_of 128 4 bytes" using l4 by (rule le_bytes_le_nat)
  moreover have "take 124 bytes @ [bytes ! 124] @ slice_of 125 3 bytes @ slice_of 128 4 bytes = bytes"
  proof -
    have "[bytes ! 124] = slice_of 124 1 bytes" using assms(1) by (simp add: slice_of_def take_Suc_conv_app_nth)
    then show ?thesis using assms(1) by (simp add: take_slice flip: append_assoc)
  qed
  ultimately show "disk_inode_bytes di = bytes" by (simp add: disk_inode_bytes_def di)
qed

section \<open>Directory entries\<close>

text \<open>Names of at most 28 bytes fit into an entry, names of at most 27 bytes can be read back.\<close>

lemma dirent_new_eq:
  "dirent_new name n =
     (if length name \<le> NAME_LENGTH_LIMIT + 1
      then Inr \<lparr>de_name = name @ replicate (NAME_LENGTH_LIMIT + 1 - length name) 0, inode_number = n\<rparr>
      else Inl IndexOutOfBounds)"
  by (simp add: dirent_new_def slice_res_def copy_into_def)

definition dirent_wf :: "dir_entry \<Rightarrow> bool" where
  "dirent_wf d \<longleftrightarrow> length (de_name d) = NAME_LENGTH_LIMIT + 1 \<and> inode_number d < u32_bound"

lemma length_dirent_bytes [simp]: "dirent_wf d \<Longrightarrow> length (dirent_bytes d) = DIRENT_SZ"
  by (simp add: dirent_bytes_def dirent_wf_def)

lemma dirent_round_trip: "dirent_wf d \<Longrightarrow> dirent_of (dirent_bytes d) = d"
  by (simp add: dirent_of_def dirent_bytes_def dirent_wf_def)

lemma dirent_of_wf:
  assumes "length bytes = DIRENT_SZ"
  shows "dirent_wf (dirent_of bytes)" "dirent_bytes (dirent_of bytes) = bytes"
  using assms le_nat_4_less [of "drop 28 bytes"] le_bytes_le_nat [of "drop 28 bytes" 4]
  by (simp_all add: dirent_of_def dirent_wf_def dirent_bytes_def)

lemma dirent_empty_wf [simp]: "dirent_wf dirent_empty"
  by (simp add: dirent_empty_def dirent_wf_def)

text \<open>A name that can be stored and read back.\<close>

definition name_ok :: "byte list \<Rightarrow> bool" where
  "name_ok name \<longleftrightarrow> length name \<le> NAME_LENGTH_LIMIT \<and> 0 \<notin> set name \<and> valid_utf8 name"

lemma find_index_padded: "0 \<notin> set xs \<Longrightarrow> 0 < k \<Longrightarrow> find_index (\<lambda>b. b = 0) (xs @ replicate k (0 :: byte)) = Some (length xs)"
  by (auto simp: find_index_Some_iff nth_append in_set_conv_nth)

lemma dirent_name_new:
  assumes "name_ok name" "n < u32_bound"
  obtains d where "dirent_new name n = Inr d" "dirent_wf d" "dirent_name d = Inr name" "inode_number d = n"
proof -
  let ?d = "\<lparr>de_name = name @ replicate (NAME_LENGTH_LIMIT + 1 - length name) 0, inode_number = n\<rparr>"
  have "find_index (\<lambda>b. b = 0) (de_name ?d) = Some (length name)"
    using assms(1) find_index_padded [of name "NAME_LENGTH_LIMIT + 1 - length name"] by (simp add: name_ok_def)
  then have "dirent_name ?d = Inr name" using assms(1) by (simp add: dirent_name_def name_ok_def)
  then show ?thesis using that [of ?d] assms by (simp add: dirent_new_eq name_ok_def dirent_wf_def)
qed

lemma dirent_name_empty: "dirent_name dirent_empty = Inr []"
  by (simp add: dirent_name_def dirent_empty_def numeral_eq_Suc)

lemma dirent_name_28_bytes:
  assumes "length name = NAME_LENGTH_LIMIT + 1" "0 \<notin> set name"
  shows "\<exists>d. dirent_new name n = Inr d \<and> dirent_name d = Inl IndexOutOfBounds"
proof -
  have "find_index (\<lambda>b. b = 0) name = None" using assms(2) by auto
  then show ?thesis using assms(1) by (simp add: dirent_new_eq dirent_name_def del: find_index_None)
qed

end
