(* ===== verification/File_Blocks.thy ===== *)
theory File_Blocks
  imports Layout_Codec
begin

text \<open>
  The blocks of a file. \<open>owned v di\<close> lists all blocks that belong to the inode \<open>di\<close>, data and index blocks, in the order in
  which they are allocated; \<open>file_blocks v di\<close> are the data blocks among them. \<^verbatim>\<open>get_block_id\<close> looks up a data block,
  \<^verbatim>\<open>increase_size\<close> appends exactly the given new blocks to the list, and \<^verbatim>\<open>clear_size\<close> returns it.
\<close>

section \<open>The list of owned blocks\<close>

text \<open>The \<open>l\<close>th block below the doubly indirect block, preceded by its index block if it is the first one there.\<close>

definition sub_at :: "(nat \<Rightarrow> byte list) \<Rightarrow> nat list \<Rightarrow> nat \<Rightarrow> nat" where
  "sub_at v slots l = u32s (v (slots ! (l div INODE_INDIRECT1_COUNT))) ! (l mod INODE_INDIRECT1_COUNT)"

definition sub_step :: "(nat \<Rightarrow> byte list) \<Rightarrow> nat list \<Rightarrow> nat \<Rightarrow> nat list" where
  "sub_step v slots l =
     (if l mod INODE_INDIRECT1_COUNT = 0 then [slots ! (l div INODE_INDIRECT1_COUNT)] else []) @ [sub_at v slots l]"

definition sub_upto :: "(nat \<Rightarrow> byte list) \<Rightarrow> nat list \<Rightarrow> nat \<Rightarrow> nat list" where
  "sub_upto v slots m = concat (map (sub_step v slots) [0..<m])"

definition block_at :: "(nat \<Rightarrow> byte list) \<Rightarrow> disk_inode \<Rightarrow> nat \<Rightarrow> nat" where
  "block_at v di i =
     (if i < INODE_DIRECT_COUNT then direct di ! i
      else if i < INDIRECT1_BOUND then u32s (v (indirect1 di)) ! (i - INODE_DIRECT_COUNT)
      else sub_at v (u32s (v (indirect2 di))) (i - INDIRECT1_BOUND))"

definition index_at :: "(nat \<Rightarrow> byte list) \<Rightarrow> disk_inode \<Rightarrow> nat \<Rightarrow> nat list" where
  "index_at v di i =
     (if i = INODE_DIRECT_COUNT then [indirect1 di] else []) @
     (if i = INDIRECT1_BOUND then [indirect2 di] else []) @
     (if INDIRECT1_BOUND \<le> i \<and> (i - INDIRECT1_BOUND) mod INODE_INDIRECT1_COUNT = 0
      then [u32s (v (indirect2 di)) ! ((i - INDIRECT1_BOUND) div INODE_INDIRECT1_COUNT)] else [])"

definition owned_upto :: "(nat \<Rightarrow> byte list) \<Rightarrow> disk_inode \<Rightarrow> nat \<Rightarrow> nat list" where
  "owned_upto v di n = concat (map (\<lambda>i. index_at v di i @ [block_at v di i]) [0..<n])"

definition owned :: "(nat \<Rightarrow> byte list) \<Rightarrow> disk_inode \<Rightarrow> nat list" where
  "owned v di = owned_upto v di (data_blocks di)"

definition file_blocks :: "(nat \<Rightarrow> byte list) \<Rightarrow> disk_inode \<Rightarrow> nat list" where
  "file_blocks v di = map (block_at v di) [0..<data_blocks di]"

definition index_blocks :: "(nat \<Rightarrow> byte list) \<Rightarrow> disk_inode \<Rightarrow> nat \<Rightarrow> nat list" where
  "index_blocks v di n = concat (map (index_at v di) [0..<n])"

lemma div_ceil_0 [simp]: "div_ceil 0 c = 0"
  by (simp add: div_ceil_def)

lemma div_ceil_Suc: "0 < c \<Longrightarrow> div_ceil (Suc m) c = Suc (m div c)"
  by (auto simp: div_ceil_def div_Suc)

lemma div_ceil_le_iff: "0 < c \<Longrightarrow> div_ceil m c \<le> k \<longleftrightarrow> m \<le> k * c"
proof (cases m)
  case 0
  then show ?thesis by (simp add: div_ceil_def)
next
  case (Suc m')
  assume "0 < c"
  then show ?thesis using Suc div_less_iff_less_mult [of c m' k] by (simp add: div_ceil_Suc Suc_le_eq)
qed

lemma owned_simps [simp]:
  "owned_upto v di 0 = []" "owned_upto v di (Suc n) = owned_upto v di n @ index_at v di n @ [block_at v di n]"
  "index_blocks v di 0 = []" "index_blocks v di (Suc n) = index_blocks v di n @ index_at v di n"
  "sub_upto v slots 0 = []" "sub_upto v slots (Suc n) = sub_upto v slots n @ sub_step v slots n"
  by (simp_all add: owned_upto_def index_blocks_def sub_upto_def)

lemma mset_owned_upto: "mset (owned_upto v di n) = mset (index_blocks v di n) + mset (map (block_at v di) [0..<n])"
  by (induction n) auto

lemma set_owned_upto: "set (owned_upto v di n) = set (index_blocks v di n) \<union> block_at v di ` {..<n}"
  using arg_cong [OF mset_owned_upto [of v di n], of set_mset] by (simp add: atLeast0LessThan)

lemma mset_owned: "mset (owned v di) = mset (index_blocks v di (data_blocks di)) + mset (file_blocks v di)"
  by (simp add: owned_def file_blocks_def mset_owned_upto)

lemma set_owned: "set (owned v di) = set (index_blocks v di (data_blocks di)) \<union> set (file_blocks v di)"
  using mset_owned [of v di] by (metis mset_append set_append set_mset_mset)

lemma distinct_owned:
  assumes "distinct (owned v di)"
  shows "distinct (file_blocks v di)" "set (index_blocks v di (data_blocks di)) \<inter> set (file_blocks v di) = {}"
    "distinct (index_blocks v di (data_blocks di))"
proof -
  have "distinct (index_blocks v di (data_blocks di) @ file_blocks v di)"
    using assms mset_owned [of v di] by (metis mset_append mset_eq_imp_distinct_iff)
  then show "distinct (file_blocks v di)" "set (index_blocks v di (data_blocks di)) \<inter> set (file_blocks v di) = {}"
    "distinct (index_blocks v di (data_blocks di))" by auto
qed

text \<open>The sizes agree with \<^verbatim>\<open>total_blocks\<close>.\<close>

definition owned_length :: "nat \<Rightarrow> nat" where
  "owned_length n =
     n + (if n > INODE_DIRECT_COUNT then 1 else 0) +
     (if n > INDIRECT1_BOUND then 1 + div_ceil (n - INDIRECT1_BOUND) INODE_INDIRECT1_COUNT else 0)"

lemma length_owned_upto: "length (owned_upto v di n) = owned_length n"
proof (induction n)
  case (Suc n)
  have "div_ceil (Suc n - INDIRECT1_BOUND) INODE_INDIRECT1_COUNT =
      (if n < INDIRECT1_BOUND then 0 else Suc ((n - INDIRECT1_BOUND) div INODE_INDIRECT1_COUNT))"
  proof (cases "n < INDIRECT1_BOUND")
    case True
    then have "Suc n - INDIRECT1_BOUND = 0" by simp
    then show ?thesis using True by (simp add: div_ceil_def)
  next
    case False
    then have "Suc n - INDIRECT1_BOUND = Suc (n - INDIRECT1_BOUND)" by simp
    then show ?thesis using False div_ceil_Suc [of INODE_INDIRECT1_COUNT "n - INDIRECT1_BOUND"] by simp
  qed
  then show ?case using Suc by (auto simp: owned_length_def index_at_def div_ceil_def)
qed (simp add: owned_length_def)

lemma length_owned: "length (owned v di) = owned_length (data_blocks di)"
  by (simp add: owned_def length_owned_upto)

lemma total_blocks_owned: "data_blocks_of n \<le> INDIRECT2_BOUND \<Longrightarrow> total_blocks n = owned_length (data_blocks_of n)"
proof -
  assume n: "data_blocks_of n \<le> INDIRECT2_BOUND"
  have "div_ceil (data_blocks_of n - INDIRECT1_BOUND) INODE_INDIRECT1_COUNT \<le> 128" using n by (simp add: div_ceil_le_iff)
  then have "owned_length (data_blocks_of n) < u32_bound" using n by (simp add: owned_length_def)
  then show ?thesis by (simp add: total_blocks_def owned_length_def Let_def split: if_splits)
qed

lemma owned_upto_split:
  "n \<le> m \<Longrightarrow> owned_upto v di m = owned_upto v di n @ concat (map (\<lambda>i. index_at v di i @ [block_at v di i]) [n..<m])"
  unfolding owned_upto_def by (metis (no_types, lifting) concat_append map_append upt_add_eq_append le_add_diff_inverse zero_le)

lemma owned_upto_cong:
  assumes "\<And>i. i < n \<Longrightarrow> block_at v di i = block_at v' di' i" "\<And>i. i < n \<Longrightarrow> index_at v di i = index_at v' di' i"
  shows "owned_upto v di n = owned_upto v' di' n"
  unfolding owned_upto_def using assms by (intro arg_cong [where f = concat]) (auto intro!: map_cong)

lemma length_owned_mono: "n \<le> m \<Longrightarrow> owned_length n \<le> owned_length m"
  using arg_cong [OF owned_upto_split [of n m "\<lambda>_. []" undefined], of length] by (simp add: length_owned_upto)

text \<open>The blocks above the doubly indirect one, and those below it.\<close>

lemma owned_upto_sub:
  "owned_upto v di (INDIRECT1_BOUND + m) =
   owned_upto v di INDIRECT1_BOUND @ (if m = 0 then [] else indirect2 di # sub_upto v (u32s (v (indirect2 di))) m)"
proof (induction m)
  case (Suc m)
  have "index_at v di (INDIRECT1_BOUND + m) @ [block_at v di (INDIRECT1_BOUND + m)] =
      (if m = 0 then [indirect2 di] else []) @ sub_step v (u32s (v (indirect2 di))) m"
    by (simp add: index_at_def block_at_def sub_step_def)
  then have "owned_upto v di (Suc (INDIRECT1_BOUND + m)) =
      owned_upto v di (INDIRECT1_BOUND + m) @ (if m = 0 then [indirect2 di] else []) @ sub_step v (u32s (v (indirect2 di))) m"
    by (simp only: owned_simps)
  then show ?case unfolding Suc add_Suc_right by simp
qed simp

section \<open>Looking up a block\<close>

text \<open>What holds of a well-formed inode of the supported size.\<close>

definition di_ok :: "disk_inode \<Rightarrow> bool" where
  "di_ok di \<longleftrightarrow> di_wf di \<and> data_blocks di \<le> INDIRECT2_BOUND"

lemma index_at_members:
  assumes "i < n"
  shows "INODE_DIRECT_COUNT \<le> i \<Longrightarrow> indirect1 di \<in> set (index_blocks v di n)"
    and "INDIRECT1_BOUND \<le> i \<Longrightarrow> indirect2 di \<in> set (index_blocks v di n)"
    and "INDIRECT1_BOUND \<le> i \<Longrightarrow>
      u32s (v (indirect2 di)) ! ((i - INDIRECT1_BOUND) div INODE_INDIRECT1_COUNT) \<in> set (index_blocks v di n)"
proof -
  have mem: "b \<in> set (index_blocks v di n)" if "b \<in> set (index_at v di j)" "j < n" for b j
    using that by (auto simp: index_blocks_def)
  show "INODE_DIRECT_COUNT \<le> i \<Longrightarrow> indirect1 di \<in> set (index_blocks v di n)"
    using assms by (intro mem [of _ INODE_DIRECT_COUNT]) (simp_all add: index_at_def)
  show "INDIRECT1_BOUND \<le> i \<Longrightarrow> indirect2 di \<in> set (index_blocks v di n)"
    using assms by (intro mem [of _ INDIRECT1_BOUND]) (simp_all add: index_at_def)
  let ?j = "INDIRECT1_BOUND + (i - INDIRECT1_BOUND) div INODE_INDIRECT1_COUNT * INODE_INDIRECT1_COUNT"
  have "?j \<le> i" if "INDIRECT1_BOUND \<le> i" using that div_times_less_eq_dividend [of "i - INDIRECT1_BOUND"] by linarith
  then show "u32s (v (indirect2 di)) ! ((i - INDIRECT1_BOUND) div INODE_INDIRECT1_COUNT) \<in> set (index_blocks v di n)"
    if "INDIRECT1_BOUND \<le> i"
    using assms that by (intro mem [of _ ?j]) (simp_all add: index_at_def)
qed

context block_store
begin

lemma length_u32s_view: "ok s \<Longrightarrow> length (u32s (view s b)) = INODE_INDIRECT1_COUNT"
  using block_length [of s b] by simp

lemma returns_get_block_id:
  assumes s: "ok s" "length (locked s) < BLOCK_CACHE_SIZE"
    and di: "length (direct di) = INODE_DIRECT_COUNT" "i < n" "n \<le> INDIRECT2_BOUND"
    and free: "set (index_blocks (view s) di n) \<inter> set (locked s) = {}"
  shows "returns (get_block_id ops di i) s (block_at (view s) di i) (view s)"
proof -
  consider "i < INODE_DIRECT_COUNT" | "INODE_DIRECT_COUNT \<le> i" "i < INDIRECT1_BOUND" | "INDIRECT1_BOUND \<le> i" by linarith
  then show ?thesis
  proof cases
    case 1
    then show ?thesis using s di by (auto simp: get_block_id_def block_at_def intro!: returns_lift)
  next
    case 2
    then have "indirect1 di \<notin> set (locked s)" using free index_at_members(1) [OF di(2)] by blast
    then have "returns (bc_read ops (indirect1 di) 0 BLOCK_SZ (pure_read (\<lambda>bytes. index_res (u32s bytes) (i - INODE_DIRECT_COUNT))))
        s (u32s (view s (indirect1 di)) ! (i - INODE_DIRECT_COUNT)) (view s)"
      using s 2 by (intro returns_block_read) (simp_all add: block_length)
    then show ?thesis using 2 by (simp add: get_block_id_def block_at_def)
  next
    case 3
    let ?l = "i - INDIRECT1_BOUND"
    let ?sub = "u32s (view s (indirect2 di)) ! (?l div INODE_INDIRECT1_COUNT)"
    have "?l div INODE_INDIRECT1_COUNT < 128" using di(2,3) by (simp add: div_less_iff_less_mult)
    moreover have nl: "indirect2 di \<notin> set (locked s)" "?sub \<notin> set (locked s)"
      using free index_at_members(2,3) [OF di(2) 3] by blast+
    ultimately have "returns (bc_read ops (indirect2 di) 0 BLOCK_SZ
        (pure_read (\<lambda>bytes. index_res (u32s bytes) (?l div INODE_INDIRECT1_COUNT)))) s ?sub (view s)"
      using s by (intro returns_block_read) (simp_all add: block_length)
    moreover have "returns (bc_read ops ?sub 0 BLOCK_SZ (pure_read (\<lambda>bytes. index_res (u32s bytes) (?l mod INODE_INDIRECT1_COUNT))))
        s' (sub_at (view s) (u32s (view s (indirect2 di))) ?l) (view s)"
      if "ok s'" "view s' = view s" "locked s' = locked s" for s'
      using that s nl returns_block_read [of s' ?sub "\<lambda>bytes. index_res (u32s bytes) (?l mod INODE_INDIRECT1_COUNT)"]
      by (simp add: block_length sub_at_def)
    ultimately have "returns (bind_io (bc_read ops (indirect2 di) 0 BLOCK_SZ
            (pure_read (\<lambda>bytes. index_res (u32s bytes) (?l div INODE_INDIRECT1_COUNT)))) (\<lambda>indirect1.
        bc_read ops indirect1 0 BLOCK_SZ (pure_read (\<lambda>bytes. index_res (u32s bytes) (?l mod INODE_INDIRECT1_COUNT)))))
        s (sub_at (view s) (u32s (view s (indirect2 di))) ?l) (view s)"
      by (rule returns_bind)
    then show ?thesis using 3 by (simp add: get_block_id_def block_at_def Let_def)
  qed
qed

end

end
