(* ===== verification/File_Growth.thy ===== *)
theory File_Growth
  imports File_Blocks
begin

text \<open>
  Growing a file. \<^verbatim>\<open>increase_size\<close> with the right number of fresh blocks appends exactly these blocks to the
  blocks of the inode and touches no other block than index blocks.
\<close>

section \<open>The loops\<close>

lemma fill_slots_done [simp]: "limit \<le> current \<Longrightarrow> fill_slots current limit slots new = Inr (current, slots, new)"
  by (simp add: fill_slots.simps)

lemma fill_slots_eq:
  "current \<le> limit \<Longrightarrow> limit \<le> length slots \<Longrightarrow> limit - current \<le> length new \<Longrightarrow>
   fill_slots current limit slots new =
     Inr (limit, take current slots @ take (limit - current) new @ drop limit slots, drop (limit - current) new)"
proof (induction "limit - current" arbitrary: current slots new)
  case (Suc k)
  then obtain b rest where new: "new = b # rest" by (cases new) auto
  have k: "limit - current = Suc (limit - Suc current)" using Suc.hyps(2) by simp
  have c: "current < limit" "current < length slots" using Suc.hyps(2) Suc.prems by simp_all
  have "fill_slots current limit slots new = fill_slots (Suc current) limit (slots[current := b]) rest"
    using Suc.hyps(2) Suc.prems new by (subst fill_slots.simps) simp
  also have "\<dots> = Inr (limit, take (Suc current) (slots[current := b]) @ take (limit - Suc current) rest @ drop limit (slots[current := b]),
      drop (limit - Suc current) rest)"
    using Suc new by (intro Suc.hyps(1)) simp_all
  also have "\<dots> = Inr (limit, take current slots @ take (limit - current) new @ drop limit slots, drop (limit - current) new)"
    using c new unfolding k by (simp add: take_Suc_conv_app_nth)
  finally show ?case .
qed simp

text \<open>The blocks below the doubly indirect one: its used index blocks and the data blocks.\<close>

lemma mset_sub_upto:
  "mset (sub_upto v slots m) =
   mset (map ((!) slots) [0..<div_ceil m INODE_INDIRECT1_COUNT]) + mset (map (sub_at v slots) [0..<m])"
proof (induction m)
  case (Suc m)
  have "[0..<div_ceil (Suc m) INODE_INDIRECT1_COUNT] =
      [0..<div_ceil m INODE_INDIRECT1_COUNT] @ (if m mod INODE_INDIRECT1_COUNT = 0 then [m div INODE_INDIRECT1_COUNT] else [])"
    unfolding div_ceil_Suc [OF zero_less_numeral] by (simp add: div_ceil_def)
  then show ?case using Suc by (simp add: sub_step_def)
qed (simp add: div_ceil_def)

lemma distinct_sub_upto:
  assumes "distinct (sub_upto v slots m)"
  shows "distinct (map ((!) slots) [0..<div_ceil m INODE_INDIRECT1_COUNT])"
proof -
  have "distinct (map ((!) slots) [0..<div_ceil m INODE_INDIRECT1_COUNT] @ map (sub_at v slots) [0..<m])"
    using assms mset_sub_upto [of v slots m] by (metis mset_append mset_eq_imp_distinct_iff)
  then show ?thesis by simp
qed

lemma sub_index_mem: "k < div_ceil m INODE_INDIRECT1_COUNT \<Longrightarrow> slots ! k \<in> set (sub_upto v slots m)"
proof -
  assume "k < div_ceil m INODE_INDIRECT1_COUNT"
  then have "slots ! k \<in> set (map ((!) slots) [0..<div_ceil m INODE_INDIRECT1_COUNT])" by simp
  then show ?thesis using mset_sub_upto [of v slots m] by (metis in_multiset_in_set union_iff)
qed

lemma div_less_div_ceil: "l < m \<Longrightarrow> l div INODE_INDIRECT1_COUNT < div_ceil m INODE_INDIRECT1_COUNT"
proof -
  assume "l < m"
  then obtain m' where m: "m = Suc m'" "l \<le> m'" by (cases m) auto
  then show ?thesis using div_le_mono [of l m' INODE_INDIRECT1_COUNT] by (simp add: div_ceil_Suc less_Suc_eq_le)
qed

lemma sub_upto_cong: "(\<And>l. l < m \<Longrightarrow> sub_step v slots l = sub_step v' slots' l) \<Longrightarrow> sub_upto v slots m = sub_upto v' slots' m"
  by (induction m) auto

text \<open>One block is added at the position \<open>m\<close>: its index block \<open>x\<close> is new at the start of a run of 128.\<close>

lemma sub_upto_add:
  assumes m: "m < INODE_INDIRECT2_COUNT" and l: "length slots = INODE_INDIRECT1_COUNT" "\<And>c. length (v c) = BLOCK_SZ"
    and d: "distinct (sub_upto v slots m)"
    and x: "if m mod INODE_INDIRECT1_COUNT = 0 then x \<notin> set (sub_upto v slots m) else x = slots ! (m div INODE_INDIRECT1_COUNT)"
    and b: "b < u32_bound"
  defines "slots' \<equiv> slots[m div INODE_INDIRECT1_COUNT := x]"
  defines "v' \<equiv> v(x := u32_bytes ((u32s (v x))[m mod INODE_INDIRECT1_COUNT := b]))"
  shows "sub_upto v' slots' (Suc m) =
    sub_upto v slots m @ (if m mod INODE_INDIRECT1_COUNT = 0 then [x, b] else [b])"
proof -
  let ?a = "m div INODE_INDIRECT1_COUNT" and ?r = "m mod INODE_INDIRECT1_COUNT"
  have a: "?a < length slots" using m l(1) by (simp add: div_less_iff_less_mult)
  have enc: "u32s (v' x) = (u32s (v x))[?r := b]" unfolding v'_def using u32s_update [OF b] by simp
  have old: "sub_step v' slots' j = sub_step v slots j" if j: "j < m" for j
  proof -
    have jd: "j div INODE_INDIRECT1_COUNT < div_ceil m INODE_INDIRECT1_COUNT" by (rule div_less_div_ceil [OF j])
    have jle: "j div INODE_INDIRECT1_COUNT \<le> ?a" using j by (simp add: div_le_mono)
    show ?thesis
    proof (cases "?r = 0")
      case True
      then have ne: "j div INODE_INDIRECT1_COUNT \<noteq> ?a" using jd by (simp add: div_ceil_def)
      moreover have "slots ! (j div INODE_INDIRECT1_COUNT) \<noteq> x" using sub_index_mem [OF jd] x True by metis
      ultimately show ?thesis by (simp add: sub_step_def sub_at_def slots'_def v'_def)
    next
      case False
      then have x': "x = slots ! ?a" and dc: "div_ceil m INODE_INDIRECT1_COUNT = Suc ?a" using x by (simp_all add: div_ceil_def)
      have s': "slots' = slots" using x' a by (simp add: slots'_def)
      show ?thesis
      proof (cases "j div INODE_INDIRECT1_COUNT = ?a")
        case True
        then have "j mod INODE_INDIRECT1_COUNT \<noteq> ?r" using j eq_div_mod [of j m INODE_INDIRECT1_COUNT] by simp
        then have "u32s (v' x) ! (j mod INODE_INDIRECT1_COUNT) = u32s (v x) ! (j mod INODE_INDIRECT1_COUNT)" using enc by simp
        then show ?thesis using True x' s' by (simp add: sub_step_def sub_at_def)
      next
        case ne: False
        have "slots ! (j div INODE_INDIRECT1_COUNT) \<noteq> slots ! ?a"
          using distinct_sub_upto [OF d] ne jle unfolding dc distinct_map by (auto simp: inj_on_def)
        then show ?thesis using s' x' by (simp add: sub_step_def sub_at_def v'_def)
      qed
    qed
  qed
  have "sub_at v' slots' m = b" using enc a l by (simp add: sub_at_def slots'_def)
  then have "sub_step v' slots' m = (if ?r = 0 then [x, b] else [b])" using a by (simp add: sub_step_def slots'_def)
  then show ?thesis using sub_upto_cong [of m v' slots' v slots] old by simp
qed

lemma div_mod_less:
  "(m :: nat) div c < n div c \<or> m div c = n div c \<and> m mod c < n mod c \<longleftrightarrow> m < n"
proof (cases "m div c = n div c")
  case True
  then show ?thesis using div_mult_mod_eq [of m c] div_mult_mod_eq [of n c] by (metis nat_add_left_cancel_less less_irrefl)
next
  case False
  then show ?thesis using div_le_mono [of m n c] div_le_mono [of n m c] by (metis le_neq_implies_less less_imp_le not_less)
qed

lemma next_slot_eq: "next_slot (m div INODE_INDIRECT1_COUNT) (m mod INODE_INDIRECT1_COUNT) =
    (Suc m div INODE_INDIRECT1_COUNT, Suc m mod INODE_INDIRECT1_COUNT)"
  by (auto simp: next_slot_def div_Suc mod_Suc)

context block_store
begin

lemma returns_fill_slot:
  assumes s: "ok s" "length (locked s) < BLOCK_CACHE_SIZE" "x \<notin> set (locked s)"
    and m: "m < INODE_INDIRECT2_COUNT" "length slots = INODE_INDIRECT1_COUNT"
    and new: "new = (if m mod INODE_INDIRECT1_COUNT = 0 then [x, b] else [b]) @ rest"
    and x: "m mod INODE_INDIRECT1_COUNT \<noteq> 0 \<Longrightarrow> x = slots ! (m div INODE_INDIRECT1_COUNT)"
  shows "returns (fill_indirect2_slot ops (m div INODE_INDIRECT1_COUNT) (m mod INODE_INDIRECT1_COUNT) slots new) s
    (slots[m div INODE_INDIRECT1_COUNT := x], rest)
    ((view s)(x := u32_bytes ((u32s (view s x))[m mod INODE_INDIRECT1_COUNT := b])))"
proof -
  let ?a = "m div INODE_INDIRECT1_COUNT" and ?r = "m mod INODE_INDIRECT1_COUNT"
  have a: "?a < length slots" using m by (simp add: div_less_iff_less_mult)
  define f where "f = (\<lambda>bytes. bind_res (update_res (u32s bytes) ?r b) (\<lambda>slots'. Inr (rest, u32_bytes slots')))"
  have "f (view s x) = Inr (rest, u32_bytes ((u32s (view s x))[?r := b]))" using s(1) by (simp add: f_def block_length)
  then have "returns (bind_io (bc_modify ops x 0 BLOCK_SZ (pure_modify f)) (\<lambda>new2. return_io (slots[?a := x], new2))) s
      (slots[?a := x], rest) ((view s)(x := u32_bytes ((u32s (view s x))[?r := b])))"
    using s by (intro returns_bind [OF returns_block_modify]) (auto simp: block_length intro: returns_return)
  then show ?thesis using a x new by (cases "?r = 0") (simp_all add: fill_indirect2_slot_def f_def)
qed

lemma returns_fill_indirect2:
  assumes "ok s" "length (locked s) < BLOCK_CACHE_SIZE" "length slots = INODE_INDIRECT1_COUNT" "m \<le> n" "n \<le> INODE_INDIRECT2_COUNT"
    and "length new + (m + div_ceil m INODE_INDIRECT1_COUNT) = n + div_ceil n INODE_INDIRECT1_COUNT"
    and "distinct (sub_upto (view s) slots m @ new)"
    and "(set (sub_upto (view s) slots m) \<union> set new) \<inter> set (locked s) = {}"
    and "\<forall>b \<in> set new \<union> set slots. b < u32_bound"
  shows "\<exists>slots' v'.
    returns (fill_indirect2 ops (n div INODE_INDIRECT1_COUNT, n mod INODE_INDIRECT1_COUNT)
      (m div INODE_INDIRECT1_COUNT, m mod INODE_INDIRECT1_COUNT) slots new) s slots' v' \<and>
    length slots' = INODE_INDIRECT1_COUNT \<and> (\<forall>b \<in> set slots'. b < u32_bound) \<and>
    sub_upto v' slots' n = sub_upto (view s) slots m @ new \<and>
    (\<forall>k < div_ceil m INODE_INDIRECT1_COUNT. slots' ! k = slots ! k) \<and>
    (\<forall>b. b \<notin> (!) slots' ` {..<div_ceil n INODE_INDIRECT1_COUNT} \<longrightarrow> v' b = view s b)"
  using assms
proof (induction "n - m" arbitrary: m s slots new)
  case 0
  then have "n = m" "new = []" by simp_all
  moreover have "returns (fill_indirect2 ops (m div INODE_INDIRECT1_COUNT, m mod INODE_INDIRECT1_COUNT)
      (m div INODE_INDIRECT1_COUNT, m mod INODE_INDIRECT1_COUNT) slots []) s slots (view s)"
    using 0 by (simp add: store_returns_def fill_indirect2.simps)
  ultimately show ?case using 0 by blast
next
  case (Suc k)
  let ?c = INODE_INDIRECT1_COUNT
  have m: "m < n" "m < INODE_INDIRECT2_COUNT" "m div ?c < length slots"
    using Suc.hyps(2) Suc.prems(3,5) by (simp_all add: div_less_iff_less_mult)
  have dc: "div_ceil m ?c = (if m mod ?c = 0 then m div ?c else Suc (m div ?c))" by (simp add: div_ceil_def)
  have "div_ceil (Suc m) ?c \<le> div_ceil n ?c" using m(1) div_le_mono [of m "n - 1" ?c] div_ceil_Suc [of ?c "n - 1"] by (simp add: div_ceil_Suc)
  then have len: "length new \<ge> (if m mod ?c = 0 then 2 else 1)" using Suc.prems(6) m(1) by (simp add: dc div_ceil_Suc split: if_splits)
  define x where "x = (if m mod ?c = 0 then new ! 0 else slots ! (m div ?c))"
  define b where "b = (if m mod ?c = 0 then new ! 1 else new ! 0)"
  obtain rest where new: "new = (if m mod ?c = 0 then [x, b] else [b]) @ rest"
    using len by (cases new; cases "tl new") (auto simp: x_def b_def split: if_splits)
  have b: "b < u32_bound" using new Suc.prems(9) by (auto split: if_splits)
  have x: "x < u32_bound" "x \<notin> set (locked s)"
    "if m mod ?c = 0 then x \<notin> set (sub_upto (view s) slots m) else x = slots ! (m div ?c)"
  proof -
    have xn: "x \<in> set new" if "m mod ?c = 0" using new that by simp
    moreover have "x \<in> set (sub_upto (view s) slots m)" "x \<in> set slots" if "m mod ?c \<noteq> 0"
      using that sub_index_mem [of "m div ?c" m slots] m(3) by (simp_all add: x_def dc)
    ultimately show "x < u32_bound" "x \<notin> set (locked s)" using Suc.prems(8,9) by blast+
    show "if m mod ?c = 0 then x \<notin> set (sub_upto (view s) slots m) else x = slots ! (m div ?c)"
    proof (cases "m mod ?c = 0")
      case True
      then show ?thesis using xn Suc.prems(7) by (auto simp: disjoint_iff)
    qed (simp add: x_def)
  qed
  define slots1 where "slots1 = slots[m div ?c := x]"
  define v1 where "v1 = (view s)(x := u32_bytes ((u32s (view s x))[m mod ?c := b]))"
  have sub: "sub_upto v1 slots1 (Suc m) = sub_upto (view s) slots m @ (if m mod ?c = 0 then [x, b] else [b])"
    unfolding v1_def slots1_def
    by (rule sub_upto_add [OF m(2) Suc.prems(3) block_length [OF Suc.prems(1)] _ x(3) b]) (use Suc.prems(7) in simp)
  have "returns (fill_indirect2_slot ops (m div ?c) (m mod ?c) slots new) s (slots1, rest) v1"
    unfolding v1_def slots1_def by (rule returns_fill_slot [OF Suc.prems(1,2) x(2) m(2) Suc.prems(3) new]) (use x(3) in simp)
  then obtain s1 where s1: "fill_indirect2_slot ops (m div ?c) (m mod ?c) slots new s = Inr ((slots1, rest), s1)"
    "ok s1" "view s1 = v1" "locked s1 = locked s" by (auto simp: store_returns_def)
  have app: "sub_upto v1 slots1 (Suc m) @ rest = sub_upto (view s) slots m @ new" using sub new by simp
  obtain slots' v' where r: "returns (fill_indirect2 ops (n div ?c, n mod ?c) (Suc m div ?c, Suc m mod ?c) slots1 rest) s1 slots' v'"
    "length slots' = ?c" "\<forall>b \<in> set slots'. b < u32_bound" "sub_upto v' slots' n = sub_upto v1 slots1 (Suc m) @ rest"
    "\<forall>k < div_ceil (Suc m) ?c. slots' ! k = slots1 ! k"
    "\<forall>b. b \<notin> (!) slots' ` {..<div_ceil n ?c} \<longrightarrow> v' b = v1 b"
  proof -
    have "k = n - Suc m" using Suc.hyps(2) by simp
    moreover have "length rest + (Suc m + div_ceil (Suc m) ?c) = n + div_ceil n ?c"
      using Suc.prems(6) new by (simp add: dc div_ceil_Suc split: if_splits)
    moreover have "distinct (sub_upto v1 slots1 (Suc m) @ rest)"
      "(set (sub_upto v1 slots1 (Suc m)) \<union> set rest) \<inter> set (locked s1) = {}"
      using Suc.prems(7,8) app s1(4) by (metis, metis set_append)
    moreover have "\<forall>b \<in> set rest \<union> set slots1. b < u32_bound"
      using Suc.prems(9) new x(1) set_update_subset_insert [of slots "m div ?c" x] by (auto simp: slots1_def split: if_splits)
    ultimately show ?thesis
      using Suc.hyps(1) [of "Suc m" s1 slots1 rest] s1(2-4) Suc.prems(2,3,5) m(1) that by (auto simp: slots1_def)
  qed
  have "returns (fill_indirect2 ops (n div ?c, n mod ?c) (m div ?c, m mod ?c) slots new) s slots' v'"
    using r(1) s1 m(1) div_mod_less [of m ?c n] by (simp add: store_returns_def fill_indirect2.simps [of ops _ _ "m div ?c"] next_slot_eq)
  moreover have "slots' ! k = slots ! k" if "k < div_ceil m ?c" for k
  proof -
    have "k \<noteq> m div ?c \<or> x = slots ! k" "k < Suc (m div ?c)" using that x(3) by (auto simp: dc split: if_splits)
    then show ?thesis using r(5) m(3) by (auto simp: div_ceil_Suc slots1_def)
  qed
  moreover have "v' b = view s b" if "b \<notin> (!) slots' ` {..<div_ceil n ?c}" for b
  proof -
    have "slots' ! (m div ?c) = x" using r(5) m(3) by (simp add: div_ceil_Suc slots1_def)
    then have "b \<noteq> x" using that div_less_div_ceil [OF m(1)] by auto
    then show ?thesis using r(6) that by (simp add: v1_def)
  qed
  ultimately show ?case using r(2-4) app by (intro exI [of _ slots'] exI [of _ v']) simp
qed

end

lemma data_blocks_mono: "a \<le> b \<Longrightarrow> data_blocks_of a \<le> data_blocks_of b"
  using div_ceil_le_iff [of BLOCK_SZ a "div_ceil b BLOCK_SZ"] div_ceil_le_iff [of BLOCK_SZ b "div_ceil b BLOCK_SZ"]
  by (simp add: data_blocks_of_def)

section \<open>The phases of increase_size\<close>

text \<open>The direct and the singly indirect part of the owned blocks.\<close>

lemma owned_upto_direct:
  "n \<le> INODE_DIRECT_COUNT \<Longrightarrow> length (direct di) = INODE_DIRECT_COUNT \<Longrightarrow> owned_upto v di n = take n (direct di)"
  by (induction n) (simp_all add: index_at_def block_at_def take_Suc_conv_app_nth)

lemma owned_upto_indirect1:
  assumes "length (direct di) = INODE_DIRECT_COUNT" "length (u32s (v (indirect1 di))) = INODE_INDIRECT1_COUNT"
  shows "k \<le> INODE_INDIRECT1_COUNT \<Longrightarrow> owned_upto v di (INODE_DIRECT_COUNT + k) =
    direct di @ (if k = 0 then [] else indirect1 di # take k (u32s (v (indirect1 di))))"
proof (induction k)
  case 0
  then show ?case using assms(1) owned_upto_direct [of INODE_DIRECT_COUNT di v] by simp
next
  case (Suc k)
  have "index_at v di (INODE_DIRECT_COUNT + k) = (if k = 0 then [indirect1 di] else [])"
    "block_at v di (INODE_DIRECT_COUNT + k) = u32s (v (indirect1 di)) ! k"
    using Suc.prems by (simp_all add: index_at_def block_at_def)
  then have "owned_upto v di (Suc (INODE_DIRECT_COUNT + k)) =
      direct di @ indirect1 di # take k (u32s (v (indirect1 di))) @ [u32s (v (indirect1 di)) ! k]"
    using Suc by (simp only: owned_simps) simp
  then show ?case using Suc.prems assms(2) by (simp add: take_Suc_conv_app_nth)
qed

lemma owned_upto_same:
  assumes "direct di' = direct di" "indirect1 di' = indirect1 di" "v' (indirect1 di) = v (indirect1 di)" "n \<le> INDIRECT1_BOUND"
  shows "owned_upto v' di' n = owned_upto v di n"
  using assms by (intro owned_upto_cong) (auto simp: block_at_def index_at_def)

lemma owned_length_simps:
  "n \<le> INODE_DIRECT_COUNT \<Longrightarrow> owned_length n = n"
  "INODE_DIRECT_COUNT < n \<Longrightarrow> n \<le> INDIRECT1_BOUND \<Longrightarrow> owned_length n = n + 1"
  "INDIRECT1_BOUND < n \<Longrightarrow>
     owned_length n = INDIRECT1_BOUND + 2 + (n - INDIRECT1_BOUND) + div_ceil (n - INDIRECT1_BOUND) INODE_INDIRECT1_COUNT"
  by (simp_all add: owned_length_def)

lemma sub_indices:
  assumes "INDIRECT1_BOUND + m \<le> n" "u32s (v (indirect2 di)) = slots" "k < div_ceil m INODE_INDIRECT1_COUNT"
  shows "slots ! k \<in> set (index_blocks v di n)"
proof -
  have "k * INODE_INDIRECT1_COUNT < m" using assms(3) div_ceil_le_iff [of INODE_INDIRECT1_COUNT m k] by simp
  then have k: "INDIRECT1_BOUND + k * INODE_INDIRECT1_COUNT < n" using assms(1) by simp
  show ?thesis using index_at_members(3) [OF k, of v di] assms(2) by simp
qed

context block_store
begin

text \<open>Phase 3, for the blocks below the doubly indirect block \<open>x\<close>.\<close>

lemma runs_fill_indirect2:
  assumes s: "ok s" "Suc (length (locked s)) < BLOCK_CACHE_SIZE" "x \<notin> set (locked s)"
    and mk: "m \<le> k" "k \<le> INODE_INDIRECT2_COUNT"
    and new: "length new + (m + div_ceil m INODE_INDIRECT1_COUNT) = k + div_ceil k INODE_INDIRECT1_COUNT"
      "distinct (x # sub_upto (view s) (u32s (view s x)) m @ new)"
      "set (sub_upto (view s) (u32s (view s x)) m @ new) \<inter> set (locked s) = {}" "\<forall>b \<in> set new. b < u32_bound"
  shows "runs (bc_modify ops x 0 BLOCK_SZ (\<lambda>bytes.
      bind_io (fill_indirect2 ops (k div INODE_INDIRECT1_COUNT, k mod INODE_INDIRECT1_COUNT)
        (m div INODE_INDIRECT1_COUNT, m mod INODE_INDIRECT1_COUNT) (u32s bytes) new)
      (\<lambda>slots. return_io ((), u32_bytes slots)))) s
    (\<lambda>_ v'. sub_upto v' (u32s (v' x)) k = sub_upto (view s) (u32s (view s x)) m @ new \<and>
      (\<forall>b. b \<noteq> x \<and> b \<notin> (!) (u32s (v' x)) ` {..<div_ceil k INODE_INDIRECT1_COUNT} \<longrightarrow> v' b = view s b))"
    (is "runs (bc_modify _ _ _ _ ?f) _ ?P")
proof (rule runs_block_modify [OF s(1) _ s(3)])
  let ?c = INODE_INDIRECT1_COUNT and ?slots = "u32s (view s x)"
  fix s' assume s': "ok s'" "view s' = view s" "locked s' = x # locked s"
  have u: "\<forall>b \<in> set new \<union> set ?slots. b < u32_bound" using new(4) u32s_less by blast
  obtain slots' v' where r: "returns (fill_indirect2 ops (k div ?c, k mod ?c) (m div ?c, m mod ?c) ?slots new) s' slots' v'"
    "length slots' = ?c" "\<forall>b \<in> set slots'. b < u32_bound" "sub_upto v' slots' k = sub_upto (view s) ?slots m @ new"
    "\<forall>b. b \<notin> (!) slots' ` {..<div_ceil k ?c} \<longrightarrow> v' b = view s b"
    using returns_fill_indirect2 [of s' ?slots m k new] s s' mk new u block_length [OF s(1), of x] by auto
  have enc: "u32s (u32_bytes slots') = slots'" by (rule u32s_u32_bytes [OF r(3)])
  have "slots' ! j \<noteq> x" if "j < div_ceil k ?c" for j
    using sub_index_mem [OF that, of slots' v'] r(4) new(2) by auto
  then have "sub_step (v'(x := u32_bytes slots')) slots' l = sub_step v' slots' l" if "l < k" for l
    using div_less_div_ceil [OF that] by (simp add: sub_step_def sub_at_def)
  then have "sub_upto (v'(x := u32_bytes slots')) slots' k = sub_upto v' slots' k" by (intro sub_upto_cong) simp
  then have "?P () (v'(x := u32_bytes slots'))" using r(4,5) enc by auto
  then show "runs (?f (view s x)) s' (\<lambda>(a, bs) v. length bs = BLOCK_SZ \<and> ?P a (v(x := bs)))"
    by (intro runs_bind [OF returns_runs [OF r(1), where P = "\<lambda>a v. a = slots' \<and> v = v'"]] runs_return) (use r(2) in auto)
qed (use s in simp)

lemma runs_increase_phase3:
  assumes s: "ok s" "Suc (length (locked s)) < BLOCK_CACHE_SIZE"
    and c: "c \<le> n" "n \<le> INDIRECT2_BOUND" "INODE_DIRECT_COUNT \<le> n" "if n \<le> INDIRECT1_BOUND then c = n else INDIRECT1_BOUND \<le> c"
    and new: "owned_length c + length new = owned_length n" "\<forall>b \<in> set new. b < u32_bound"
      "distinct (owned_upto (view s) di c @ new)" "set (owned_upto (view s) di c @ new) \<inter> set (locked s) = {}"
    and di: "di_wf di"
  shows "runs (increase_phase3 ops (c - INODE_DIRECT_COUNT) (n - INODE_DIRECT_COUNT) new di) s
    (\<lambda>di' v'. (\<exists>x < u32_bound. di' = di\<lparr>indirect2 := x\<rparr>) \<and> owned_upto v' di' n = owned_upto (view s) di c @ new \<and>
      (\<forall>b. b \<notin> set (index_blocks v' di' n) \<longrightarrow> v' b = view s b))"
proof (cases "n \<le> INDIRECT1_BOUND")
  case True
  have "di = di\<lparr>indirect2 := indirect2 di\<rparr>" "indirect2 di < u32_bound" using di by (simp_all add: di_wf_def)
  then have "\<exists>x < u32_bound. di = di\<lparr>indirect2 := x\<rparr>" by blast
  then show ?thesis
    using True c(4) new(1) s(1) by (auto simp: increase_phase3_def intro!: runs_return)
next
  case False
  let ?c = INODE_INDIRECT1_COUNT and ?v = "view s"
  define m where "m = c - INDIRECT1_BOUND"
  define k where "k = n - INDIRECT1_BOUND"
  have mk: "c = INDIRECT1_BOUND + m" "n = INDIRECT1_BOUND + k" "m \<le> k" "0 < k" "k \<le> INODE_INDIRECT2_COUNT"
    using c False by (simp_all add: m_def k_def)
  have ol: "owned_length n = 158 + k + div_ceil k ?c" "owned_length c = (if m = 0 then 157 else 158) + m + div_ceil m ?c"
    using mk by (simp_all add: owned_length_def div_ceil_def)
  obtain x new' where x: "x < u32_bound" "new = (if m = 0 then [x] else []) @ new'" "m = 0 \<or> x = indirect2 di"
  proof (cases "m = 0")
    case True
    then obtain y ys where "new = y # ys" using new(1) ol by (cases new) auto
    then show ?thesis using that [of y ys] True new(2) by simp
  next
    case False
    then show ?thesis using that [of "indirect2 di" new] di by (simp add: di_wf_def)
  qed
  let ?di = "di\<lparr>indirect2 := x\<rparr>" and ?sub = "sub_upto ?v (u32s (?v x))"
  have own: "owned_upto ?v di c @ new = owned_upto ?v di INDIRECT1_BOUND @ x # ?sub m @ new'"
    using x(2,3) unfolding mk(1) owned_upto_sub by auto
  have len: "length new' + (m + div_ceil m ?c) = k + div_ceil k ?c" using new(1) x(2) ol by (auto split: if_splits)
  have ind1: "indirect1 di \<in> set (owned_upto ?v di INDIRECT1_BOUND)"
    using index_at_members(1) [of INODE_DIRECT_COUNT INDIRECT1_BOUND di ?v] by (simp add: set_owned_upto)
  have sub_disj: "?v b = v' b" if "b \<in> set (owned_upto ?v di INDIRECT1_BOUND)" "sub_upto v' (u32s (v' x)) k = ?sub m @ new'"
      "\<forall>b. b \<noteq> x \<and> b \<notin> (!) (u32s (v' x)) ` {..<div_ceil k ?c} \<longrightarrow> v' b = ?v b" for v' b
  proof -
    have "b \<notin> set (x # ?sub m @ new')" using that(1) new(3) unfolding own by auto
    then show ?thesis using that(2,3) sub_index_mem [of _ k "u32s (v' x)" v'] by (metis imageE lessThan_iff list.set_intros)
  qed
  have post: "owned_upto v' ?di n = owned_upto ?v di c @ new \<and> (\<forall>b. b \<notin> set (index_blocks v' ?di n) \<longrightarrow> v' b = ?v b)"
    if p: "sub_upto v' (u32s (v' x)) k = ?sub m @ new'"
      "\<forall>b. b \<noteq> x \<and> b \<notin> (!) (u32s (v' x)) ` {..<div_ceil k ?c} \<longrightarrow> v' b = ?v b" for v'
  proof
    have "owned_upto v' ?di INDIRECT1_BOUND = owned_upto ?v di INDIRECT1_BOUND"
      using sub_disj [OF ind1 p] by (intro owned_upto_same) simp_all
    then show "owned_upto v' ?di n = owned_upto ?v di c @ new"
      unfolding own mk(2) owned_upto_sub using p(1) mk(4) by simp
    have i: "(!) (u32s (v' x)) ` {..<div_ceil k ?c} \<subseteq> set (index_blocks v' ?di n)"
      using sub_indices [of k n v' ?di "u32s (v' x)"] mk(2) by auto
    have xi: "x \<in> set (index_blocks v' ?di n)"
      using index_at_members(2) [of INDIRECT1_BOUND n ?di v'] mk by simp
    show "\<forall>b. b \<notin> set (index_blocks v' ?di n) \<longrightarrow> v' b = ?v b"
    proof (intro allI impI)
      fix b assume nb: "b \<notin> set (index_blocks v' ?di n)"
      then have "b \<noteq> x" using xi by metis
      moreover have "b \<notin> (!) (u32s (v' x)) ` {..<div_ceil k ?c}" using nb i by (rule contra_subsetD [rotated])
      ultimately show "v' b = ?v b" by (rule p(2) [rule_format, OF conjI])
    qed
  qed
  have eq: "increase_phase3 ops (c - INODE_DIRECT_COUNT) (n - INODE_DIRECT_COUNT) new di =
    bind_io (bc_modify ops x 0 BLOCK_SZ (\<lambda>bytes. bind_io (fill_indirect2 ops (k div ?c, k mod ?c) (m div ?c, m mod ?c) (u32s bytes) new')
      (\<lambda>slots. return_io ((), u32_bytes slots)))) (\<lambda>_. return_io ?di)"
    using mk(4) x(2,3) unfolding mk(1,2) by (cases "m = 0") (simp_all add: increase_phase3_def Let_def)
  have d: "distinct (x # ?sub m @ new')" "x \<notin> set (locked s)" "set (?sub m @ new') \<inter> set (locked s) = {}"
    using new(3,4) unfolding own by auto
  have u: "\<forall>b \<in> set new'. b < u32_bound" using new(2) x(2) by simp
  show ?thesis
    unfolding eq
  proof (rule runs_bind [OF runs_fill_indirect2 [OF s d(2) mk(3,5) len d(1,3) u]])
    fix s' assume s': "ok s'" and "sub_upto (view s') (u32s (view s' x)) k = ?sub m @ new' \<and>
      (\<forall>b. b \<noteq> x \<and> b \<notin> (!) (u32s (view s' x)) ` {..<div_ceil k ?c} \<longrightarrow> view s' b = ?v b)"
    then have "owned_upto (view s') ?di n = owned_upto ?v di c @ new \<and>
        (\<forall>b. b \<notin> set (index_blocks (view s') ?di n) \<longrightarrow> view s' b = ?v b)" by (intro post) blast+
    then show "runs (return_io ?di) s' (\<lambda>di' v'. (\<exists>x < u32_bound. di' = di\<lparr>indirect2 := x\<rparr>) \<and>
        owned_upto v' di' n = owned_upto ?v di c @ new \<and> (\<forall>b. b \<notin> set (index_blocks v' di' n) \<longrightarrow> v' b = ?v b))"
      using x(1) by (intro runs_return [OF s']) blast
  qed
qed

text \<open>Phase 2 on the entries of the indirect block \<open>x\<close>.\<close>

lemma fill_indirect1:
  assumes S: "length S = INODE_INDIRECT1_COUNT" and c: "INODE_DIRECT_COUNT \<le> c" "c1 = max c (min n INDIRECT1_BOUND)" "INODE_DIRECT_COUNT < n"
    "c \<le> n" and new: "c1 - c \<le> length new"
  shows "fill_slots (c - INODE_DIRECT_COUNT) (min (n - INODE_DIRECT_COUNT) INODE_INDIRECT1_COUNT) S new =
    Inr (c1 - INODE_DIRECT_COUNT,
      (if c < INDIRECT1_BOUND then take (c - INODE_DIRECT_COUNT) S @ take (c1 - c) new @ drop (c1 - INODE_DIRECT_COUNT) S else S),
      drop (c1 - c) new)"
proof (cases "c < INDIRECT1_BOUND")
  case True
  have l: "min (n - INODE_DIRECT_COUNT) INODE_INDIRECT1_COUNT = c1 - INODE_DIRECT_COUNT" "c1 - INODE_DIRECT_COUNT - (c - INODE_DIRECT_COUNT) = c1 - c"
    "c - INODE_DIRECT_COUNT \<le> c1 - INODE_DIRECT_COUNT" "c1 - INODE_DIRECT_COUNT \<le> length S"
    using True c S by (auto simp: min_def max_def)
  show ?thesis using True fill_slots_eq [OF l(3,4), of new] new unfolding l(1,2) by simp
next
  case False
  then have "c1 = c" using c by (simp add: max_def min_def)
  then show ?thesis using False by simp
qed

lemma owned_after_phase2:
  assumes l: "length (direct di) = INODE_DIRECT_COUNT" "length (u32s (v (indirect1 di))) = INODE_INDIRECT1_COUNT"
      "length (u32s (v x)) = INODE_INDIRECT1_COUNT"
    and c: "INODE_DIRECT_COUNT \<le> c" "c < INDIRECT1_BOUND" "c < c1" "c1 \<le> INDIRECT1_BOUND"
    and x: "c = INODE_DIRECT_COUNT \<or> x = indirect1 di" and pre: "length pre = c1 - c"
    and enc: "u32s (v1 x) = take (c - INODE_DIRECT_COUNT) (u32s (v x)) @ pre @ drop (c1 - INODE_DIRECT_COUNT) (u32s (v x))"
  shows "owned_upto v1 (di\<lparr>indirect1 := x\<rparr>) c1 = owned_upto v di c @ (if c = INODE_DIRECT_COUNT then [x] else []) @ pre"
proof -
  define k where "k = c - INODE_DIRECT_COUNT"
  define k1 where "k1 = c1 - INODE_DIRECT_COUNT"
  have k: "c = INODE_DIRECT_COUNT + k" "c1 = INODE_DIRECT_COUNT + k1" "k < INODE_INDIRECT1_COUNT" "k < k1" "k1 \<le> INODE_INDIRECT1_COUNT" "0 < k1"
    using c by (simp_all add: k_def k1_def)
  have e: "u32s (v1 x) = take k (u32s (v x)) @ pre @ drop k1 (u32s (v x))" "length pre = k1 - k"
    using enc pre c by (simp_all add: k_def k1_def)
  have "take k1 (u32s (v1 x)) = take k (u32s (v x)) @ pre" unfolding e(1) using l(3) k(3-5) e(2) by simp
  moreover have "length (u32s (v1 x)) = INODE_INDIRECT1_COUNT" unfolding e(1) using l(3) k(3-5) e(2) by simp
  ultimately have "owned_upto v1 (di\<lparr>indirect1 := x\<rparr>) c1 = direct di @ x # take k (u32s (v x)) @ pre"
    unfolding k(2) using owned_upto_indirect1 [of "di\<lparr>indirect1 := x\<rparr>" v1 k1] l(1) k by simp
  moreover have "owned_upto v di c = direct di @ (if k = 0 then [] else indirect1 di # take k (u32s (v (indirect1 di))))"
    unfolding k(1) using owned_upto_indirect1 [of di v k] l k by simp
  ultimately show ?thesis using x k(1) by auto
qed

lemma runs_increase_phase2:
  assumes s: "ok s" "Suc (length (locked s)) < BLOCK_CACHE_SIZE"
    and c: "c \<le> n" "n \<le> INDIRECT2_BOUND" "if n \<le> INODE_DIRECT_COUNT then c = n else INODE_DIRECT_COUNT \<le> c"
    and new: "owned_length c + length new = owned_length n" "\<forall>b \<in> set new. b < u32_bound"
      "distinct (owned_upto (view s) di c @ new)" "set (owned_upto (view s) di c @ new) \<inter> set (locked s) = {}"
    and di: "di_wf di"
  shows "runs (increase_phase2 ops c n new di) s
    (\<lambda>di' v'. (\<exists>x y. x < u32_bound \<and> y < u32_bound \<and> di' = di\<lparr>indirect1 := x, indirect2 := y\<rparr>) \<and>
      owned_upto v' di' n = owned_upto (view s) di c @ new \<and> (\<forall>b. b \<notin> set (index_blocks v' di' n) \<longrightarrow> v' b = view s b))"
proof (cases "n \<le> INODE_DIRECT_COUNT")
  case True
  have "di = di\<lparr>indirect1 := indirect1 di, indirect2 := indirect2 di\<rparr>" "indirect1 di < u32_bound" "indirect2 di < u32_bound"
    using di by (simp_all add: di_wf_def)
  then have "\<exists>x y. x < u32_bound \<and> y < u32_bound \<and> di = di\<lparr>indirect1 := x, indirect2 := y\<rparr>" by blast
  then show ?thesis using True c(3) new(1) s(1) by (auto simp: increase_phase2_def intro!: runs_return)
next
  case False
  let ?v = "view s"
  have c28: "INODE_DIRECT_COUNT \<le> c" "INODE_DIRECT_COUNT < n" using c(3) False by simp_all
  define c1 where "c1 = max c (min n INDIRECT1_BOUND)"
  have c1: "c \<le> c1" "c1 \<le> n" "INODE_DIRECT_COUNT < c1" "if n \<le> INDIRECT1_BOUND then c1 = n else INDIRECT1_BOUND \<le> c1"
    using c(1) c28 by (auto simp: c1_def max_def min_def)
  obtain x new' where x: "x < u32_bound" "new = (if c = INODE_DIRECT_COUNT then [x] else []) @ new'"
    "c = INODE_DIRECT_COUNT \<or> x = indirect1 di"
  proof (cases "c = INODE_DIRECT_COUNT")
    case True
    have "owned_length c < owned_length n" using length_owned_mono [of c1 n] c1 True by (simp add: owned_length_def split: if_splits)
    then obtain y ys where "new = y # ys" using new(1) by (cases new) auto
    then show ?thesis using that [of y ys] True new(2) by simp
  next
    case False
    then show ?thesis using that [of "indirect1 di" new] di by (simp add: di_wf_def)
  qed
  define pre rest where "pre = take (c1 - c) new'" and "rest = drop (c1 - c) new'"
  have len: "c1 - c \<le> length new'" "owned_length c1 + length rest = owned_length n" "length pre = c1 - c"
  proof -
    have "owned_length c1 \<le> owned_length n" using length_owned_mono [OF c1(2)] .
    moreover have "owned_length c1 = owned_length c + (if c = INODE_DIRECT_COUNT then 1 else 0) + (c1 - c)"
      using c1 c28 by (cases "c < INDIRECT1_BOUND") (auto simp: c1_def owned_length_def max_def min_def split: if_splits)
    moreover have "length new = (if c = INODE_DIRECT_COUNT then 1 else 0) + length new'" using x(2) by simp
    ultimately show "c1 - c \<le> length new'" "owned_length c1 + length rest = owned_length n" "length pre = c1 - c"
      using new(1) by (simp_all add: pre_def rest_def)
  qed
  let ?S = "u32s (?v x)" and ?di = "di\<lparr>indirect1 := x\<rparr>"
  define S' where "S' = (if c < INDIRECT1_BOUND
    then take (c - INODE_DIRECT_COUNT) ?S @ pre @ drop (c1 - INODE_DIRECT_COUNT) ?S else ?S)"
  define v1 where "v1 = ?v(x := u32_bytes S')"
  have S: "length ?S = INODE_INDIRECT1_COUNT" using block_length [OF s(1), of x] by simp
  have S': "length S' = INODE_INDIRECT1_COUNT" using S c1 c28 len(3) by (auto simp: S'_def c1_def max_def min_def)
  have "\<forall>b \<in> set S'. b < u32_bound"
    using new(2) x(2) u32s_less by (auto simp: S'_def pre_def dest!: in_set_takeD in_set_dropD split: if_splits)
  then have enc: "u32s (v1 x) = S'" by (simp add: v1_def u32s_u32_bytes)
  have own1: "owned_upto v1 ?di c1 @ rest = owned_upto ?v di c @ new"
  proof (cases "c < INDIRECT1_BOUND")
    case True
    show ?thesis
    proof (cases "c < c1")
      case lt: True
      have "c1 \<le> INDIRECT1_BOUND" using True lt by (auto simp: c1_def max_def min_def split: if_splits)
      then have "owned_upto v1 ?di c1 = owned_upto ?v di c @ (if c = INODE_DIRECT_COUNT then [x] else []) @ pre"
        using True lt c28(1) x(3) len(3) enc di S block_length [OF s(1), of "indirect1 di"]
        by (intro owned_after_phase2) (simp_all add: di_wf_def S'_def)
      then show ?thesis using x(2) by (simp add: pre_def rest_def)
    next
      case False
      then have "c1 = c" using c1(1) by simp
      moreover have "x = indirect1 di" "c \<noteq> INODE_DIRECT_COUNT" using c1(3) x(3) calculation by auto
      moreover have "u32_bytes S' = ?v x"
        using calculation u32_bytes_u32s [of "?v x"] block_length [OF s(1), of x] by (simp add: S'_def pre_def)
      ultimately show ?thesis using x(2) by (simp add: v1_def rest_def)
    qed
  next
    case False
    then have "c1 = c" "x = indirect1 di" "rest = new" "u32_bytes S' = ?v x"
      using c1 c28 x(2,3) u32_bytes_u32s [of "?v x"] block_length [OF s(1), of x] by (auto simp: c1_def rest_def S'_def)
    then show ?thesis by (simp add: v1_def)
  qed
  have x_owned: "x \<in> set (owned_upto ?v di c @ new)"
    using x(2,3) c28(1) index_at_members(1) [of INODE_DIRECT_COUNT c di ?v] by (cases "c = INODE_DIRECT_COUNT") (auto simp: set_owned_upto)
  then have x_locked: "x \<notin> set (locked s)" using new(4) by blast
  have m: "returns (bc_modify ops x 0 BLOCK_SZ (pure_modify (\<lambda>bytes.
            bind_res (fill_slots (c - INODE_DIRECT_COUNT) (min (n - INODE_DIRECT_COUNT) INODE_INDIRECT1_COUNT) (u32s bytes) new')
              (\<lambda>(current, slots, rest). Inr ((current, rest), u32_bytes slots))))) s (c1 - INODE_DIRECT_COUNT, rest) v1"
    unfolding v1_def
    by (rule returns_block_modify)
      (use s x_locked S' fill_indirect1 [OF S c28(1) c1_def c28(2) c(1) len(1)] in \<open>simp_all add: S'_def pre_def rest_def\<close>)
  have eq: "increase_phase2 ops c n new di =
     bind_io (bc_modify ops x 0 BLOCK_SZ (pure_modify (\<lambda>bytes.
            bind_res (fill_slots (c - INODE_DIRECT_COUNT) (min (n - INODE_DIRECT_COUNT) INODE_INDIRECT1_COUNT) (u32s bytes) new')
              (\<lambda>(current, slots, rest). Inr ((current, rest), u32_bytes slots))))) (\<lambda>(current_blocks, new_blocks).
          increase_phase3 ops current_blocks (n - INODE_DIRECT_COUNT) new_blocks ?di)"
    using c28 x(2,3) by (cases "c = INODE_DIRECT_COUNT") (simp_all add: increase_phase2_def Let_def)
  let ?Q = "\<lambda>di' v'. (\<exists>x y. x < u32_bound \<and> y < u32_bound \<and> di' = di\<lparr>indirect1 := x, indirect2 := y\<rparr>) \<and>
      owned_upto v' di' n = owned_upto ?v di c @ new \<and> (\<forall>b. b \<notin> set (index_blocks v' di' n) \<longrightarrow> v' b = ?v b)"
  have di1: "di_wf ?di" using di x(1) by (simp add: di_wf_def)
  have "runs (increase_phase3 ops (c1 - INODE_DIRECT_COUNT) (n - INODE_DIRECT_COUNT) rest ?di) s1 ?Q"
    if s1: "ok s1" "locked s1 = locked s" "view s1 = v1" for s1
  proof (rule runs_mono [OF runs_increase_phase3 [OF s1(1) _ c1(2) c(2) _ c1(4) len(2) _ _ _ di1]])
    fix di' v' assume p: "(\<exists>y<u32_bound. di' = ?di\<lparr>indirect2 := y\<rparr>) \<and>
      owned_upto v' di' n = owned_upto (view s1) ?di c1 @ rest \<and> (\<forall>b. b \<notin> set (index_blocks v' di' n) \<longrightarrow> v' b = view s1 b)"
    then have "indirect1 di' = x" by auto
    then have "x \<in> set (index_blocks v' di' n)" using index_at_members(1) [OF c28(2), of di' v'] by simp
    then have "v' b = ?v b" if "b \<notin> set (index_blocks v' di' n)" for b
      using that p s1(3) by (metis fun_upd_apply v1_def)
    moreover have "\<exists>y. y < u32_bound \<and> di' = di\<lparr>indirect1 := x, indirect2 := y\<rparr>" using p by blast
    ultimately show "?Q di' v'" using p own1 s1(3) x(1) by metis
  qed (use s s1 c28 new own1 x(2) in \<open>auto simp: rest_def dest: in_set_dropD\<close>)
  then show ?thesis
    unfolding eq by (intro runs_bind [OF returns_runs [OF m, where P = "\<lambda>a v. a = (c1 - INODE_DIRECT_COUNT, rest) \<and> v = v1"]]) auto
qed

lemma runs_increase_size:
  assumes s: "ok s" "Suc (length (locked s)) < BLOCK_CACHE_SIZE"
    and di: "di_wf di" "di_size di \<le> new_size" "new_size < u32_bound" "data_blocks_of new_size \<le> INDIRECT2_BOUND"
    and new: "owned_length (data_blocks di) + length new = owned_length (data_blocks_of new_size)" "\<forall>b \<in> set new. b < u32_bound"
      "distinct (owned (view s) di @ new)" "set (owned (view s) di @ new) \<inter> set (locked s) = {}"
  shows "runs (di_increase_size ops new_size new di) s
    (\<lambda>di' v'. di_wf di' \<and> di_size di' = new_size \<and> di_type di' = di_type di \<and> link_num di' = link_num di \<and>
      owned v' di' = owned (view s) di @ new \<and> (\<forall>b. b \<notin> set (index_blocks v' di' (data_blocks di')) \<longrightarrow> v' b = view s b))"
proof -
  define c where "c = data_blocks di"
  define n where "n = data_blocks_of new_size"
  define c1 where "c1 = max c (min n INODE_DIRECT_COUNT)"
  define pre rest where "pre = take (c1 - c) new" and "rest = drop (c1 - c) new"
  define D where "D = (if c < INODE_DIRECT_COUNT then take c (direct di) @ pre @ drop c1 (direct di) else direct di)"
  let ?di = "di\<lparr>di_size := new_size, direct := D\<rparr>" and ?v = "view s"
  have cn: "c \<le> n" using data_blocks_mono [OF di(2)] by (simp add: c_def n_def data_blocks_def)
  have c1: "c \<le> c1" "c1 \<le> n" "if n \<le> INODE_DIRECT_COUNT then c1 = n else INODE_DIRECT_COUNT \<le> c1"
    using cn by (auto simp: c1_def max_def min_def)
  have ol: "owned_length c1 = owned_length c + (c1 - c)" by (auto simp: c1_def owned_length_def max_def min_def)
  then have len: "c1 - c \<le> length new" "length pre = c1 - c" "owned_length c1 + length rest = owned_length n"
    using new(1) length_owned_mono [OF c1(2)] by (simp_all add: pre_def rest_def c_def n_def)
  have dl: "length (direct di) = INODE_DIRECT_COUNT" using di(1) by (simp add: di_wf_def)
  have fill: "fill_slots c (min n INODE_DIRECT_COUNT) (direct di) new = Inr (c1, D, rest)"
  proof (cases "c < INODE_DIRECT_COUNT")
    case True
    then have "min n INODE_DIRECT_COUNT = c1" "c1 \<le> length (direct di)" using cn dl by (auto simp: c1_def max_def min_def)
    then show ?thesis using True fill_slots_eq [of c c1 "direct di" new] c1(1) len(1) by (simp add: D_def pre_def rest_def)
  next
    case False
    then show ?thesis by (simp add: c1_def D_def rest_def max_def min_def)
  qed
  have eq: "di_increase_size ops new_size new di = increase_phase2 ops c1 n rest ?di"
    using fill by (simp add: di_increase_size_def Let_def data_blocks_def c_def n_def)
  have D: "length D = INODE_DIRECT_COUNT" using dl len(2) c1 cn by (auto simp: D_def c1_def max_def min_def)
  have wf: "di_wf ?di"
    using di(1,3) D new(2) by (auto simp: di_wf_def D_def pre_def list_all_iff dest!: in_set_takeD in_set_dropD split: if_splits)
  have own: "owned_upto ?v ?di c1 = owned ?v di @ pre"
  proof (cases "c < INODE_DIRECT_COUNT")
    case True
    then have "c1 \<le> INODE_DIRECT_COUNT" by (simp add: c1_def)
    then have "owned_upto ?v ?di c1 = take c1 D" "owned_upto ?v di c = take c (direct di)"
      using True D dl by (simp_all add: owned_upto_direct)
    then show ?thesis using True dl len(2) c1(1) by (simp add: owned_def c_def [symmetric] D_def)
  next
    case False
    then have "c1 = c" "pre = []" by (auto simp: c1_def pre_def)
    moreover have "owned_upto ?v ?di c = owned_upto ?v di c"
      using False by (intro owned_upto_cong) (simp_all add: block_at_def index_at_def D_def)
    ultimately show ?thesis by (simp add: owned_def c_def)
  qed
  then have app: "owned_upto ?v ?di c1 @ rest = owned ?v di @ new" by (simp add: pre_def rest_def)
  show ?thesis
    unfolding eq
  proof (rule runs_mono [OF runs_increase_phase2 [OF s c1(2) _ c1(3) len(3) _ _ _ wf]])
    fix di' v' assume p: "(\<exists>x y. x < u32_bound \<and> y < u32_bound \<and> di' = ?di\<lparr>indirect1 := x, indirect2 := y\<rparr>) \<and>
      owned_upto v' di' n = owned_upto ?v ?di c1 @ rest \<and> (\<forall>b. b \<notin> set (index_blocks v' di' n) \<longrightarrow> v' b = ?v b)"
    then obtain x y where xy: "x < u32_bound" "y < u32_bound" "di' = ?di\<lparr>indirect1 := x, indirect2 := y\<rparr>" by blast
    then have "di_wf di'" "di_size di' = new_size" "di_type di' = di_type di" "link_num di' = link_num di" "data_blocks di' = n"
      using wf by (simp_all add: di_wf_def data_blocks_def n_def)
    then show "di_wf di' \<and> di_size di' = new_size \<and> di_type di' = di_type di \<and> link_num di' = link_num di \<and>
        owned v' di' = owned ?v di @ new \<and> (\<forall>b. b \<notin> set (index_blocks v' di' (data_blocks di')) \<longrightarrow> v' b = ?v b)"
      using p app by (simp add: owned_def)
  qed (use new app di(4) in \<open>auto simp: rest_def n_def dest: in_set_dropD\<close>)
qed

end

end
