(* ===== verification/File_Clearing.thy ===== *)
theory File_Clearing
  imports File_Growth
begin

text \<open>
  Clearing a file. \<^verbatim>\<open>clear_size\<close> returns all blocks of the inode, data and index blocks, changes no block and leaves an
  inode of size 0.
\<close>

section \<open>The loops\<close>

lemma clear_direct_eq:
  "current \<le> limit \<Longrightarrow> limit \<le> length slots \<Longrightarrow>
   clear_direct current limit slots v =
     Inr (take current slots @ replicate (limit - current) 0 @ drop limit slots, v @ take (limit - current) (drop current slots))"
proof (induction "limit - current" arbitrary: current slots v)
  case (Suc k)
  have k: "limit - current = Suc (limit - Suc current)" and c: "current < limit" "current < length slots"
    using Suc.hyps(2) Suc.prems by simp_all
  have "clear_direct current limit slots v = clear_direct (Suc current) limit (slots[current := 0]) (v @ [slots ! current])"
    using c by (subst clear_direct.simps) simp
  also have "\<dots> = Inr (take (Suc current) (slots[current := 0]) @ replicate (limit - Suc current) 0 @ drop limit (slots[current := 0]),
      (v @ [slots ! current]) @ take (limit - Suc current) (drop (Suc current) (slots[current := 0])))"
    using Suc c by (intro Suc.hyps(1)) simp_all
  also have "\<dots> = Inr (take current slots @ replicate (limit - current) 0 @ drop limit slots, v @ take (limit - current) (drop current slots))"
    using c unfolding k by (simp add: take_Suc_conv_app_nth Cons_nth_drop_Suc [symmetric])
  finally show ?case .
qed (simp add: clear_direct.simps)

lemma push_entries_eq:
  "current \<le> limit \<Longrightarrow> limit \<le> length slots \<Longrightarrow>
   push_entries current limit slots v = Inr (v @ take (limit - current) (drop current slots))"
proof (induction "limit - current" arbitrary: current v)
  case (Suc k)
  have k: "limit - current = Suc (limit - Suc current)" and c: "current < limit" "current < length slots"
    using Suc.hyps(2) Suc.prems by simp_all
  have "push_entries current limit slots v = push_entries (Suc current) limit slots (v @ [slots ! current])"
    using c by (subst push_entries.simps) simp
  also have "\<dots> = Inr (v @ take (limit - current) (drop current slots))"
    using Suc c unfolding k by (simp add: Cons_nth_drop_Suc [symmetric])
  finally show ?case .
qed (simp add: push_entries.simps)

text \<open>A run of blocks below one index block.\<close>

lemma sub_upto_run:
  assumes "\<And>b. length (v b) = BLOCK_SZ"
  shows "j \<le> INODE_INDIRECT1_COUNT \<Longrightarrow> sub_upto v slots (a * INODE_INDIRECT1_COUNT + j) =
    sub_upto v slots (a * INODE_INDIRECT1_COUNT) @ (if j = 0 then [] else slots ! a # take j (u32s (v (slots ! a))))"
proof (induction j)
  case (Suc j)
  have "sub_step v slots (a * INODE_INDIRECT1_COUNT + j) = (if j = 0 then [slots ! a] else []) @ [u32s (v (slots ! a)) ! j]"
    using Suc.prems by (simp add: sub_step_def sub_at_def)
  then have "sub_upto v slots (Suc (a * INODE_INDIRECT1_COUNT + j)) = sub_upto v slots (a * INODE_INDIRECT1_COUNT) @
      slots ! a # take j (u32s (v (slots ! a))) @ [u32s (v (slots ! a)) ! j]"
    using Suc by (simp only: owned_simps) simp
  then show ?case using Suc.prems assms by (simp add: take_Suc_conv_app_nth)
qed simp

lemma sub_upto_full:
  assumes "\<And>b. length (v b) = BLOCK_SZ"
  shows "a \<le> length slots \<Longrightarrow> sub_upto v slots (a * INODE_INDIRECT1_COUNT) = concat (map (\<lambda>e. e # u32s (v e)) (take a slots))"
proof (induction a)
  case (Suc a)
  have "sub_upto v slots (a * INODE_INDIRECT1_COUNT + INODE_INDIRECT1_COUNT) =
      sub_upto v slots (a * INODE_INDIRECT1_COUNT) @ slots ! a # u32s (v (slots ! a))"
    using sub_upto_run [where v = v and j = INODE_INDIRECT1_COUNT and slots = slots and a = a] assms by simp
  then show ?case using Suc by (simp add: take_Suc_conv_app_nth add.commute)
qed simp

definition cleared :: "disk_inode \<Rightarrow> disk_inode" where
  "cleared di =
     (let n = data_blocks di; d = min n INODE_DIRECT_COUNT in
      di\<lparr>di_size := 0, direct := replicate d 0 @ drop d (direct di), indirect1 := (if n > INODE_DIRECT_COUNT then 0 else indirect1 di),
        indirect2 := (if n > INDIRECT1_BOUND then 0 else indirect2 di)\<rparr>)"

lemma cleared_simps [simp]:
  "di_size (cleared di) = 0" "di_type (cleared di) = di_type di" "link_num (cleared di) = link_num di"
  by (simp_all add: cleared_def Let_def)

lemma cleared_wf: "di_wf di \<Longrightarrow> di_wf (cleared di)"
  by (auto simp: di_wf_def cleared_def Let_def list_all_iff dest: in_set_dropD)

context block_store
begin

lemma returns_push_full_blocks:
  assumes "ok s" "length (locked s) < BLOCK_CACHE_SIZE" "set es \<inter> set (locked s) = {}"
  shows "returns (push_full_blocks ops es acc) s (acc @ concat (map (\<lambda>e. e # u32s (view s e)) es)) (view s)"
  using assms
proof (induction es arbitrary: s acc)
  case Nil
  then show ?case by (simp add: returns_return)
next
  case (Cons e es)
  have "returns (bc_modify ops e 0 BLOCK_SZ (pure_modify (\<lambda>bytes. Inr (acc @ [e] @ u32s bytes, bytes)))) s
      (acc @ [e] @ u32s (view s e)) ((view s)(e := view s e))"
    using Cons.prems by (intro returns_block_modify) (simp_all add: block_length)
  then show ?case
    unfolding push_full_blocks.simps
  proof (rule returns_bind)
    fix s' assume "ok s'" "view s' = (view s)(e := view s e)" "locked s' = locked s"
    then show "returns (push_full_blocks ops es (acc @ [e] @ u32s (view s e))) s'
        (acc @ concat (map (\<lambda>e. e # u32s (view s e)) (e # es))) (view s)"
      using Cons.IH [of s' "acc @ [e] @ u32s (view s e)"] Cons.prems by simp
  qed
qed

lemma returns_clear_indirect2:
  assumes s: "ok s" "length (locked s) < BLOCK_CACHE_SIZE" and slots: "length slots = INODE_INDIRECT1_COUNT" "m \<le> INODE_INDIRECT2_COUNT"
    and free: "set (sub_upto (view s) slots m) \<inter> set (locked s) = {}"
  shows "returns (clear_indirect2 ops (m div INODE_INDIRECT1_COUNT) (m mod INODE_INDIRECT1_COUNT) slots acc) s
    (acc @ sub_upto (view s) slots m) (view s)"
proof -
  let ?c = INODE_INDIRECT1_COUNT and ?v = "view s"
  define a where "a = m div ?c"
  define b where "b = m mod ?c"
  have ab: "m = a * ?c + b" "b < ?c" "a \<le> ?c" "0 < b \<Longrightarrow> a < ?c"
    using slots(2) by (auto simp: a_def b_def div_le_mono [of m "128 * 128" 128, simplified] div_less_iff_less_mult intro: le_neq_implies_less)
  have sub: "sub_upto ?v slots m = concat (map (\<lambda>e. e # u32s (?v e)) (take a slots)) @
      (if b = 0 then [] else slots ! a # take b (u32s (?v (slots ! a))))"
    using sub_upto_run [of ?v b slots a] sub_upto_full [of ?v a slots] ab slots(1) block_length [OF s(1)] by simp
  have es: "set (take a slots) \<inter> set (locked s) = {}" using free unfolding sub by auto
  show ?thesis
    unfolding clear_indirect2_def a_def [symmetric] b_def [symmetric]
  proof (rule returns_bind [OF returns_push_full_blocks [OF s es]])
    fix s' assume s': "ok s'" "view s' = ?v" "locked s' = locked s"
    let ?acc = "acc @ concat (map (\<lambda>e. e # u32s (?v e)) (take a slots))"
    show "returns (if b > 0 then bind_io (lift_io (index_res slots a)) (\<lambda>entry.
         bc_modify ops entry 0 BLOCK_SZ (pure_modify (\<lambda>bytes. Inr (?acc @ [entry] @ take b (u32s bytes), bytes))))
       else return_io ?acc) s' (acc @ sub_upto ?v slots m) ?v"
    proof (cases "b = 0")
      case True
      then show ?thesis using s' sub by (simp add: returns_return)
    next
      case False
      have nl: "slots ! a \<notin> set (locked s)" using free False unfolding sub by auto
      have "returns (bc_modify ops (slots ! a) 0 BLOCK_SZ (pure_modify (\<lambda>bytes. Inr (?acc @ [slots ! a] @ take b (u32s bytes), bytes)))) s'
          (?acc @ [slots ! a] @ take b (u32s (view s' (slots ! a)))) ((view s')(slots ! a := view s' (slots ! a)))"
        using s' s nl by (intro returns_block_modify) (simp_all add: block_length)
      then show ?thesis using False ab(4) slots(1) sub s'(2) by simp
    qed
  qed
qed

text \<open>The doubly indirect block \<open>x\<close> stays taken while the blocks below it are collected.\<close>

lemma returns_collect_indirect2:
  assumes s: "ok s" "Suc (length (locked s)) < BLOCK_CACHE_SIZE" "m \<le> INODE_INDIRECT2_COUNT"
    and free: "distinct (x # sub_upto (view s) (u32s (view s x)) m)" "set (x # sub_upto (view s) (u32s (view s x)) m) \<inter> set (locked s) = {}"
  shows "returns (bc_modify ops x 0 BLOCK_SZ (\<lambda>bytes.
      bind_io (clear_indirect2 ops (m div INODE_INDIRECT1_COUNT) (m mod INODE_INDIRECT1_COUNT) (u32s bytes) acc) (\<lambda>v. return_io (v, bytes)))) s
    (acc @ sub_upto (view s) (u32s (view s x)) m) (view s)"
proof -
  let ?S = "u32s (view s x)"
  have l: "length (view s x) = BLOCK_SZ" "length ?S = INODE_INDIRECT1_COUNT" using block_length [OF s(1), of x] by simp_all
  have "returns (bc_modify ops x 0 BLOCK_SZ (\<lambda>bytes.
      bind_io (clear_indirect2 ops (m div INODE_INDIRECT1_COUNT) (m mod INODE_INDIRECT1_COUNT) (u32s bytes) acc) (\<lambda>v. return_io (v, bytes)))) s
    (acc @ sub_upto (view s) ?S m) ((view s)(x := copy_into 0 (view s x) (view s x)))"
  proof (rule returns_modify)
    fix s' assume s': "ok s'" "view s' = view s" "locked s' = x # locked s"
    have "returns (clear_indirect2 ops (m div INODE_INDIRECT1_COUNT) (m mod INODE_INDIRECT1_COUNT) ?S acc) s'
        (acc @ sub_upto (view s) ?S m) (view s)"
      using returns_clear_indirect2 [of s' ?S m acc] s s' l(2) free by auto
    then show "returns (bind_io (clear_indirect2 ops (m div INODE_INDIRECT1_COUNT) (m mod INODE_INDIRECT1_COUNT)
          (u32s (slice_of 0 BLOCK_SZ (view s x))) acc) (\<lambda>v. return_io (v, slice_of 0 BLOCK_SZ (view s x)))) s'
        (acc @ sub_upto (view s) ?S m, view s x) (view s)"
      using l(1) by (auto intro: returns_bind returns_return)
  qed (use s free l in auto)
  then show ?thesis using l(1) by simp
qed

lemma returns_clear_size:
  assumes s: "ok s" "Suc (length (locked s)) < BLOCK_CACHE_SIZE"
    and di: "di_ok di" "distinct (owned (view s) di)" "set (owned (view s) di) \<inter> set (locked s) = {}"
  shows "returns (di_clear_size ops di) s (owned (view s) di, cleared di) (view s)"
proof -
  let ?v = "view s" and ?S = "u32s (view s (indirect1 di))"
  define n where "n = data_blocks di"
  have dl: "length (direct di) = INODE_DIRECT_COUNT" "n \<le> INDIRECT2_BOUND" using di(1) by (simp_all add: di_ok_def di_wf_def n_def)
  have S: "length ?S = INODE_INDIRECT1_COUNT" using block_length [OF s(1), of "indirect1 di"] by simp
  have cd: "clear_direct 0 (min n INODE_DIRECT_COUNT) (direct di) [] =
      Inr (replicate (min n INODE_DIRECT_COUNT) 0 @ drop (min n INODE_DIRECT_COUNT) (direct di), take n (direct di))"
    using clear_direct_eq [of 0 "min n INODE_DIRECT_COUNT" "direct di" "[]"] dl(1) by (simp add: min_def)
  show ?thesis
  proof (cases "n \<le> INODE_DIRECT_COUNT")
    case True
    then have "owned ?v di = take n (direct di)" using owned_upto_direct [OF True dl(1), of ?v] by (simp add: owned_def n_def)
    then show ?thesis
      using True cd s(1) by (simp add: di_clear_size_def Let_def n_def [symmetric] cleared_def returns_return)
  next
    case False
    let ?k = "min (n - INODE_DIRECT_COUNT) INODE_INDIRECT1_COUNT"
    let ?acc = "direct di @ indirect1 di # take ?k ?S"
    have own1: "owned_upto ?v di (INODE_DIRECT_COUNT + ?k) = ?acc" using owned_upto_indirect1 [of di ?v ?k] dl(1) S False by simp
    have i1: "indirect1 di \<in> set (owned ?v di)"
      using index_at_members(1) [of INODE_DIRECT_COUNT n di ?v] False by (simp add: set_owned n_def)
    have m1: "returns (bc_modify ops (indirect1 di) 0 BLOCK_SZ (pure_modify (\<lambda>bytes.
        bind_res (push_entries 0 ?k (u32s bytes) (direct di @ [indirect1 di])) (\<lambda>v. Inr (v, bytes))))) s ?acc ?v"
      using returns_block_modify [of s "indirect1 di" "\<lambda>bytes. bind_res (push_entries 0 ?k (u32s bytes) (direct di @ [indirect1 di])) (\<lambda>v. Inr (v, bytes))"
          ?acc "?v (indirect1 di)"] s i1 di(3) push_entries_eq [of 0 ?k ?S] S by (auto simp: block_length)
    let ?di1 = "di\<lparr>di_size := 0, direct := replicate INODE_DIRECT_COUNT 0 @ drop INODE_DIRECT_COUNT (direct di), indirect1 := 0\<rparr>"
    define rest where "rest = (\<lambda>v.
        if n - INODE_DIRECT_COUNT > INODE_INDIRECT1_COUNT then
          bind_io (lift_io (assert_res (n - INODE_DIRECT_COUNT - INODE_INDIRECT1_COUNT \<le> INODE_INDIRECT2_COUNT))) (\<lambda>_.
          bind_io (bc_modify ops (indirect2 di) 0 BLOCK_SZ (\<lambda>bytes.
              bind_io (clear_indirect2 ops ((n - INODE_DIRECT_COUNT - INODE_INDIRECT1_COUNT) div INODE_INDIRECT1_COUNT)
                ((n - INODE_DIRECT_COUNT - INODE_INDIRECT1_COUNT) mod INODE_INDIRECT1_COUNT)
                (u32s bytes) (v @ [indirect2 di])) (\<lambda>v. return_io (v, bytes)))) (\<lambda>v.
            return_io (v, ?di1\<lparr>indirect2 := 0\<rparr>)))
        else return_io (v, ?di1))"
    have eq: "di_clear_size ops di = bind_io (bc_modify ops (indirect1 di) 0 BLOCK_SZ (pure_modify (\<lambda>bytes.
        bind_res (push_entries 0 ?k (u32s bytes) (direct di @ [indirect1 di])) (\<lambda>v. Inr (v, bytes))))) rest"
      using False cd dl(1) by (simp add: di_clear_size_def Let_def n_def [symmetric] min_def rest_def cong: if_cong)
    have "returns (rest ?acc) s' (owned ?v di, cleared di) ?v" if s': "ok s'" "view s' = ?v" "locked s' = locked s" for s'
    proof (cases "n \<le> INDIRECT1_BOUND")
      case True
      then have "owned ?v di = ?acc" using own1 False by (simp add: owned_def n_def [symmetric])
      moreover have "\<not> n - INODE_DIRECT_COUNT > INODE_INDIRECT1_COUNT" using True by simp
      then have "rest ?acc = return_io (?acc, ?di1)" unfolding rest_def by (rule if_not_P)
      ultimately show ?thesis using True False s' by (simp add: cleared_def Let_def n_def [symmetric] returns_return)
    next
      case gt: False
      define m where "m = n - INDIRECT1_BOUND"
      have m: "n - INODE_DIRECT_COUNT - INODE_INDIRECT1_COUNT = m" "n = INDIRECT1_BOUND + m" "0 < m" "m \<le> INODE_INDIRECT2_COUNT"
        using gt dl(2) by (simp_all add: m_def)
      let ?sub = "sub_upto ?v (u32s (?v (indirect2 di))) m"
      have "owned ?v di = owned_upto ?v di INDIRECT1_BOUND @ indirect2 di # ?sub"
        using owned_upto_sub [of ?v di m] m by (simp add: owned_def n_def [symmetric])
      moreover have "INODE_DIRECT_COUNT + ?k = INDIRECT1_BOUND" using gt by simp
      then have "owned_upto ?v di INDIRECT1_BOUND = ?acc" using own1 by metis
      ultimately have own: "owned ?v di = (?acc @ [indirect2 di]) @ ?sub" by simp
      have "returns (bc_modify ops (indirect2 di) 0 BLOCK_SZ (\<lambda>bytes.
          bind_io (clear_indirect2 ops (m div INODE_INDIRECT1_COUNT) (m mod INODE_INDIRECT1_COUNT) (u32s bytes) (?acc @ [indirect2 di]))
            (\<lambda>v. return_io (v, bytes)))) s' (owned ?v di) ?v"
        using returns_collect_indirect2 [of s' m "indirect2 di" "?acc @ [indirect2 di]"] s' s m(4) di(2,3) unfolding own by auto
      then have "returns (bind_io (bc_modify ops (indirect2 di) 0 BLOCK_SZ (\<lambda>bytes.
          bind_io (clear_indirect2 ops (m div INODE_INDIRECT1_COUNT) (m mod INODE_INDIRECT1_COUNT) (u32s bytes) (?acc @ [indirect2 di]))
            (\<lambda>v. return_io (v, bytes)))) (\<lambda>v. return_io (v, ?di1\<lparr>indirect2 := 0\<rparr>))) s' (owned ?v di, ?di1\<lparr>indirect2 := 0\<rparr>) ?v"
        by (rule returns_bind) (rule returns_return)
      moreover have "cleared di = ?di1\<lparr>indirect2 := 0\<rparr>" using gt by (simp add: cleared_def Let_def n_def [symmetric])
      ultimately show ?thesis using gt m by (simp add: rest_def)
    qed
    then show ?thesis unfolding eq by (intro returns_bind [OF m1])
  qed
qed

end

end
