(* ===== verification/File_Contents.thy ===== *)
theory File_Contents
  imports File_Blocks
begin

text \<open>
  The bytes of a file. \<open>file_data v di\<close> are the bytes of all data blocks of the inode in order, \<open>file_bytes v di\<close> those
  below its size. \<^verbatim>\<open>read_at\<close> returns a slice of the bytes and \<^verbatim>\<open>write_at\<close> overwrites one, and neither touches anything else.
\<close>

definition file_data :: "(nat \<Rightarrow> byte list) \<Rightarrow> disk_inode \<Rightarrow> byte list" where
  "file_data v di = concat (map v (file_blocks v di))"

definition file_bytes :: "(nat \<Rightarrow> byte list) \<Rightarrow> disk_inode \<Rightarrow> byte list" where
  "file_bytes v di = take (di_size di) (file_data v di)"

lemma length_file_blocks [simp]: "length (file_blocks v di) = data_blocks di"
  by (simp add: file_blocks_def)

lemma size_data_blocks: "n \<le> data_blocks_of n * BLOCK_SZ" "i < n \<Longrightarrow> i div BLOCK_SZ < data_blocks_of n"
proof -
  show 1: "n \<le> data_blocks_of n * BLOCK_SZ"
    using div_ceil_le_iff [of BLOCK_SZ n "div_ceil n BLOCK_SZ"] by (simp add: data_blocks_of_def)
  show "i < n \<Longrightarrow> i div BLOCK_SZ < data_blocks_of n" using 1 by (simp add: div_less_iff_less_mult)
qed

lemma length_file_data: "(\<And>b. length (v b) = BLOCK_SZ) \<Longrightarrow> length (file_data v di) = data_blocks di * BLOCK_SZ"
  using length_concat_same [of "map v (file_blocks v di)" BLOCK_SZ] by (simp add: file_data_def mult.commute)

lemma length_file_bytes: "(\<And>b. length (v b) = BLOCK_SZ) \<Longrightarrow> length (file_bytes v di) = di_size di"
  using size_data_blocks(1) [of "di_size di"] by (simp add: file_bytes_def length_file_data data_blocks_def min_def)

lemma slice_of_take: "off + n \<le> k \<Longrightarrow> slice_of off n (take k xs) = slice_of off n xs"
  by (simp add: slice_of_def drop_take min_def)

text \<open>A range inside one block.\<close>

lemma slice_in_block:
  assumes "\<And>x. x \<in> set xss \<Longrightarrow> length x = c" "j < length xss" "off + n \<le> c"
  shows "slice_of (j * c + off) n (concat xss) = slice_of off n (xss ! j)"
proof -
  have "slice_of (c * j) c (concat xss) = xss ! j" using assms by (intro slice_of_concat) simp_all
  then have "slice_of off n (take c (drop (c * j) (concat xss))) = slice_of off n (xss ! j)" by (simp add: slice_of_def)
  then show ?thesis using assms(3) by (simp add: slice_of_take) (simp add: slice_of_def add.commute mult.commute)
qed

lemma slice_of_split: "slice_of off (m + n) xs = slice_of off m xs @ slice_of (off + m) n xs"
  by (simp add: slice_of_def take_add add.commute)

lemma copy_into_append:
  "off + length xs + length ys \<le> length dst \<Longrightarrow>
   copy_into (off + length xs) ys (copy_into off xs dst) = copy_into off (xs @ ys) dst"
  by (simp add: copy_into_def add.assoc add.commute [of "length ys"])

lemma block_end_bounds:
  assumes "start < stop"
  shows "start < block_end start stop" "block_end start stop \<le> stop"
    "start mod BLOCK_SZ + (block_end start stop - start) \<le> BLOCK_SZ"
    "block_end start stop \<noteq> stop \<Longrightarrow> block_end start stop div BLOCK_SZ = start div BLOCK_SZ + 1"
proof -
  have s: "start = start div BLOCK_SZ * BLOCK_SZ + start mod BLOCK_SZ" by simp
  show "start < block_end start stop" "block_end start stop \<le> stop"
    using assms dividend_less_div_times [of BLOCK_SZ start] by (auto simp: block_end_def)
  have "block_end start stop \<le> start div BLOCK_SZ * BLOCK_SZ + BLOCK_SZ" by (simp add: block_end_def)
  then show "start mod BLOCK_SZ + (block_end start stop - start) \<le> BLOCK_SZ" using s by linarith
  show "block_end start stop div BLOCK_SZ = start div BLOCK_SZ + 1" if "block_end start stop \<noteq> stop"
    using that by (auto simp: block_end_def min_def split: if_splits)
qed

section \<open>Access to one data block\<close>

lemma owned_parts:
  assumes "set (owned v di) \<inter> L = {}"
  shows "set (index_blocks v di (data_blocks di)) \<inter> L = {}" "i < data_blocks di \<Longrightarrow> block_at v di i \<notin> L"
  using assms unfolding set_owned by (auto simp: file_blocks_def disjoint_iff)

context block_store
begin

lemma returns_read_block:
  assumes s: "ok s" "length (locked s) < BLOCK_CACHE_SIZE" "set (owned (view s) di) \<inter> set (locked s) = {}"
    and di: "di_ok di" "i < data_blocks di" and f: "f (view s (block_at (view s) di i)) = Inr a"
  shows "returns (bind_io (get_block_id ops di i) (\<lambda>block. bc_read ops block 0 BLOCK_SZ (pure_read f))) s a (view s)"
proof (rule returns_bind)
  show "returns (get_block_id ops di i) s (block_at (view s) di i) (view s)"
    using di owned_parts(1) [OF s(3)] by (intro returns_get_block_id [OF s(1,2) _ di(2)]) (simp_all add: di_ok_def di_wf_def)
  fix s' assume "ok s'" "view s' = view s" "locked s' = locked s"
  then show "returns (bc_read ops (block_at (view s) di i) 0 BLOCK_SZ (pure_read f)) s' a (view s)"
    using returns_block_read [of s' "block_at (view s) di i" f a] owned_parts(2) [OF s(3) di(2)] s(2) f by simp
qed

lemma returns_modify_block:
  assumes s: "ok s" "length (locked s) < BLOCK_CACHE_SIZE" "set (owned (view s) di) \<inter> set (locked s) = {}"
    and di: "di_ok di" "i < data_blocks di" and f: "f (view s (block_at (view s) di i)) = Inr (a, bs)" "length bs = BLOCK_SZ"
  shows "returns (bind_io (get_block_id ops di i) (\<lambda>block. bc_modify ops block 0 BLOCK_SZ (pure_modify f))) s a
    ((view s)(block_at (view s) di i := bs))"
proof (rule returns_bind)
  show "returns (get_block_id ops di i) s (block_at (view s) di i) (view s)"
    using di owned_parts(1) [OF s(3)] by (intro returns_get_block_id [OF s(1,2) _ di(2)]) (simp_all add: di_ok_def di_wf_def)
  fix s' assume "ok s'" "view s' = view s" "locked s' = locked s"
  then show "returns (bc_modify ops (block_at (view s) di i) 0 BLOCK_SZ (pure_modify f)) s' a ((view s)(block_at (view s) di i := bs))"
    using returns_block_modify [of s' "block_at (view s) di i" f a bs] owned_parts(2) [OF s(3) di(2)] s(2) f by simp
qed

end

lemma slice_file_data:
  assumes "\<And>b. length (v b) = BLOCK_SZ" "start div BLOCK_SZ < data_blocks di" "start mod BLOCK_SZ + n \<le> BLOCK_SZ"
  shows "slice_of start n (file_data v di) = slice_of (start mod BLOCK_SZ) n (v (block_at v di (start div BLOCK_SZ)))"
  using slice_in_block [of "map v (file_blocks v di)" BLOCK_SZ "start div BLOCK_SZ" "start mod BLOCK_SZ" n] assms
  by (auto simp: file_data_def file_blocks_def)

section \<open>Reading\<close>

context block_store
begin

lemma returns_read_loop:
  assumes "ok s" "length (locked s) < BLOCK_CACHE_SIZE" "set (owned (view s) di) \<inter> set (locked s) = {}" "di_ok di"
    and "start < stop" "stop \<le> di_size di" "read_size + (stop - start) \<le> length buf"
  shows "returns (di_read_loop ops di stop start (start div BLOCK_SZ) read_size buf) s
    (read_size + (stop - start), copy_into read_size (slice_of start (stop - start) (file_data (view s) di)) buf) (view s)"
  using assms
proof (induction "stop - start" arbitrary: start read_size buf s rule: less_induct)
  case less
  let ?v = "view s" and ?e = "block_end start stop" and ?i = "start div BLOCK_SZ"
  let ?n = "?e - start" and ?src = "slice_of start (?e - start) (file_data ?v di)"
  note be = block_end_bounds [OF less.prems(5)]
  have i: "?i < data_blocks di" using size_data_blocks(2) [of start "di_size di"] less.prems(5,6) by (simp add: data_blocks_def)
  then have u: "as_u32 ?i = ?i" using less.prems(4) by (simp add: di_ok_def)
  have l: "length (file_data ?v di) = data_blocks di * BLOCK_SZ" using block_length [OF less.prems(1)] by (rule length_file_data)
  have fit: "stop \<le> length (file_data ?v di)" using less.prems(6) size_data_blocks(1) [of "di_size di"] l by (simp add: data_blocks_def)
  have rs: "read_size + ?n \<le> length buf" using less.prems(7) be(1,2) by simp
  have "returns (bind_io (get_block_id ops di ?i) (\<lambda>block.
      bc_read ops block 0 BLOCK_SZ (pure_read (slice_res (start mod BLOCK_SZ) ?n)))) s ?src ?v"
    by (rule returns_read_block [OF less.prems(1-4) i])
      (use be(3) i block_length [OF less.prems(1)] in \<open>simp add: slice_file_data\<close>)
  then obtain s1 where s1: "bind_io (get_block_id ops di ?i) (\<lambda>block.
      bc_read ops block 0 BLOCK_SZ (pure_read (slice_res (start mod BLOCK_SZ) ?n))) s = Inr (?src, s1)"
    "ok s1" "view s1 = ?v" "locked s1 = locked s" by (auto simp: store_returns_def)
  have step: "di_read_loop ops di stop start ?i read_size buf s =
      (if ?e = stop then Inr ((read_size + ?n, copy_into read_size ?src buf), s1)
       else di_read_loop ops di stop ?e (?i + 1) (read_size + ?n) (copy_into read_size ?src buf) s1)"
    using rs s1(1) u by (subst di_read_loop.simps) (simp add: Let_def)
  have src: "length ?src = ?n" using be(1,2) fit by simp
  show ?case
  proof (cases "?e = stop")
    case True
    then show ?thesis using step s1 by (simp add: store_returns_def)
  next
    case False
    have e: "?e div BLOCK_SZ = ?i + 1" "?e < stop" using be(2,4) False by auto
    have "returns (di_read_loop ops di stop ?e (?e div BLOCK_SZ) (read_size + ?n) (copy_into read_size ?src buf)) s1
        (read_size + ?n + (stop - ?e), copy_into (read_size + ?n) (slice_of ?e (stop - ?e) (file_data (view s1) di))
          (copy_into read_size ?src buf)) (view s1)"
      using less.hyps [of ?e s1 "read_size + ?n" "copy_into read_size ?src buf"] less.prems s1 be(1) e(2) src rs by simp
    moreover have "copy_into (read_size + ?n) (slice_of ?e (stop - ?e) (file_data ?v di)) (copy_into read_size ?src buf) =
        copy_into read_size (slice_of start (stop - start) (file_data ?v di)) buf"
      using copy_into_append [of read_size ?src "slice_of ?e (stop - ?e) (file_data ?v di)" buf] src fit less.prems(7) be(1) e(2)
        slice_of_split [of start ?n "stop - ?e" "file_data ?v di"] by simp
    ultimately show ?thesis using step False s1 e be(1) by (simp add: store_returns_def)
  qed
qed

lemma returns_read_at:
  assumes s: "ok s" "length (locked s) < BLOCK_CACHE_SIZE" "set (owned (view s) di) \<inter> set (locked s) = {}" "di_ok di"
    and "offset + length buf < usize_bound"
  defines "n \<equiv> min (length buf) (di_size di - offset)"
  shows "returns (di_read_at ops di offset buf) s (n, copy_into 0 (slice_of offset n (file_bytes (view s) di)) buf) (view s)"
proof (cases "offset < di_size di \<and> buf \<noteq> []")
  case True
  let ?stop = "min (offset + length buf) (di_size di)"
  have n: "?stop - offset = n" "offset < ?stop" using True by (auto simp: n_def min_def)
  have "returns (di_read_loop ops di ?stop offset (offset div BLOCK_SZ) 0 buf) s
      (0 + (?stop - offset), copy_into 0 (slice_of offset (?stop - offset) (file_data (view s) di)) buf) (view s)"
    using s n by (intro returns_read_loop) (auto simp: n_def)
  moreover have "slice_of offset n (file_data (view s) di) = slice_of offset n (file_bytes (view s) di)"
    unfolding file_bytes_def using True by (intro slice_of_take [symmetric]) (auto simp: n_def min_def)
  moreover have "\<not> ?stop \<le> offset" using n(2) by linarith
  ultimately show ?thesis using n(1) assms(5) by (simp add: di_read_at_def Let_def del: min.bounded_iff min_le_iff_disj)
next
  case False
  then have "n = 0" by (auto simp: n_def)
  then show ?thesis using False s(1) assms(5) by (auto simp: di_read_at_def Let_def slice_of_def copy_into_def intro!: returns_return)
qed

end

section \<open>Writing\<close>

text \<open>The blocks of an inode only depend on its index blocks.\<close>

lemma blocks_frame:
  assumes "\<And>b. b \<in> set (index_blocks v di n) \<Longrightarrow> v' b = v b" "i < n"
  shows "block_at v' di i = block_at v di i" "index_at v' di i = index_at v di i"
proof -
  have v1: "v' (indirect1 di) = v (indirect1 di)" if "INODE_DIRECT_COUNT \<le> i"
    using assms index_at_members(1) [OF assms(2) that, of di v] by simp
  have v2: "v' (indirect2 di) = v (indirect2 di)" if "INDIRECT1_BOUND \<le> i"
    using assms index_at_members(2) [OF assms(2) that, of di v] by simp
  have v3: "v' (u32s (v (indirect2 di)) ! ((i - INDIRECT1_BOUND) div INODE_INDIRECT1_COUNT)) =
      v (u32s (v (indirect2 di)) ! ((i - INDIRECT1_BOUND) div INODE_INDIRECT1_COUNT))" if "INDIRECT1_BOUND \<le> i"
    using assms index_at_members(3) [OF assms(2) that, of v di] by simp
  show "block_at v' di i = block_at v di i" "index_at v' di i = index_at v di i"
    using v1 v2 v3 by (auto simp: block_at_def index_at_def sub_at_def)
qed

lemma owned_frame:
  assumes "\<And>b. b \<in> set (index_blocks v di (data_blocks di)) \<Longrightarrow> v' b = v b"
  shows "owned v' di = owned v di" "file_blocks v' di = file_blocks v di"
    "index_blocks v' di (data_blocks di) = index_blocks v di (data_blocks di)"
proof -
  note f = blocks_frame [OF assms]
  show "owned v' di = owned v di" unfolding owned_def by (rule owned_upto_cong) (simp_all add: f)
  show "file_blocks v' di = file_blocks v di" by (simp add: file_blocks_def f)
  show "index_blocks v' di (data_blocks di) = index_blocks v di (data_blocks di)"
    unfolding index_blocks_def by (rule arg_cong [where f = concat]) (simp add: f)
qed

lemma concat_update_block:
  assumes "\<And>x. x \<in> set xss \<Longrightarrow> length x = c" "j < length xss" "off + length src \<le> c"
  shows "concat (xss[j := copy_into off src (xss ! j)]) = copy_into (j * c + off) src (concat xss)"
proof -
  have split: "concat xss = concat (take j xss) @ xss ! j @ concat (drop (Suc j) xss)"
    using assms(2) by (metis concat.simps(2) concat_append id_take_nth_drop)
  have l: "length (concat (take j xss)) = j * c"
    using length_concat_same [of "take j xss" c] assms(1,2) by (auto dest: in_set_takeD simp: mult.commute)
  have x: "length (xss ! j) = c" using assms by simp
  have "concat (xss[j := copy_into off src (xss ! j)]) = concat (take j xss) @ copy_into off src (xss ! j) @ concat (drop (Suc j) xss)"
    using assms(2) by (simp add: upd_conv_take_nth_drop)
  also have "\<dots> = copy_into (j * c + off) src (concat xss)"
    unfolding split using l x assms(3) by (simp add: copy_into_def)
  finally show ?thesis .
qed

lemma file_data_update:
  assumes d: "distinct (owned v di)" and l: "\<And>b. length (v b) = BLOCK_SZ"
    and r: "start div BLOCK_SZ < data_blocks di" "start mod BLOCK_SZ + length src \<le> BLOCK_SZ"
  defines "b \<equiv> block_at v di (start div BLOCK_SZ)"
  defines "v' \<equiv> v(b := copy_into (start mod BLOCK_SZ) src (v b))"
  shows "owned v' di = owned v di" "file_blocks v' di = file_blocks v di" "file_data v' di = copy_into start src (file_data v di)"
proof -
  note d = distinct_owned [OF d]
  have b: "b \<in> set (file_blocks v di)" "file_blocks v di ! (start div BLOCK_SZ) = b" using r(1) by (auto simp: b_def file_blocks_def)
  then have "v' x = v x" if "x \<in> set (index_blocks v di (data_blocks di))" for x using that d(2) by (auto simp: v'_def)
  note f = owned_frame [OF this]
  show "owned v' di = owned v di" "file_blocks v' di = file_blocks v di" by (simp_all add: f)
  have "map v' (file_blocks v di) = (map v (file_blocks v di))[start div BLOCK_SZ := copy_into (start mod BLOCK_SZ) src (v b)]"
    using b(2) r(1) d(1) by (intro nth_equalityI) (auto simp: v'_def nth_list_update nth_eq_iff_index_eq)
  then show "file_data v' di = copy_into start src (file_data v di)"
    using concat_update_block [of "map v (file_blocks v di)" BLOCK_SZ "start div BLOCK_SZ" "start mod BLOCK_SZ" src] l r b(2)
    by (auto simp: file_data_def f)
qed

context block_store
begin

lemma runs_write_loop:
  assumes "ok s" "length (locked s) < BLOCK_CACHE_SIZE" "set (owned (view s) di) \<inter> set (locked s) = {}" "di_ok di"
    and "distinct (owned (view s) di)" "start < stop" "stop \<le> di_size di" "write_size + (stop - start) \<le> length buf"
  shows "runs (di_write_loop ops di stop start (start div BLOCK_SZ) write_size buf) s
    (\<lambda>n v'. n = write_size + (stop - start) \<and> owned v' di = owned (view s) di \<and> file_blocks v' di = file_blocks (view s) di \<and>
      file_data v' di = copy_into start (slice_of write_size (stop - start) buf) (file_data (view s) di) \<and>
      (\<forall>b. b \<notin> set (file_blocks (view s) di) \<longrightarrow> v' b = view s b))"
  using assms
proof (induction "stop - start" arbitrary: start write_size s rule: less_induct)
  case less
  let ?v = "view s" and ?e = "block_end start stop" and ?i = "start div BLOCK_SZ"
  let ?n = "?e - start" and ?src = "slice_of write_size (?e - start) buf"
  define b where "b = block_at ?v di ?i"
  define v1 where "v1 = ?v(b := copy_into (start mod BLOCK_SZ) ?src (?v b))"
  define f where "f = (\<lambda>bytes :: byte list. bind_res (slice_res write_size ?n buf) (\<lambda>src.
             bind_res (slice_res (start mod BLOCK_SZ) ?n bytes) (\<lambda>_. Inr ((), copy_into (start mod BLOCK_SZ) src bytes))))"
  note be = block_end_bounds [OF less.prems(6)]
  have bl: "\<And>b. length (?v b) = BLOCK_SZ" by (rule block_length [OF less.prems(1)])
  have i: "?i < data_blocks di" using size_data_blocks(2) [of start "di_size di"] less.prems(6,7) by (simp add: data_blocks_def)
  then have u: "as_u32 ?i = ?i" using less.prems(4) by (simp add: di_ok_def)
  have fit: "stop \<le> length (file_data ?v di)"
    using less.prems(7) size_data_blocks(1) [of "di_size di"] length_file_data [OF bl] by (simp add: data_blocks_def)
  have src: "write_size + ?n \<le> length buf" "length ?src = ?n" using less.prems(8) be(1,2) by simp_all
  have upd: "owned v1 di = owned ?v di" "file_blocks v1 di = file_blocks ?v di" "file_data v1 di = copy_into start ?src (file_data ?v di)"
    using file_data_update [OF less.prems(5) bl i, of ?src] be(3) src(2) by (simp_all add: v1_def b_def)
  have b: "b \<in> set (file_blocks ?v di)" using i by (auto simp: b_def file_blocks_def)
  have "returns (bind_io (get_block_id ops di ?i) (\<lambda>block. bc_modify ops block 0 BLOCK_SZ (pure_modify f))) s () v1"
    unfolding v1_def b_def by (rule returns_modify_block [OF less.prems(1-4) i]) (use be(3) src bl in \<open>simp_all add: f_def\<close>)
  then obtain s1 where s1: "bind_io (get_block_id ops di ?i) (\<lambda>block. bc_modify ops block 0 BLOCK_SZ (pure_modify f)) s = Inr ((), s1)"
    "ok s1" "view s1 = v1" "locked s1 = locked s" by (auto simp: store_returns_def)
  have step: "di_write_loop ops di stop start ?i write_size buf s =
      (if ?e = stop then Inr (write_size + ?n, s1) else di_write_loop ops di stop ?e (?i + 1) (write_size + ?n) buf s1)"
    using s1(1) u by (subst di_write_loop.simps) (simp add: Let_def f_def)
  have fr: "v1 x = ?v x" if "x \<notin> set (file_blocks ?v di)" for x using that b by (auto simp: v1_def)
  show ?case
  proof (cases "?e = stop")
    case True
    then show ?thesis using step s1 upd fr by (simp add: store_runs_def)
  next
    case False
    have e: "?e div BLOCK_SZ = ?i + 1" "?e < stop" using be(2,4) False by auto
    have "runs (di_write_loop ops di stop ?e (?e div BLOCK_SZ) (write_size + ?n) buf) s1
      (\<lambda>n v'. n = write_size + ?n + (stop - ?e) \<and> owned v' di = owned v1 di \<and> file_blocks v' di = file_blocks v1 di \<and>
        file_data v' di = copy_into ?e (slice_of (write_size + ?n) (stop - ?e) buf) (file_data v1 di) \<and>
        (\<forall>b. b \<notin> set (file_blocks v1 di) \<longrightarrow> v' b = v1 b))"
      using less.hyps [of ?e s1 "write_size + ?n"] less.prems s1 be(1) e(2) src upd by simp
    moreover have "copy_into ?e (slice_of (write_size + ?n) (stop - ?e) buf) (file_data v1 di) =
        copy_into start (slice_of write_size (stop - start) buf) (file_data ?v di)"
      using copy_into_append [of start ?src "slice_of (write_size + ?n) (stop - ?e) buf" "file_data ?v di"] src fit less.prems(8) be(1) e(2)
        slice_of_split [of write_size ?n "stop - ?e" buf] upd(3) by simp
    ultimately show ?thesis using step False s1(4) e be(1) upd fr by (auto simp: store_runs_def)
  qed
qed

lemma runs_write_at:
  assumes s: "ok s" "length (locked s) < BLOCK_CACHE_SIZE" "set (owned (view s) di) \<inter> set (locked s) = {}" "di_ok di"
    and d: "distinct (owned (view s) di)" and b: "buf \<noteq> []" "offset + length buf \<le> di_size di"
  shows "runs (di_write_at ops di offset buf) s
    (\<lambda>n v'. n = length buf \<and> owned v' di = owned (view s) di \<and> file_blocks v' di = file_blocks (view s) di \<and>
      file_data v' di = copy_into offset buf (file_data (view s) di) \<and>
      (\<forall>b. b \<notin> set (file_blocks (view s) di) \<longrightarrow> v' b = view s b))"
proof -
  have "di_size di < u32_bound" using s(4) by (simp add: di_ok_def di_wf_def)
  then have "di_write_at ops di offset buf = di_write_loop ops di (offset + length buf) offset (offset div BLOCK_SZ) 0 buf"
    using b by (simp add: di_write_at_def Let_def min_def)
  then show ?thesis using runs_write_loop [OF s d, of offset "offset + length buf" 0 buf] b by simp
qed

end

end
