(* ===== verification/Fs_State.thy ===== *)
theory Fs_State
  imports Easy_Fs File_Clearing File_Contents
begin

text \<open>
  The state of a mounted file system. \<open>fs_ok fs v\<close> is the invariant of the device contents \<open>v\<close>: the super block
  describes the object \<open>fs\<close>, the inode area holds inodes, every one that the bitmap marks as used is a file of supported size, files share no block, the data bitmap marks exactly the
  blocks they own, and free blocks and the ends of the last blocks are zero. \<open>fs_ok_update\<close> is the step from one such
  state to the next when one inode changes.
\<close>

section \<open>Areas\<close>

text \<open>Super block, inode bitmap, inode area, data bitmap and data area follow each other without gaps.\<close>

definition fs_areas :: "easy_fs \<Rightarrow> bool" where
  "fs_areas fs \<longleftrightarrow>
     start_block_id (inode_bitmap fs) = 1 \<and> inode_area_start_block fs = 1 + blocks (inode_bitmap fs) \<and>
     inode_area_start_block fs \<le> start_block_id (data_bitmap fs) \<and>
     data_area_start_block fs = start_block_id (data_bitmap fs) + blocks (data_bitmap fs) \<and>
     data_area_start_block fs + bitmap_maximum (data_bitmap fs) \<le> u32_bound \<and>
     bitmap_maximum (inode_bitmap fs) \<le> u32_bound"

definition inode_capacity :: "easy_fs \<Rightarrow> nat" where
  "inode_capacity fs = INODES_PER_BLOCK * (start_block_id (data_bitmap fs) - inode_area_start_block fs)"

definition data_area :: "easy_fs \<Rightarrow> nat set" where
  "data_area fs = {data_area_start_block fs ..< data_area_start_block fs + bitmap_maximum (data_bitmap fs)}"

definition inode_block :: "easy_fs \<Rightarrow> nat \<Rightarrow> nat" where
  "inode_block fs i = inode_area_start_block fs + i div INODES_PER_BLOCK"

definition inode_off :: "nat \<Rightarrow> nat" where
  "inode_off i = i mod INODES_PER_BLOCK * DISK_INODE_SZ"

lemma inode_off_fits: "inode_off i + DISK_INODE_SZ \<le> BLOCK_SZ"
proof -
  have "i mod INODES_PER_BLOCK \<le> 2" using mod_less_divisor [of 3 i] by linarith
  then show ?thesis by (simp add: inode_off_def)
qed

text \<open>Inodes within the capacity lie in the inode area, which is apart from the bitmaps and the data area.\<close>

lemma inode_block_area:
  assumes "fs_areas fs" "i < inode_capacity fs"
  shows "inode_area_start_block fs \<le> inode_block fs i" "inode_block fs i < start_block_id (data_bitmap fs)"
    "inode_block fs i \<notin> bitmap_blocks (data_bitmap fs)" "inode_block fs i \<notin> bitmap_blocks (inode_bitmap fs)"
    "inode_block fs i \<notin> data_area fs" "inode_block fs i < u32_bound"
proof -
  have "i div INODES_PER_BLOCK < start_block_id (data_bitmap fs) - inode_area_start_block fs"
    using assms(2) by (simp add: inode_capacity_def div_less_iff_less_mult mult.commute)
  then have b: "inode_block fs i < start_block_id (data_bitmap fs)" by (simp add: inode_block_def)
  moreover show "inode_area_start_block fs \<le> inode_block fs i" by (simp add: inode_block_def)
  ultimately show "inode_block fs i < start_block_id (data_bitmap fs)" "inode_block fs i \<notin> bitmap_blocks (data_bitmap fs)"
    "inode_block fs i \<notin> bitmap_blocks (inode_bitmap fs)" "inode_block fs i \<notin> data_area fs" "inode_block fs i < u32_bound"
    using assms(1) by (auto simp: bitmap_blocks_def data_area_def fs_areas_def)
qed

text \<open>The super block lies in none of the areas.\<close>

lemma super_block_apart:
  assumes "fs_areas fs"
  shows "0 \<notin> bitmap_blocks (inode_bitmap fs)" "0 \<notin> bitmap_blocks (data_bitmap fs)" "0 \<notin> data_area fs" "inode_block fs i \<noteq> 0"
  using assms by (auto simp: fs_areas_def bitmap_blocks_def data_area_def inode_block_def)

lemma get_disk_inode_pos_ok:
  "fs_areas fs \<Longrightarrow> i < inode_capacity fs \<Longrightarrow> get_disk_inode_pos fs i = Inr (inode_block fs i, inode_off i)"
  using inode_block_area(6) [of fs i] by (simp add: get_disk_inode_pos_def inode_block_def inode_off_def)

lemma inode_pos_distinct:
  assumes "i \<noteq> j" "inode_block fs i = inode_block fs j"
  shows "inode_off i + DISK_INODE_SZ \<le> inode_off j \<or> inode_off j + DISK_INODE_SZ \<le> inode_off i"
proof -
  have "i mod INODES_PER_BLOCK \<noteq> j mod INODES_PER_BLOCK" using assms eq_div_mod [of i j INODES_PER_BLOCK] by (simp add: inode_block_def)
  then have "i mod INODES_PER_BLOCK < j mod INODES_PER_BLOCK \<or> j mod INODES_PER_BLOCK < i mod INODES_PER_BLOCK" by linarith
  moreover have "Suc a * DISK_INODE_SZ \<le> b * DISK_INODE_SZ" if "a < b" for a b :: nat using that by (intro mult_le_mono1) simp
  ultimately show ?thesis by (auto simp: inode_off_def)
qed

section \<open>Inodes and the invariant\<close>

definition inode_slot :: "easy_fs \<Rightarrow> (nat \<Rightarrow> byte list) \<Rightarrow> nat \<Rightarrow> byte list" where
  "inode_slot fs v i = slice_of (inode_off i) DISK_INODE_SZ (v (inode_block fs i))"

definition inodes :: "easy_fs \<Rightarrow> (nat \<Rightarrow> byte list) \<Rightarrow> nat \<rightharpoonup> disk_inode" where
  "inodes fs v i =
     (if i \<in> used_bits (inode_bitmap fs) v
      then (case disk_inode_of (inode_slot fs v i) of Inr di \<Rightarrow> Some di | Inl _ \<Rightarrow> None) else None)"

definition blocks_ok :: "(nat \<Rightarrow> byte list) \<Rightarrow> bool" where
  "blocks_ok v \<longleftrightarrow> (\<forall>b. length (v b) = BLOCK_SZ)"

text \<open>The bytes behind the end of the file in its last block are zero.\<close>

definition file_ok :: "(nat \<Rightarrow> byte list) \<Rightarrow> disk_inode \<Rightarrow> bool" where
  "file_ok v di \<longleftrightarrow> di_ok di \<and> distinct (owned v di) \<and> (\<forall>x \<in> set (drop (di_size di) (file_data v di)). x = 0)"

definition used_blocks :: "easy_fs \<Rightarrow> (nat \<Rightarrow> byte list) \<Rightarrow> nat set" where
  "used_blocks fs v = (+) (data_area_start_block fs) ` used_bits (data_bitmap fs) v"

definition fs_ok :: "easy_fs \<Rightarrow> (nat \<Rightarrow> byte list) \<Rightarrow> bool" where
  "fs_ok fs v \<longleftrightarrow> fs_areas fs \<and> blocks_ok v \<and> efs_of_super_block (slice_of 0 SUPER_BLOCK_SZ (v 0)) = Inr fs \<and>
     (\<forall>i < inode_capacity fs. \<exists>di. disk_inode_of (inode_slot fs v i) = Inr di) \<and>
     dom (inodes fs v) = used_bits (inode_bitmap fs) v \<and> dom (inodes fs v) \<subseteq> {..<inode_capacity fs} \<and>
     (\<forall>i di. inodes fs v i = Some di \<longrightarrow> file_ok v di) \<and>
     (\<forall>i j di dj. inodes fs v i = Some di \<and> inodes fs v j = Some dj \<and> i \<noteq> j \<longrightarrow> set (owned v di) \<inter> set (owned v dj) = {}) \<and>
     used_blocks fs v = (\<Union>di \<in> ran (inodes fs v). set (owned v di)) \<and>
     (\<forall>b \<in> data_area fs - used_blocks fs v. v b = replicate BLOCK_SZ 0)"

lemma used_blocks_area: "used_blocks fs v \<subseteq> data_area fs"
  by (auto simp: used_blocks_def used_bits_def data_area_def)

lemma fs_okD:
  assumes "fs_ok fs v"
  shows "fs_areas fs" "blocks_ok v" "inodes fs v i = Some di \<Longrightarrow> i < inode_capacity fs"
    "inodes fs v i = Some di \<Longrightarrow> file_ok v di" "inodes fs v i = Some di \<Longrightarrow> disk_inode_of (inode_slot fs v i) = Inr di"
    "inodes fs v i = Some di \<Longrightarrow> set (owned v di) \<subseteq> used_blocks fs v"
    "inodes fs v i = Some di \<Longrightarrow> set (owned v di) \<subseteq> data_area fs"
proof -
  show i: "fs_areas fs" "blocks_ok v" "inodes fs v i = Some di \<Longrightarrow> file_ok v di" using assms by (auto simp: fs_ok_def)
  show "inodes fs v i = Some di \<Longrightarrow> i < inode_capacity fs" using assms by (auto simp: fs_ok_def)
  show "inodes fs v i = Some di \<Longrightarrow> disk_inode_of (inode_slot fs v i) = Inr di"
    by (auto simp: inodes_def split: if_splits sum.splits)
  show 1: "inodes fs v i = Some di \<Longrightarrow> set (owned v di) \<subseteq> used_blocks fs v" using assms by (auto simp: fs_ok_def ran_def)
  show "inodes fs v i = Some di \<Longrightarrow> set (owned v di) \<subseteq> data_area fs" using 1 used_blocks_area by blast
qed

text \<open>The blocks of the other files.\<close>

definition others :: "easy_fs \<Rightarrow> (nat \<Rightarrow> byte list) \<Rightarrow> nat \<Rightarrow> nat set" where
  "others fs v i = (\<Union>di \<in> ran ((inodes fs v)(i := None)). set (owned v di))"

lemma others_iff: "b \<in> others fs v i \<longleftrightarrow> (\<exists>j dj. j \<noteq> i \<and> inodes fs v j = Some dj \<and> b \<in> set (owned v dj))"
  by (auto simp: others_def ran_def)

lemma used_others:
  assumes "fs_ok fs v" "inodes fs v i = Some di"
  shows "used_blocks fs v = others fs v i \<union> set (owned v di)" "others fs v i \<inter> set (owned v di) = {}"
proof -
  have "used_blocks fs v = (\<Union>di \<in> ran (inodes fs v). set (owned v di))" using assms(1) by (simp add: fs_ok_def)
  also have "ran (inodes fs v) = insert di (ran ((inodes fs v)(i := None)))"
    using ran_map_upd [of "(inodes fs v)(i := None)" i di] assms(2) by (simp add: fun_upd_idem)
  also have "(\<Union>di \<in> insert di (ran ((inodes fs v)(i := None))). set (owned v di)) = others fs v i \<union> set (owned v di)"
    by (auto simp: others_def)
  finally show "used_blocks fs v = others fs v i \<union> set (owned v di)" .
  have "\<forall>i j di dj. inodes fs v i = Some di \<and> inodes fs v j = Some dj \<and> i \<noteq> j \<longrightarrow> set (owned v di) \<inter> set (owned v dj) = {}"
    using assms(1) unfolding fs_ok_def by (elim conjE)
  then have "set (owned v dj) \<inter> set (owned v di) = {}" if "j \<noteq> i" "inodes fs v j = Some dj" for j dj
    using assms(2) that by metis
  then show "others fs v i \<inter> set (owned v di) = {}" unfolding disjoint_iff others_iff by metis
qed

lemma file_frame:
  assumes "\<And>b. b \<in> set (owned v di) \<Longrightarrow> v' b = v b"
  shows "owned v' di = owned v di" "file_data v' di = file_data v di" "file_bytes v' di = file_bytes v di"
    "file_ok v di \<Longrightarrow> file_ok v' di"
proof -
  have "v' b = v b" if "b \<in> set (index_blocks v di (data_blocks di))" for b using that assms by (simp add: set_owned)
  note f = owned_frame [OF this]
  show 1: "owned v' di = owned v di" by (rule f)
  show 2: "file_data v' di = file_data v di"
    using f(2) assms by (auto simp: file_data_def set_owned intro!: arg_cong [where f = concat])
  then show "file_bytes v' di = file_bytes v di" "file_ok v di \<Longrightarrow> file_ok v' di" using 1 by (simp_all add: file_bytes_def file_ok_def)
qed

section \<open>Changing one inode\<close>

lemma used_bits_frame: "(\<And>b. b \<in> bitmap_blocks bm \<Longrightarrow> v' b = v b) \<Longrightarrow> used_bits bm v' = used_bits bm v"
  unfolding used_bits_def using bitmap_block_mem bit_block by (metis (no_types, lifting))

lemma slice_copy_disjoint:
  assumes "off + length src \<le> length dst" "off + length src \<le> p \<or> p + n \<le> off"
  shows "slice_of p n (copy_into off src dst) = slice_of p n dst"
proof (cases "off + length src \<le> p")
  case True
  then have "drop p (copy_into off src dst) = drop p dst" using assms(1) by (simp add: copy_into_def)
  then show ?thesis by (simp add: slice_of_def)
next
  case False
  then have "take (p + n) (copy_into off src dst) = take (p + n) dst" using assms by (simp add: copy_into_def min_def)
  then have "drop p (take (p + n) (copy_into off src dst)) = drop p (take (p + n) dst)" by simp
  then show ?thesis by (simp add: slice_of_def drop_take)
qed

lemma inode_slot_update:
  assumes "fs_areas fs" "i < inode_capacity fs" "blocks_ok v" "di_wf di'"
    and meta: "\<And>b. inode_area_start_block fs \<le> b \<Longrightarrow> b < start_block_id (data_bitmap fs) \<Longrightarrow> b \<noteq> inode_block fs i \<Longrightarrow> v' b = v b"
    and slot: "v' (inode_block fs i) = copy_into (inode_off i) (disk_inode_bytes di') (v (inode_block fs i))"
  shows "disk_inode_of (inode_slot fs v' i) = Inr di'"
    and "\<And>j. j < inode_capacity fs \<Longrightarrow> j \<noteq> i \<Longrightarrow> inode_slot fs v' j = inode_slot fs v j"
proof -
  have l: "length (v (inode_block fs i)) = BLOCK_SZ" using assms(3) by (simp add: blocks_ok_def)
  have "inode_slot fs v' i = disk_inode_bytes di'"
    using slot l inode_off_fits [of i] assms(4)
      slice_of_copy_into [of "inode_off i" "disk_inode_bytes di'" "v (inode_block fs i)"] by (simp add: inode_slot_def)
  then show "disk_inode_of (inode_slot fs v' i) = Inr di'" using disk_inode_round_trip [OF assms(4)] by simp
  fix j assume j: "j < inode_capacity fs" "j \<noteq> i"
  show "inode_slot fs v' j = inode_slot fs v j"
  proof (cases "inode_block fs j = inode_block fs i")
    case True
    then show ?thesis
      using slice_copy_disjoint [of "inode_off i" "disk_inode_bytes di'" "v (inode_block fs i)" "inode_off j" DISK_INODE_SZ]
        inode_pos_distinct [OF j(2) True] slot l inode_off_fits [of i] assms(4) by (auto simp: inode_slot_def)
  next
    case False
    then show ?thesis using meta [of "inode_block fs j"] inode_block_area [OF assms(1) j(1)] by (simp add: inode_slot_def)
  qed
qed

text \<open>The step: inode \<open>i\<close> becomes \<open>di'\<close>, its blocks change and the bitmap follows, everything else stays.\<close>

lemma fs_ok_update:
  assumes ok: "fs_ok fs v" and i: "i < inode_capacity fs" "i < bitmap_maximum (inode_bitmap fs)" and v': "blocks_ok v'"
    and sb: "v' 0 = v 0"
    and meta: "\<And>b. inode_area_start_block fs \<le> b \<Longrightarrow> b < start_block_id (data_bitmap fs) \<Longrightarrow> b \<noteq> inode_block fs i \<Longrightarrow> v' b = v b"
    and bm: "used_bits (inode_bitmap fs) v' = insert i (used_bits (inode_bitmap fs) v)"
    and slot: "v' (inode_block fs i) = copy_into (inode_off i) (disk_inode_bytes di') (v (inode_block fs i))"
    and di': "file_ok v' di'" and own: "others fs v i \<inter> set (owned v' di') = {}"
    and oth: "\<And>b. b \<in> others fs v i \<Longrightarrow> v' b = v b"
    and used: "used_blocks fs v' = others fs v i \<union> set (owned v' di')"
    and zero: "\<And>b. b \<in> data_area fs - used_blocks fs v' \<Longrightarrow> v' b = replicate BLOCK_SZ 0"
  shows "fs_ok fs v'" and "inodes fs v' = (inodes fs v)(i \<mapsto> di')"
    and "\<And>j dj. j \<noteq> i \<Longrightarrow> inodes fs v j = Some dj \<Longrightarrow> file_bytes v' dj = file_bytes v dj \<and> owned v' dj = owned v dj"
proof -
  have ar: "fs_areas fs" "blocks_ok v" using fs_okD [OF ok] by simp_all
  have wf: "di_wf di'" using di' by (simp add: file_ok_def di_ok_def)
  note sl = inode_slot_update [OF ar(1) i(1) ar(2) wf meta slot]
  have cap: "j < inode_capacity fs" if "inodes fs v j = Some dj" for j dj using fs_okD(3) [OF ok that] .
  have dom: "dom (inodes fs v) = used_bits (inode_bitmap fs) v" using ok by (simp add: fs_ok_def)
  have ino: "inodes fs v' j = ((inodes fs v)(i \<mapsto> di')) j" for j
  proof (cases "j = i")
    case True
    then show ?thesis using sl(1) bm by (simp add: inodes_def)
  next
    case False
    show ?thesis
    proof (cases "j \<in> used_bits (inode_bitmap fs) v")
      case True
      then have "j < inode_capacity fs" using dom cap by blast
      then show ?thesis using sl(2) False True bm by (simp add: inodes_def)
    next
      case nf: False
      then show ?thesis using False bm by (simp add: inodes_def)
    qed
  qed
  then show eq: "inodes fs v' = (inodes fs v)(i \<mapsto> di')" by blast
  have fr: "v' b = v b" if "j \<noteq> i" "inodes fs v j = Some dj" "b \<in> set (owned v dj)" for j dj b
    using that by (intro oth) (auto simp: others_iff)
  show other: "file_bytes v' dj = file_bytes v dj \<and> owned v' dj = owned v dj" if "j \<noteq> i" "inodes fs v j = Some dj" for j dj
    using file_frame(1,3) [OF fr [OF that]] by simp
  have files: "file_ok v' dj" if "inodes fs v' j = Some dj" for j dj
  proof (cases "j = i")
    case False
    then have j: "inodes fs v j = Some dj" using that ino by simp
    then show ?thesis using file_frame(4) [OF fr [OF False j]] fs_okD(4) [OF ok j] by simp
  qed (use that ino di' in simp)
  have oth_eq: "others fs v i = (\<Union>dj \<in> ran ((inodes fs v)(i := None)). set (owned v' dj))"
    unfolding others_def using other by (intro SUP_cong refl) (auto simp: ran_def split: if_splits)
  have dis: "set (owned v' dj) \<inter> set (owned v' dk) = {}"
    if jk: "inodes fs v' j = Some dj" "inodes fs v' k = Some dk" "j \<noteq> k" for j k dj dk
  proof -
    have o: "set (owned v' dj) \<subseteq> others fs v i" if "inodes fs v' j = Some dj" "j \<noteq> i" for j dj
    proof -
      have "inodes fs v j = Some dj" using that ino by simp
      then show ?thesis using that(2) other [of j dj] unfolding subset_iff others_iff by metis
    qed
    consider "j = i" "k \<noteq> i" | "k = i" "j \<noteq> i" | "j \<noteq> i" "k \<noteq> i" using jk(3) by blast
    then show ?thesis
    proof cases
      case 1
      then show ?thesis using o [OF jk(2)] own jk(1) ino by auto
    next
      case 2
      then show ?thesis using o [OF jk(1)] own jk(2) ino by auto
    next
      case 3
      then have old: "inodes fs v j = Some dj" "inodes fs v k = Some dk" using jk ino by simp_all
      then have "set (owned v dj) \<inter> set (owned v dk) = {}" using used_others(2) [OF ok old(2)] jk(3) old(1) unfolding disjoint_iff others_iff by metis
      then show ?thesis using other [OF 3(1) old(1)] other [OF 3(2) old(2)] by simp
    qed
  qed
  have slots: "\<exists>di. disk_inode_of (inode_slot fs v' j) = Inr di" if "j < inode_capacity fs" for j
    using sl that ok by (cases "j = i") (auto simp: fs_ok_def)
  have dom': "dom (inodes fs v') = insert i (dom (inodes fs v))" by (simp add: eq)
  have "ran (inodes fs v') = insert di' (ran ((inodes fs v)(i := None)))"
    using ran_map_upd [of "(inodes fs v)(i := None)" i di'] by (simp add: eq)
  then have "used_blocks fs v' = (\<Union>dj \<in> ran (inodes fs v'). set (owned v' dj))" using used oth_eq by auto
  moreover have "dom (inodes fs v') \<subseteq> {..<inode_capacity fs}" unfolding dom' using cap i(1) by auto
  moreover have "\<forall>j k dj dk. inodes fs v' j = Some dj \<and> inodes fs v' k = Some dk \<and> j \<noteq> k \<longrightarrow>
      set (owned v' dj) \<inter> set (owned v' dk) = {}" using dis by blast
  moreover have "efs_of_super_block (slice_of 0 SUPER_BLOCK_SZ (v' 0)) = Inr fs" using ok sb by (simp add: fs_ok_def)
  ultimately show "fs_ok fs v'"
    unfolding fs_ok_def using ar(1) v' slots dom' dom bm files zero by (intro conjI) simp_all
qed

end
