(* ===== verification/Vfs_Inode.thy ===== *)
theory Vfs_Inode
  imports Easy_Fs User_Buffer
begin

text \<open>
  Inodes as the kernel uses them (\<^verbatim>\<open>vfs.rs\<close>) and open files (\<^verbatim>\<open>file.rs\<close>): a flat directory of 32-byte entries in the root inode, hard
  links, reading and writing at an offset with growth, truncation, and file handles with an offset of their own.
  An \<^verbatim>\<open>Inode\<close> is the position of its disk inode; the file system object and the device are arguments.
\<close>

section \<open>Inodes\<close>

record inode =
  block_id :: nat
  block_offset :: nat

definition inode_new :: "nat \<Rightarrow> nat \<Rightarrow> inode" where
  "inode_new b off = \<lparr>block_id = b, block_offset = off\<rparr>"

definition read_disk_inode :: "'s block_ops \<Rightarrow> inode \<Rightarrow> (disk_inode \<Rightarrow> ('s, 'a) io) \<Rightarrow> ('s, 'a) io" where
  "read_disk_inode ops ino f =
     bc_read ops (block_id ino) (block_offset ino) DISK_INODE_SZ
       (\<lambda>bytes. bind_io (lift_io (disk_inode_of bytes)) f)"

definition modify_disk_inode ::
  "'s block_ops \<Rightarrow> inode \<Rightarrow> (disk_inode \<Rightarrow> ('s, 'a \<times> disk_inode) io) \<Rightarrow> ('s, 'a) io" where
  "modify_disk_inode ops ino f =
     bc_modify ops (block_id ino) (block_offset ino) DISK_INODE_SZ (on_disk_inode f)"

definition get_inode_id :: "easy_fs \<Rightarrow> inode \<Rightarrow> nat res" where
  "get_inode_id fs ino = efs_get_inode_id fs (block_id ino) (block_offset ino)"

definition inode_is_dir :: "'s block_ops \<Rightarrow> inode \<Rightarrow> ('s, bool) io" where
  "inode_is_dir ops ino = read_disk_inode ops ino (\<lambda>di. return_io (di_is_dir di))"

definition get_link_num :: "'s block_ops \<Rightarrow> inode \<Rightarrow> ('s, nat) io" where
  "get_link_num ops ino = read_disk_inode ops ino (\<lambda>di. return_io (link_num di))"

definition root_inode :: "easy_fs \<Rightarrow> inode res" where
  "root_inode fs = bind_res (get_disk_inode_pos fs 0) (\<lambda>(b, off). Inr (inode_new b off))"

text \<open>
  The search of \<^verbatim>\<open>find_inode_id\<close> and \<^verbatim>\<open>unlink\<close>: the first entry of the name among the given positions. The buffer of
  the entry is reused; it is overwritten as a whole because the assertion demands 32 bytes.
\<close>

fun find_dirent :: "'s block_ops \<Rightarrow> disk_inode \<Rightarrow> byte list \<Rightarrow> byte list \<Rightarrow> nat list \<Rightarrow> ('s, (nat \<times> dir_entry) option) io" where
  "find_dirent ops di name buf [] = return_io None"
| "find_dirent ops di name buf (i # is) =
     bind_io (di_read_at ops di (DIRENT_SZ * i) buf) (\<lambda>(n, buf').
     bind_io (lift_io (assert_res (n = DIRENT_SZ))) (\<lambda>_.
     bind_io (lift_io (dirent_name (dirent_of buf'))) (\<lambda>nm.
       if nm = name then return_io (Some (i, dirent_of buf')) else find_dirent ops di name buf' is)))"

definition file_count :: "disk_inode \<Rightarrow> nat" where
  "file_count di = di_size di div DIRENT_SZ"

definition find_inode_id :: "'s block_ops \<Rightarrow> byte list \<Rightarrow> disk_inode \<Rightarrow> ('s, nat option) io" where
  "find_inode_id ops name di =
     bind_io (lift_io (assert_res (di_is_dir di))) (\<lambda>_.
     bind_io (find_dirent ops di name (dirent_bytes dirent_empty) [0..<file_count di]) (\<lambda>r.
       return_io (map_option (\<lambda>(_, d). inode_number d) r)))"

definition inode_find :: "'s block_ops \<Rightarrow> easy_fs \<Rightarrow> inode \<Rightarrow> byte list \<Rightarrow> ('s, inode option) io" where
  "inode_find ops fs ino name =
     read_disk_inode ops ino (\<lambda>di.
     bind_io (find_inode_id ops name di) (\<lambda>r.
       case r of
         None \<Rightarrow> return_io None
       | Some inode_id \<Rightarrow>
           bind_io (lift_io (get_disk_inode_pos fs inode_id)) (\<lambda>(b, off). return_io (Some (inode_new b off)))))"

fun alloc_data_blocks :: "'s block_ops \<Rightarrow> easy_fs \<Rightarrow> nat \<Rightarrow> nat list \<Rightarrow> ('s, nat list) io" where
  "alloc_data_blocks ops fs 0 v = return_io v"
| "alloc_data_blocks ops fs (Suc n) v = bind_io (alloc_data ops fs) (\<lambda>b. alloc_data_blocks ops fs n (v @ [b]))"

definition inode_increase_size :: "'s block_ops \<Rightarrow> easy_fs \<Rightarrow> nat \<Rightarrow> disk_inode \<Rightarrow> ('s, disk_inode) io" where
  "inode_increase_size ops fs new_size di =
     (if new_size < di_size di then return_io di
      else
        bind_io (lift_io (blocks_num_needed di new_size)) (\<lambda>blocks_needed.
        bind_io (alloc_data_blocks ops fs blocks_needed []) (\<lambda>v.
          di_increase_size ops new_size v di)))"

text \<open>The closure of \<^verbatim>\<open>create\<close> and \<^verbatim>\<open>link\<close> that appends an entry to the directory.\<close>

definition append_dirent :: "'s block_ops \<Rightarrow> easy_fs \<Rightarrow> byte list \<Rightarrow> nat \<Rightarrow> disk_inode \<Rightarrow> ('s, unit \<times> disk_inode) io" where
  "append_dirent ops fs name inode_id di =
     (let n = file_count di; new_size = (n + 1) * DIRENT_SZ in
      bind_io (inode_increase_size ops fs (as_u32 new_size) di) (\<lambda>di'.
      bind_io (lift_io (dirent_new name inode_id)) (\<lambda>dirent.
      bind_io (di_write_at ops di' (n * DIRENT_SZ) (dirent_bytes dirent)) (\<lambda>_.
        return_io ((), di')))))"

definition inode_create :: "'s block_ops \<Rightarrow> easy_fs \<Rightarrow> inode \<Rightarrow> byte list \<Rightarrow> ('s, inode option) io" where
  "inode_create ops fs ino name =
     bind_io (alloc_inode ops fs) (\<lambda>new_inode_id.
     bind_io (init_inode_at ops fs new_inode_id File) (\<lambda>_.
     bind_io (modify_disk_inode ops ino (append_dirent ops fs name new_inode_id)) (\<lambda>_.
     bind_io (lift_io (get_disk_inode_pos fs new_inode_id)) (\<lambda>(b, off).
     bind_io (sync_all ops) (\<lambda>_. return_io (Some (inode_new b off)))))))"

definition inode_link :: "'s block_ops \<Rightarrow> easy_fs \<Rightarrow> inode \<Rightarrow> byte list \<Rightarrow> byte list \<Rightarrow> ('s, bool) io" where
  "inode_link ops fs ino name new_name =
     bind_io (read_disk_inode ops ino (find_inode_id ops name)) (\<lambda>r.
     case r of
       None \<Rightarrow> return_io False
     | Some old_inode_id \<Rightarrow>
         bind_io (modify_disk_inode ops ino (append_dirent ops fs new_name old_inode_id)) (\<lambda>_.
         bind_io (lift_io (get_disk_inode_pos fs old_inode_id)) (\<lambda>(b, off).
         bind_io (bc_modify ops b off DISK_INODE_SZ (on_disk_inode (\<lambda>di.
             bind_io (lift_io (add_res u32_bound (link_num di) 1)) (\<lambda>n. return_io ((), di\<lparr>link_num := n\<rparr>))))) (\<lambda>_.
         bind_io (sync_all ops) (\<lambda>_. return_io True)))))"

text \<open>The closure of \<^verbatim>\<open>unlink\<close> that clears the entry.\<close>

definition clear_dirent :: "'s block_ops \<Rightarrow> byte list \<Rightarrow> disk_inode \<Rightarrow> ('s, unit \<times> disk_inode) io" where
  "clear_dirent ops name di =
     bind_io (find_dirent ops di name (dirent_bytes dirent_empty) [0..<file_count di]) (\<lambda>r.
     bind_io (lift_io (unwrap r)) (\<lambda>(i, _).
     bind_io (di_write_at ops di (i * DIRENT_SZ) (dirent_bytes dirent_empty)) (\<lambda>_.
       return_io ((), di))))"

fun dealloc_all :: "'s block_ops \<Rightarrow> easy_fs \<Rightarrow> nat list \<Rightarrow> ('s, unit) io" where
  "dealloc_all ops fs [] = return_io ()"
| "dealloc_all ops fs (b # bs) = bind_io (dealloc_data ops fs b) (\<lambda>_. dealloc_all ops fs bs)"

definition inode_clear :: "'s block_ops \<Rightarrow> easy_fs \<Rightarrow> inode \<Rightarrow> ('s, unit) io" where
  "inode_clear ops fs ino =
     bind_io (modify_disk_inode ops ino (\<lambda>di.
       bind_io (di_clear_size ops di) (\<lambda>(data_blocks_dealloc, di').
       bind_io (lift_io (assert_res (length data_blocks_dealloc = total_blocks (di_size di)))) (\<lambda>_.
       bind_io (dealloc_all ops fs data_blocks_dealloc) (\<lambda>_. return_io ((), di')))))) (\<lambda>_.
     sync_all ops)"

definition inode_unlink :: "'s block_ops \<Rightarrow> easy_fs \<Rightarrow> inode \<Rightarrow> byte list \<Rightarrow> ('s, bool) io" where
  "inode_unlink ops fs ino name =
     bind_io (inode_find ops fs ino name) (\<lambda>r.
     case r of
       None \<Rightarrow> return_io False
     | Some target \<Rightarrow>
         bind_io (modify_disk_inode ops target (\<lambda>di.
           bind_io (lift_io (assert_res (link_num di > 0))) (\<lambda>_.
             return_io (link_num di - 1, di\<lparr>link_num := link_num di - 1\<rparr>)))) (\<lambda>n.
         bind_io (modify_disk_inode ops ino (clear_dirent ops name)) (\<lambda>_.
         bind_io (if n = 0 then inode_clear ops fs target else return_io ()) (\<lambda>_.
         bind_io (sync_all ops) (\<lambda>_. return_io True)))))"

fun read_names :: "'s block_ops \<Rightarrow> disk_inode \<Rightarrow> nat list \<Rightarrow> byte list list \<Rightarrow> ('s, byte list list) io" where
  "read_names ops di [] v = return_io v"
| "read_names ops di (i # is) v =
     bind_io (di_read_at ops di (i * DIRENT_SZ) (dirent_bytes dirent_empty)) (\<lambda>(n, buf).
     bind_io (lift_io (assert_res (n = DIRENT_SZ))) (\<lambda>_.
     bind_io (lift_io (dirent_name (dirent_of buf))) (\<lambda>nm.
       read_names ops di is (v @ [nm]))))"

definition readdir :: "'s block_ops \<Rightarrow> inode \<Rightarrow> ('s, byte list list) io" where
  "readdir ops ino = read_disk_inode ops ino (\<lambda>di. read_names ops di [0..<file_count di] [])"

definition inode_read_at :: "'s block_ops \<Rightarrow> inode \<Rightarrow> nat \<Rightarrow> byte list \<Rightarrow> ('s, nat \<times> byte list) io" where
  "inode_read_at ops ino offset buf = read_disk_inode ops ino (\<lambda>di. di_read_at ops di offset buf)"

text \<open>The new size is cut to 32 bits before the file grows.\<close>

definition inode_write_at :: "'s block_ops \<Rightarrow> easy_fs \<Rightarrow> inode \<Rightarrow> nat \<Rightarrow> byte list \<Rightarrow> ('s, nat) io" where
  "inode_write_at ops fs ino offset buf =
     bind_io (modify_disk_inode ops ino (\<lambda>di.
       bind_io (lift_io (add_res usize_bound offset (length buf))) (\<lambda>e.
       bind_io (inode_increase_size ops fs (as_u32 e) di) (\<lambda>di'.
       bind_io (di_write_at ops di' offset buf) (\<lambda>n. return_io (n, di')))))) (\<lambda>n.
     bind_io (sync_all ops) (\<lambda>_. return_io n))"

section \<open>Open files\<close>

text \<open>\<^verbatim>\<open>OpenFlags\<close> are the bits 0 (WRONLY), 1 (RDWR), 9 (CREATE) and 10 (TRUNC).\<close>

type_synonym open_flags = "32 word"

definition read_write :: "open_flags \<Rightarrow> bool \<times> bool" where
  "read_write flags = (if flags = 0 then (True, False) else if bit flags 0 then (False, True) else (True, True))"

record file_handle =
  fh_inode :: "inode option"
  fh_read :: bool
  fh_write :: bool
  fh_offset :: nat

definition fh_new :: "bool \<Rightarrow> bool \<Rightarrow> inode \<Rightarrow> file_handle" where
  "fh_new r w ino = \<lparr>fh_inode = Some ino, fh_read = r, fh_write = w, fh_offset = 0\<rparr>"

definition fh_empty :: "bool \<Rightarrow> bool \<Rightarrow> file_handle" where
  "fh_empty r w = \<lparr>fh_inode = None, fh_read = r, fh_write = w, fh_offset = 0\<rparr>"

definition readable :: "file_handle \<Rightarrow> bool" where
  "readable fh \<longleftrightarrow> fh_read fh"

definition writable :: "file_handle \<Rightarrow> bool" where
  "writable fh \<longleftrightarrow> fh_write fh"

text \<open>The loops over the slices of the user buffer: the slices still to come, the offset and the bytes so far.\<close>

fun read_slices :: "'s block_ops \<Rightarrow> inode \<Rightarrow> user_buffer \<Rightarrow> nat \<Rightarrow> nat \<Rightarrow> ('s, nat \<times> nat \<times> user_buffer) io" where
  "read_slices ops ino [] offset n = return_io (n, offset, [])"
| "read_slices ops ino (sl # rest) offset n =
     bind_io (inode_read_at ops ino offset sl) (\<lambda>(read_size, sl').
       if read_size = 0 then return_io (n, offset, sl' # rest)
       else bind_io (read_slices ops ino rest (offset + read_size) (n + read_size)) (\<lambda>(m, off, slices).
         return_io (m, off, sl' # slices)))"

definition fh_read_buf :: "'s block_ops \<Rightarrow> file_handle \<Rightarrow> user_buffer \<Rightarrow> ('s, int \<times> file_handle \<times> user_buffer) io" where
  "fh_read_buf ops fh buf =
     (case fh_inode fh of
        None \<Rightarrow> return_io (- 1, fh, buf)
      | Some ino \<Rightarrow>
          bind_io (read_slices ops ino buf (fh_offset fh) 0) (\<lambda>(n, off, buf').
            return_io (usize_as_isize n, fh\<lparr>fh_offset := off\<rparr>, buf')))"

fun write_slices :: "'s block_ops \<Rightarrow> easy_fs \<Rightarrow> inode \<Rightarrow> user_buffer \<Rightarrow> nat \<Rightarrow> nat \<Rightarrow> ('s, nat \<times> nat) io" where
  "write_slices ops fs ino [] offset n = return_io (n, offset)"
| "write_slices ops fs ino (sl # rest) offset n =
     bind_io (inode_write_at ops fs ino offset sl) (\<lambda>write_size.
     bind_io (lift_io (assert_res (write_size = length sl))) (\<lambda>_.
       write_slices ops fs ino rest (offset + write_size) (n + write_size)))"

definition fh_write_buf :: "'s block_ops \<Rightarrow> easy_fs \<Rightarrow> file_handle \<Rightarrow> user_buffer \<Rightarrow> ('s, int \<times> file_handle) io" where
  "fh_write_buf ops fs fh buf =
     (case fh_inode fh of
        None \<Rightarrow> return_io (- 1, fh)
      | Some ino \<Rightarrow>
          bind_io (write_slices ops fs ino buf (fh_offset fh) 0) (\<lambda>(n, off).
            return_io (usize_as_isize n, fh\<lparr>fh_offset := off\<rparr>)))"

end
