(* ===== verification/Fs_Edit.thy ===== *)
theory Fs_Edit
  imports Fs_State Vfs_Inode
begin

text \<open>
  Operations that change one inode. \<open>files fs v\<close> is the abstract file system: type, link count and bytes of every used
  inode. A closure that edits an inode and its blocks (\<open>edited\<close>) becomes, through \<^verbatim>\<open>modify_disk_inode\<close>, a step that keeps
  the invariant and changes exactly one abstract file.
\<close>

type_synonym afile = "disk_inode_type \<times> nat \<times> byte list"

definition file_of :: "(nat \<Rightarrow> byte list) \<Rightarrow> disk_inode \<Rightarrow> afile" where
  "file_of v di = (di_type di, link_num di, file_bytes v di)"

definition files :: "easy_fs \<Rightarrow> (nat \<Rightarrow> byte list) \<Rightarrow> nat \<rightharpoonup> afile" where
  "files fs v i = map_option (file_of v) (inodes fs v i)"

definition free_blocks :: "easy_fs \<Rightarrow> (nat \<Rightarrow> byte list) \<Rightarrow> nat set" where
  "free_blocks fs v = data_area fs - used_blocks fs v"

definition edited :: "easy_fs \<Rightarrow> (nat \<Rightarrow> byte list) \<Rightarrow> nat \<Rightarrow> (nat \<Rightarrow> byte list) \<Rightarrow> disk_inode \<Rightarrow> bool" where
  "edited fs v i v' di' \<longleftrightarrow>
     file_ok v' di' \<and> set (owned v' di') \<subseteq> data_area fs \<and> others fs v i \<inter> set (owned v' di') = {} \<and>
     used_blocks fs v' = others fs v i \<union> set (owned v' di') \<and> (\<forall>b \<in> free_blocks fs v'. v' b = replicate BLOCK_SZ 0) \<and>
     (\<forall>b \<in> others fs v i. v' b = v b) \<and> (\<forall>b. b \<notin> bitmap_blocks (data_bitmap fs) \<and> b \<notin> data_area fs \<longrightarrow> v' b = v b)"

abbreviation ino :: "easy_fs \<Rightarrow> nat \<Rightarrow> inode" where
  "ino fs i \<equiv> inode_new (inode_block fs i) (inode_off i)"

lemma finite_free_blocks [simp]: "finite (free_blocks fs v)"
  by (simp add: free_blocks_def data_area_def)

lemma data_bitmap_apart: "fs_areas fs \<Longrightarrow> bitmap_blocks (data_bitmap fs) \<inter> data_area fs = {}"
  by (auto simp: fs_areas_def bitmap_blocks_def data_area_def)

lemma files_Some: "files fs v i = Some f \<longleftrightarrow> (\<exists>di. inodes fs v i = Some di \<and> f = file_of v di)"
  by (auto simp: files_def)

lemma inode_used: "inodes fs v i = Some di \<Longrightarrow> i \<in> used_bits (inode_bitmap fs) v"
  by (auto simp: inodes_def split: if_splits)

text \<open>An unchanged inode counts as edited.\<close>

lemma edited_same:
  assumes "fs_ok fs v" "inodes fs v i = Some di"
  shows "edited fs v i v di"
  using assms fs_okD [OF assms(1)] used_others [OF assms] by (auto simp: edited_def free_blocks_def fs_ok_def)

text \<open>Writing the inode back.\<close>

lemma edited_write_back:
  assumes ok: "fs_ok fs v" "inodes fs v i = Some di" and ed: "edited fs v i v' di'" and l: "blocks_ok v'"
  defines "v'' \<equiv> v'(inode_block fs i := copy_into (inode_off i) (disk_inode_bytes di') (v' (inode_block fs i)))"
  shows "fs_ok fs v''" "files fs v'' = (files fs v)(i \<mapsto> file_of v' di')" "free_blocks fs v'' = free_blocks fs v'"
    "inodes fs v'' = (inodes fs v)(i \<mapsto> di')"
proof -
  let ?b = "inode_block fs i"
  have ar: "fs_areas fs" and i: "i < inode_capacity fs" using fs_okD [OF ok(1)] ok(2) by auto
  note blk = inode_block_area [OF ar i]
  have wf: "di_wf di'" using ed by (simp add: edited_def file_ok_def di_ok_def)
  have fr: "v'' b = v b" if "b \<notin> bitmap_blocks (data_bitmap fs)" "b \<notin> data_area fs" "b \<noteq> ?b" for b
    using that ed by (simp add: edited_def v''_def)
  have vb: "v' ?b = v ?b" using ed blk by (simp add: edited_def)
  have da: "v'' b = v' b" if "b \<noteq> ?b" for b using that by (simp add: v''_def)
  have own: "v'' b = v' b" if "b \<in> set (owned v' di')" for b using that ed blk(5) by (intro da) (auto simp: edited_def)
  note ff = file_frame [OF own]
  have "used_bits (data_bitmap fs) v'' = used_bits (data_bitmap fs) v'" by (rule used_bits_frame, rule da) (use blk(3) in blast)
  then have ub: "used_blocks fs v'' = used_blocks fs v'" by (simp add: used_blocks_def)
  then show fb: "free_blocks fs v'' = free_blocks fs v'" by (simp add: free_blocks_def)
  have ib: "used_bits (inode_bitmap fs) v'' = used_bits (inode_bitmap fs) v"
    by (rule used_bits_frame, rule fr) (use ar blk(4) in \<open>auto simp: fs_areas_def bitmap_blocks_def data_area_def\<close>)
  have im: "i < bitmap_maximum (inode_bitmap fs)" using inode_used [OF ok(2)] by (simp add: used_bits_def)
  have bo: "blocks_ok v''" using l inode_off_fits [of i] wf by (auto simp: blocks_ok_def v''_def)
  have meta: "v'' b = v b" if "inode_area_start_block fs \<le> b" "b < start_block_id (data_bitmap fs)" "b \<noteq> ?b" for b
    using that ar by (intro fr) (auto simp: fs_areas_def bitmap_blocks_def data_area_def)
  have oth: "v'' b = v b" if "b \<in> others fs v i" for b
  proof -
    have "b \<in> data_area fs" using that used_others(1) [OF ok] used_blocks_area by blast
    then have "b \<noteq> ?b" using blk(5) by blast
    then show ?thesis using that da ed by (simp add: edited_def)
  qed
  have bm: "used_bits (inode_bitmap fs) v'' = insert i (used_bits (inode_bitmap fs) v)"
    using ib inode_used [OF ok(2)] by (simp add: insert_absorb)
  have slot: "v'' ?b = copy_into (inode_off i) (disk_inode_bytes di') (v ?b)" by (simp add: v''_def vb)
  have fo: "file_ok v'' di'" using ff(4) ed by (simp add: edited_def)
  have od: "others fs v i \<inter> set (owned v'' di') = {}" "used_blocks fs v'' = others fs v i \<union> set (owned v'' di')"
    using ff(1) ed ub by (simp_all add: edited_def)
  have zero: "v'' b = replicate BLOCK_SZ 0" if "b \<in> data_area fs - used_blocks fs v''" for b
  proof -
    have "b \<in> free_blocks fs v'" "b \<noteq> ?b" using that ub blk(5) by (auto simp: free_blocks_def)
    then show ?thesis using da ed by (simp add: edited_def)
  qed
  have sb: "v'' 0 = v 0" using super_block_apart [OF ar] by (intro fr) auto
  note up = fs_ok_update [OF ok(1) i im bo sb meta bm slot fo od(1) oth od(2) zero]
  show "fs_ok fs v''" "inodes fs v'' = (inodes fs v)(i \<mapsto> di')" using up by simp_all
  show "files fs v'' = (files fs v)(i \<mapsto> file_of v' di')"
  proof
    fix j
    show "files fs v'' j = ((files fs v)(i \<mapsto> file_of v' di')) j"
      using up(2) up(3) [of j] ff(3) by (cases "inodes fs v j") (auto simp: files_def file_of_def)
  qed
qed

context block_store
begin

lemma runs_blocks_ok: "runs m s P \<Longrightarrow> runs m s (\<lambda>a v. P a v \<and> blocks_ok v)"
  using block_length by (auto simp: store_runs_def blocks_ok_def)

lemma runs_read_inode:
  assumes s: "ok s" "locked s = []" "fs_ok fs (view s)" "inodes fs (view s) i = Some di"
    and f: "\<And>s'. ok s' \<Longrightarrow> view s' = view s \<Longrightarrow> locked s' = [inode_block fs i] \<Longrightarrow> runs (f di) s' P"
  shows "runs (read_disk_inode ops (ino fs i) f) s P"
  unfolding read_disk_inode_def
proof (rule runs_read)
  fix s' assume s': "ok s'" "view s' = view s" "locked s' = block_id (ino fs i) # locked s"
  have "disk_inode_of (slice_of (block_offset (ino fs i)) DISK_INODE_SZ (view s (block_id (ino fs i)))) = Inr di"
    using fs_okD(5) [OF s(3,4)] by (simp add: inode_slot_def inode_new_def)
  then show "runs (bind_io (lift_io (disk_inode_of (slice_of (block_offset (ino fs i)) DISK_INODE_SZ (view s (block_id (ino fs i)))))) f) s' P"
    using f [OF s'(1,2)] s'(3) s(2) by (simp add: inode_new_def)
qed (use s inode_off_fits [of i] in \<open>simp_all add: inode_new_def\<close>)

lemma runs_edit_inode:
  assumes s: "ok s" "locked s = []" "fs_ok fs (view s)" "inodes fs (view s) i = Some di"
    and f: "\<And>s'. ok s' \<Longrightarrow> view s' = view s \<Longrightarrow> locked s' = [inode_block fs i] \<Longrightarrow>
      runs (f di) s' (\<lambda>(a, di') v'. edited fs (view s) i v' di' \<and> P a (file_of v' di') (free_blocks fs v'))"
  shows "runs (modify_disk_inode ops (ino fs i) f) s
    (\<lambda>a v'. fs_ok fs v' \<and> (\<exists>x. files fs v' = (files fs (view s))(i \<mapsto> x) \<and> P a x (free_blocks fs v')))"
  unfolding modify_disk_inode_def
proof (rule runs_modify)
  let ?b = "inode_block fs i" and ?off = "inode_off i"
  fix s' assume s': "ok s'" "view s' = view s" "locked s' = block_id (ino fs i) # locked s"
  have "disk_inode_of (slice_of ?off DISK_INODE_SZ (view s ?b)) = Inr di"
    using fs_okD(5) [OF s(3,4)] by (simp add: inode_slot_def)
  then have "on_disk_inode f (slice_of ?off DISK_INODE_SZ (view s ?b)) = bind_io (f di) (\<lambda>(a, di'). return_io (a, disk_inode_bytes di'))"
    by (simp add: on_disk_inode_def)
  moreover have "runs (f di) s' (\<lambda>r v'. (case r of (a, di') \<Rightarrow> edited fs (view s) i v' di' \<and> P a (file_of v' di') (free_blocks fs v')) \<and> blocks_ok v')"
    using f [OF s'(1,2)] s'(3) s(2) by (intro runs_mono [OF runs_blocks_ok [OF f [OF s'(1,2)]]]) (auto simp: inode_new_def)
  then have "runs (bind_io (f di) (\<lambda>(a, di'). return_io (a, disk_inode_bytes di'))) s'
      (\<lambda>(a, bs) v. length bs = DISK_INODE_SZ \<and> fs_ok fs (v(?b := copy_into ?off bs (v ?b))) \<and>
        (\<exists>x. files fs (v(?b := copy_into ?off bs (v ?b))) = (files fs (view s))(i \<mapsto> x) \<and>
          P a x (free_blocks fs (v(?b := copy_into ?off bs (v ?b))))))"
  proof (rule runs_bind)
    fix r s2 assume s2: "ok s2" "(case r of (a, di') \<Rightarrow> edited fs (view s) i (view s2) di' \<and> P a (file_of (view s2) di') (free_blocks fs (view s2))) \<and>
      blocks_ok (view s2)"
    obtain a di' where r: "r = (a, di')" by fastforce
    then have ed: "edited fs (view s) i (view s2) di'" "blocks_ok (view s2)" "P a (file_of (view s2) di') (free_blocks fs (view s2))" using s2(2) by auto
    then have "length (disk_inode_bytes di') = DISK_INODE_SZ" by (simp add: edited_def file_ok_def di_ok_def)
    then show "runs ((\<lambda>(a, di'). return_io (a, disk_inode_bytes di')) r) s2 (\<lambda>(a, bs) v. length bs = DISK_INODE_SZ \<and>
        fs_ok fs (v(?b := copy_into ?off bs (v ?b))) \<and> (\<exists>x. files fs (v(?b := copy_into ?off bs (v ?b))) = (files fs (view s))(i \<mapsto> x) \<and>
          P a x (free_blocks fs (v(?b := copy_into ?off bs (v ?b))))))"
      unfolding r prod.case using edited_write_back [OF s(3,4) ed(1,2)] ed(3)
      by (intro runs_return [OF s2(1)]) (unfold prod.case, intro conjI exI [of _ "file_of (view s2) di'"], simp_all)
  qed
  ultimately show "runs (on_disk_inode f (slice_of (block_offset (ino fs i)) DISK_INODE_SZ (view s (block_id (ino fs i))))) s'
      (\<lambda>(a, bs) v. length bs = DISK_INODE_SZ \<and> fs_ok fs (v(block_id (ino fs i) := copy_into (block_offset (ino fs i)) bs (v (block_id (ino fs i))))) \<and>
        (\<exists>x. files fs (v(block_id (ino fs i) := copy_into (block_offset (ino fs i)) bs (v (block_id (ino fs i))))) = (files fs (view s))(i \<mapsto> x) \<and>
          P a x (free_blocks fs (v(block_id (ino fs i) := copy_into (block_offset (ino fs i)) bs (v (block_id (ino fs i))))))))"
    by (simp add: inode_new_def)
qed (use s inode_off_fits [of i] in \<open>simp_all add: inode_new_def\<close>)

end

end
