(* ===== verification/Fs_Write.thy ===== *)
theory Fs_Write
  imports Fs_Edit
begin

text \<open>
  Writing to a file through the whole stack: allocation of data blocks, growth of the inode, the write itself and the
  update of the inode on the device. A file is an array of bytes that grows with zeros.
\<close>

definition write_bytes :: "nat \<Rightarrow> byte list \<Rightarrow> byte list \<Rightarrow> byte list" where
  "write_bytes offset buf old = copy_into offset buf (old @ replicate (offset + length buf - length old) 0)"

section \<open>Allocating data blocks\<close>

context block_store
begin

lemma runs_alloc_data:
  assumes s: "ok s" "length (locked s) < BLOCK_CACHE_SIZE" "bitmap_blocks (data_bitmap fs) \<inter> set (locked s) = {}"
    and fs: "fs_areas fs" "free_blocks fs (view s) \<noteq> {}"
  shows "runs (alloc_data ops fs) s (\<lambda>b v'. b \<in> free_blocks fs (view s) \<and> used_blocks fs v' = insert b (used_blocks fs (view s)) \<and>
    (\<forall>x. x \<notin> bitmap_blocks (data_bitmap fs) \<longrightarrow> v' x = view s x))"
proof -
  let ?u = "used_bits (data_bitmap fs) (view s)" and ?D = "data_area_start_block fs" and ?m = "bitmap_maximum (data_bitmap fs)"
  obtain b where b: "b \<in> data_area fs" "b \<notin> used_blocks fs (view s)" using fs(2) by (auto simp: free_blocks_def)
  have ex: "b - ?D < ?m" "b - ?D \<notin> ?u" using b by (force simp: used_blocks_def data_area_def)+
  obtain n v' where v': "returns (bitmap_alloc ops (data_bitmap fs)) s (Some n) v'"
    "used_bits (data_bitmap fs) v' = insert n ?u" "\<And>b. b \<notin> bitmap_blocks (data_bitmap fs) \<Longrightarrow> v' b = view s b"
    and n1: "n \<notin> ?u" "\<And>m. m < n \<Longrightarrow> m \<in> ?u" "n \<le> b - ?D"
    by (rule alloc_first [OF s ex]) (rule that)
  have n: "n \<notin> ?u" "n < ?m" using n1 ex(1) by simp_all
  have u: "as_u32 n = n" "n + ?D < u32_bound" using n(2) fs(1) by (simp_all add: fs_areas_def)
  have "runs (alloc_data ops fs) s (\<lambda>b w. b = n + ?D \<and> w = v')"
    unfolding alloc_data_def
    by (rule runs_bind [OF returns_runs [OF v'(1), where P = "\<lambda>a w. a = Some n \<and> w = v'"]])
      (use u in \<open>auto simp: store_runs_def io_simps\<close>)
  then show ?thesis
  proof (rule runs_mono)
    fix b w assume "b = n + ?D \<and> w = v'"
    moreover have "n + ?D \<in> free_blocks fs (view s)" using n by (auto simp: free_blocks_def data_area_def used_blocks_def)
    ultimately show "b \<in> free_blocks fs (view s) \<and> used_blocks fs w = insert b (used_blocks fs (view s)) \<and>
        (\<forall>x. x \<notin> bitmap_blocks (data_bitmap fs) \<longrightarrow> w x = view s x)"
      using v'(2,3) by (simp add: used_blocks_def add.commute)
  qed
qed

lemma runs_alloc_data_blocks:
  assumes "ok s" "length (locked s) < BLOCK_CACHE_SIZE" "bitmap_blocks (data_bitmap fs) \<inter> set (locked s) = {}"
    and "fs_areas fs" "n \<le> card (free_blocks fs (view s))"
  shows "runs (alloc_data_blocks ops fs n acc) s (\<lambda>bs v'. \<exists>new. bs = acc @ new \<and> length new = n \<and> distinct new \<and>
    set new \<subseteq> free_blocks fs (view s) \<and> used_blocks fs v' = used_blocks fs (view s) \<union> set new \<and>
    (\<forall>x. x \<notin> bitmap_blocks (data_bitmap fs) \<longrightarrow> v' x = view s x))"
  using assms
proof (induction n arbitrary: s acc)
  case 0
  then show ?case by (auto intro!: runs_return)
next
  case (Suc n)
  have "free_blocks fs (view s) \<noteq> {}" using Suc.prems(5) by auto
  from runs_alloc_data [OF Suc.prems(1-4) this] show ?case
    unfolding alloc_data_blocks.simps
  proof (rule runs_bind)
    fix b s' assume s': "ok s'" "locked s' = locked s" and b: "b \<in> free_blocks fs (view s) \<and>
      used_blocks fs (view s') = insert b (used_blocks fs (view s)) \<and> (\<forall>x. x \<notin> bitmap_blocks (data_bitmap fs) \<longrightarrow> view s' x = view s x)"
    have free: "free_blocks fs (view s') = free_blocks fs (view s) - {b}" using b by (auto simp: free_blocks_def)
    have "runs (alloc_data_blocks ops fs n (acc @ [b])) s' (\<lambda>bs v'. \<exists>new. bs = (acc @ [b]) @ new \<and> length new = n \<and> distinct new \<and>
        set new \<subseteq> free_blocks fs (view s') \<and> used_blocks fs v' = used_blocks fs (view s') \<union> set new \<and>
        (\<forall>x. x \<notin> bitmap_blocks (data_bitmap fs) \<longrightarrow> v' x = view s' x))"
      using Suc.prems s' b free by (intro Suc.IH) (simp_all add: card_Diff_singleton)
    then show "runs (alloc_data_blocks ops fs n (acc @ [b])) s' (\<lambda>bs v'. \<exists>new. bs = acc @ new \<and> length new = Suc n \<and> distinct new \<and>
        set new \<subseteq> free_blocks fs (view s) \<and> used_blocks fs v' = used_blocks fs (view s) \<union> set new \<and>
        (\<forall>x. x \<notin> bitmap_blocks (data_bitmap fs) \<longrightarrow> v' x = view s x))"
    proof (rule runs_mono, elim exE conjE)
      fix bs v' new assume "bs = (acc @ [b]) @ new" "length new = n" "distinct new" "set new \<subseteq> free_blocks fs (view s')"
        "used_blocks fs v' = used_blocks fs (view s') \<union> set new" "\<forall>x. x \<notin> bitmap_blocks (data_bitmap fs) \<longrightarrow> v' x = view s' x"
      then show "\<exists>new. bs = acc @ new \<and> length new = Suc n \<and> distinct new \<and> set new \<subseteq> free_blocks fs (view s) \<and>
          used_blocks fs v' = used_blocks fs (view s) \<union> set new \<and> (\<forall>x. x \<notin> bitmap_blocks (data_bitmap fs) \<longrightarrow> v' x = view s x)"
        using b free by (intro exI [of _ "b # new"]) auto
    qed
  qed
qed

end

section \<open>The contents of a grown file\<close>

lemma concat_replicate_zeros: "concat (replicate k (replicate c x)) = replicate (k * c) x"
  by (induction k) (simp_all add: replicate_add)

lemma owned_upto_prefix: "m \<le> n \<Longrightarrow> take (owned_length m) (owned_upto v di n) = owned_upto v di m"
  using owned_upto_split [of m n v di] by (simp add: length_owned_upto)

lemma block_at_of_owned:
  assumes "owned_upto v di n = owned_upto v' di' n" "i < n"
  shows "block_at v di i = block_at v' di' i"
proof -
  have "owned_upto v di (Suc i) = owned_upto v' di' (Suc i)"
    using owned_upto_prefix [of "Suc i" n v di] owned_upto_prefix [of "Suc i" n v' di'] assms by (metis Suc_leI)
  then show ?thesis by (metis last_snoc append_assoc owned_simps(2))
qed

lemma owned_extended:
  assumes "owned v' di' = owned v di @ new" "data_blocks di \<le> data_blocks di'"
  shows "file_blocks v' di' = file_blocks v di @ map (block_at v' di') [data_blocks di..<data_blocks di']"
    "block_at v' di' ` {data_blocks di..<data_blocks di'} \<subseteq> set new"
proof -
  let ?n = "data_blocks di" and ?m = "data_blocks di'"
  have sp: "owned v' di' = owned_upto v' di' ?n @ concat (map (\<lambda>i. index_at v' di' i @ [block_at v' di' i]) [?n..<?m])"
    using owned_upto_split [OF assms(2), of v' di'] by (simp add: owned_def)
  have "owned_upto v' di' ?n = owned_upto v di ?n \<and> concat (map (\<lambda>i. index_at v' di' i @ [block_at v' di' i]) [?n..<?m]) = new"
    using sp assms(1) by (simp add: owned_def append_eq_append_conv length_owned_upto)
  then have e: "owned_upto v' di' ?n = owned_upto v di ?n" "concat (map (\<lambda>i. index_at v' di' i @ [block_at v' di' i]) [?n..<?m]) = new" by auto
  have "[0..<?m] = [0..<?n] @ [?n..<?m]" using assms(2) by (metis le_add_diff_inverse upt_add_eq_append zero_le)
  then show "file_blocks v' di' = file_blocks v di @ map (block_at v' di') [?n..<?m]"
    using block_at_of_owned [OF e(1)] by (simp add: file_blocks_def)
  show "block_at v' di' ` {?n..<?m} \<subseteq> set new" unfolding e(2) [symmetric] by auto
qed

lemma grown_file_data:
  assumes own: "owned v' di' = owned v di @ new" and n: "data_blocks di \<le> data_blocks di'" and d: "distinct (owned v di @ new)"
    and fr: "\<And>b. b \<in> set (owned v di @ new) \<Longrightarrow> b \<notin> set (index_blocks v' di' (data_blocks di')) \<Longrightarrow> v' b = v b"
    and zero: "\<And>b. b \<in> set new \<Longrightarrow> v b = replicate BLOCK_SZ 0"
  shows "file_data v' di' = file_data v di @ replicate ((data_blocks di' - data_blocks di) * BLOCK_SZ) 0"
proof -
  let ?new = "map (block_at v' di') [data_blocks di..<data_blocks di']"
  note ext = owned_extended [OF own n]
  have dis: "set (index_blocks v' di' (data_blocks di')) \<inter> set (file_blocks v' di') = {}" using d own by (intro distinct_owned(2)) simp
  have sub: "set (file_blocks v' di') \<subseteq> set (owned v di @ new)" using own set_owned [of v' di'] by auto
  have same: "v' b = v b" if "b \<in> set (file_blocks v' di')" for b using that dis sub by (intro fr) auto
  have "map v' (file_blocks v' di') = map v (file_blocks v di) @ map v ?new" using same ext(1) by (auto simp: map_idI)
  moreover have "map v ?new = map (\<lambda>_. replicate BLOCK_SZ 0) ?new" using ext(2) zero by (intro map_cong) auto
  then have "map v ?new = replicate (data_blocks di' - data_blocks di) (replicate BLOCK_SZ 0)" by (simp add: map_replicate_const)
  ultimately show ?thesis by (simp add: file_data_def concat_replicate_zeros)
qed

section \<open>Growing an inode of the file system\<close>

lemma file_data_parts:
  assumes "file_ok v di" "blocks_ok v"
  shows "file_data v di = file_bytes v di @ replicate (data_blocks di * BLOCK_SZ - di_size di) 0"
proof -
  let ?r = "drop (di_size di) (file_data v di)"
  have l: "length (file_data v di) = data_blocks di * BLOCK_SZ" using assms(2) by (intro length_file_data) (simp add: blocks_ok_def)
  have "?r = replicate (length ?r) 0" using assms(1) by (intro replicate_length_same [symmetric]) (simp add: file_ok_def)
  moreover have "file_data v di = file_bytes v di @ ?r" by (simp add: file_bytes_def)
  ultimately show ?thesis using l by (metis length_drop)
qed

lemma take_copy_into: "off + length src \<le> n \<Longrightarrow> n \<le> length dst \<Longrightarrow> take n (copy_into off src dst) = copy_into off src (take n dst)"
  by (cases "n = off") (auto simp: copy_into_def min_def drop_take)

lemma drop_copy_into: "off + length src \<le> n \<Longrightarrow> n \<le> length dst \<Longrightarrow> drop n (copy_into off src dst) = drop n dst"
  by (simp add: copy_into_def)

text \<open>The state after the new blocks are allocated and linked.\<close>

lemma edited_grown:
  assumes ok: "fs_ok fs v" "inodes fs v i = Some di"
    and new: "set new \<subseteq> free_blocks fs v" "used_blocks fs v1 = used_blocks fs v \<union> set new"
      "\<And>b. b \<notin> bitmap_blocks (data_bitmap fs) \<Longrightarrow> v1 b = v b"
    and di': "di_wf di'" "data_blocks di' \<le> INDIRECT2_BOUND" "di_size di \<le> di_size di'" "distinct (owned v di @ new)"
      "owned v' di' = owned v di @ new" "\<And>b. b \<notin> set (index_blocks v' di' (data_blocks di')) \<Longrightarrow> v' b = v1 b" "blocks_ok v'"
  shows "edited fs v i v' di'" "file_bytes v' di' = file_bytes v di @ replicate (di_size di' - di_size di) 0"
    "used_blocks fs v' = used_blocks fs v \<union> set new"
proof -
  have ar: "fs_areas fs" using fs_okD(1) [OF ok(1)] .
  have da: "b \<notin> bitmap_blocks (data_bitmap fs)" if "b \<in> data_area fs" for b using that data_bitmap_apart [OF ar] by blast
  have own: "set (owned v' di') \<subseteq> data_area fs" using di'(5) fs_okD(7) [OF ok] new(1) by (auto simp: free_blocks_def)
  have idx: "set (index_blocks v' di' (data_blocks di')) \<subseteq> set (owned v' di')" by (auto simp: set_owned)
  have fr: "v' b = v b" if "b \<notin> bitmap_blocks (data_bitmap fs)" "b \<notin> set (index_blocks v' di' (data_blocks di'))" for b
    using that di'(6) new(3) by simp
  note uo = used_others [OF ok]
  have mono: "data_blocks di \<le> data_blocks di'" using data_blocks_mono [OF di'(3)] by (simp add: data_blocks_def)
  have zero: "v b = replicate BLOCK_SZ 0" if "b \<in> free_blocks fs v" for b using ok(1) that by (simp add: fs_ok_def free_blocks_def)
  have "file_data v' di' = file_data v di @ replicate ((data_blocks di' - data_blocks di) * BLOCK_SZ) 0"
    using mono di'(4,5) fr own da zero new(1) by (intro grown_file_data) (auto simp: di'(5))
  then have fd: "file_data v' di' = file_bytes v di @
      replicate (data_blocks di * BLOCK_SZ - di_size di + (data_blocks di' - data_blocks di) * BLOCK_SZ) 0"
    using file_data_parts [OF fs_okD(4) [OF ok(1,2)] fs_okD(2) [OF ok(1)]] by (simp add: replicate_add)
  have len: "length (file_bytes v di) = di_size di" using fs_okD(2) [OF ok(1)] by (intro length_file_bytes) (simp add: blocks_ok_def)
  have fit: "di_size di' \<le> data_blocks di' * BLOCK_SZ" using size_data_blocks(1) [of "di_size di'"] by (simp add: data_blocks_def)
  have "length (file_data v' di') = data_blocks di' * BLOCK_SZ" using di'(7) by (intro length_file_data) (simp add: blocks_ok_def)
  then have "di_size di' \<le> di_size di + (data_blocks di * BLOCK_SZ - di_size di + (data_blocks di' - data_blocks di) * BLOCK_SZ)"
    using fd len fit by simp
  then show "file_bytes v' di' = file_bytes v di @ replicate (di_size di' - di_size di) 0"
    using fd len di'(3) by (simp add: file_bytes_def min_def)
  have slack: "\<forall>x \<in> set (drop (di_size di') (file_data v' di')). x = 0" using fd len di'(3) by (auto dest: in_set_dropD)
  have "used_bits (data_bitmap fs) v' = used_bits (data_bitmap fs) v1"
    by (rule used_bits_frame, rule di'(6)) (use idx own da in blast)
  then show ub: "used_blocks fs v' = used_blocks fs v \<union> set new" using new(2) by (simp add: used_blocks_def)
  have "v' b = v b" if "b \<in> others fs v i" for b
  proof (rule fr)
    have b: "b \<in> used_blocks fs v" using that uo(1) by blast
    then show "b \<notin> bitmap_blocks (data_bitmap fs)" using used_blocks_area da by blast
    have "b \<notin> set (owned v' di')" using that uo(2) b new(1) di'(5) by (auto simp: free_blocks_def)
    then show "b \<notin> set (index_blocks v' di' (data_blocks di'))" using idx by blast
  qed
  moreover have "v' b = replicate BLOCK_SZ 0" if "b \<in> free_blocks fs v'" for b
  proof -
    have b: "b \<in> free_blocks fs v" "b \<notin> set (owned v' di')" "b \<in> data_area fs" using that ub di'(5) uo(1) by (auto simp: free_blocks_def)
    then have "v' b = v b" using fr [of b] idx da by blast
    then show ?thesis using zero [OF b(1)] by simp
  qed
  moreover have "v' b = v b" if "b \<notin> bitmap_blocks (data_bitmap fs)" "b \<notin> data_area fs" for b using that fr idx own by blast
  moreover have "others fs v i \<inter> set (owned v' di') = {}" using uo new(1) di'(5) by (auto simp: free_blocks_def)
  moreover have "used_blocks fs v' = others fs v i \<union> set (owned v' di')" using ub uo(1) di'(5) by auto
  ultimately show "edited fs v i v' di'" unfolding edited_def using own slack di' by (auto simp: file_ok_def di_ok_def)
qed

text \<open>Rewriting bytes below the end of the file.\<close>

lemma edited_rewritten:
  assumes ed: "edited fs v i v1 di" and l: "blocks_ok v1" "fs_areas fs" and r: "offset + length buf \<le> di_size di"
    and w: "owned v' di = owned v1 di" "file_data v' di = copy_into offset buf (file_data v1 di)"
      "\<And>b. b \<notin> set (file_blocks v1 di) \<Longrightarrow> v' b = v1 b"
  shows "edited fs v i v' di" "file_bytes v' di = copy_into offset buf (file_bytes v1 di)" "used_blocks fs v' = used_blocks fs v1"
proof -
  have sz: "di_size di \<le> length (file_data v1 di)"
    using size_data_blocks(1) [of "di_size di"] length_file_data [of v1 di] l(1) by (simp add: data_blocks_def blocks_ok_def)
  show "file_bytes v' di = copy_into offset buf (file_bytes v1 di)" using take_copy_into [OF r sz] w(2) by (simp add: file_bytes_def)
  have fb: "set (file_blocks v1 di) \<subseteq> set (owned v1 di)" by (auto simp: set_owned)
  have own: "set (owned v1 di) \<subseteq> data_area fs" "others fs v i \<inter> set (owned v1 di) = {}" "used_blocks fs v1 = others fs v i \<union> set (owned v1 di)"
    using ed by (simp_all add: edited_def)
  have "used_bits (data_bitmap fs) v' = used_bits (data_bitmap fs) v1"
    by (rule used_bits_frame, rule w(3)) (use own(1) fb data_bitmap_apart [OF l(2)] in blast)
  then show ub: "used_blocks fs v' = used_blocks fs v1" by (simp add: used_blocks_def)
  have "file_ok v' di" using ed drop_copy_into [OF r sz] w(1,2) by (simp add: edited_def file_ok_def)
  moreover have "v' b = replicate BLOCK_SZ 0" if "b \<in> free_blocks fs v'" for b
  proof -
    have "b \<in> free_blocks fs v1" "b \<notin> set (file_blocks v1 di)" using that ub own(3) fb by (auto simp: free_blocks_def)
    then show ?thesis using ed w(3) by (simp add: edited_def)
  qed
  moreover have "v' b = v b" if "b \<in> others fs v i" for b
  proof -
    have "b \<notin> set (file_blocks v1 di)" using that own(2) fb by blast
    then show ?thesis using ed w(3) that by (simp add: edited_def)
  qed
  moreover have "v' b = v b" if b: "b \<notin> bitmap_blocks (data_bitmap fs)" "b \<notin> data_area fs" for b
  proof -
    have "b \<notin> set (file_blocks v1 di)" using b(2) own(1) fb by blast
    then show ?thesis using ed w(3) b by (simp add: edited_def)
  qed
  ultimately show "edited fs v i v' di" unfolding edited_def using own ub w(1) by simp
qed

context block_store
begin

text \<open>What a closure may assume while the block of inode \<open>i\<close> is taken.\<close>

lemma locked_inode_block:
  assumes "fs_ok fs v" "inodes fs v i = Some di"
  shows "bitmap_blocks (data_bitmap fs) \<inter> set [inode_block fs i] = {}" "data_area fs \<inter> set [inode_block fs i] = {}"
  using inode_block_area [OF fs_okD(1) [OF assms(1)] fs_okD(3) [OF assms]] by auto

lemma runs_inode_increase:
  assumes s: "ok s" "locked s = [inode_block fs i]" and fs: "fs_ok fs (view s)" "inodes fs (view s) i = Some di"
    and n: "data_blocks_of n \<le> INDIRECT2_BOUND" "n < u32_bound"
    and room: "owned_length (data_blocks_of (max (di_size di) n)) - owned_length (data_blocks di) \<le> card (free_blocks fs (view s))"
  shows "runs (inode_increase_size ops fs n di) s (\<lambda>di' v'. edited fs (view s) i v' di' \<and> di_size di' = max (di_size di) n \<and>
    file_of v' di' = (di_type di, link_num di, file_bytes (view s) di @ replicate (n - di_size di) 0) \<and>
    card (free_blocks fs v') + owned_length (data_blocks di') = card (free_blocks fs (view s)) + owned_length (data_blocks di))"
proof (cases "n < di_size di")
  case True
  then show ?thesis
    using edited_same [OF fs] s(1) by (auto simp: inode_increase_size_def file_of_def intro!: runs_return)
next
  case False
  let ?v = "view s"
  define k where "k = owned_length (data_blocks_of n) - owned_length (data_blocks di)"
  have dok: "di_wf di" "data_blocks di \<le> INDIRECT2_BOUND" "distinct (owned ?v di)" using fs_okD(4) [OF fs(1,2)] by (simp_all add: file_ok_def di_ok_def)
  have mono: "owned_length (data_blocks di) \<le> owned_length (data_blocks_of n)"
    using data_blocks_mono [of "di_size di" n] False by (intro length_owned_mono) (simp add: data_blocks_def)
  have need: "blocks_num_needed di n = Inr k"
    using False total_blocks_owned [OF n(1)] total_blocks_owned [of "di_size di"] dok(2) mono
    by (simp add: blocks_num_needed_def k_def data_blocks_def)
  have k: "k \<le> card (free_blocks fs ?v)" using room False by (simp add: k_def max_def split: if_splits)
  note lk = locked_inode_block [OF fs]
  have eq: "inode_increase_size ops fs n di = bind_io (alloc_data_blocks ops fs k []) (\<lambda>v. di_increase_size ops n v di)"
    using False need by (simp add: inode_increase_size_def)
  show ?thesis
    unfolding eq
  proof (rule runs_bind [OF runs_alloc_data_blocks [of s fs k "[]"]])
    fix bs s1 assume s1: "ok s1" "locked s1 = locked s" and "\<exists>new. bs = [] @ new \<and> length new = k \<and> distinct new \<and>
      set new \<subseteq> free_blocks fs ?v \<and> used_blocks fs (view s1) = used_blocks fs ?v \<union> set new \<and>
      (\<forall>x. x \<notin> bitmap_blocks (data_bitmap fs) \<longrightarrow> view s1 x = ?v x)"
    then have new: "length bs = k" "distinct bs" "set bs \<subseteq> free_blocks fs ?v" "used_blocks fs (view s1) = used_blocks fs ?v \<union> set bs"
      "\<And>x. x \<notin> bitmap_blocks (data_bitmap fs) \<Longrightarrow> view s1 x = ?v x" by auto
    have da: "set (owned ?v di) \<subseteq> data_area fs" "set bs \<subseteq> data_area fs" "set (owned ?v di) \<inter> set bs = {}"
      using fs_okD(6,7) [OF fs] new(3) by (auto simp: free_blocks_def)
    have "owned (view s1) di = owned ?v di"
      by (rule file_frame(1), rule new(5)) (use da(1) data_bitmap_apart [OF fs_okD(1) [OF fs(1)]] in blast)
    note own = this
    have d: "distinct (owned (view s1) di @ bs)" using dok(3) new(2) da(3) own by simp
    have u: "\<forall>b \<in> set bs. b < u32_bound" using da(2) fs_okD(1) [OF fs(1)] by (auto simp: data_area_def fs_areas_def)
    have "runs (di_increase_size ops n bs di) s1 (\<lambda>di' v'. (di_wf di' \<and> di_size di' = n \<and> di_type di' = di_type di \<and>
        link_num di' = link_num di \<and> owned v' di' = owned (view s1) di @ bs \<and>
        (\<forall>b. b \<notin> set (index_blocks v' di' (data_blocks di')) \<longrightarrow> v' b = view s1 b)) \<and> blocks_ok v')"
      using s s1 dok(1) False n mono new(1) u d da(1,2) lk(2) own
      by (intro runs_blocks_ok runs_increase_size) (auto simp: k_def)
    then show "runs (di_increase_size ops n bs di) s1 (\<lambda>di' v'. edited fs ?v i v' di' \<and> di_size di' = max (di_size di) n \<and>
      file_of v' di' = (di_type di, link_num di, file_bytes ?v di @ replicate (n - di_size di) 0) \<and>
      card (free_blocks fs v') + owned_length (data_blocks di') = card (free_blocks fs ?v) + owned_length (data_blocks di))"
    proof (rule runs_mono)
      fix di' v' assume p: "(di_wf di' \<and> di_size di' = n \<and> di_type di' = di_type di \<and> link_num di' = link_num di \<and>
        owned v' di' = owned (view s1) di @ bs \<and> (\<forall>b. b \<notin> set (index_blocks v' di' (data_blocks di')) \<longrightarrow> v' b = view s1 b)) \<and> blocks_ok v'"
      then have db: "data_blocks di' = data_blocks_of n" by (simp add: data_blocks_def)
      note g = edited_grown [OF fs new(3,4,5), of di' v']
      have "edited fs ?v i v' di'" "file_bytes v' di' = file_bytes ?v di @ replicate (n - di_size di) 0"
        "used_blocks fs v' = used_blocks fs ?v \<union> set bs"
        using g p db n(1) False d own by auto
      moreover have "card (free_blocks fs v') + length bs = card (free_blocks fs ?v)"
      proof -
        have "free_blocks fs ?v = free_blocks fs v' \<union> set bs" "free_blocks fs v' \<inter> set bs = {}"
          using calculation(3) new(3) by (auto simp: free_blocks_def)
        then show ?thesis using card_Un_disjoint [of "free_blocks fs v'" "set bs"] distinct_card [OF new(2)] by simp
      qed
      ultimately show "edited fs ?v i v' di' \<and> di_size di' = max (di_size di) n \<and>
          file_of v' di' = (di_type di, link_num di, file_bytes ?v di @ replicate (n - di_size di) 0) \<and>
          card (free_blocks fs v') + owned_length (data_blocks di') = card (free_blocks fs ?v) + owned_length (data_blocks di)"
        using p False db new(1) mono by (auto simp: file_of_def k_def)
    qed
  qed (use s lk k fs_okD(1) [OF fs(1)] in auto)
qed

text \<open>Growing and writing, as \<^verbatim>\<open>write_at\<close>, \<^verbatim>\<open>create\<close> and \<^verbatim>\<open>link\<close> do it with the inode taken.\<close>

lemma size_bound: "data_blocks_of n \<le> INDIRECT2_BOUND \<Longrightarrow> n < u32_bound"
proof -
  assume "data_blocks_of n \<le> INDIRECT2_BOUND"
  then have "n \<le> INDIRECT2_BOUND * BLOCK_SZ" using size_data_blocks(1) [of n] by (meson le_trans mult_le_mono1)
  also have "\<dots> < u32_bound" by simp
  finally show ?thesis .
qed

lemma runs_overwrite:
  assumes s: "ok s" "locked s = [inode_block fs i]" and fs: "fs_ok fs v" "inodes fs v i = Some di" and ed: "edited fs v i (view s) di'"
    and fit: "offset + length buf \<le> di_size di'" "buf \<noteq> []"
  shows "runs (bind_io (di_write_at ops di' offset buf) (\<lambda>m. return_io (k m, di'))) s (\<lambda>(m, d) v'. d = di' \<and> m = k (length buf) \<and>
    edited fs v i v' di' \<and> file_bytes v' di' = copy_into offset buf (file_bytes (view s) di') \<and> used_blocks fs v' = used_blocks fs (view s))"
proof -
  have b: "blocks_ok (view s)" using block_length [OF s(1)] by (simp add: blocks_ok_def)
  have fo: "di_ok di'" "distinct (owned (view s) di')" "set (owned (view s) di') \<inter> set (locked s) = {}"
    using ed locked_inode_block(2) [OF fs] s(2) by (auto simp: edited_def file_ok_def)
  have "runs (di_write_at ops di' offset buf) s (\<lambda>m v'. m = length buf \<and> owned v' di' = owned (view s) di' \<and>
      file_blocks v' di' = file_blocks (view s) di' \<and> file_data v' di' = copy_into offset buf (file_data (view s) di') \<and>
      (\<forall>b. b \<notin> set (file_blocks (view s) di') \<longrightarrow> v' b = view s b))"
    using s fo fit by (intro runs_write_at) simp_all
  then show ?thesis
  proof (rule runs_bind)
    fix m s2 assume s2: "ok s2" and w: "m = length buf \<and> owned (view s2) di' = owned (view s) di' \<and>
      file_blocks (view s2) di' = file_blocks (view s) di' \<and> file_data (view s2) di' = copy_into offset buf (file_data (view s) di') \<and>
      (\<forall>b. b \<notin> set (file_blocks (view s) di') \<longrightarrow> view s2 b = view s b)"
    note r = edited_rewritten [OF ed b fs_okD(1) [OF fs(1)] fit(1), of "view s2"]
    have "edited fs v i (view s2) di'" "file_bytes (view s2) di' = copy_into offset buf (file_bytes (view s) di')"
      "used_blocks fs (view s2) = used_blocks fs (view s)"
      using r w by auto
    then show "runs (return_io (k m, di')) s2 (\<lambda>(m, d) v'. d = di' \<and> m = k (length buf) \<and>
        edited fs v i v' di' \<and> file_bytes v' di' = copy_into offset buf (file_bytes (view s) di') \<and> used_blocks fs v' = used_blocks fs (view s))"
      using w by (intro runs_return [OF s2]) simp
  qed
qed

lemma runs_grow_and_write:
  assumes s: "ok s" "locked s = [inode_block fs i]" and fs: "fs_ok fs (view s)" "inodes fs (view s) i = Some di"
    and n: "data_blocks_of (offset + length buf) \<le> INDIRECT2_BOUND" "buf \<noteq> []"
    and room: "owned_length (data_blocks_of (max (di_size di) (offset + length buf))) - owned_length (data_blocks di) \<le> card (free_blocks fs (view s))"
  shows "runs (bind_io (inode_increase_size ops fs (offset + length buf) di) (\<lambda>di'.
      bind_io (di_write_at ops di' offset buf) (\<lambda>m. return_io (k m, di')))) s
    (\<lambda>(m, di') v'. edited fs (view s) i v' di' \<and> m = k (length buf) \<and>
      file_of v' di' = (di_type di, link_num di, write_bytes offset buf (file_bytes (view s) di)) \<and>
      card (free_blocks fs v') + owned_length (data_blocks_of (max (di_size di) (offset + length buf))) =
        card (free_blocks fs (view s)) + owned_length (data_blocks di))"
proof (rule runs_bind [OF runs_inode_increase [OF s fs n(1) size_bound [OF n(1)] room]])
  let ?v = "view s" and ?n = "offset + length buf"
  fix di' s1 assume s1: "ok s1" "locked s1 = locked s" and p: "edited fs ?v i (view s1) di' \<and> di_size di' = max (di_size di) ?n \<and>
    file_of (view s1) di' = (di_type di, link_num di, file_bytes ?v di @ replicate (?n - di_size di) 0) \<and>
    card (free_blocks fs (view s1)) + owned_length (data_blocks di') = card (free_blocks fs ?v) + owned_length (data_blocks di)"
  have l: "length (file_bytes ?v di) = di_size di" using fs_okD(2) [OF fs(1)] by (intro length_file_bytes) (simp add: blocks_ok_def)
  have ed: "edited fs ?v i (view s1) di'" "locked s1 = [inode_block fs i]" "?n \<le> di_size di'" using p s(2) s1(2) by simp_all
  show "runs (bind_io (di_write_at ops di' offset buf) (\<lambda>m. return_io (k m, di'))) s1
    (\<lambda>(m, di') v'. edited fs ?v i v' di' \<and> m = k (length buf) \<and>
      file_of v' di' = (di_type di, link_num di, write_bytes offset buf (file_bytes ?v di)) \<and>
      card (free_blocks fs v') + owned_length (data_blocks_of (max (di_size di) ?n)) = card (free_blocks fs ?v) + owned_length (data_blocks di))"
    by (rule runs_mono [OF runs_overwrite [OF s1(1) ed(2) fs ed(1,3) n(2), of k]])
      (use p l in \<open>auto simp: file_of_def write_bytes_def free_blocks_def data_blocks_def\<close>)
qed

lemma commits_write:
  assumes s: "ok s" "locked s = []" and fs: "fs_ok fs (view s)" "inodes fs (view s) i = Some di"
    and n: "data_blocks_of (offset + length buf) \<le> INDIRECT2_BOUND" "buf \<noteq> []"
    and room: "owned_length (data_blocks_of (max (di_size di) (offset + length buf))) - owned_length (data_blocks di) \<le> card (free_blocks fs (view s))"
  shows "commits (inode_write_at ops fs (ino fs i) offset buf) s (\<lambda>m v'. m = length buf \<and> fs_ok fs v' \<and>
    files fs v' = (files fs (view s))(i \<mapsto> (di_type di, link_num di, write_bytes offset buf (file_bytes (view s) di))) \<and>
    card (free_blocks fs v') + owned_length (data_blocks_of (max (di_size di) (offset + length buf))) =
        card (free_blocks fs (view s)) + owned_length (data_blocks di))"
proof -
  let ?n = "offset + length buf" and ?x = "(di_type di, link_num di, write_bytes offset buf (file_bytes (view s) di))"
  let ?f = "\<lambda>di. bind_io (lift_io (add_res usize_bound offset (length buf))) (\<lambda>e.
       bind_io (inode_increase_size ops fs (as_u32 e) di) (\<lambda>di'.
       bind_io (di_write_at ops di' offset buf) (\<lambda>n. return_io (n, di'))))"
  have u: "?n < u32_bound" by (rule size_bound [OF n(1)])
  then have f: "?f di = bind_io (inode_increase_size ops fs ?n di) (\<lambda>di'. bind_io (di_write_at ops di' offset buf) (\<lambda>n. return_io (n, di')))"
    by simp
  have "runs (modify_disk_inode ops (ino fs i) ?f) s (\<lambda>a v'. fs_ok fs v' \<and> (\<exists>x. files fs v' = (files fs (view s))(i \<mapsto> x) \<and>
      (a = length buf \<and> x = ?x \<and> card (free_blocks fs v') + owned_length (data_blocks_of (max (di_size di) ?n)) =
        card (free_blocks fs (view s)) + owned_length (data_blocks di))))"
  proof (rule runs_edit_inode [OF s fs])
    fix s' assume s': "ok s'" "view s' = view s" "locked s' = [inode_block fs i]"
    show "runs (?f di) s' (\<lambda>(a, di') v'. edited fs (view s) i v' di' \<and> a = length buf \<and> file_of v' di' = ?x \<and>
        card (free_blocks fs v') + owned_length (data_blocks_of (max (di_size di) ?n)) = card (free_blocks fs (view s)) + owned_length (data_blocks di))"
      unfolding f using runs_grow_and_write [OF s'(1,3), of di offset buf "\<lambda>m. m"] s' fs n room by (simp add: split_def)
  qed
  then show ?thesis
    unfolding inode_write_at_def
  proof (rule commits_bind)
    fix a s' assume s': "ok s'" "locked s' = locked s" and p: "fs_ok fs (view s') \<and> (\<exists>x. files fs (view s') = (files fs (view s))(i \<mapsto> x) \<and>
      (a = length buf \<and> x = ?x \<and> card (free_blocks fs (view s')) + owned_length (data_blocks_of (max (di_size di) ?n)) =
        card (free_blocks fs (view s)) + owned_length (data_blocks di)))"
    show "commits (bind_io (sync_all ops) (\<lambda>_. return_io a)) s' (\<lambda>m v'. m = length buf \<and> fs_ok fs v' \<and> files fs v' = (files fs (view s))(i \<mapsto> ?x) \<and>
      card (free_blocks fs v') + owned_length (data_blocks_of (max (di_size di) ?n)) = card (free_blocks fs (view s)) + owned_length (data_blocks di))"
      by (rule commits_synced) (use s' s p in auto)
  qed
qed

end

end
