(* ===== verification/Fs_Format.thy ===== *)
theory Fs_Format
  imports Fs_Edit
begin

text \<open>
  New inodes, formatting and mounting. \<^verbatim>\<open>alloc_inode\<close> followed by \<^verbatim>\<open>initialize\<close> adds an empty file to the abstract file
  system; \<^verbatim>\<open>create\<close> leaves a file system with an empty root directory, and \<^verbatim>\<open>open\<close> finds the same object again.
\<close>

section \<open>A new inode\<close>

lemma file_empty:
  assumes "di_size di = 0"
  shows "owned v di = []" "file_data v di = []" "file_bytes v di = []"
  using assms by (simp_all add: owned_def owned_upto_def file_data_def file_blocks_def file_bytes_def data_blocks_def data_blocks_of_def)

lemma di_initialize_ok:
  assumes "di_wf di"
  shows "file_ok v (di_initialize t di)" "file_of v (di_initialize t di) = (t, 1, [])"
  using assms file_empty [of "di_initialize t di" v]
  by (simp_all add: file_ok_def di_ok_def di_wf_def di_initialize_def file_of_def data_blocks_def data_blocks_of_def list_all_iff)

lemma others_unused: "fs_ok fs v \<Longrightarrow> inodes fs v i = None \<Longrightarrow> others fs v i = used_blocks fs v"
  by (simp add: others_def fs_ok_def fun_upd_idem)

lemma fs_ok_new_inode:
  fixes t :: disk_inode_type
  assumes ok: "fs_ok fs v" and i: "inodes fs v i = None" "i < inode_capacity fs" "i < bitmap_maximum (inode_bitmap fs)"
    and v1: "used_bits (inode_bitmap fs) v1 = insert i (used_bits (inode_bitmap fs) v)" "blocks_ok v1"
      "\<And>b. b \<notin> bitmap_blocks (inode_bitmap fs) \<Longrightarrow> v1 b = v b"
    and di: "disk_inode_of (inode_slot fs v i) = Inr di"
  defines "di' \<equiv> di_initialize t di"
  defines "v2 \<equiv> v1(inode_block fs i := copy_into (inode_off i) (disk_inode_bytes di') (v1 (inode_block fs i)))"
  shows "fs_ok fs v2" "files fs v2 = (files fs v)(i \<mapsto> (t, 1, []))" "free_blocks fs v2 = free_blocks fs v"
proof -
  let ?b = "inode_block fs i"
  have ar: "fs_areas fs" "blocks_ok v" using fs_okD [OF ok] by simp_all
  note blk = inode_block_area [OF ar(1) i(2)]
  have wf: "di_wf di" using disk_inode_of_wf(1) [OF _ di] ar(2) inode_off_fits [of i] by (simp add: inode_slot_def blocks_ok_def)
  note new = di_initialize_ok [OF wf, where t = t, folded di'_def]
  have wf': "di_wf di'" using new(1) by (simp add: file_ok_def di_ok_def)
  have fr: "v2 b = v b" if "b \<notin> bitmap_blocks (inode_bitmap fs)" "b \<noteq> ?b" for b using that v1(3) by (simp add: v2_def)
  have bo: "blocks_ok v2" using v1(2) inode_off_fits [of i] wf' by (auto simp: blocks_ok_def v2_def)
  have da: "v2 b = v b" if "b \<in> data_area fs \<or> b \<in> bitmap_blocks (data_bitmap fs)" for b
    using that ar(1) blk(3,5) by (intro fr) (auto simp: fs_areas_def bitmap_blocks_def data_area_def)
  have "used_bits (data_bitmap fs) v2 = used_bits (data_bitmap fs) v" by (rule used_bits_frame) (simp add: da)
  then have ub: "used_blocks fs v2 = used_blocks fs v" by (simp add: used_blocks_def)
  then show "free_blocks fs v2 = free_blocks fs v" by (simp add: free_blocks_def)
  have bm: "used_bits (inode_bitmap fs) v2 = insert i (used_bits (inode_bitmap fs) v)"
    unfolding v1(1) [symmetric] by (rule used_bits_frame) (use blk(4) in \<open>auto simp: v2_def\<close>)
  have meta: "v2 b = v b" if "inode_area_start_block fs \<le> b" "b < start_block_id (data_bitmap fs)" "b \<noteq> ?b" for b
    using that ar(1) by (intro fr) (auto simp: fs_areas_def bitmap_blocks_def)
  have slot: "v2 ?b = copy_into (inode_off i) (disk_inode_bytes di') (v ?b)" using v1(3) blk(4) by (simp add: v2_def)
  have own: "owned v2 di' = []" using file_empty(1) by (simp add: di'_def di_initialize_def)
  have od: "others fs v i \<inter> set (owned v2 di') = {}" "used_blocks fs v2 = others fs v i \<union> set (owned v2 di')"
    using own ub others_unused [OF ok i(1)] by simp_all
  have oth: "v2 b = v b" if "b \<in> others fs v i" for b
    using that others_unused [OF ok i(1)] used_blocks_area by (intro da) blast
  have zero: "v2 b = replicate BLOCK_SZ 0" if "b \<in> data_area fs - used_blocks fs v2" for b
    using that da [of b] ok ub by (simp add: fs_ok_def)
  have sb: "v2 0 = v 0" using super_block_apart [OF ar(1)] by (intro fr) auto
  note up = fs_ok_update [OF ok i(2,3) bo sb meta bm slot new(1) od(1) oth od(2) zero]
  show "fs_ok fs v2" by (rule up)
  show "files fs v2 = (files fs v)(i \<mapsto> (t, 1, []))"
  proof
    fix j
    show "files fs v2 j = ((files fs v)(i \<mapsto> (t, 1, []))) j"
      using up(2) up(3) [of j] new(2) [of v2] by (cases "inodes fs v j") (auto simp: files_def file_of_def)
  qed
qed

context block_store
begin

lemma runs_alloc_inode:
  assumes s: "ok s" "locked s = []" and fs: "fs_areas fs"
    and i: "i < bitmap_maximum (inode_bitmap fs)" "i \<notin> used_bits (inode_bitmap fs) (view s)" "\<And>m. m < i \<Longrightarrow> m \<in> used_bits (inode_bitmap fs) (view s)"
  shows "runs (alloc_inode ops fs) s (\<lambda>n v'. n = i \<and> used_bits (inode_bitmap fs) v' = insert i (used_bits (inode_bitmap fs) (view s)) \<and>
    (\<forall>b. b \<notin> bitmap_blocks (inode_bitmap fs) \<longrightarrow> v' b = view s b))"
proof -
  have l: "length (locked s) < BLOCK_CACHE_SIZE" "bitmap_blocks (inode_bitmap fs) \<inter> set (locked s) = {}" using s(2) by simp_all
  obtain v' where v': "returns (bitmap_alloc ops (inode_bitmap fs)) s (Some i) v'"
    "used_bits (inode_bitmap fs) v' = insert i (used_bits (inode_bitmap fs) (view s))"
    "\<And>b. b \<notin> bitmap_blocks (inode_bitmap fs) \<Longrightarrow> v' b = view s b"
    by (rule alloc_least [OF s(1) l i]) (assumption, rule that)
  have u: "as_u32 i = i" using i(1) fs by (simp add: fs_areas_def)
  show ?thesis
    unfolding alloc_inode_def
    by (rule runs_bind [OF returns_runs [OF v'(1), where P = "\<lambda>a w. a = Some i \<and> w = v'"]])
      (use u v'(2,3) in \<open>auto simp: store_runs_def io_simps\<close>)
qed

lemma runs_init_inode:
  assumes s: "ok s1" "locked s1 = []"
    and ok: "fs_ok fs v" and i: "inodes fs v i = None" "i < inode_capacity fs" "i < bitmap_maximum (inode_bitmap fs)"
    and v1: "used_bits (inode_bitmap fs) (view s1) = insert i (used_bits (inode_bitmap fs) v)"
      "\<And>b. b \<notin> bitmap_blocks (inode_bitmap fs) \<Longrightarrow> view s1 b = v b"
  shows "runs (init_inode_at ops fs i t) s1 (\<lambda>_ v'. fs_ok fs v' \<and> files fs v' = (files fs v)(i \<mapsto> (t, 1, [])) \<and> free_blocks fs v' = free_blocks fs v)"
proof -
  let ?b = "inode_block fs i" and ?off = "inode_off i"
  have ar: "fs_areas fs" "blocks_ok v" using fs_okD [OF ok] by simp_all
  have "\<exists>di. disk_inode_of (inode_slot fs v i) = Inr di" using ok i(2) by (simp add: fs_ok_def)
  then obtain di where di: "disk_inode_of (inode_slot fs v i) = Inr di" by blast
  have b1: "blocks_ok (view s1)" using block_length [OF s(1)] by (simp add: blocks_ok_def)
  note new = fs_ok_new_inode [OF ok i v1(1) b1 v1(2) di, of t]
  have "length (inode_slot fs v i) = DISK_INODE_SZ" using ar(2) inode_off_fits [of i] by (simp add: inode_slot_def blocks_ok_def)
  from disk_inode_of_wf(1) [OF this di] have "di_wf (di_initialize t di)"
    using di_initialize_ok(1) [of di "view s1" t] by (simp add: file_ok_def di_ok_def)
  then have len: "length (disk_inode_bytes (di_initialize t di)) = DISK_INODE_SZ" by simp
  have "slice_of ?off DISK_INODE_SZ (view s1 ?b) = inode_slot fs v i"
    using v1(2) inode_block_area(4) [OF ar(1) i(2)] by (simp add: inode_slot_def)
  then have step: "on_disk_inode (\<lambda>di. return_io ((), di_initialize t di)) (slice_of ?off DISK_INODE_SZ (view s1 ?b)) =
      return_io ((), disk_inode_bytes (di_initialize t di))"
    using di by (simp add: on_disk_inode_def)
  have "runs (bc_modify ops ?b ?off DISK_INODE_SZ (on_disk_inode (\<lambda>di. return_io ((), di_initialize t di)))) s1
      (\<lambda>_ v'. fs_ok fs v' \<and> files fs v' = (files fs v)(i \<mapsto> (t, 1, [])) \<and> free_blocks fs v' = free_blocks fs v)"
  proof (rule runs_modify)
    fix s' assume "ok s'" "view s' = view s1"
    then show "runs (on_disk_inode (\<lambda>di. return_io ((), di_initialize t di)) (slice_of ?off DISK_INODE_SZ (view s1 ?b))) s'
        (\<lambda>(a, bs) v'. length bs = DISK_INODE_SZ \<and> fs_ok fs (v'(?b := copy_into ?off bs (v' ?b))) \<and>
          files fs (v'(?b := copy_into ?off bs (v' ?b))) = (files fs v)(i \<mapsto> (t, 1, [])) \<and>
          free_blocks fs (v'(?b := copy_into ?off bs (v' ?b))) = free_blocks fs v)"
      unfolding step using new len by (intro runs_return) simp_all
  qed (use s inode_off_fits [of i] in simp_all)
  then show ?thesis using get_disk_inode_pos_ok [OF ar(1) i(2)] by (simp add: init_inode_at_def)
qed

text \<open>Both together, as \<^verbatim>\<open>create\<close> of the file system and of a file do it.\<close>

lemma commits_new_inode:
  assumes s: "ok s" "locked s = []" and fs: "fs_ok fs (view s)"
    and i: "i < inode_capacity fs" "i < bitmap_maximum (inode_bitmap fs)" "inodes fs (view s) i = None" "\<And>m. m < i \<Longrightarrow> inodes fs (view s) m \<noteq> None"
    and g: "g i = bind_io (init_inode_at ops fs i t) (\<lambda>_. k)"
    and k: "\<And>s'. ok s' \<Longrightarrow> locked s' = [] \<Longrightarrow> fs_ok fs (view s') \<and> files fs (view s') = (files fs (view s))(i \<mapsto> (t, 1, [])) \<and>
      free_blocks fs (view s') = free_blocks fs (view s) \<Longrightarrow> commits k s' Q"
  shows "commits (bind_io (alloc_inode ops fs) g) s Q"
proof -
  have dom: "m \<in> used_bits (inode_bitmap fs) (view s) \<longleftrightarrow> inodes fs (view s) m \<noteq> None" for m
    using fs by (auto simp: fs_ok_def dom_def)
  have "runs (alloc_inode ops fs) s (\<lambda>n v'. n = i \<and> used_bits (inode_bitmap fs) v' = insert i (used_bits (inode_bitmap fs) (view s)) \<and>
      (\<forall>b. b \<notin> bitmap_blocks (inode_bitmap fs) \<longrightarrow> v' b = view s b))"
    by (rule runs_alloc_inode [OF s fs_okD(1) [OF fs] i(2)]) (use i(3,4) dom in auto)
  then show ?thesis
  proof (rule commits_bind)
    fix n s1 assume s1: "ok s1" "locked s1 = locked s" and n: "n = i \<and> used_bits (inode_bitmap fs) (view s1) =
      insert i (used_bits (inode_bitmap fs) (view s)) \<and> (\<forall>b. b \<notin> bitmap_blocks (inode_bitmap fs) \<longrightarrow> view s1 b = view s b)"
    have l1: "locked s1 = []" using s1(2) s(2) by simp
    have u1: "used_bits (inode_bitmap fs) (view s1) = insert i (used_bits (inode_bitmap fs) (view s))"
      and f1: "\<And>b. b \<notin> bitmap_blocks (inode_bitmap fs) \<Longrightarrow> view s1 b = view s b" using n by blast+
    have "commits (bind_io (init_inode_at ops fs i t) (\<lambda>_. k)) s1 Q"
    proof (rule commits_bind [OF runs_init_inode [OF s1(1) l1 fs i(3,1,2) u1 f1, of t]])
      fix s2 assume "ok s2" "locked s2 = locked s1" "fs_ok fs (view s2) \<and> files fs (view s2) = (files fs (view s))(i \<mapsto> (t, 1, [])) \<and>
        free_blocks fs (view s2) = free_blocks fs (view s)"
      then show "commits k s2 Q" using k l1 by simp
    qed
    then show "commits (g n) s1 Q" using n g by simp
  qed
qed

end

section \<open>Formatting\<close>

lemma slice_of_zeros: "off + n \<le> m \<Longrightarrow> slice_of off n (replicate m x) = replicate n x"
  by (simp add: slice_of_def min_def)

lemma le_nat_zeros [simp]: "le_nat (replicate n 0) = 0"
  by (induction n) simp_all

lemma block_bit_zeros: "k < BLOCK_BITS \<Longrightarrow> \<not> block_bit (replicate BLOCK_SZ 0) k"
  by (simp add: block_bit_def u64s_def chunks_def slice_of_zeros less_mult_imp_div_less)

lemma used_bits_zeros:
  assumes "\<And>b. b \<in> bitmap_blocks bm \<Longrightarrow> v b = replicate BLOCK_SZ 0"
  shows "used_bits bm v = {}"
  using assms bitmap_block_mem bit_block block_bit_zeros by (auto simp: used_bits_def)

lemma disk_inode_of_zeros: "\<exists>di. disk_inode_of (replicate DISK_INODE_SZ 0) = Inr di"
  by (simp add: disk_inode_of_def Let_def)

text \<open>A file system without any inode, on a device that is zero behind the super block.\<close>

lemma fs_ok_empty:
  assumes fs: "fs_areas fs" and v: "blocks_ok v" "efs_of_super_block (slice_of 0 SUPER_BLOCK_SZ (v 0)) = Inr fs"
    and z: "\<And>b. 0 < b \<Longrightarrow> b < data_area_start_block fs + bitmap_maximum (data_bitmap fs) \<Longrightarrow> v b = replicate BLOCK_SZ 0"
  shows "fs_ok fs v" "inodes fs v = Map.empty" "used_blocks fs v = {}" "used_bits (inode_bitmap fs) v = {}"
proof -
  have "v b = replicate BLOCK_SZ 0" if "b \<in> bitmap_blocks (inode_bitmap fs) \<union> bitmap_blocks (data_bitmap fs)" for b
    using that fs by (intro z) (auto simp: fs_areas_def bitmap_blocks_def)
  then have ub: "used_bits (inode_bitmap fs) v = {}" "used_bits (data_bitmap fs) v = {}" by (simp_all add: used_bits_zeros)
  then show 1: "inodes fs v = Map.empty" "used_blocks fs v = {}" "used_bits (inode_bitmap fs) v = {}"
    by (simp_all add: inodes_def used_blocks_def fun_eq_iff)
  have "inode_slot fs v i = replicate DISK_INODE_SZ 0" if "i < inode_capacity fs" for i
  proof -
    have "v (inode_block fs i) = replicate BLOCK_SZ 0"
      using inode_block_area [OF fs that] fs super_block_apart(4) [OF fs] by (intro z) (auto simp: fs_areas_def)
    then show ?thesis using inode_off_fits [of i] by (simp add: inode_slot_def slice_of_zeros)
  qed
  then have "\<exists>di. disk_inode_of (inode_slot fs v i) = Inr di" if "i < inode_capacity fs" for i using that disk_inode_of_zeros by simp
  moreover have "v b = replicate BLOCK_SZ 0" if "b \<in> data_area fs" for b
    using that fs by (intro z) (auto simp: data_area_def fs_areas_def)
  ultimately show "fs_ok fs v" unfolding fs_ok_def using fs v 1 by simp
qed

text \<open>The areas of a device of \<open>N\<close> blocks with \<open>n\<close> blocks of inode bitmap: 1056 blocks of inodes for each, the rest for data.\<close>

definition formatted :: "nat \<Rightarrow> nat \<Rightarrow> easy_fs" where
  "formatted N n = efs_object n (1056 * n) (div_ceil (N - 1 - 1057 * n) 4097)"

lemma div_ceil_bound: "c * div_ceil a c < a + c" if "0 < c"
proof -
  have "c * (a div c) + a mod c = a" "a mod c < c" using that by simp_all
  then have "c * (a div c) < a" if "0 < a mod c" using that by linarith
  then show ?thesis using that by (auto simp: div_ceil_def distrib_left)
qed

lemma formatted_layout:
  assumes "1 + 1057 * n \<le> N" "N + 4096 \<le> u32_bound"
  shows "efs_layout N n = Inr (1056 * n, div_ceil (N - 1 - 1057 * n) 4097, N - 1 - 1057 * n - div_ceil (N - 1 - 1057 * n) 4097)"
proof -
  have "div_ceil (n * BLOCK_BITS * DISK_INODE_SZ) BLOCK_SZ = 1056 * n" by (simp add: div_ceil_def)
  then show ?thesis using assms by (simp add: efs_layout_def bitmap_maximum_def bitmap_new_def Let_def)
qed

lemma formatted_areas:
  assumes "1 + 1057 * n \<le> N" "N + 4096 \<le> u32_bound" "4096 * n \<le> u32_bound"
  shows "fs_areas (formatted N n)" "inode_capacity (formatted N n) = 3168 * n" "bitmap_maximum (inode_bitmap (formatted N n)) = 4096 * n"
    "bitmap_maximum (data_bitmap (formatted N n)) = 4096 * div_ceil (N - 1 - 1057 * n) 4097"
  using assms div_ceil_bound [of 4097 "N - 1 - 1057 * n"]
  by (simp_all add: fs_areas_def inode_capacity_def formatted_def efs_object_def bitmap_new_def bitmap_maximum_def)

lemma formatted_super_block:
  assumes "1 + 1057 * n \<le> N" "N + 4096 \<le> u32_bound" "d < u32_bound"
  shows "efs_of_super_block (super_block_bytes (sb_initialize N n (1056 * n) (div_ceil (N - 1 - 1057 * n) 4097) d)) = Inr (formatted N n)"
proof -
  let ?k = "div_ceil (N - 1 - 1057 * n) 4097"
  have k: "1 + 1057 * n + ?k < u32_bound" using assms div_ceil_bound [of 4097 "N - 1 - 1057 * n"] by simp
  then have "sb_wf (sb_initialize N n (1056 * n) ?k d)" using assms by (simp add: sb_wf_def sb_initialize_def)
  from super_block_round_trip [OF this] show ?thesis
    using k by (simp add: efs_of_super_block_def sb_initialize_def sb_is_valid_def formatted_def efs_object_def)
qed

context block_store
begin

lemma returns_zero_block:
  assumes "ok s" "length (locked s) < BLOCK_CACHE_SIZE" "b \<notin> set (locked s)"
  shows "returns (zero_block ops b) s () ((view s)(b := replicate BLOCK_SZ 0))"
  unfolding zero_block_def using assms block_length [OF assms(1)]
  by (intro returns_block_modify) (simp_all add: map_replicate_const)

lemma returns_zero_blocks:
  "ok s \<Longrightarrow> locked s = [] \<Longrightarrow> returns (zero_blocks ops bs) s () (\<lambda>b. if b \<in> set bs then replicate BLOCK_SZ 0 else view s b)"
proof (induction bs arbitrary: s)
  case (Cons b bs)
  have "returns (zero_block ops b) s () ((view s)(b := replicate BLOCK_SZ 0))" using Cons.prems by (intro returns_zero_block) simp_all
  then show ?case
    unfolding zero_blocks.simps
  proof (rule returns_bind)
    fix s' assume s': "ok s'" "view s' = (view s)(b := replicate BLOCK_SZ 0)" "locked s' = locked s"
    have "(\<lambda>c. if c \<in> set bs then replicate BLOCK_SZ 0 else view s' c) = (\<lambda>c. if c \<in> set (b # bs) then replicate BLOCK_SZ 0 else view s c)"
      using s'(2) by auto
    then show "returns (zero_blocks ops bs) s' () (\<lambda>c. if c \<in> set (b # bs) then replicate BLOCK_SZ 0 else view s c)"
      using Cons.IH [of s'] s' Cons.prems(2) by simp
  qed
qed (auto intro: returns_return)

lemma returns_open: "ok s \<Longrightarrow> locked s = [] \<Longrightarrow> fs_ok fs (view s) \<Longrightarrow> returns (efs_open ops) s fs (view s)"
  unfolding efs_open_def by (intro returns_pure_read) (simp_all add: fs_ok_def)

lemma commits_create:
  assumes s: "ok s" "locked s = []" and n: "0 < n" "1 + 1057 * n \<le> N" "N + 4096 \<le> u32_bound" "4096 * n \<le> u32_bound"
    and z: "\<And>b. N \<le> b \<Longrightarrow> b < data_area_start_block (formatted N n) + bitmap_maximum (data_bitmap (formatted N n)) \<Longrightarrow>
      view s b = replicate BLOCK_SZ 0"
  shows "commits (efs_create ops N n) s (\<lambda>fs v'. fs = formatted N n \<and> fs_ok fs v' \<and> files fs v' = [0 \<mapsto> (Directory, 1, [])] \<and>
    free_blocks fs v' = data_area fs)"
proof -
  let ?fs = "formatted N n" and ?d = "N - 1 - 1057 * n - div_ceil (N - 1 - 1057 * n) 4097"
  define bytes where "bytes = super_block_bytes (sb_initialize N n (1056 * n) (div_ceil (N - 1 - 1057 * n) 4097) ?d)"
  note ar = formatted_areas [OF n(2-4)]
  have sb: "efs_of_super_block bytes = Inr ?fs" unfolding bytes_def using n by (intro formatted_super_block) simp_all
  have len: "length bytes = SUPER_BLOCK_SZ" by (simp add: bytes_def)
  have create: "efs_create ops N n = bind_io (zero_blocks ops [0..<N]) (\<lambda>_.
     bind_io (bc_modify ops 0 0 SUPER_BLOCK_SZ (pure_modify (\<lambda>_. Inr ((), bytes)))) (\<lambda>_.
     bind_io (alloc_inode ops ?fs) (\<lambda>root.
     bind_io (lift_io (assert_res (root = 0))) (\<lambda>_.
     bind_io (init_inode_at ops ?fs 0 Directory) (\<lambda>_.
     bind_io (sync_all ops) (\<lambda>_. return_io ?fs))))))"
    unfolding efs_create_def by (simp add: formatted_layout [OF n(2,3)] formatted_def bytes_def Let_def)
  show ?thesis
    unfolding create
  proof (rule commits_bind [OF returns_runs [OF returns_zero_blocks [OF s], where P = "\<lambda>_ v. v = (\<lambda>b. if b \<in> set [0..<N] then replicate BLOCK_SZ 0 else view s b)"]])
    fix s1 assume s1: "ok s1" "locked s1 = locked s" and v1: "view s1 = (\<lambda>b. if b \<in> set [0..<N] then replicate BLOCK_SZ 0 else view s b)"
    let ?v2 = "(view s1)(0 := copy_into 0 bytes (view s1 0))"
    have r2: "returns (bc_modify ops 0 0 SUPER_BLOCK_SZ (pure_modify (\<lambda>_. Inr ((), bytes)))) s1 () ?v2"
      using s1 s(2) len by (intro returns_pure_modify) simp_all
    show "commits (bind_io (bc_modify ops 0 0 SUPER_BLOCK_SZ (pure_modify (\<lambda>_. Inr ((), bytes)))) (\<lambda>_.
       bind_io (alloc_inode ops ?fs) (\<lambda>root. bind_io (lift_io (assert_res (root = 0))) (\<lambda>_.
       bind_io (init_inode_at ops ?fs 0 Directory) (\<lambda>_. bind_io (sync_all ops) (\<lambda>_. return_io ?fs)))))) s1
       (\<lambda>fs v'. fs = ?fs \<and> fs_ok fs v' \<and> files fs v' = [0 \<mapsto> (Directory, 1, [])] \<and> free_blocks fs v' = data_area fs)"
    proof (rule commits_bind [OF returns_runs [OF r2, where P = "\<lambda>_ v. v = ?v2"]])
      fix s2 assume s2: "ok s2" "locked s2 = locked s1" and v2: "view s2 = ?v2"
      have l2: "locked s2 = []" using s2(2) s1(2) s(2) by simp
      have b2: "blocks_ok (view s2)" using block_length [OF s2(1)] by (simp add: blocks_ok_def)
      have sb2: "efs_of_super_block (slice_of 0 SUPER_BLOCK_SZ (view s2 0)) = Inr ?fs"
        using sb len block_length [OF s1(1), of 0] slice_of_copy_into [of 0 bytes "view s1 0"] by (simp add: v2)
      have z2: "view s2 b = replicate BLOCK_SZ 0" if "0 < b" "b < data_area_start_block ?fs + bitmap_maximum (data_bitmap ?fs)" for b
        using that z [of b] by (cases "b < N") (simp_all add: v2 v1)
      note em = fs_ok_empty [OF ar(1) b2 sb2 z2]
      have cap: "0 < inode_capacity ?fs" "0 < bitmap_maximum (inode_bitmap ?fs)" using ar(2,3) n(1) by simp_all
      have no: "inodes ?fs (view s2) 0 = None" using em(2) by simp
      have f0: "files ?fs (view s2) = Map.empty" "free_blocks ?fs (view s2) = data_area ?fs"
        using em(2,3) by (simp_all add: files_def free_blocks_def fun_eq_iff)
      show "commits (bind_io (alloc_inode ops ?fs) (\<lambda>root. bind_io (lift_io (assert_res (root = 0))) (\<lambda>_.
         bind_io (init_inode_at ops ?fs 0 Directory) (\<lambda>_. bind_io (sync_all ops) (\<lambda>_. return_io ?fs))))) s2
         (\<lambda>fs v'. fs = ?fs \<and> fs_ok fs v' \<and> files fs v' = [0 \<mapsto> (Directory, 1, [])] \<and> free_blocks fs v' = data_area fs)"
        by (rule commits_new_inode [OF s2(1) l2 em(1) cap no, where t = Directory and k = "bind_io (sync_all ops) (\<lambda>_. return_io ?fs)"])
          (use f0 in \<open>auto simp: assert_res_def intro!: commits_synced\<close>)
    qed (rule refl)
  qed (rule refl)
qed

end

section \<open>Properties\<close>

lemma cache_manager_new_ok:
  assumes "\<forall>b. length (d b) = BLOCK_SZ"
  shows "cache_ok (cache_manager_new d)" "held (cache_manager_new d) = []" "cache_view (cache_manager_new d) = d"
  using cache_ok_new [OF assms] by (simp_all add: cache_manager_new_def cache_view_def fun_eq_iff)

lemma block_lengths: "cache_ok s \<Longrightarrow> \<forall>b. length (cache_view s b) = BLOCK_SZ"
  by (simp add: cache_store.block_length)

text \<open>
  C12. Formatting a device and mounting it again: on a device whose blocks behind the formatted range read as zero, \<^verbatim>\<open>create\<close>
  succeeds, and after a restart with an empty cache \<^verbatim>\<open>open\<close> recovers the same file system object from the super block. The
  device then satisfies the invariant of the file system; its only file is the root directory, inode 0, with one link and no
  entries, and every data block is free.
\<close>

theorem efs_create_open:
  assumes "\<forall>b. length (d b) = BLOCK_SZ" "0 < n" "1 + 1057 * n \<le> N" "N + 4096 \<le> u32_bound" "4096 * n \<le> u32_bound"
    and "\<forall>b \<ge> N. d b = replicate BLOCK_SZ 0"
  shows "\<exists>fs s s'. efs_create cache_ops N n (cache_manager_new d) = Inr (fs, s) \<and>
    efs_open cache_ops (cache_manager_new (disk s)) = Inr (fs, s') \<and> cache_view s' = disk s \<and>
    fs_ok fs (disk s) \<and> files fs (disk s) = [0 \<mapsto> (Directory, 1, [])] \<and> free_blocks fs (disk s) = data_area fs"
proof -
  note c = cache_manager_new_ok [OF assms(1)]
  obtain fs s where s: "efs_create cache_ops N n (cache_manager_new d) = Inr (fs, s)" "cache_ok s" "disk s = cache_view s"
    "fs_ok fs (cache_view s)" "files fs (cache_view s) = [0 \<mapsto> (Directory, 1, [])]" "free_blocks fs (cache_view s) = data_area fs"
    using cache_store.commits_create [OF c(1,2) assms(2-5)] assms(6) c(3) by (auto simp: store_commits_def)
  have l: "\<forall>b. length (disk s b) = BLOCK_SZ" using block_lengths [OF s(2)] s(3) by simp
  note c' = cache_manager_new_ok [OF l]
  obtain s' where "efs_open cache_ops (cache_manager_new (disk s)) = Inr (fs, s')" "cache_view s' = disk s"
    using cache_store.returns_open [OF c'(1,2), of fs] s(3,4) c'(3) by (auto simp: store_returns_def)
  then show ?thesis using s by auto
qed

theorem efs_create_open_witness:
  "\<exists>fs s s'. efs_create cache_ops 2000 1 (cache_manager_new (\<lambda>_. replicate 512 0)) = Inr (fs, s) \<and>
    efs_open cache_ops (cache_manager_new (disk s)) = Inr (fs, s') \<and> cache_view s' = disk s \<and>
    fs_ok fs (disk s) \<and> files fs (disk s) = [0 \<mapsto> (Directory, 1, [])] \<and> free_blocks fs (disk s) = data_area fs"
  by (rule efs_create_open) simp_all

end
