(* ===== verification/Fs_Read.thy ===== *)
theory Fs_Read
  imports Fs_Write Fs_Format
begin

text \<open>
  Operations that only read: the contents of a file, the directory seen as a list of entries, the
  search for a name and the listing. None of them changes the device or the cache contents.
\<close>

section \<open>Directories\<close>

text \<open>The entry at a position of a directory of the given bytes, its name, and the directory as a list of names and inode numbers.\<close>

definition entry_at :: "byte list \<Rightarrow> nat \<Rightarrow> dir_entry" where
  "entry_at bs i = dirent_of (slice_of (DIRENT_SZ * i) DIRENT_SZ bs)"

definition entry_name :: "dir_entry \<Rightarrow> byte list" where
  "entry_name d = (case dirent_name d of Inr nm \<Rightarrow> nm | Inl _ \<Rightarrow> [])"

definition dir_entries :: "byte list \<Rightarrow> (byte list \<times> nat) list" where
  "dir_entries bs = map (\<lambda>i. (entry_name (entry_at bs i), inode_number (entry_at bs i))) [0..<length bs div DIRENT_SZ]"

definition dir_ok :: "byte list \<Rightarrow> bool" where
  "dir_ok bs \<longleftrightarrow> length bs mod DIRENT_SZ = 0 \<and> (\<forall>i < length bs div DIRENT_SZ. \<exists>nm. dirent_name (entry_at bs i) = Inr nm)"

lemma entry_name_ok: "dir_ok bs \<Longrightarrow> i < length bs div DIRENT_SZ \<Longrightarrow> dirent_name (entry_at bs i) = Inr (entry_name (entry_at bs i))"
  by (force simp: dir_ok_def entry_name_def)

lemma dir_entries_empty [simp]: "dir_entries [] = []" "dir_ok []"
  by (simp_all add: dir_entries_def dir_ok_def)

text \<open>The first entry of a name, as a position and as an inode number.\<close>

definition entry_index :: "byte list \<Rightarrow> byte list \<Rightarrow> nat list \<Rightarrow> nat option" where
  "entry_index bs name is = find (\<lambda>i. entry_name (entry_at bs i) = name) is"

lemma entry_index_map_of:
  "map_option (\<lambda>i. inode_number (entry_at bs i)) (entry_index bs name is) =
   map_of (map (\<lambda>i. (entry_name (entry_at bs i), inode_number (entry_at bs i))) is) name"
  by (induction "is") (simp_all add: entry_index_def)

text \<open>An open inode of the abstract file system.\<close>

lemma files_inode:
  assumes "fs_ok fs v" "files fs v i = Some (t, l, bs)"
  obtains di where "inodes fs v i = Some di" "di_type di = t" "link_num di = l" "file_bytes v di = bs" "di_size di = length bs" "di_ok di"
    "data_blocks di = data_blocks_of (length bs)"
proof -
  obtain di where di: "inodes fs v i = Some di" "(t, l, bs) = file_of v di" using assms(2) by (auto simp: files_Some)
  have "length (file_bytes v di) = di_size di" using fs_okD(2) [OF assms(1)] by (intro length_file_bytes) (simp add: blocks_ok_def)
  moreover have "di_ok di" using fs_okD(4) [OF assms(1) di(1)] by (simp add: file_ok_def)
  ultimately show ?thesis using that di by (simp add: file_of_def data_blocks_def)
qed

context block_store
begin

lemma owned_apart: "fs_ok fs v \<Longrightarrow> inodes fs v i = Some di \<Longrightarrow> set (owned v di) \<inter> set [inode_block fs i] = {}"
  using fs_okD(7) [of fs v i di] locked_inode_block(2) [of fs v i di] by blast

text \<open>Reading an inode whose closure leaves the store as it is.\<close>

lemma returns_read_inode:
  assumes s: "ok s" "locked s = []" and fs: "fs_ok fs (view s)" "inodes fs (view s) i = Some di"
    and f: "\<And>s'. ok s' \<Longrightarrow> view s' = view s \<Longrightarrow> length (locked s') < BLOCK_CACHE_SIZE \<Longrightarrow> set (owned (view s') di) \<inter> set (locked s') = {} \<Longrightarrow>
      returns (f di) s' a (view s)"
  shows "returns (read_disk_inode ops (ino fs i) f) s a (view s)"
proof -
  have "runs (read_disk_inode ops (ino fs i) f) s (\<lambda>x v. x = a \<and> v = view s)"
  proof (rule runs_read_inode [OF s fs])
    fix s' assume s': "ok s'" "view s' = view s" "locked s' = [inode_block fs i]"
    then have "returns (f di) s' a (view s)" using owned_apart [OF fs] by (intro f) simp_all
    then show "runs (f di) s' (\<lambda>x v. x = a \<and> v = view s)" by (rule returns_runs) simp
  qed
  then show ?thesis by (auto simp: store_runs_def store_returns_def)
qed

lemma returns_inode_read_at:
  assumes s: "ok s" "locked s = []" and fs: "fs_ok fs (view s)" "files fs (view s) i = Some (t, l, bs)"
    and n: "offset + length buf < usize_bound"
  shows "returns (inode_read_at ops (ino fs i) offset buf) s
    (min (length buf) (length bs - offset), copy_into 0 (slice_of offset (min (length buf) (length bs - offset)) bs) buf) (view s)"
proof -
  obtain di where di: "inodes fs (view s) i = Some di" "file_bytes (view s) di = bs" "di_size di = length bs" "di_ok di"
    by (rule files_inode [OF fs])
  show ?thesis
    unfolding inode_read_at_def
  proof (rule returns_read_inode [OF s fs(1) di(1)])
    fix s' assume s': "ok s'" "view s' = view s" "length (locked s') < BLOCK_CACHE_SIZE" "set (owned (view s') di) \<inter> set (locked s') = {}"
    show "returns (di_read_at ops di offset buf) s'
      (min (length buf) (length bs - offset), copy_into 0 (slice_of offset (min (length buf) (length bs - offset)) bs) buf) (view s)"
      using returns_read_at [OF s'(1,3,4) di(4) n] s'(2) di(2,3) by simp
  qed
qed

text \<open>Reading one entry.\<close>

lemma returns_read_dirent:
  assumes s: "ok s" "length (locked s) < BLOCK_CACHE_SIZE" "set (owned (view s) di) \<inter> set (locked s) = {}" "di_ok di"
    and i: "i < di_size di div DIRENT_SZ" "length buf = DIRENT_SZ"
  shows "returns (di_read_at ops di (DIRENT_SZ * i) buf) s (DIRENT_SZ, slice_of (DIRENT_SZ * i) DIRENT_SZ (file_bytes (view s) di)) (view s)"
proof -
  let ?x = "slice_of (DIRENT_SZ * i) DIRENT_SZ (file_bytes (view s) di)"
  have l: "length (file_bytes (view s) di) = di_size di" using block_length [OF s(1)] by (intro length_file_bytes)
  have "DIRENT_SZ * Suc i \<le> DIRENT_SZ * (di_size di div DIRENT_SZ)" using i(1) by (intro mult_le_mono2) simp
  then have fit: "DIRENT_SZ * i + DIRENT_SZ \<le> di_size di" by simp
  have "di_size di < u32_bound" using s(4) by (simp add: di_ok_def di_wf_def)
  then have u: "DIRENT_SZ * i + length buf < usize_bound" using fit i(2) by simp
  have "min (length buf) (di_size di - DIRENT_SZ * i) = DIRENT_SZ" "copy_into 0 ?x buf = ?x" using fit i(2) l by simp_all
  then show ?thesis using returns_read_at [OF s u] by simp
qed

lemma returns_find_dirent:
  assumes s: "ok s" "length (locked s) < BLOCK_CACHE_SIZE" "set (owned (view s) di) \<inter> set (locked s) = {}" "di_ok di"
    and d: "dir_ok (file_bytes (view s) di)" "set is \<subseteq> {..<di_size di div DIRENT_SZ}" "length buf = DIRENT_SZ"
  shows "returns (find_dirent ops di name buf is) s
    (map_option (\<lambda>i. (i, entry_at (file_bytes (view s) di) i)) (entry_index (file_bytes (view s) di) name is)) (view s)"
  using assms
proof (induction "is" arbitrary: s buf)
  case Nil
  then show ?case by (auto simp: entry_index_def intro: returns_return)
next
  case (Cons i "is")
  let ?bs = "file_bytes (view s) di"
  let ?x = "slice_of (DIRENT_SZ * i) DIRENT_SZ ?bs"
  have l: "length ?bs = di_size di" using block_length [OF Cons.prems(1)] by (intro length_file_bytes)
  have i: "i < di_size di div DIRENT_SZ" using Cons.prems(6) by simp
  have nm: "dirent_name (dirent_of ?x) = Inr (entry_name (entry_at ?bs i))"
    using entry_name_ok [OF Cons.prems(5), of i] i l by (simp add: entry_at_def)
  have "DIRENT_SZ * Suc i \<le> DIRENT_SZ * (di_size di div DIRENT_SZ)" using i by (intro mult_le_mono2) simp
  then have x: "length ?x = DIRENT_SZ" using l by simp
  show ?case
    unfolding find_dirent.simps
  proof (rule returns_bind [OF returns_read_dirent [OF Cons.prems(1-4) i Cons.prems(7)]])
    fix s' assume s': "ok s'" "view s' = view s" "locked s' = locked s"
    have "returns (find_dirent ops di name ?x is) s' (map_option (\<lambda>i. (i, entry_at ?bs i)) (entry_index ?bs name is)) (view s)"
      using Cons.IH [of s' ?x] s' Cons.prems x by simp
    then show "returns (case (DIRENT_SZ, ?x) of (n, buf') \<Rightarrow>
       bind_io (lift_io (assert_res (n = DIRENT_SZ))) (\<lambda>_. bind_io (lift_io (dirent_name (dirent_of buf'))) (\<lambda>nm.
         if nm = name then return_io (Some (i, dirent_of buf')) else find_dirent ops di name buf' is))) s'
       (map_option (\<lambda>i. (i, entry_at ?bs i)) (entry_index ?bs name (i # is))) (view s)"
      using nm s' by (auto simp: assert_res_def entry_index_def entry_at_def intro: returns_return)
  qed
qed

lemma returns_read_names:
  assumes s: "ok s" "length (locked s) < BLOCK_CACHE_SIZE" "set (owned (view s) di) \<inter> set (locked s) = {}" "di_ok di"
    and d: "dir_ok (file_bytes (view s) di)" "set is \<subseteq> {..<di_size di div DIRENT_SZ}"
  shows "returns (read_names ops di is acc) s (acc @ map (\<lambda>i. entry_name (entry_at (file_bytes (view s) di) i)) is) (view s)"
  using assms
proof (induction "is" arbitrary: s acc)
  case Nil
  then show ?case by (auto intro: returns_return)
next
  case (Cons i "is")
  let ?bs = "file_bytes (view s) di"
  let ?x = "slice_of (DIRENT_SZ * i) DIRENT_SZ ?bs"
  have l: "length ?bs = di_size di" using block_length [OF Cons.prems(1)] by (intro length_file_bytes)
  have i: "i < di_size di div DIRENT_SZ" using Cons.prems(6) by simp
  have nm: "dirent_name (dirent_of ?x) = Inr (entry_name (entry_at ?bs i))"
    using entry_name_ok [OF Cons.prems(5), of i] i l by (simp add: entry_at_def)
  have b: "length (dirent_bytes dirent_empty) = DIRENT_SZ" by simp
  show ?case
    unfolding read_names.simps mult.commute [of i DIRENT_SZ]
  proof (rule returns_bind [OF returns_read_dirent [OF Cons.prems(1-4) i b]])
    fix s' assume s': "ok s'" "view s' = view s" "locked s' = locked s"
    have "returns (read_names ops di is (acc @ [entry_name (entry_at ?bs i)])) s'
        ((acc @ [entry_name (entry_at ?bs i)]) @ map (\<lambda>i. entry_name (entry_at ?bs i)) is) (view s)"
      using Cons.IH [of s' "acc @ [entry_name (entry_at ?bs i)]"] s' Cons.prems by simp
    then show "returns (case (DIRENT_SZ, ?x) of (n, buf) \<Rightarrow>
       bind_io (lift_io (assert_res (n = DIRENT_SZ))) (\<lambda>_. bind_io (lift_io (dirent_name (dirent_of buf))) (\<lambda>nm.
         read_names ops di is (acc @ [nm])))) s' (acc @ map (\<lambda>i. entry_name (entry_at ?bs i)) (i # is)) (view s)"
      using nm by (simp add: assert_res_def)
  qed
qed

text \<open>The whole directory: the first entry of a name, and all names.\<close>

lemma returns_find_inode_id:
  assumes s: "ok s" "length (locked s) < BLOCK_CACHE_SIZE" "set (owned (view s) di) \<inter> set (locked s) = {}" "di_ok di"
    and d: "dir_ok (file_bytes (view s) di)" "di_type di = Directory"
  shows "returns (find_inode_id ops name di) s (map_of (dir_entries (file_bytes (view s) di)) name) (view s)"
proof -
  let ?bs = "file_bytes (view s) di"
  have l: "length ?bs = di_size di" using block_length [OF s(1)] by (intro length_file_bytes)
  have "returns (find_dirent ops di name (dirent_bytes dirent_empty) [0..<file_count di]) s
      (map_option (\<lambda>i. (i, entry_at ?bs i)) (entry_index ?bs name [0..<file_count di])) (view s)"
    by (rule returns_find_dirent [OF s d(1)]) (auto simp: file_count_def)
  moreover have "map_option (\<lambda>(_, d). inode_number d) (map_option (\<lambda>i. (i, entry_at ?bs i)) (entry_index ?bs name [0..<file_count di])) =
      map_of (dir_entries ?bs) name"
    using entry_index_map_of [of ?bs name "[0..<file_count di]"] l by (simp add: option.map_comp comp_def dir_entries_def file_count_def)
  ultimately show ?thesis
    using d(2) by (auto simp: find_inode_id_def assert_res_def di_is_dir_def intro!: returns_bind returns_return)
qed

lemma returns_inode_find:
  assumes s: "ok s" "locked s = []" and fs: "fs_ok fs (view s)" "files fs (view s) i = Some (Directory, l, bs)"
    and d: "dir_ok bs" "\<And>j. map_of (dir_entries bs) name = Some j \<Longrightarrow> j < inode_capacity fs"
  shows "returns (inode_find ops fs (ino fs i) name) s (map_option (ino fs) (map_of (dir_entries bs) name)) (view s)"
proof -
  obtain di where di: "inodes fs (view s) i = Some di" "di_type di = Directory" "file_bytes (view s) di = bs" "di_ok di"
    by (rule files_inode [OF fs])
  show ?thesis
    unfolding inode_find_def
  proof (rule returns_read_inode [OF s fs(1) di(1)])
    fix s' assume s': "ok s'" "view s' = view s" "length (locked s') < BLOCK_CACHE_SIZE" "set (owned (view s') di) \<inter> set (locked s') = {}"
    have "returns (find_inode_id ops name di) s' (map_of (dir_entries bs) name) (view s')"
      using returns_find_inode_id [OF s'(1,3,4) di(4)] di(2,3) d(1) s'(2) by simp
    then show "returns (bind_io (find_inode_id ops name di) (\<lambda>r. case r of None \<Rightarrow> return_io None
       | Some inode_id \<Rightarrow> bind_io (lift_io (get_disk_inode_pos fs inode_id)) (\<lambda>(b, off). return_io (Some (inode_new b off))))) s'
       (map_option (ino fs) (map_of (dir_entries bs) name)) (view s)"
    proof (rule returns_bind)
      fix s2 assume "ok s2" "view s2 = view s'"
      then show "returns (case map_of (dir_entries bs) name of None \<Rightarrow> return_io None
         | Some inode_id \<Rightarrow> bind_io (lift_io (get_disk_inode_pos fs inode_id)) (\<lambda>(b, off). return_io (Some (inode_new b off)))) s2
         (map_option (ino fs) (map_of (dir_entries bs) name)) (view s)"
        using d(2) s'(2) get_disk_inode_pos_ok [OF fs_okD(1) [OF fs(1)]]
        by (cases "map_of (dir_entries bs) name") (auto intro!: returns_return)
    qed
  qed
qed

lemma returns_readdir:
  assumes s: "ok s" "locked s = []" and fs: "fs_ok fs (view s)" "files fs (view s) i = Some (Directory, l, bs)" and d: "dir_ok bs"
  shows "returns (readdir ops (ino fs i)) s (map fst (dir_entries bs)) (view s)"
proof -
  obtain di where di: "inodes fs (view s) i = Some di" "file_bytes (view s) di = bs" "di_size di = length bs" "di_ok di"
    by (rule files_inode [OF fs])
  show ?thesis
    unfolding readdir_def
  proof (rule returns_read_inode [OF s fs(1) di(1)])
    fix s' assume s': "ok s'" "view s' = view s" "length (locked s') < BLOCK_CACHE_SIZE" "set (owned (view s') di) \<inter> set (locked s') = {}"
    have "returns (read_names ops di [0..<file_count di] []) s' ([] @ map (\<lambda>i. entry_name (entry_at bs i)) [0..<file_count di]) (view s')"
      using returns_read_names [OF s'(1,3,4) di(4), of "[0..<file_count di]" "[]"] s'(2) di(2) d
      by (simp add: file_count_def lessThan_atLeast0)
    then show "returns (read_names ops di [0..<file_count di] []) s' (map fst (dir_entries bs)) (view s)"
      using s'(2) di(3) by (simp add: dir_entries_def comp_def file_count_def)
  qed
qed

end

end
