(* ===== verification/Fs_Create.thy ===== *)
theory Fs_Create
  imports Fs_Read
begin

text \<open>
  Creating files and hard links: both append an entry to the directory; a new file takes the first free inode, a link
  raises the link count of the inode it names.
\<close>

section \<open>Appending an entry\<close>

lemma write_bytes_append: "write_bytes (length bs) buf bs = bs @ buf"
  by (simp add: write_bytes_def copy_into_def)

lemma entry_at_append: "DIRENT_SZ * i + DIRENT_SZ \<le> length bs \<Longrightarrow> entry_at (bs @ xs) i = entry_at bs i"
  by (simp add: entry_at_def slice_of_def)

lemma dir_append:
  assumes "dir_ok bs" "dirent_wf d" "dirent_name d = Inr name"
  shows "dir_ok (bs @ dirent_bytes d)" "dir_entries (bs @ dirent_bytes d) = dir_entries bs @ [(name, inode_number d)]"
proof -
  let ?n = "length bs div DIRENT_SZ"
  have n: "DIRENT_SZ * ?n = length bs" using assms(1) by (auto simp: dir_ok_def)
  have l: "length (bs @ dirent_bytes d) div DIRENT_SZ = Suc ?n" using assms(2) by simp
  have old: "entry_at (bs @ dirent_bytes d) i = entry_at bs i" if "i < ?n" for i
  proof (rule entry_at_append)
    have "DIRENT_SZ * Suc i \<le> DIRENT_SZ * ?n" using that by (intro mult_le_mono2) simp
    then show "DIRENT_SZ * i + DIRENT_SZ \<le> length bs" using n by simp
  qed
  have new: "entry_at (bs @ dirent_bytes d) ?n = d"
    unfolding entry_at_def n using assms(2) dirent_round_trip [OF assms(2)] by (simp add: slice_of_def)
  show "dir_ok (bs @ dirent_bytes d)"
    unfolding dir_ok_def l using assms old new by (auto simp: dir_ok_def less_Suc_eq)
  show "dir_entries (bs @ dirent_bytes d) = dir_entries bs @ [(name, inode_number d)]"
    unfolding dir_entries_def l using old new assms(3) by (simp add: entry_name_def)
qed

context block_store
begin

lemma runs_append_dirent:
  assumes s: "ok s" "locked s = []" and fs: "fs_ok fs (view s)" "files fs (view s) i = Some (Directory, l, bs)"
    and d: "dir_ok bs" "name_ok name" "j < u32_bound" and n: "data_blocks_of (length bs + DIRENT_SZ) \<le> INDIRECT2_BOUND"
    and room: "owned_length (data_blocks_of (length bs + DIRENT_SZ)) - owned_length (data_blocks_of (length bs)) \<le> card (free_blocks fs (view s))"
  shows "runs (modify_disk_inode ops (ino fs i) (append_dirent ops fs name j)) s (\<lambda>_ v'. fs_ok fs v' \<and> card (free_blocks fs v') + owned_length (data_blocks_of (length bs + DIRENT_SZ)) =
      card (free_blocks fs (view s)) + owned_length (data_blocks_of (length bs)) \<and>
    (\<exists>bs'. files fs v' = (files fs (view s))(i \<mapsto> (Directory, l, bs')) \<and> dir_ok bs' \<and> dir_entries bs' = dir_entries bs @ [(name, j)]))"
proof -
  obtain di where di: "inodes fs (view s) i = Some di" "di_type di = Directory" "link_num di = l" "file_bytes (view s) di = bs"
    "di_size di = length bs" "di_ok di" "data_blocks di = data_blocks_of (length bs)"
    by (rule files_inode [OF fs])
  obtain e where e: "dirent_new name j = Inr e" "dirent_wf e" "dirent_name e = Inr name" "inode_number e = j"
    by (rule dirent_name_new [OF d(2,3)])
  have c: "file_count di * DIRENT_SZ = length bs" using d(1) di(5) by (auto simp: file_count_def dir_ok_def)
  then have c': "(file_count di + 1) * DIRENT_SZ = length bs + DIRENT_SZ" by simp
  have "as_u32 (length bs + DIRENT_SZ) = length bs + DIRENT_SZ" using size_bound [OF n] by simp
  then have app: "append_dirent ops fs name j di = bind_io (inode_increase_size ops fs (length bs + length (dirent_bytes e)) di) (\<lambda>di'.
      bind_io (di_write_at ops di' (length bs) (dirent_bytes e)) (\<lambda>_. return_io ((), di')))"
    unfolding append_dirent_def Let_def c c' using e(1,2) by simp
  have ne: "dirent_bytes e \<noteq> []" using length_dirent_bytes [OF e(2)] by auto
  have "runs (modify_disk_inode ops (ino fs i) (append_dirent ops fs name j)) s (\<lambda>a v'. fs_ok fs v' \<and>
      (\<exists>x. files fs v' = (files fs (view s))(i \<mapsto> x) \<and> (x = (Directory, l, bs @ dirent_bytes e) \<and> card (free_blocks fs v') + owned_length (data_blocks_of (length bs + DIRENT_SZ)) =
      card (free_blocks fs (view s)) + owned_length (data_blocks_of (length bs)))))"
  proof (rule runs_edit_inode [OF s fs(1) di(1)])
    fix s' assume s': "ok s'" "view s' = view s" "locked s' = [inode_block fs i]"
    show "runs (append_dirent ops fs name j di) s' (\<lambda>(a, di') v'. edited fs (view s) i v' di' \<and>
        file_of v' di' = (Directory, l, bs @ dirent_bytes e) \<and> card (free_blocks fs v') + owned_length (data_blocks_of (length bs + DIRENT_SZ)) =
      card (free_blocks fs (view s)) + owned_length (data_blocks_of (length bs)))"
      unfolding app using runs_grow_and_write [OF s'(1,3), of di "length bs" "dirent_bytes e" "\<lambda>_. ()"] s' fs(1) n room ne di e(2)
      by (auto simp: write_bytes_append split_def max_def elim: runs_mono)
  qed
  then show ?thesis using dir_append [OF d(1) e(2,3)] e(4) by (auto elim!: runs_mono)
qed

lemma commits_inode_create:
  assumes s: "ok s" "locked s = []" and fs: "fs_ok fs (view s)" "files fs (view s) i = Some (Directory, l, bs)"
    and j: "j < inode_capacity fs" "j < bitmap_maximum (inode_bitmap fs)" "files fs (view s) j = None" "\<And>m. m < j \<Longrightarrow> files fs (view s) m \<noteq> None"
    and d: "dir_ok bs" "name_ok name" and n: "data_blocks_of (length bs + DIRENT_SZ) \<le> INDIRECT2_BOUND"
    and room: "owned_length (data_blocks_of (length bs + DIRENT_SZ)) - owned_length (data_blocks_of (length bs)) \<le> card (free_blocks fs (view s))"
  shows "commits (inode_create ops fs (ino fs i) name) s (\<lambda>r v'. r = Some (ino fs j) \<and> fs_ok fs v' \<and>
    card (free_blocks fs v') + owned_length (data_blocks_of (length bs + DIRENT_SZ)) =
      card (free_blocks fs (view s)) + owned_length (data_blocks_of (length bs)) \<and>
    (\<exists>bs'. files fs v' = (files fs (view s))(j \<mapsto> (File, 1, []), i \<mapsto> (Directory, l, bs')) \<and> dir_ok bs' \<and>
      dir_entries bs' = dir_entries bs @ [(name, j)]))" (is "commits _ s ?Q")
proof -
  have ij: "i \<noteq> j" using fs(2) j(3) by auto
  have u: "j < u32_bound" using j(2) fs_okD(1) [OF fs(1)] by (simp add: fs_areas_def)
  let ?k = "\<lambda>j. bind_io (modify_disk_inode ops (ino fs i) (append_dirent ops fs name j)) (\<lambda>_.
     bind_io (lift_io (get_disk_inode_pos fs j)) (\<lambda>(b, off). bind_io (sync_all ops) (\<lambda>_. return_io (Some (inode_new b off)))))"
  show ?thesis
    unfolding inode_create_def
  proof (rule commits_new_inode [OF s fs(1) j(1,2), where t = File and k = "?k j"])
    fix s' assume s': "ok s'" "locked s' = []" and p: "fs_ok fs (view s') \<and> files fs (view s') = (files fs (view s))(j \<mapsto> (File, 1, [])) \<and>
      free_blocks fs (view s') = free_blocks fs (view s)"
    then have fs': "fs_ok fs (view s')" "files fs (view s') i = Some (Directory, l, bs)" using fs(2) ij by simp_all
    show "commits (?k j) s' ?Q"
    proof (rule commits_bind [OF runs_append_dirent [OF s' fs' d u n]])
      show "owned_length (data_blocks_of (length bs + DIRENT_SZ)) - owned_length (data_blocks_of (length bs)) \<le> card (free_blocks fs (view s'))"
        using p room by simp
    qed (use s'(2) p get_disk_inode_pos_ok [OF fs_okD(1) [OF fs(1)] j(1)] in \<open>auto intro!: commits_synced\<close>)
  qed (use j in \<open>auto simp: files_def\<close>)
qed

end

section \<open>Link counts\<close>

lemma link_num_frame:
  "owned v (di\<lparr>link_num := n\<rparr>) = owned v di" "file_data v (di\<lparr>link_num := n\<rparr>) = file_data v di"
  "file_bytes v (di\<lparr>link_num := n\<rparr>) = file_bytes v di" "n < u32_bound \<Longrightarrow> file_ok v di \<Longrightarrow> file_ok v (di\<lparr>link_num := n\<rparr>)"
proof -
  have b: "block_at v (di\<lparr>link_num := n\<rparr>) = block_at v di" "index_at v (di\<lparr>link_num := n\<rparr>) = index_at v di"
    "data_blocks (di\<lparr>link_num := n\<rparr>) = data_blocks di"
    by (simp_all add: block_at_def index_at_def data_blocks_def fun_eq_iff)
  then show o: "owned v (di\<lparr>link_num := n\<rparr>) = owned v di" "file_data v (di\<lparr>link_num := n\<rparr>) = file_data v di"
    by (simp_all add: owned_def owned_upto_def file_data_def file_blocks_def)
  then show "file_bytes v (di\<lparr>link_num := n\<rparr>) = file_bytes v di" by (simp add: file_bytes_def)
  show "n < u32_bound \<Longrightarrow> file_ok v di \<Longrightarrow> file_ok v (di\<lparr>link_num := n\<rparr>)"
    using o b(3) by (simp add: file_ok_def di_ok_def di_wf_def)
qed

lemma edited_link_num: "edited fs v i v' di \<Longrightarrow> n < u32_bound \<Longrightarrow> edited fs v i v' (di\<lparr>link_num := n\<rparr>)"
  unfolding edited_def link_num_frame(1) using link_num_frame(4) by blast

context block_store
begin

lemma runs_set_link_num:
  assumes s: "ok s" "locked s = []" and fs: "fs_ok fs (view s)" "files fs (view s) i = Some (t, l, bs)"
    and f: "\<And>di. link_num di = l \<Longrightarrow> f di = return_io (a, di\<lparr>link_num := n\<rparr>)" and n: "n < u32_bound"
  shows "runs (modify_disk_inode ops (ino fs i) f) s (\<lambda>r v'. r = a \<and> fs_ok fs v' \<and> files fs v' = (files fs (view s))(i \<mapsto> (t, n, bs)) \<and>
    free_blocks fs v' = free_blocks fs (view s))"
proof -
  obtain di where di: "inodes fs (view s) i = Some di" "di_type di = t" "link_num di = l" "file_bytes (view s) di = bs"
    by (rule files_inode [OF fs])
  have "runs (modify_disk_inode ops (ino fs i) f) s (\<lambda>r v'. fs_ok fs v' \<and>
      (\<exists>x. files fs v' = (files fs (view s))(i \<mapsto> x) \<and> (r = a \<and> x = (t, n, bs) \<and> free_blocks fs v' = free_blocks fs (view s))))"
  proof (rule runs_edit_inode [OF s fs(1) di(1)])
    fix s' assume s': "ok s'" "view s' = view s"
    then show "runs (f di) s' (\<lambda>(r, di') v'. edited fs (view s) i v' di' \<and> r = a \<and> file_of v' di' = (t, n, bs) \<and>
        free_blocks fs v' = free_blocks fs (view s))"
      unfolding f [OF di(3)] using edited_link_num [OF edited_same [OF fs(1) di(1)] n] di
      by (intro runs_return) (simp_all add: file_of_def link_num_frame)
  qed
  then show ?thesis by (rule runs_mono) blast
qed

lemma commits_inode_link:
  assumes s: "ok s" "locked s = []" and fs: "fs_ok fs (view s)" "files fs (view s) i = Some (Directory, l, bs)"
    and d: "dir_ok bs" "map_of (dir_entries bs) name = Some j" "name_ok new_name"
    and j: "j \<noteq> i" "files fs (view s) j = Some (t, m, cs)" "m + 1 < u32_bound"
    and n: "data_blocks_of (length bs + DIRENT_SZ) \<le> INDIRECT2_BOUND"
    and room: "owned_length (data_blocks_of (length bs + DIRENT_SZ)) - owned_length (data_blocks_of (length bs)) \<le> card (free_blocks fs (view s))"
  shows "commits (inode_link ops fs (ino fs i) name new_name) s (\<lambda>r v'. r \<and> fs_ok fs v' \<and>
    card (free_blocks fs v') + owned_length (data_blocks_of (length bs + DIRENT_SZ)) =
      card (free_blocks fs (view s)) + owned_length (data_blocks_of (length bs)) \<and>
    (\<exists>bs'. files fs v' = (files fs (view s))(i \<mapsto> (Directory, l, bs'), j \<mapsto> (t, m + 1, cs)) \<and> dir_ok bs' \<and>
      dir_entries bs' = dir_entries bs @ [(new_name, j)]))" (is "commits _ s ?Q")
proof -
  obtain di where di: "inodes fs (view s) i = Some di" "di_type di = Directory" "file_bytes (view s) di = bs" "di_ok di"
    by (rule files_inode [OF fs])
  have cap: "j < inode_capacity fs" using j(2) fs_okD(3) [OF fs(1)] by (auto simp: files_Some)
  then have u: "j < u32_bound" and pos: "get_disk_inode_pos fs j = Inr (inode_block fs j, inode_off j)"
    using fs(1) j(2) get_disk_inode_pos_ok [OF fs_okD(1) [OF fs(1)] cap]
    by (auto simp: files_Some fs_ok_def fs_areas_def used_bits_def dest!: inode_used)
  let ?up = "\<lambda>di. bind_io (lift_io (add_res u32_bound (link_num di) 1)) (\<lambda>n. return_io ((), di\<lparr>link_num := n\<rparr>))"
  let ?k = "\<lambda>j. bind_io (modify_disk_inode ops (ino fs i) (append_dirent ops fs new_name j)) (\<lambda>_.
     bind_io (lift_io (get_disk_inode_pos fs j)) (\<lambda>(b, off). bind_io (bc_modify ops b off DISK_INODE_SZ (on_disk_inode ?up)) (\<lambda>_.
     bind_io (sync_all ops) (\<lambda>_. return_io True))))"
  have "returns (read_disk_inode ops (ino fs i) (find_inode_id ops name)) s (Some j) (view s)"
  proof (rule returns_read_inode [OF s fs(1) di(1)])
    fix s' assume s': "ok s'" "view s' = view s" "length (locked s') < BLOCK_CACHE_SIZE" "set (owned (view s') di) \<inter> set (locked s') = {}"
    then show "returns (find_inode_id ops name di) s' (Some j) (view s)"
      using returns_find_inode_id [OF s'(1,3,4) di(4), of name] di(2,3) d(1,2) by simp
  qed
  then have "runs (read_disk_inode ops (ino fs i) (find_inode_id ops name)) s (\<lambda>r v. r = Some j \<and> v = view s)"
    by (rule returns_runs) simp
  then show ?thesis
    unfolding inode_link_def
  proof (rule commits_bind)
    fix r s1 assume s1: "ok s1" "locked s1 = locked s" "r = Some j \<and> view s1 = view s"
    have fs1: "fs_ok fs (view s1)" "files fs (view s1) i = Some (Directory, l, bs)" and l1: "locked s1 = []" using fs s1 s(2) by simp_all
    have "commits (?k j) s1 ?Q"
    proof (rule commits_bind [OF runs_append_dirent [OF s1(1) l1 fs1 d(1,3) u n]])
      fix s2 assume s2: "ok s2" "locked s2 = locked s1" and p: "fs_ok fs (view s2) \<and>
        card (free_blocks fs (view s2)) + owned_length (data_blocks_of (length bs + DIRENT_SZ)) =
          card (free_blocks fs (view s1)) + owned_length (data_blocks_of (length bs)) \<and>
        (\<exists>bs'. files fs (view s2) = (files fs (view s1))(i \<mapsto> (Directory, l, bs')) \<and> dir_ok bs' \<and> dir_entries bs' = dir_entries bs @ [(new_name, j)])"
      then have l2: "locked s2 = []" "fs_ok fs (view s2)" "files fs (view s2) j = Some (t, m, cs)" using l1 j(1,2) s1(3) by auto
      have "runs (modify_disk_inode ops (ino fs j) ?up) s2 (\<lambda>r v'. r = () \<and> fs_ok fs v' \<and>
          files fs v' = (files fs (view s2))(j \<mapsto> (t, m + 1, cs)) \<and> free_blocks fs v' = free_blocks fs (view s2))"
        using j(3) by (intro runs_set_link_num [OF s2(1) l2]) simp_all
      then have "commits (bind_io (modify_disk_inode ops (ino fs j) ?up) (\<lambda>_. bind_io (sync_all ops) (\<lambda>_. return_io True))) s2 ?Q"
        by (rule commits_bind) (use l2 p s1(3) in \<open>auto intro!: commits_synced\<close>)
      then show "commits (bind_io (lift_io (get_disk_inode_pos fs j)) (\<lambda>(b, off).
          bind_io (bc_modify ops b off DISK_INODE_SZ (on_disk_inode ?up)) (\<lambda>_. bind_io (sync_all ops) (\<lambda>_. return_io True)))) s2 ?Q"
        using pos by (simp add: modify_disk_inode_def inode_new_def)
    qed (use room s1 in simp)
    then show "commits (case r of None \<Rightarrow> return_io False | Some old_inode_id \<Rightarrow> ?k old_inode_id) s1 ?Q" using s1(3) by simp
  qed
qed

end

end
