(* ===== verification/Fs_Unlink.thy ===== *)
theory Fs_Unlink
  imports Fs_Create
begin

text \<open>
  Truncating and unlinking: \<^verbatim>\<open>clear\<close> returns exactly the blocks of the file, zeroed, to the free blocks; \<^verbatim>\<open>unlink\<close> empties the
  first entry of the name, lowers the link count and clears the file when the last link is gone.
\<close>

section \<open>Returning blocks\<close>

context block_store
begin

lemma runs_dealloc_data:
  assumes s: "ok s" "length (locked s) < BLOCK_CACHE_SIZE" "bitmap_blocks (data_bitmap fs) \<inter> set (locked s) = {}"
    and fs: "fs_areas fs" and b: "b \<in> used_blocks fs (view s)" "b \<notin> set (locked s)"
  shows "runs (dealloc_data ops fs b) s (\<lambda>_ v'. used_blocks fs v' = used_blocks fs (view s) - {b} \<and> v' b = replicate BLOCK_SZ 0 \<and>
    (\<forall>x. x \<notin> bitmap_blocks (data_bitmap fs) \<and> x \<noteq> b \<longrightarrow> v' x = view s x))"
  unfolding dealloc_data_def
proof (rule runs_bind [OF returns_runs [OF returns_zero_block [OF s(1,2) b(2)], where P = "\<lambda>_ v. v = (view s)(b := replicate BLOCK_SZ 0)"]])
  let ?D = "data_area_start_block fs" and ?bm = "data_bitmap fs"
  fix s1 assume s1: "ok s1" "locked s1 = locked s" "view s1 = (view s)(b := replicate BLOCK_SZ 0)"
  obtain n where n: "n \<in> used_bits ?bm (view s)" "b = ?D + n" using b(1) by (auto simp: used_blocks_def)
  have "b \<in> data_area fs" using b(1) used_blocks_area by blast
  then have nb: "b \<notin> bitmap_blocks ?bm" using data_bitmap_apart [OF fs] by blast
  have u: "used_bits ?bm (view s1) = used_bits ?bm (view s)" by (rule used_bits_frame) (use nb s1(3) in auto)
  have l1: "length (locked s1) < BLOCK_CACHE_SIZE" "bitmap_blocks ?bm \<inter> set (locked s1) = {}" "n \<in> used_bits ?bm (view s1)"
    using s s1(2) n(1) u by simp_all
  obtain v' where v': "returns (bitmap_dealloc ops ?bm n) s1 () v'" "used_bits ?bm v' = used_bits ?bm (view s1) - {n}"
    "\<And>b. b \<notin> bitmap_blocks ?bm \<Longrightarrow> v' b = view s1 b"
    by (rule dealloc_used [OF s1(1) l1]) (rule that)
  have "used_blocks fs v' = used_blocks fs (view s) - {b}" using v'(2) u n(2) by (auto simp: used_blocks_def)
  then have "runs (bitmap_dealloc ops ?bm n) s1 (\<lambda>_ v'. used_blocks fs v' = used_blocks fs (view s) - {b} \<and> v' b = replicate BLOCK_SZ 0 \<and>
      (\<forall>x. x \<notin> bitmap_blocks ?bm \<and> x \<noteq> b \<longrightarrow> v' x = view s x))"
    using v'(3) nb s1(3) by (intro returns_runs [OF v'(1)]) simp
  then show "runs (bind_io (lift_io (sub_res b ?D)) (\<lambda>n. bitmap_dealloc ops ?bm n)) s1 (\<lambda>_ v'. used_blocks fs v' = used_blocks fs (view s) - {b} \<and>
      v' b = replicate BLOCK_SZ 0 \<and> (\<forall>x. x \<notin> bitmap_blocks ?bm \<and> x \<noteq> b \<longrightarrow> v' x = view s x))"
    using n(2) by (simp add: sub_res_def)
qed (rule refl)

lemma runs_dealloc_all:
  assumes "ok s" "length (locked s) < BLOCK_CACHE_SIZE" "bitmap_blocks (data_bitmap fs) \<inter> set (locked s) = {}" "fs_areas fs"
    and "distinct bs" "set bs \<subseteq> used_blocks fs (view s)" "set bs \<inter> set (locked s) = {}"
  shows "runs (dealloc_all ops fs bs) s (\<lambda>_ v'. used_blocks fs v' = used_blocks fs (view s) - set bs \<and> (\<forall>b \<in> set bs. v' b = replicate BLOCK_SZ 0) \<and>
    (\<forall>x. x \<notin> bitmap_blocks (data_bitmap fs) \<and> x \<notin> set bs \<longrightarrow> v' x = view s x))"
  using assms
proof (induction bs arbitrary: s)
  case Nil
  then show ?case by (auto intro: runs_return)
next
  case (Cons b bs)
  have b: "b \<in> used_blocks fs (view s)" "b \<notin> set (locked s)" using Cons.prems by auto
  then have nb: "b \<notin> bitmap_blocks (data_bitmap fs)" using used_blocks_area data_bitmap_apart [OF Cons.prems(4)] by blast
  show ?case
    unfolding dealloc_all.simps
  proof (rule runs_bind [OF runs_dealloc_data [OF Cons.prems(1-4) b]])
    fix s1 assume s1: "ok s1" "locked s1 = locked s" and p: "used_blocks fs (view s1) = used_blocks fs (view s) - {b} \<and>
      view s1 b = replicate BLOCK_SZ 0 \<and> (\<forall>x. x \<notin> bitmap_blocks (data_bitmap fs) \<and> x \<noteq> b \<longrightarrow> view s1 x = view s x)"
    have "set bs \<subseteq> used_blocks fs (view s1)" using p Cons.prems(5,6) by auto
    with Cons.prems s1 have "runs (dealloc_all ops fs bs) s1 (\<lambda>_ v'. used_blocks fs v' = used_blocks fs (view s1) - set bs \<and>
        (\<forall>b \<in> set bs. v' b = replicate BLOCK_SZ 0) \<and> (\<forall>x. x \<notin> bitmap_blocks (data_bitmap fs) \<and> x \<notin> set bs \<longrightarrow> v' x = view s1 x))"
      by (intro Cons.IH) simp_all
    then show "runs (dealloc_all ops fs bs) s1 (\<lambda>_ v'. used_blocks fs v' = used_blocks fs (view s) - set (b # bs) \<and>
        (\<forall>b \<in> set (b # bs). v' b = replicate BLOCK_SZ 0) \<and> (\<forall>x. x \<notin> bitmap_blocks (data_bitmap fs) \<and> x \<notin> set (b # bs) \<longrightarrow> v' x = view s x))"
      by (rule runs_mono) (use p nb Cons.prems(5) in auto)
  qed
qed

end

lemma edited_cleared:
  assumes fs: "fs_ok fs v" "inodes fs v i = Some di" and v': "used_blocks fs v' = used_blocks fs v - set (owned v di)"
    "\<forall>b \<in> set (owned v di). v' b = replicate BLOCK_SZ 0" "\<forall>b. b \<notin> bitmap_blocks (data_bitmap fs) \<and> b \<notin> set (owned v di) \<longrightarrow> v' b = v b"
  shows "edited fs v i v' (cleared di)" "file_of v' (cleared di) = (di_type di, link_num di, [])" "free_blocks fs v' = free_blocks fs v \<union> set (owned v di)"
proof -
  note u = used_others [OF fs] and ar = fs_okD(1) [OF fs(1)]
  have own: "owned v' (cleared di) = []" "file_data v' (cleared di) = []" "file_bytes v' (cleared di) = []"
    using file_empty [of "cleared di"] by simp_all
  have wf: "di_ok di" using fs_okD(4) [OF fs] by (simp add: file_ok_def)
  have ub: "used_blocks fs v' = others fs v i" using v'(1) u by auto
  show fb: "free_blocks fs v' = free_blocks fs v \<union> set (owned v di)" using ub u fs_okD(7) [OF fs] by (auto simp: free_blocks_def)
  have area: "b \<notin> bitmap_blocks (data_bitmap fs)" if "b \<in> data_area fs" for b using that data_bitmap_apart [OF ar] by blast
  have z: "v' b = replicate BLOCK_SZ 0" if "b \<in> free_blocks fs v'" for b
  proof (cases "b \<in> set (owned v di)")
    case False
    then have "b \<in> free_blocks fs v" "b \<in> data_area fs" using that fb by (auto simp: free_blocks_def)
    moreover have "v b = replicate BLOCK_SZ 0" if "b \<in> free_blocks fs v" using that fs(1) by (simp add: fs_ok_def free_blocks_def)
    ultimately show ?thesis using v'(3) False area by simp
  qed (use v'(2) in simp)
  have oth: "v' b = v b" if "b \<in> others fs v i" for b
    using that u used_blocks_area area v'(3) by blast
  have fr: "v' b = v b" if "b \<notin> bitmap_blocks (data_bitmap fs)" "b \<notin> data_area fs" for b
    using that v'(3) fs_okD(7) [OF fs] by blast
  have "file_ok v' (cleared di)" using own cleared_wf [of di] wf by (simp add: file_ok_def di_ok_def data_blocks_def data_blocks_of_def)
  then show "edited fs v i v' (cleared di)" unfolding edited_def using own(1) ub z oth fr by simp
  show "file_of v' (cleared di) = (di_type di, link_num di, [])" using own(3) by (simp add: file_of_def)
qed

context block_store
begin

lemma commits_inode_clear:
  assumes s: "ok s" "locked s = []" and fs: "fs_ok fs (view s)" "files fs (view s) i = Some (t, l, bs)"
  shows "commits (inode_clear ops fs (ino fs i)) s (\<lambda>_ v'. fs_ok fs v' \<and> files fs v' = (files fs (view s))(i \<mapsto> (t, l, [])) \<and>
    card (free_blocks fs v') = card (free_blocks fs (view s)) + owned_length (data_blocks_of (length bs)))"
proof -
  obtain di where di: "inodes fs (view s) i = Some di" "di_type di = t" "link_num di = l" "di_size di = length bs" "di_ok di"
    "data_blocks di = data_blocks_of (length bs)"
    by (rule files_inode [OF fs])
  let ?f = "\<lambda>di. bind_io (di_clear_size ops di) (\<lambda>(data_blocks_dealloc, di').
       bind_io (lift_io (assert_res (length data_blocks_dealloc = total_blocks (di_size di)))) (\<lambda>_.
       bind_io (dealloc_all ops fs data_blocks_dealloc) (\<lambda>_. return_io ((), di'))))"
  let ?own = "owned (view s) di"
  have d: "distinct ?own" using fs_okD(4) [OF fs(1) di(1)] by (simp add: file_ok_def)
  have lo: "length ?own = owned_length (data_blocks_of (length bs))" by (simp add: owned_def length_owned_upto di(6))
  have "free_blocks fs (view s) \<inter> set ?own = {}" using fs_okD(6) [OF fs(1) di(1)] by (auto simp: free_blocks_def)
  then have card: "card (free_blocks fs (view s) \<union> set ?own) = card (free_blocks fs (view s)) + owned_length (data_blocks_of (length bs))"
    using lo distinct_card [OF d] by (simp add: card_Un_disjoint)
  have "runs (modify_disk_inode ops (ino fs i) ?f) s (\<lambda>a v'. fs_ok fs v' \<and> (\<exists>x. files fs v' = (files fs (view s))(i \<mapsto> x) \<and>
      x = (t, l, []) \<and> free_blocks fs v' = free_blocks fs (view s) \<union> set ?own))"
  proof (rule runs_edit_inode [OF s fs(1) di(1)])
    fix s' assume s': "ok s'" "view s' = view s" "locked s' = [inode_block fs i]"
    have ap: "set ?own \<inter> set (locked s') = {}" "bitmap_blocks (data_bitmap fs) \<inter> set (locked s') = {}"
      using owned_apart [OF fs(1) di(1)] locked_inode_block(1) [OF fs(1) di(1)] s'(3) by simp_all
    have "returns (di_clear_size ops di) s' (?own, cleared di) (view s)"
      using returns_clear_size [OF s'(1), of di] s' di(5) d ap(1) by simp
    from returns_runs [OF this, where P = "\<lambda>r v. r = (?own, cleared di) \<and> v = view s"]
    show "runs (?f di) s' (\<lambda>(a, di') v'. edited fs (view s) i v' di' \<and> file_of v' di' = (t, l, []) \<and>
        free_blocks fs v' = free_blocks fs (view s) \<union> set ?own)"
    proof (rule runs_bind)
      fix r s2 assume s2: "ok s2" "locked s2 = locked s'" and r: "r = (?own, cleared di) \<and> view s2 = view s"
      have tot: "length ?own = total_blocks (di_size di)" using total_blocks_owned [of "di_size di"] lo di(4-6) by (simp add: di_ok_def)
      have u: "set ?own \<subseteq> used_blocks fs (view s)" using fs_okD(6) [OF fs(1) di(1)] .
      have "runs (dealloc_all ops fs ?own) s2 (\<lambda>_ v'. used_blocks fs v' = used_blocks fs (view s2) - set ?own \<and>
          (\<forall>b \<in> set ?own. v' b = replicate BLOCK_SZ 0) \<and> (\<forall>x. x \<notin> bitmap_blocks (data_bitmap fs) \<and> x \<notin> set ?own \<longrightarrow> v' x = view s2 x))"
        using s2 s'(3) ap u r d fs_okD(1) [OF fs(1)] by (intro runs_dealloc_all) simp_all
      then have "runs (bind_io (dealloc_all ops fs ?own) (\<lambda>_. return_io ((), cleared di))) s2 (\<lambda>(a, di') v'. edited fs (view s) i v' di' \<and>
          file_of v' di' = (t, l, []) \<and> free_blocks fs v' = free_blocks fs (view s) \<union> set ?own)"
        by (rule runs_bind) (use edited_cleared [OF fs(1) di(1)] r di(2,3) in \<open>auto intro!: runs_return\<close>)
      then show "runs (case r of (data_blocks_dealloc, di') \<Rightarrow>
         bind_io (lift_io (assert_res (length data_blocks_dealloc = total_blocks (di_size di)))) (\<lambda>_.
         bind_io (dealloc_all ops fs data_blocks_dealloc) (\<lambda>_. return_io ((), di')))) s2 (\<lambda>(a, di') v'. edited fs (view s) i v' di' \<and>
         file_of v' di' = (t, l, []) \<and> free_blocks fs v' = free_blocks fs (view s) \<union> set ?own)"
        using r tot by (simp add: assert_res_def)
    qed simp
  qed
  then show ?thesis
    unfolding inode_clear_def by (rule commits_bind) (use s card in \<open>auto intro!: commits_sync\<close>)
qed

end

section \<open>Emptying an entry\<close>

lemma entry_at_copy:
  assumes "dirent_wf d" "DIRENT_SZ * p + DIRENT_SZ \<le> length bs" "DIRENT_SZ * i + DIRENT_SZ \<le> length bs"
  shows "entry_at (copy_into (DIRENT_SZ * p) (dirent_bytes d) bs) i = (if i = p then d else entry_at bs i)"
proof (cases "i = p")
  case True
  then show ?thesis
    using assms slice_of_copy_into [of "DIRENT_SZ * p" "dirent_bytes d" bs] dirent_round_trip [OF assms(1)] by (simp add: entry_at_def)
next
  case False
  then have "DIRENT_SZ * Suc p \<le> DIRENT_SZ * i \<or> DIRENT_SZ * Suc i \<le> DIRENT_SZ * p" by (metis Suc_leI linorder_neqE_nat mult_le_mono2)
  then show ?thesis
    using assms False slice_copy_disjoint [of "DIRENT_SZ * p" "dirent_bytes d" bs "DIRENT_SZ * i" DIRENT_SZ] by (auto simp: entry_at_def)
qed

lemma dir_update:
  assumes "dir_ok bs" "p < length bs div DIRENT_SZ" "dirent_wf d" "dirent_name d = Inr name"
  shows "dir_ok (copy_into (DIRENT_SZ * p) (dirent_bytes d) bs)"
    "dir_entries (copy_into (DIRENT_SZ * p) (dirent_bytes d) bs) = (dir_entries bs)[p := (name, inode_number d)]"
proof -
  let ?n = "length bs div DIRENT_SZ" and ?bs = "copy_into (DIRENT_SZ * p) (dirent_bytes d) bs"
  have fit: "DIRENT_SZ * i + DIRENT_SZ \<le> length bs" if "i < ?n" for i
  proof -
    have "DIRENT_SZ * Suc i \<le> DIRENT_SZ * ?n" using that by (intro mult_le_mono2) simp
    moreover have "DIRENT_SZ * ?n = length bs" using assms(1) by (auto simp: dir_ok_def)
    ultimately show ?thesis by simp
  qed
  have l: "length ?bs = length bs" using fit [OF assms(2)] assms(3) by simp
  have e: "entry_at ?bs i = (if i = p then d else entry_at bs i)" if "i < ?n" for i
    by (rule entry_at_copy [OF assms(3) fit [OF assms(2)] fit [OF that]])
  show "dir_ok ?bs" unfolding dir_ok_def l using assms(1,4) e by (auto simp: dir_ok_def)
  show "dir_entries ?bs = (dir_entries bs)[p := (name, inode_number d)]"
    unfolding dir_entries_def l by (rule nth_equalityI) (use e assms(4) in \<open>auto simp: nth_list_update entry_name_def\<close>)
qed

lemma entry_index_Some:
  assumes "entry_index bs name [0..<n] = Some p"
  shows "p < n" "entry_name (entry_at bs p) = name" "\<And>i. i < p \<Longrightarrow> entry_name (entry_at bs i) \<noteq> name"
  using assms unfolding entry_index_def find_Some_iff by (auto simp: less_trans)

context block_store
begin

lemma runs_clear_dirent:
  assumes s: "ok s" "locked s = []" and fs: "fs_ok fs (view s)" "files fs (view s) i = Some (Directory, l, bs)"
    and d: "dir_ok bs" "entry_index bs name [0..<length bs div DIRENT_SZ] = Some p"
  shows "runs (modify_disk_inode ops (ino fs i) (clear_dirent ops name)) s (\<lambda>_ v'. fs_ok fs v' \<and> free_blocks fs v' = free_blocks fs (view s) \<and>
    (\<exists>bs'. files fs v' = (files fs (view s))(i \<mapsto> (Directory, l, bs')) \<and> dir_ok bs' \<and> dir_entries bs' = (dir_entries bs)[p := ([], 0)]))"
proof -
  obtain di where di: "inodes fs (view s) i = Some di" "di_type di = Directory" "link_num di = l" "file_bytes (view s) di = bs"
    "di_size di = length bs" "di_ok di"
    by (rule files_inode [OF fs])
  let ?bs = "copy_into (DIRENT_SZ * p) (dirent_bytes dirent_empty) bs"
  have p: "p < length bs div DIRENT_SZ" using entry_index_Some(1) [OF d(2)] .
  then have "DIRENT_SZ * Suc p \<le> DIRENT_SZ * (length bs div DIRENT_SZ)" by (intro mult_le_mono2) simp
  then have fit: "DIRENT_SZ * p + length (dirent_bytes dirent_empty) \<le> di_size di" using di(5) by simp
  have ne: "dirent_bytes dirent_empty \<noteq> []" using length_dirent_bytes [OF dirent_empty_wf] by fastforce
  have "runs (modify_disk_inode ops (ino fs i) (clear_dirent ops name)) s (\<lambda>a v'. fs_ok fs v' \<and> (\<exists>x. files fs v' = (files fs (view s))(i \<mapsto> x) \<and>
      x = (Directory, l, ?bs) \<and> free_blocks fs v' = free_blocks fs (view s)))"
  proof (rule runs_edit_inode [OF s fs(1) di(1)])
    fix s' assume s': "ok s'" "view s' = view s" "locked s' = [inode_block fs i]"
    have "returns (find_dirent ops di name (dirent_bytes dirent_empty) [0..<file_count di]) s'
        (map_option (\<lambda>i. (i, entry_at (file_bytes (view s') di) i)) (entry_index (file_bytes (view s') di) name [0..<file_count di])) (view s')"
      using s' owned_apart [OF fs(1) di(1)] di d(1) by (intro returns_find_dirent) (auto simp: file_count_def)
    then have "returns (find_dirent ops di name (dirent_bytes dirent_empty) [0..<file_count di]) s' (Some (p, entry_at bs p)) (view s)"
      using s'(2) di(4,5) d(2) by (simp add: file_count_def)
    from returns_runs [OF this, where P = "\<lambda>r v. r = Some (p, entry_at bs p) \<and> v = view s"]
    show "runs (clear_dirent ops name di) s' (\<lambda>(a, di') v'. edited fs (view s) i v' di' \<and> file_of v' di' = (Directory, l, ?bs) \<and>
        free_blocks fs v' = free_blocks fs (view s))"
      unfolding clear_dirent_def
    proof (rule runs_bind)
      fix r s2 assume s2: "ok s2" "locked s2 = locked s'" "r = Some (p, entry_at bs p) \<and> view s2 = view s"
      have l2: "locked s2 = [inode_block fs i]" and e2: "edited fs (view s) i (view s2) di"
        using s2 s'(3) edited_same [OF fs(1) di(1)] by simp_all
      have "runs (bind_io (di_write_at ops di (DIRENT_SZ * p) (dirent_bytes dirent_empty)) (\<lambda>_. return_io ((), di))) s2
          (\<lambda>(a, di') v'. edited fs (view s) i v' di' \<and> file_of v' di' = (Directory, l, ?bs) \<and> free_blocks fs v' = free_blocks fs (view s))"
        by (rule runs_mono [OF runs_overwrite [OF s2(1) l2 fs(1) di(1) e2 fit ne, of "\<lambda>_. ()"]])
          (use s2(3) di in \<open>auto simp: file_of_def free_blocks_def\<close>)
      then show "runs (bind_io (lift_io (unwrap r)) (\<lambda>(i, _). bind_io (di_write_at ops di (i * DIRENT_SZ) (dirent_bytes dirent_empty)) (\<lambda>_.
          return_io ((), di)))) s2
          (\<lambda>(a, di') v'. edited fs (view s) i v' di' \<and> file_of v' di' = (Directory, l, ?bs) \<and> free_blocks fs v' = free_blocks fs (view s))"
        using s2(3) by (simp add: mult.commute)
    qed simp
  qed
  then show ?thesis
    using dir_update [OF d(1) p dirent_empty_wf dirent_name_empty] by (auto simp: dirent_empty_def elim!: runs_mono)
qed

lemma commits_inode_unlink:
  assumes s: "ok s" "locked s = []" and fs: "fs_ok fs (view s)" "files fs (view s) i = Some (Directory, l, bs)"
    and d: "dir_ok bs" "entry_index bs name [0..<length bs div DIRENT_SZ] = Some p" "snd (dir_entries bs ! p) = j"
    and j: "j \<noteq> i" "files fs (view s) j = Some (t, m, cs)" "0 < m"
  shows "commits (inode_unlink ops fs (ino fs i) name) s (\<lambda>r v'. r \<and> fs_ok fs v' \<and>
    (\<exists>bs'. files fs v' = (files fs (view s))(i \<mapsto> (Directory, l, bs'), j \<mapsto> (t, m - 1, if m = 1 then [] else cs)) \<and> dir_ok bs' \<and>
      dir_entries bs' = (dir_entries bs)[p := ([], 0)]) \<and>
    card (free_blocks fs v') = card (free_blocks fs (view s)) + (if m = 1 then owned_length (data_blocks_of (length cs)) else 0))"
    (is "commits _ s ?Q")
proof -
  have p: "p < length bs div DIRENT_SZ" using entry_index_Some(1) [OF d(2)] .
  have map: "map_of (dir_entries bs) name = Some j"
    using entry_index_map_of [of bs name "[0..<length bs div DIRENT_SZ]"] d(2,3) p by (simp add: dir_entries_def)
  have cap: "j < inode_capacity fs" using j(2) fs_okD(3) [OF fs(1)] by (auto simp: files_Some)
  have "m < u32_bound"
    using j(2) fs_okD(4) [OF fs(1)] by (auto simp: files_Some file_of_def file_ok_def di_ok_def di_wf_def)
  then have m: "m - 1 < u32_bound" by simp
  let ?down = "\<lambda>di. bind_io (lift_io (assert_res (link_num di > 0))) (\<lambda>_. return_io (link_num di - 1, di\<lparr>link_num := link_num di - 1\<rparr>))"
  have "returns (inode_find ops fs (ino fs i) name) s (Some (ino fs j)) (view s)"
    using returns_inode_find [OF s fs d(1), of name] map cap by simp
  from returns_runs [OF this, where P = "\<lambda>r v. r = Some (ino fs j) \<and> v = view s"]
  show ?thesis
    unfolding inode_unlink_def
  proof (rule commits_bind)
    fix r s1 assume s1: "ok s1" "locked s1 = locked s" "r = Some (ino fs j) \<and> view s1 = view s"
    have c1: "locked s1 = []" "fs_ok fs (view s1)" "files fs (view s1) j = Some (t, m, cs)" using s1 s(2) fs(1) j(2) by simp_all
    have "runs (modify_disk_inode ops (ino fs j) ?down) s1 (\<lambda>r v'. r = m - 1 \<and> fs_ok fs v' \<and>
        files fs v' = (files fs (view s1))(j \<mapsto> (t, m - 1, cs)) \<and> free_blocks fs v' = free_blocks fs (view s1))"
      using j(3) m by (intro runs_set_link_num [OF s1(1) c1]) (simp_all add: assert_res_def)
    then have "commits (bind_io (modify_disk_inode ops (ino fs j) ?down) (\<lambda>n. bind_io (modify_disk_inode ops (ino fs i) (clear_dirent ops name)) (\<lambda>_.
        bind_io (if n = 0 then inode_clear ops fs (ino fs j) else return_io ()) (\<lambda>_. bind_io (sync_all ops) (\<lambda>_. return_io True))))) s1 ?Q"
    proof (rule commits_bind)
      fix n s2 assume s2: "ok s2" "locked s2 = locked s1" and q2: "n = m - 1 \<and> fs_ok fs (view s2) \<and>
        files fs (view s2) = (files fs (view s1))(j \<mapsto> (t, m - 1, cs)) \<and> free_blocks fs (view s2) = free_blocks fs (view s1)"
      have c2: "locked s2 = []" "fs_ok fs (view s2)" "files fs (view s2) i = Some (Directory, l, bs)" using s2 c1 q2 j(1) fs(2) s1(3) by simp_all
      show "commits (bind_io (modify_disk_inode ops (ino fs i) (clear_dirent ops name)) (\<lambda>_.
        bind_io (if n = 0 then inode_clear ops fs (ino fs j) else return_io ()) (\<lambda>_. bind_io (sync_all ops) (\<lambda>_. return_io True)))) s2 ?Q"
      proof (rule commits_bind [OF runs_clear_dirent [OF s2(1) c2 d(1,2)]])
        fix s3 assume s3: "ok s3" "locked s3 = locked s2" and q3: "fs_ok fs (view s3) \<and> free_blocks fs (view s3) = free_blocks fs (view s2) \<and>
          (\<exists>bs'. files fs (view s3) = (files fs (view s2))(i \<mapsto> (Directory, l, bs')) \<and> dir_ok bs' \<and> dir_entries bs' = (dir_entries bs)[p := ([], 0)])"
        have c3: "locked s3 = []" "fs_ok fs (view s3)" "files fs (view s3) j = Some (t, m - 1, cs)" using s3 c2 q3 q2 j(1) by auto
        have "runs (if n = 0 then inode_clear ops fs (ino fs j) else return_io ()) s3 (\<lambda>_ v'. fs_ok fs v' \<and>
            files fs v' = (files fs (view s3))(j \<mapsto> (t, m - 1, if m = 1 then [] else cs)) \<and>
            card (free_blocks fs v') = card (free_blocks fs (view s3)) + (if m = 1 then owned_length (data_blocks_of (length cs)) else 0))"
          using commits_runs [OF commits_inode_clear [OF s3(1) c3]] c3 q2 j(3) by (auto simp: fun_upd_idem intro!: runs_return s3(1))
        then show "commits (bind_io (if n = 0 then inode_clear ops fs (ino fs j) else return_io ()) (\<lambda>_.
            bind_io (sync_all ops) (\<lambda>_. return_io True))) s3 ?Q"
          by (rule commits_bind) (use c3(1) q3 q2 s1(3) j(1) in \<open>auto simp: fun_upd_twist intro!: commits_synced\<close>)
      qed
    qed
    then show "commits (case r of None \<Rightarrow> return_io False | Some target \<Rightarrow>
         bind_io (modify_disk_inode ops target ?down) (\<lambda>n. bind_io (modify_disk_inode ops (ino fs i) (clear_dirent ops name)) (\<lambda>_.
         bind_io (if n = 0 then inode_clear ops fs target else return_io ()) (\<lambda>_. bind_io (sync_all ops) (\<lambda>_. return_io True))))) s1 ?Q"
      using s1(3) by simp
  qed simp
qed

end

end
