(* ===== verification/Fs_Refinement.thy ===== *)
theory Fs_Refinement
  imports Fs_Unlink
begin

text \<open>
  The file system as its users see it: a root directory of named entries and files with a link count and contents.
  \<open>spec_op\<close> says what each operation returns and changes and when it fits the device; \<open>serve_op\<close> is the same operation
  of \<^verbatim>\<open>vfs.rs\<close> on the block cache. Every sequence of operations of the implementation refines the sequence of the specification.
\<close>

section \<open>The specification\<close>

record abstract_fs =
  entries :: "(byte list \<times> nat) list"
  nodes :: "nat \<rightharpoonup> nat \<times> byte list"
  free :: nat
  limit :: nat

datatype file_op =
    FindFile "byte list"
  | ListFiles
  | LinkNum nat
  | ReadFile nat nat "byte list"
  | WriteFile nat nat "byte list"
  | CreateFile "byte list"
  | LinkFile "byte list" "byte list"
  | UnlinkFile "byte list"
  | ClearFile nat

datatype op_result = RInode "inode option" | RNames "byte list list" | RNum nat | RData nat "byte list" | RBool bool | RUnit

text \<open>A file grows from \<open>m\<close> to \<open>n\<close> bytes: the size is supported and the device has the blocks.\<close>

definition grows :: "abstract_fs \<Rightarrow> nat \<Rightarrow> nat \<Rightarrow> bool" where
  "grows A m n \<longleftrightarrow> data_blocks_of n \<le> INDIRECT2_BOUND \<and> total_blocks n - total_blocks m \<le> free A"

definition dir_size :: "abstract_fs \<Rightarrow> nat" where
  "dir_size A = DIRENT_SZ * length (entries A)"

definition add_entry :: "byte list \<Rightarrow> nat \<Rightarrow> abstract_fs \<Rightarrow> abstract_fs option" where
  "add_entry name j A =
     (if name_ok name \<and> grows A (dir_size A) (dir_size A + DIRENT_SZ)
      then Some (A\<lparr>entries := entries A @ [(name, j)], free := free A + total_blocks (dir_size A) - total_blocks (dir_size A + DIRENT_SZ)\<rparr>)
      else None)"

fun spec_op :: "easy_fs \<Rightarrow> file_op \<Rightarrow> abstract_fs \<Rightarrow> (op_result \<times> abstract_fs) option" where
  "spec_op fs (FindFile name) A = Some (RInode (map_option (ino fs) (map_of (entries A) name)), A)"
| "spec_op fs ListFiles A = Some (RNames (map fst (entries A)), A)"
| "spec_op fs (LinkNum i) A = map_option (\<lambda>(l, bs). (RNum l, A)) (nodes A i)"
| "spec_op fs (ReadFile i off buf) A =
     (case nodes A i of None \<Rightarrow> None | Some (l, bs) \<Rightarrow>
        if off + length buf < usize_bound
        then let n = min (length buf) (length bs - off) in Some (RData n (slice_of off n bs @ drop n buf), A)
        else None)"
| "spec_op fs (WriteFile i off buf) A =
     (case nodes A i of None \<Rightarrow> None | Some (l, bs) \<Rightarrow>
        let n = max (length bs) (off + length buf) in
        if buf \<noteq> [] \<and> grows A (length bs) n
        then Some (RNum (length buf), A\<lparr>nodes := (nodes A)(i \<mapsto> (l, write_bytes off buf bs)),
          free := free A + total_blocks (length bs) - total_blocks n\<rparr>)
        else None)"
| "spec_op fs (CreateFile name) A =
     (case find (\<lambda>j. nodes A j = None) [1..<limit A] of None \<Rightarrow> None | Some j \<Rightarrow>
        map_option (\<lambda>A'. (RInode (Some (ino fs j)), A'\<lparr>nodes := (nodes A')(j \<mapsto> (1, []))\<rparr>)) (add_entry name j A))"
| "spec_op fs (LinkFile name new) A =
     (case map_of (entries A) name of None \<Rightarrow> Some (RBool False, A) | Some j \<Rightarrow>
        case nodes A j of None \<Rightarrow> None | Some (l, bs) \<Rightarrow>
          if l + 1 < u32_bound
          then map_option (\<lambda>A'. (RBool True, A'\<lparr>nodes := (nodes A')(j \<mapsto> (l + 1, bs))\<rparr>)) (add_entry new j A)
          else None)"
| "spec_op fs (UnlinkFile name) A =
     (case find_index (\<lambda>e. fst e = name) (entries A) of None \<Rightarrow> Some (RBool False, A) | Some p \<Rightarrow>
        let j = snd (entries A ! p) in
        case nodes A j of None \<Rightarrow> None | Some (l, bs) \<Rightarrow>
          if l = 0 then None
          else Some (RBool True, A\<lparr>entries := (entries A)[p := ([], 0)],
            nodes := (nodes A)(j \<mapsto> (l - 1, if l = 1 then [] else bs)),
            free := free A + (if l = 1 then total_blocks (length bs) else 0)\<rparr>))"
| "spec_op fs (ClearFile i) A =
     (case nodes A i of None \<Rightarrow> None | Some (l, bs) \<Rightarrow>
        Some (RUnit, A\<lparr>nodes := (nodes A)(i \<mapsto> (l, [])), free := free A + total_blocks (length bs)\<rparr>))"

fun spec_ops :: "easy_fs \<Rightarrow> file_op list \<Rightarrow> abstract_fs \<Rightarrow> (op_result list \<times> abstract_fs) option" where
  "spec_ops fs [] A = Some ([], A)"
| "spec_ops fs (op # ops) A =
     (case spec_op fs op A of None \<Rightarrow> None | Some (r, A1) \<Rightarrow>
        case spec_ops fs ops A1 of None \<Rightarrow> None | Some (rs, A2) \<Rightarrow> Some (r # rs, A2))"

section \<open>The implementation\<close>

definition map_io :: "('a \<Rightarrow> 'b) \<Rightarrow> ('s, 'a) io \<Rightarrow> ('s, 'b) io" where
  "map_io f m = bind_io m (\<lambda>a. return_io (f a))"

fun serve_op :: "'s block_ops \<Rightarrow> easy_fs \<Rightarrow> file_op \<Rightarrow> ('s, op_result) io" where
  "serve_op ops fs (FindFile name) = map_io RInode (inode_find ops fs (ino fs 0) name)"
| "serve_op ops fs ListFiles = map_io RNames (readdir ops (ino fs 0))"
| "serve_op ops fs (LinkNum i) = map_io RNum (get_link_num ops (ino fs i))"
| "serve_op ops fs (ReadFile i off buf) = map_io (\<lambda>(n, bs). RData n bs) (inode_read_at ops (ino fs i) off buf)"
| "serve_op ops fs (WriteFile i off buf) = map_io RNum (inode_write_at ops fs (ino fs i) off buf)"
| "serve_op ops fs (CreateFile name) = map_io RInode (inode_create ops fs (ino fs 0) name)"
| "serve_op ops fs (LinkFile name new) = map_io RBool (inode_link ops fs (ino fs 0) name new)"
| "serve_op ops fs (UnlinkFile name) = map_io RBool (inode_unlink ops fs (ino fs 0) name)"
| "serve_op ops fs (ClearFile i) = map_io (\<lambda>_. RUnit) (inode_clear ops fs (ino fs i))"

fun serve_ops :: "'s block_ops \<Rightarrow> easy_fs \<Rightarrow> file_op list \<Rightarrow> ('s, op_result list) io" where
  "serve_ops ops fs [] = return_io []"
| "serve_ops ops fs (op # rest) = bind_io (serve_op ops fs op) (\<lambda>r. bind_io (serve_ops ops fs rest) (\<lambda>rs. return_io (r # rs)))"

section \<open>The abstraction\<close>

text \<open>Entries name allocated inodes, or are empty; inode 0 is the root directory.\<close>

definition abstracts :: "easy_fs \<Rightarrow> (nat \<Rightarrow> byte list) \<Rightarrow> abstract_fs \<Rightarrow> bool" where
  "abstracts fs v A \<longleftrightarrow> fs_ok fs v \<and>
     (\<exists>l bs. files fs v = (\<lambda>i. map_option (\<lambda>(l, bs). (File, l, bs)) (nodes A i))(0 \<mapsto> (Directory, l, bs)) \<and>
       dir_ok bs \<and> dir_entries bs = entries A) \<and>
     nodes A 0 = None \<and> (\<forall>(nm, j) \<in> set (entries A). j = 0 \<or> nodes A j \<noteq> None) \<and>
     free A = card (free_blocks fs v) \<and> limit A = min (inode_capacity fs) (bitmap_maximum (inode_bitmap fs))"

lemma length_dir_entries: "dir_ok bs \<Longrightarrow> length bs = DIRENT_SZ * length (dir_entries bs)"
  by (auto simp: dir_ok_def dir_entries_def)

lemma abstractsE:
  assumes "abstracts fs v A"
  obtains l bs where "fs_ok fs v" "files fs v = (\<lambda>i. map_option (\<lambda>(l, bs). (File, l, bs)) (nodes A i))(0 \<mapsto> (Directory, l, bs))"
    "dir_ok bs" "dir_entries bs = entries A" "dir_size A = length bs" "nodes A 0 = None" "files fs v 0 = Some (Directory, l, bs)"
    "\<forall>nm j. map_of (entries A) nm = Some j \<longrightarrow> j < inode_capacity fs" "free A = card (free_blocks fs v)"
proof -
  obtain l bs where f: "fs_ok fs v" "files fs v = (\<lambda>i. map_option (\<lambda>(l, bs). (File, l, bs)) (nodes A i))(0 \<mapsto> (Directory, l, bs))"
    and d: "dir_ok bs" "dir_entries bs = entries A" "nodes A 0 = None" "free A = card (free_blocks fs v)"
    and e: "\<And>nm j. (nm, j) \<in> set (entries A) \<Longrightarrow> j = 0 \<or> nodes A j \<noteq> None"
    using assms unfolding abstracts_def by blast
  have f0: "files fs v 0 = Some (Directory, l, bs)" using f(2) by simp
  have "j < inode_capacity fs" if "map_of (entries A) nm = Some j" for nm j
  proof -
    have "files fs v j \<noteq> None" using e [OF map_of_SomeD [OF that]] f(2) by (cases "j = 0") auto
    then show ?thesis using fs_okD(3) [OF f(1)] by (auto simp: files_def)
  qed
  then show ?thesis using that f d f0 length_dir_entries [OF d(1)] by (simp add: dir_size_def)
qed

lemma abstractsI:
  assumes "abstracts fs v A" "fs_ok fs v'" "files fs v' = (\<lambda>i. map_option (\<lambda>(l, bs). (File, l, bs)) (N i))(0 \<mapsto> (Directory, l, bs))"
    and "dir_ok bs" "dir_entries bs = es" "N 0 = None" "\<And>nm j. (nm, j) \<in> set es \<Longrightarrow> j = 0 \<or> N j \<noteq> None" "n = card (free_blocks fs v')"
  shows "abstracts fs v' (A\<lparr>entries := es, nodes := N, free := n\<rparr>)"
  using assms unfolding abstracts_def by auto

lemma find_upt_Some:
  assumes "find P [a..<b] = Some j"
  shows "a \<le> j" "j < b" "P j" "\<And>m. a \<le> m \<Longrightarrow> m < j \<Longrightarrow> \<not> P m"
proof -
  obtain i where i: "i < b - a" "P (a + i)" "j = a + i" "\<And>k. k < i \<Longrightarrow> \<not> P ([a..<b] ! k)"
    using assms unfolding find_Some_iff by auto
  show "a \<le> j" "j < b" "P j" using i(1-3) by simp_all
  show "\<not> P m" if "a \<le> m" "m < j" for m using i(4) [of "m - a"] i(1,3) that by simp
qed

text \<open>An entry is added.\<close>

lemma dir_blocks:
  assumes "fs_ok fs v" "files fs v i = Some (t, l, bs)"
  shows "total_blocks (length bs) = owned_length (data_blocks_of (length bs))"
proof -
  obtain di where "di_ok di" "data_blocks di = data_blocks_of (length bs)" by (rule files_inode [OF assms])
  then show ?thesis by (intro total_blocks_owned) (simp add: di_ok_def)
qed

lemma add_entryD:
  assumes "add_entry name j A = Some A'" "dir_size A = length bs" "total_blocks (length bs) = owned_length (data_blocks_of (length bs))"
  defines "n \<equiv> owned_length (data_blocks_of (length bs + DIRENT_SZ))"
  shows "name_ok name" "data_blocks_of (length bs + DIRENT_SZ) \<le> INDIRECT2_BOUND" "n - owned_length (data_blocks_of (length bs)) \<le> free A"
    "A' = A\<lparr>entries := entries A @ [(name, j)], free := free A + owned_length (data_blocks_of (length bs)) - n\<rparr>"
  using assms total_blocks_owned [of "length bs + DIRENT_SZ"] by (auto simp: add_entry_def grows_def split: if_splits)

lemma free_nodes_commute: "A\<lparr>entries := e, free := n, nodes := N\<rparr> = A\<lparr>entries := e, nodes := N, free := n\<rparr>"
  by simp

text \<open>The contents and links of one file change.\<close>

lemma abstracts_node:
  assumes A: "abstracts fs v A" "nodes A i = Some x" and v': "fs_ok fs v'" "files fs v' = (files fs v)(i \<mapsto> (File, l', bs'))"
    and n: "n = card (free_blocks fs v')"
  shows "abstracts fs v' (A\<lparr>nodes := (nodes A)(i \<mapsto> (l', bs')), free := n\<rparr>)"
proof -
  obtain l bs where a: "files fs v = (\<lambda>i. map_option (\<lambda>(l, bs). (File, l, bs)) (nodes A i))(0 \<mapsto> (Directory, l, bs))"
    "dir_ok bs" "dir_entries bs = entries A" "nodes A 0 = None"
    by (rule abstractsE [OF A(1)])
  have i: "i \<noteq> 0" using a(4) A(2) by (metis option.distinct(1))
  have "abstracts fs v' (A\<lparr>entries := entries A, nodes := (nodes A)(i \<mapsto> (l', bs')), free := n\<rparr>)"
  proof (rule abstractsI [OF A(1) v'(1)])
    show "files fs v' = (\<lambda>j. map_option (\<lambda>(l, bs). (File, l, bs)) (((nodes A)(i \<mapsto> (l', bs'))) j))(0 \<mapsto> (Directory, l, bs))"
      using v'(2) a(1) i by (auto simp: fun_eq_iff)
    show "j = 0 \<or> ((nodes A)(i \<mapsto> (l', bs'))) j \<noteq> None" if "(nm, j) \<in> set (entries A)" for nm j
      using that A(1) unfolding abstracts_def by auto
  qed (use a i n in simp_all)
  then show ?thesis by simp
qed

lemma nodes_files:
  assumes "abstracts fs v A" "nodes A i = Some (l, bs)"
  shows "files fs v i = Some (File, l, bs)" "i \<noteq> 0" "total_blocks (length bs) = owned_length (data_blocks_of (length bs))"
proof -
  obtain l0 bs0 where a: "fs_ok fs v" "files fs v = (\<lambda>i. map_option (\<lambda>(l, bs). (File, l, bs)) (nodes A i))(0 \<mapsto> (Directory, l0, bs0))"
    "nodes A 0 = None"
    by (rule abstractsE [OF assms(1)])
  then show "i \<noteq> 0" using assms(2) by (metis option.distinct(1))
  then show f: "files fs v i = Some (File, l, bs)" using a(2) assms(2) by simp
  show "total_blocks (length bs) = owned_length (data_blocks_of (length bs))" by (rule dir_blocks [OF a(1) f])
qed

context block_store
begin

abbreviation simulates :: "easy_fs \<Rightarrow> file_op \<Rightarrow> 's \<Rightarrow> op_result \<Rightarrow> abstract_fs \<Rightarrow> bool" where
  "simulates fs op s r A' \<equiv> runs (serve_op ops fs op) s (\<lambda>x v. x = r \<and> abstracts fs v A')"

lemma runs_map: "runs m s (\<lambda>a v. P (f a) v) \<Longrightarrow> runs (map_io f m) s P"
  unfolding map_io_def by (erule runs_bind) (auto intro: runs_return)

lemma returns_simulates:
  "returns m s a (view s) \<Longrightarrow> serve_op ops fs op = map_io f m \<Longrightarrow> abstracts fs (view s) A \<Longrightarrow> simulates fs op s (f a) A"
  by (auto intro!: runs_map returns_runs)

lemma simulates_reads:
  assumes s: "ok s" "locked s = []" and A: "abstracts fs (view s) A"
  shows "simulates fs (FindFile name) s (RInode (map_option (ino fs) (map_of (entries A) name))) A"
    "simulates fs ListFiles s (RNames (map fst (entries A))) A"
    "nodes A i = Some (l, bs) \<Longrightarrow> simulates fs (LinkNum i) s (RNum l) A"
    "nodes A i = Some (l, bs) \<Longrightarrow> off + length buf < usize_bound \<Longrightarrow> n = min (length buf) (length bs - off) \<Longrightarrow>
      simulates fs (ReadFile i off buf) s (RData n (slice_of off n bs @ drop n buf)) A"
proof -
  obtain l0 bs0 where a: "fs_ok fs (view s)" "dir_ok bs0" "dir_entries bs0 = entries A" "files fs (view s) 0 = Some (Directory, l0, bs0)"
    "\<forall>nm j. map_of (entries A) nm = Some j \<longrightarrow> j < inode_capacity fs"
    by (rule abstractsE [OF A])
  show "simulates fs (FindFile name) s (RInode (map_option (ino fs) (map_of (entries A) name))) A"
    using returns_simulates [OF returns_inode_find [OF s a(1,4,2)], of name fs "FindFile name" RInode A] a(3,5) A by simp
  show "simulates fs ListFiles s (RNames (map fst (entries A))) A"
    using returns_simulates [OF returns_readdir [OF s a(1,4,2)], of fs ListFiles RNames A] a(3) A by simp
  assume i: "nodes A i = Some (l, bs)"
  note f = nodes_files [OF A i]
  obtain di where di: "inodes fs (view s) i = Some di" "link_num di = l" by (rule files_inode [OF a(1) f(1)])
  have "returns (get_link_num ops (ino fs i)) s l (view s)"
    unfolding get_link_num_def by (rule returns_read_inode [OF s a(1) di(1)]) (auto simp: di(2) intro: returns_return)
  from returns_simulates [OF this, of fs "LinkNum i" RNum A] show "simulates fs (LinkNum i) s (RNum l) A" using A by simp
  assume off: "off + length buf < usize_bound" and n: "n = min (length buf) (length bs - off)"
  have "copy_into 0 (slice_of off n bs) buf = slice_of off n bs @ drop n buf" using n by (simp add: copy_into_def slice_of_def)
  then show "simulates fs (ReadFile i off buf) s (RData n (slice_of off n bs @ drop n buf)) A"
    using returns_simulates [OF returns_inode_read_at [OF s a(1) f(1) off], of fs "ReadFile i off buf" "\<lambda>(n, bs). RData n bs" A] A n by simp
qed

lemma simulates_write:
  assumes s: "ok s" "locked s = []" and A: "abstracts fs (view s) A" and i: "nodes A i = Some (l, bs)"
    and buf: "buf \<noteq> []" "grows A (length bs) n" "n = max (length bs) (off + length buf)"
  shows "simulates fs (WriteFile i off buf) s (RNum (length buf)) (A\<lparr>nodes := (nodes A)(i \<mapsto> (l, write_bytes off buf bs)),
    free := free A + total_blocks (length bs) - total_blocks n\<rparr>)"
proof -
  note f = nodes_files [OF A i]
  have a: "fs_ok fs (view s)" "free A = card (free_blocks fs (view s))" using A by (simp_all add: abstracts_def)
  obtain di where di: "inodes fs (view s) i = Some di" "di_type di = File" "link_num di = l" "file_bytes (view s) di = bs" "di_size di = length bs"
    "data_blocks di = data_blocks_of (length bs)"
    by (rule files_inode [OF a(1) f(1)])
  have g: "data_blocks_of n \<le> INDIRECT2_BOUND" "total_blocks n - total_blocks (length bs) \<le> free A" using buf(2) by (simp_all add: grows_def)
  have tn: "total_blocks n = owned_length (data_blocks_of n)" using g(1) by (rule total_blocks_owned)
  have "data_blocks_of (off + length buf) \<le> data_blocks_of n" using buf(3) by (intro data_blocks_mono) simp
  then have "commits (inode_write_at ops fs (ino fs i) off buf) s (\<lambda>m v'. m = length buf \<and> fs_ok fs v' \<and>
    files fs v' = (files fs (view s))(i \<mapsto> (di_type di, link_num di, write_bytes off buf (file_bytes (view s) di))) \<and>
    card (free_blocks fs v') + owned_length (data_blocks_of (max (di_size di) (off + length buf))) =
        card (free_blocks fs (view s)) + owned_length (data_blocks di))"
    using g a(2) tn f(3) di(5,6) buf by (intro commits_write [OF s a(1) di(1)]) simp_all
  from commits_runs [OF this]
  have "runs (inode_write_at ops fs (ino fs i) off buf) s (\<lambda>m v'. RNum m = RNum (length buf) \<and>
      abstracts fs v' (A\<lparr>nodes := (nodes A)(i \<mapsto> (l, write_bytes off buf bs)), free := free A + total_blocks (length bs) - total_blocks n\<rparr>))"
  proof (rule runs_mono)
    fix m v' assume p: "m = length buf \<and> fs_ok fs v' \<and>
      files fs v' = (files fs (view s))(i \<mapsto> (di_type di, link_num di, write_bytes off buf (file_bytes (view s) di))) \<and>
      card (free_blocks fs v') + owned_length (data_blocks_of (max (di_size di) (off + length buf))) =
        card (free_blocks fs (view s)) + owned_length (data_blocks di)"
    have "card (free_blocks fs v') + total_blocks n = free A + total_blocks (length bs)" using p a(2) tn f(3) di(5,6) buf(3) by simp
    then have "free A + total_blocks (length bs) - total_blocks n = card (free_blocks fs v')" by simp
    then show "RNum m = RNum (length buf) \<and> abstracts fs v' (A\<lparr>nodes := (nodes A)(i \<mapsto> (l, write_bytes off buf bs)),
        free := free A + total_blocks (length bs) - total_blocks n\<rparr>)"
      using abstracts_node [OF A i, of v' l "write_bytes off buf bs"] p di by simp
  qed
  then show ?thesis by (auto intro: runs_map)
qed

lemma simulates_clear:
  assumes s: "ok s" "locked s = []" and A: "abstracts fs (view s) A" and i: "nodes A i = Some (l, bs)"
  shows "simulates fs (ClearFile i) s RUnit (A\<lparr>nodes := (nodes A)(i \<mapsto> (l, [])), free := free A + total_blocks (length bs)\<rparr>)"
proof -
  note f = nodes_files [OF A i]
  have a: "fs_ok fs (view s)" "free A = card (free_blocks fs (view s))" using A by (simp_all add: abstracts_def)
  from commits_runs [OF commits_inode_clear [OF s a(1) f(1)]]
  have "runs (inode_clear ops fs (ino fs i)) s (\<lambda>_ v'. RUnit = RUnit \<and>
      abstracts fs v' (A\<lparr>nodes := (nodes A)(i \<mapsto> (l, [])), free := free A + total_blocks (length bs)\<rparr>))"
    by (rule runs_mono, intro conjI refl abstracts_node [OF A i]) (use a(2) f(3) in simp_all)
  then show ?thesis by (auto intro: runs_map)
qed

lemma simulates_create:
  assumes s: "ok s" "locked s = []" and A: "abstracts fs (view s) A" and j: "find (\<lambda>j. nodes A j = None) [1..<limit A] = Some j"
    and A': "add_entry name j A = Some A'"
  shows "simulates fs (CreateFile name) s (RInode (Some (ino fs j))) (A'\<lparr>nodes := (nodes A')(j \<mapsto> (1, []))\<rparr>)"
proof -
  obtain l bs where a: "fs_ok fs (view s)" "files fs (view s) = (\<lambda>i. map_option (\<lambda>(l, bs). (File, l, bs)) (nodes A i))(0 \<mapsto> (Directory, l, bs))"
    "dir_ok bs" "dir_entries bs = entries A" "dir_size A = length bs" "nodes A 0 = None" "files fs (view s) 0 = Some (Directory, l, bs)"
    "free A = card (free_blocks fs (view s))"
    by (rule abstractsE [OF A])
  have j0: "0 < j" "j < limit A" "nodes A j = None" "\<And>m. 0 < m \<Longrightarrow> m < j \<Longrightarrow> nodes A m \<noteq> None"
    using find_upt_Some [OF j] by auto
  have jc: "j < inode_capacity fs" "j < bitmap_maximum (inode_bitmap fs)" using j0(2) A by (auto simp: abstracts_def)
  have jf: "files fs (view s) j = None" "\<And>m. m < j \<Longrightarrow> files fs (view s) m \<noteq> None" using a(2) j0(1,3,4) by auto
  note g = add_entryD [OF A' a(5) dir_blocks [OF a(1,7)]]
  have room: "owned_length (data_blocks_of (length bs + DIRENT_SZ)) - owned_length (data_blocks_of (length bs)) \<le> card (free_blocks fs (view s))"
    using g(3) a(8) by simp
  have "runs (inode_create ops fs (ino fs 0) name) s (\<lambda>r v'. RInode r = RInode (Some (ino fs j)) \<and>
      abstracts fs v' (A'\<lparr>nodes := (nodes A')(j \<mapsto> (1, []))\<rparr>))"
  proof (rule runs_mono [OF commits_runs [OF commits_inode_create [OF s a(1,7) jc jf a(3) g(1,2) room]]], assumption, elim conjE exE)
    fix r v' bs' assume p: "r = Some (ino fs j)" "fs_ok fs v'" "card (free_blocks fs v') + owned_length (data_blocks_of (length bs + DIRENT_SZ)) =
        card (free_blocks fs (view s)) + owned_length (data_blocks_of (length bs))"
      "files fs v' = (files fs (view s))(j \<mapsto> (File, 1, []), 0 \<mapsto> (Directory, l, bs'))" "dir_ok bs'" "dir_entries bs' = dir_entries bs @ [(name, j)]"
    have "abstracts fs v' (A\<lparr>entries := entries A @ [(name, j)], nodes := (nodes A)(j \<mapsto> (1, [])),
        free := free A + owned_length (data_blocks_of (length bs)) - owned_length (data_blocks_of (length bs + DIRENT_SZ))\<rparr>)"
    proof (rule abstractsI [OF A p(2)])
      show "files fs v' = (\<lambda>i. map_option (\<lambda>(l, bs). (File, l, bs)) (((nodes A)(j \<mapsto> (1, []))) i))(0 \<mapsto> (Directory, l, bs'))"
        using p(4) a(2) j0(1) by (auto simp: fun_eq_iff)
      show "k = 0 \<or> ((nodes A)(j \<mapsto> (1, []))) k \<noteq> None" if "(nm, k) \<in> set (entries A @ [(name, j)])" for nm k
        using that A unfolding abstracts_def by auto
    qed (use p a j0(1) in simp_all)
    then show "RInode r = RInode (Some (ino fs j)) \<and> abstracts fs v' (A'\<lparr>nodes := (nodes A')(j \<mapsto> (1, []))\<rparr>)" using p(1) g(4) by (simp add: free_nodes_commute)
  qed
  then show ?thesis by (auto intro: runs_map)
qed

lemma simulates_link:
  assumes s: "ok s" "locked s = []" and A: "abstracts fs (view s) A"
  shows "map_of (entries A) name = None \<Longrightarrow> simulates fs (LinkFile name new) s (RBool False) A"
    "map_of (entries A) name = Some j \<Longrightarrow> nodes A j = Some (m, cs) \<Longrightarrow> m + 1 < u32_bound \<Longrightarrow> add_entry new j A = Some A' \<Longrightarrow>
      simulates fs (LinkFile name new) s (RBool True) (A'\<lparr>nodes := (nodes A')(j \<mapsto> (m + 1, cs))\<rparr>)"
proof -
  obtain l bs where a: "fs_ok fs (view s)" "files fs (view s) = (\<lambda>i. map_option (\<lambda>(l, bs). (File, l, bs)) (nodes A i))(0 \<mapsto> (Directory, l, bs))"
    "dir_ok bs" "dir_entries bs = entries A" "dir_size A = length bs" "nodes A 0 = None" "files fs (view s) 0 = Some (Directory, l, bs)"
    "free A = card (free_blocks fs (view s))"
    by (rule abstractsE [OF A])
  show "simulates fs (LinkFile name new) s (RBool False) A" if none: "map_of (entries A) name = None"
  proof -
    obtain di where di: "inodes fs (view s) 0 = Some di" "di_type di = Directory" "file_bytes (view s) di = bs" "di_ok di"
      by (rule files_inode [OF a(1,7)])
    have "returns (read_disk_inode ops (ino fs 0) (find_inode_id ops name)) s None (view s)"
    proof (rule returns_read_inode [OF s a(1) di(1)])
      fix s' assume s': "ok s'" "view s' = view s" "length (locked s') < BLOCK_CACHE_SIZE" "set (owned (view s') di) \<inter> set (locked s') = {}"
      then show "returns (find_inode_id ops name di) s' None (view s)"
        using returns_find_inode_id [OF s'(1,3,4) di(4), of name] di(2,3) a(3,4) none by simp
    qed
    then have "returns (inode_link ops fs (ino fs 0) name new) s False (view s)"
      unfolding inode_link_def by (rule returns_bind) (auto intro: returns_return)
    from returns_simulates [OF this, of fs "LinkFile name new" RBool A] show ?thesis using A by simp
  qed
  show "simulates fs (LinkFile name new) s (RBool True) (A'\<lparr>nodes := (nodes A')(j \<mapsto> (m + 1, cs))\<rparr>)"
    if h: "map_of (entries A) name = Some j" "nodes A j = Some (m, cs)" "m + 1 < u32_bound" "add_entry new j A = Some A'"
  proof -
    note g = add_entryD [OF h(4) a(5) dir_blocks [OF a(1,7)]] and f = nodes_files [OF A h(2)]
    have room: "owned_length (data_blocks_of (length bs + DIRENT_SZ)) - owned_length (data_blocks_of (length bs)) \<le> card (free_blocks fs (view s))"
      using g(3) a(8) by simp
    have m: "map_of (dir_entries bs) name = Some j" using h(1) a(4) by simp
    have "runs (inode_link ops fs (ino fs 0) name new) s (\<lambda>r v'. RBool r = RBool True \<and> abstracts fs v' (A'\<lparr>nodes := (nodes A')(j \<mapsto> (m + 1, cs))\<rparr>))"
    proof (rule runs_mono [OF commits_runs [OF commits_inode_link [OF s a(1,7,3) m g(1) f(2,1) h(3) g(2) room]]], elim conjE exE)
      fix r v' bs' assume p: "r" "fs_ok fs v'" "card (free_blocks fs v') + owned_length (data_blocks_of (length bs + DIRENT_SZ)) =
          card (free_blocks fs (view s)) + owned_length (data_blocks_of (length bs))"
        "files fs v' = (files fs (view s))(0 \<mapsto> (Directory, l, bs'), j \<mapsto> (File, m + 1, cs))" "dir_ok bs'" "dir_entries bs' = dir_entries bs @ [(new, j)]"
      have "abstracts fs v' (A\<lparr>entries := entries A @ [(new, j)], nodes := (nodes A)(j \<mapsto> (m + 1, cs)),
          free := free A + owned_length (data_blocks_of (length bs)) - owned_length (data_blocks_of (length bs + DIRENT_SZ))\<rparr>)"
      proof (rule abstractsI [OF A p(2)])
        show "files fs v' = (\<lambda>i. map_option (\<lambda>(l, bs). (File, l, bs)) (((nodes A)(j \<mapsto> (m + 1, cs))) i))(0 \<mapsto> (Directory, l, bs'))"
          using p(4) a(2) f(2) by (auto simp: fun_eq_iff)
        show "k = 0 \<or> ((nodes A)(j \<mapsto> (m + 1, cs))) k \<noteq> None" if "(nm, k) \<in> set (entries A @ [(new, j)])" for nm k
          using that A unfolding abstracts_def by auto
      qed (use p a f(2) in simp_all)
      then show "RBool r = RBool True \<and> abstracts fs v' (A'\<lparr>nodes := (nodes A')(j \<mapsto> (m + 1, cs))\<rparr>)" using p(1) g(4) by (simp add: free_nodes_commute)
    qed
    then show ?thesis by (auto intro: runs_map)
  qed
qed

lemma find_index_entries:
  "find_index (\<lambda>e. fst e = name) (dir_entries bs) = entry_index bs name [0..<length bs div DIRENT_SZ]"
proof (cases "entry_index bs name [0..<length bs div DIRENT_SZ]")
  case None
  then have "find_index (\<lambda>e. fst e = name) (dir_entries bs) = None" by (auto simp: entry_index_def find_None_iff dir_entries_def)
  then show ?thesis using None by simp
next
  case (Some p)
  note e = entry_index_Some [OF Some]
  have "find_index (\<lambda>e. fst e = name) (dir_entries bs) = Some p" unfolding find_index_Some_iff using e by (auto simp: dir_entries_def)
  then show ?thesis using Some by simp
qed

lemma simulates_unlink:
  assumes s: "ok s" "locked s = []" and A: "abstracts fs (view s) A"
  shows "find_index (\<lambda>e. fst e = name) (entries A) = None \<Longrightarrow> simulates fs (UnlinkFile name) s (RBool False) A"
    "find_index (\<lambda>e. fst e = name) (entries A) = Some p \<Longrightarrow> j = snd (entries A ! p) \<Longrightarrow> nodes A j = Some (m, cs) \<Longrightarrow> m \<noteq> 0 \<Longrightarrow>
      simulates fs (UnlinkFile name) s (RBool True) (A\<lparr>entries := (entries A)[p := ([], 0)],
        nodes := (nodes A)(j \<mapsto> (m - 1, if m = 1 then [] else cs)), free := free A + (if m = 1 then total_blocks (length cs) else 0)\<rparr>)"
proof -
  obtain l bs where a: "fs_ok fs (view s)" "files fs (view s) = (\<lambda>i. map_option (\<lambda>(l, bs). (File, l, bs)) (nodes A i))(0 \<mapsto> (Directory, l, bs))"
    "dir_ok bs" "dir_entries bs = entries A" "nodes A 0 = None" "files fs (view s) 0 = Some (Directory, l, bs)"
    "free A = card (free_blocks fs (view s))"
    by (rule abstractsE [OF A])
  show "simulates fs (UnlinkFile name) s (RBool False) A" if none: "find_index (\<lambda>e. fst e = name) (entries A) = None"
  proof -
    have "map_of (dir_entries bs) name = None" using none a(4) by (auto simp: map_of_eq_None_iff)
    then have "returns (inode_find ops fs (ino fs 0) name) s None (view s)" using returns_inode_find [OF s a(1,6,3), of name] by simp
    then have "returns (inode_unlink ops fs (ino fs 0) name) s False (view s)"
      unfolding inode_unlink_def by (rule returns_bind) (auto intro: returns_return)
    from returns_simulates [OF this, of fs "UnlinkFile name" RBool A] show ?thesis using A by simp
  qed
  show "simulates fs (UnlinkFile name) s (RBool True) (A\<lparr>entries := (entries A)[p := ([], 0)],
      nodes := (nodes A)(j \<mapsto> (m - 1, if m = 1 then [] else cs)), free := free A + (if m = 1 then total_blocks (length cs) else 0)\<rparr>)"
    if h: "find_index (\<lambda>e. fst e = name) (entries A) = Some p" "j = snd (entries A ! p)" "nodes A j = Some (m, cs)" "m \<noteq> 0"
  proof -
    note f = nodes_files [OF A h(3)]
    have e: "entry_index bs name [0..<length bs div DIRENT_SZ] = Some p" "snd (dir_entries bs ! p) = j"
      using h(1,2) a(4) find_index_entries [of name bs] by simp_all
    have m: "0 < m" using h(4) by simp
    have "runs (inode_unlink ops fs (ino fs 0) name) s (\<lambda>r v'. RBool r = RBool True \<and> abstracts fs v' (A\<lparr>entries := (entries A)[p := ([], 0)],
        nodes := (nodes A)(j \<mapsto> (m - 1, if m = 1 then [] else cs)), free := free A + (if m = 1 then total_blocks (length cs) else 0)\<rparr>))"
    proof (rule runs_mono [OF commits_runs [OF commits_inode_unlink [OF s a(1,6,3) e f(2,1) m]]], elim conjE exE)
      fix r v' bs' assume p: "r" "fs_ok fs v'"
        "files fs v' = (files fs (view s))(0 \<mapsto> (Directory, l, bs'), j \<mapsto> (File, m - 1, if m = 1 then [] else cs))" "dir_ok bs'"
        "dir_entries bs' = (dir_entries bs)[p := ([], 0)]"
        "card (free_blocks fs v') = card (free_blocks fs (view s)) + (if m = 1 then owned_length (data_blocks_of (length cs)) else 0)"
      have "abstracts fs v' (A\<lparr>entries := (entries A)[p := ([], 0)],
        nodes := (nodes A)(j \<mapsto> (m - 1, if m = 1 then [] else cs)), free := free A + (if m = 1 then total_blocks (length cs) else 0)\<rparr>)"
      proof (rule abstractsI [OF A p(2)])
        show "files fs v' = (\<lambda>i. map_option (\<lambda>(l, bs). (File, l, bs)) (((nodes A)(j \<mapsto> (m - 1, if m = 1 then [] else cs))) i))(0 \<mapsto> (Directory, l, bs'))"
          using p(3) a(2) f(2) by (auto simp: fun_eq_iff)
        show "k = 0 \<or> ((nodes A)(j \<mapsto> (m - 1, if m = 1 then [] else cs))) k \<noteq> None" if "(nm, k) \<in> set ((entries A)[p := ([], 0)])" for nm k
          using that A unfolding abstracts_def by (auto dest!: set_update_subset_insert [THEN subsetD])
      qed (use p a f(2,3) in simp_all)
      then show "RBool r = RBool True \<and> abstracts fs v' (A\<lparr>entries := (entries A)[p := ([], 0)],
        nodes := (nodes A)(j \<mapsto> (m - 1, if m = 1 then [] else cs)), free := free A + (if m = 1 then total_blocks (length cs) else 0)\<rparr>)" using p(1) by simp
    qed
    then show ?thesis by (auto intro: runs_map)
  qed
qed

lemma runs_serve_op:
  assumes s: "ok s" "locked s = []" and A: "abstracts fs (view s) A" and op: "spec_op fs op A = Some (r, A')"
  shows "simulates fs op s r A'"
proof (cases op)
  case (FindFile name)
  then show ?thesis using op simulates_reads(1) [OF s A, of name] by auto
next
  case ListFiles
  then show ?thesis using op simulates_reads(2) [OF s A] by auto
next
  case (LinkNum i)
  then show ?thesis using op simulates_reads(3) [OF s A] by auto
next
  case (ReadFile i off buf)
  then obtain l bs where "nodes A i = Some (l, bs)" "off + length buf < usize_bound"
    using op by (auto split: option.splits if_splits)
  with ReadFile show ?thesis using op simulates_reads(4) [OF s A, of i l bs off buf] by (simp add: Let_def)
next
  case (WriteFile i off buf)
  then obtain l bs where "nodes A i = Some (l, bs)" "buf \<noteq> []" "grows A (length bs) (max (length bs) (off + length buf))"
    using op by (auto simp: Let_def split: option.splits if_splits)
  with WriteFile show ?thesis using op simulates_write [OF s A, of i l bs buf _ off] by (simp add: Let_def)
next
  case (CreateFile name)
  then obtain j A1 where "find (\<lambda>j. nodes A j = None) [1..<limit A] = Some j" "add_entry name j A = Some A1"
    using op by (auto split: option.splits)
  with CreateFile show ?thesis using op simulates_create [OF s A, of j name A1] by simp
next
  case (LinkFile name new)
  show ?thesis
  proof (cases "map_of (entries A) name")
    case None
    then show ?thesis using op LinkFile simulates_link(1) [OF s A] by simp
  next
    case (Some j)
    then obtain m cs A1 where "nodes A j = Some (m, cs)" "m + 1 < u32_bound" "add_entry new j A = Some A1"
      using op LinkFile by (auto split: option.splits if_splits)
    with LinkFile Some show ?thesis using op simulates_link(2) [OF s A Some, of m cs new A1] by simp
  qed
next
  case (UnlinkFile name)
  show ?thesis
  proof (cases "find_index (\<lambda>e. fst e = name) (entries A)")
    case None
    then show ?thesis using op UnlinkFile simulates_unlink(1) [OF s A] by (simp del: find_index_None)
  next
    case (Some p)
    then obtain m cs where "nodes A (snd (entries A ! p)) = Some (m, cs)" "m \<noteq> 0"
      using op UnlinkFile by (auto simp: Let_def split: option.splits if_splits)
    with UnlinkFile Some show ?thesis using op simulates_unlink(2) [OF s A Some, of _ m cs] by (simp add: Let_def)
  qed
next
  case (ClearFile i)
  then obtain l bs where "nodes A i = Some (l, bs)" using op by (auto split: option.splits)
  with ClearFile show ?thesis using op simulates_clear [OF s A, of i l bs] by simp
qed

lemma runs_serve_ops:
  assumes "ok s" "locked s = []" "abstracts fs (view s) A" "spec_ops fs os A = Some (rs, A')"
  shows "runs (serve_ops ops fs os) s (\<lambda>x v. x = rs \<and> abstracts fs v A')"
  using assms
proof (induction os arbitrary: s A rs)
  case Nil
  then show ?case by (auto intro: runs_return)
next
  case (Cons op os)
  obtain r A1 rs' where o: "spec_op fs op A = Some (r, A1)" "spec_ops fs os A1 = Some (rs', A')" "rs = r # rs'"
    using Cons.prems(4) by (auto split: option.splits)
  show ?case
    unfolding serve_ops.simps
  proof (rule runs_bind [OF runs_serve_op [OF Cons.prems(1-3) o(1)]])
    fix x s1 assume s1: "ok s1" "locked s1 = locked s" "x = r \<and> abstracts fs (view s1) A1"
    have "runs (serve_ops ops fs os) s1 (\<lambda>x v. x = rs' \<and> abstracts fs v A')" using Cons.IH [OF s1(1) _ _ o(2)] s1 Cons.prems(2) by simp
    then show "runs (bind_io (serve_ops ops fs os) (\<lambda>rs. return_io (x # rs))) s1 (\<lambda>x v. x = rs \<and> abstracts fs v A')"
      by (rule runs_bind) (use s1(3) o(3) in \<open>auto intro: runs_return\<close>)
  qed
qed

end

section \<open>Properties\<close>

text \<open>The abstract file system of a freshly formatted device.\<close>

definition fresh_fs :: "nat \<Rightarrow> nat \<Rightarrow> abstract_fs" where
  "fresh_fs N n = \<lparr>entries = [], nodes = Map.empty, free = 4096 * div_ceil (N - 1 - 1057 * n) 4097, limit = 3168 * n\<rparr>"

lemma abstracts_fresh:
  assumes n: "1 + 1057 * n \<le> N" "N + 4096 \<le> u32_bound" "4096 * n \<le> u32_bound"
    and v: "fs_ok (formatted N n) v" "files (formatted N n) v = [0 \<mapsto> (Directory, 1, [])]" "free_blocks (formatted N n) v = data_area (formatted N n)"
  shows "abstracts (formatted N n) v (fresh_fs N n)"
proof -
  note ar = formatted_areas [OF n]
  have "files (formatted N n) v = (\<lambda>i. map_option (\<lambda>(l, bs). (File, l, bs)) (nodes (fresh_fs N n) i))(0 \<mapsto> (Directory, 1, []))"
    using v(2) by (simp add: fresh_fs_def fun_eq_iff)
  moreover have "card (data_area (formatted N n)) = 4096 * div_ceil (N - 1 - 1057 * n) 4097" using ar(4) by (simp add: data_area_def)
  ultimately show ?thesis
    unfolding abstracts_def using v(1,3) ar(2,3) by (intro conjI exI [of _ 1] exI [of _ "[]"]) (simp_all add: fresh_fs_def)
qed



end
