(* ===== verification/Fs_Properties.thy ===== *)
theory Fs_Properties
  imports Fs_Refinement
begin

text \<open>
  Properties of the parts of the file system: allocation in the bitmaps, the encodings of the disk structures, the
  block counts, the positions of inodes, the limits of names, and reading and writing through file handles.
\<close>

section \<open>Allocation\<close>

text \<open>
  C26. Allocation in a bitmap is exact. With a free bit, \<^verbatim>\<open>alloc\<close> returns the lowest free bit, sets that bit and changes no
  other bit and no block outside the bitmap; deallocating it restores the set of used bits, and deallocating it once
  more fails the assertion.
\<close>

theorem bitmap_alloc_dealloc:
  assumes "cache_ok s" "held s = []" "k < bitmap_maximum bm" "k \<notin> used_bits bm (cache_view s)"
  shows "\<exists>n s1 s2. bitmap_alloc cache_ops bm s = Inr (Some n, s1) \<and> n \<notin> used_bits bm (cache_view s) \<and> (\<forall>m < n. m \<in> used_bits bm (cache_view s)) \<and>
    used_bits bm (cache_view s1) = insert n (used_bits bm (cache_view s)) \<and>
    bitmap_dealloc cache_ops bm n s1 = Inr ((), s2) \<and> used_bits bm (cache_view s2) = used_bits bm (cache_view s) \<and>
    (\<forall>b. b \<notin> bitmap_blocks bm \<longrightarrow> cache_view s2 b = cache_view s b) \<and> bitmap_dealloc cache_ops bm n s2 = Inl AssertFailed"
proof -
  have l: "length (held s) < BLOCK_CACHE_SIZE" "bitmap_blocks bm \<inter> set (held s) = {}" using assms(2) by simp_all
  obtain n v1 where a: "store_returns cache_ok cache_view held (bitmap_alloc cache_ops bm) s (Some n) v1"
    "used_bits bm v1 = insert n (used_bits bm (cache_view s))" "\<And>b. b \<notin> bitmap_blocks bm \<Longrightarrow> v1 b = cache_view s b"
    "n \<notin> used_bits bm (cache_view s)" "\<And>m. m < n \<Longrightarrow> m \<in> used_bits bm (cache_view s)" "n \<le> k"
    by (rule cache_store.alloc_first [OF assms(1) l assms(3,4)]) (rule that)
  obtain s1 where s1: "bitmap_alloc cache_ops bm s = Inr (Some n, s1)" "cache_ok s1" "cache_view s1 = v1" "held s1 = []"
    using a(1) assms(2) by (auto simp: store_returns_def)
  have l1: "length (held s1) < BLOCK_CACHE_SIZE" "bitmap_blocks bm \<inter> set (held s1) = {}" "n \<in> used_bits bm (cache_view s1)"
    using s1 a(2) by simp_all
  obtain v2 where d: "store_returns cache_ok cache_view held (bitmap_dealloc cache_ops bm n) s1 () v2"
    "used_bits bm v2 = used_bits bm (cache_view s1) - {n}" "\<And>b. b \<notin> bitmap_blocks bm \<Longrightarrow> v2 b = cache_view s1 b"
    by (rule cache_store.dealloc_used [OF s1(2) l1]) (rule that)
  obtain s2 where s2: "bitmap_dealloc cache_ops bm n s1 = Inr ((), s2)" "cache_ok s2" "cache_view s2 = v2" "held s2 = []"
    using d(1) s1(4) by (auto simp: store_returns_def)
  have u: "used_bits bm (cache_view s2) = used_bits bm (cache_view s)" using d(2) s1(3) s2(3) a(2,4) by simp
  have "bitmap_dealloc cache_ops bm n s2 = Inl AssertFailed"
    by (rule cache_store.dealloc_free) (use s2 u a(4,6) assms(3) in simp_all)
  then show ?thesis using s1 s2 a u d(3) by (intro exI [of _ n] exI [of _ s1] exI [of _ s2]) simp
qed

theorem bitmap_alloc_dealloc_witness:
  "let bm = bitmap_new 1 1; s = cache_manager_new (\<lambda>_. replicate 512 0) in
   \<exists>n s1 s2. bitmap_alloc cache_ops bm s = Inr (Some n, s1) \<and> n \<notin> used_bits bm (cache_view s) \<and> (\<forall>m < n. m \<in> used_bits bm (cache_view s)) \<and>
    used_bits bm (cache_view s1) = insert n (used_bits bm (cache_view s)) \<and>
    bitmap_dealloc cache_ops bm n s1 = Inr ((), s2) \<and> used_bits bm (cache_view s2) = used_bits bm (cache_view s) \<and>
    (\<forall>b. b \<notin> bitmap_blocks bm \<longrightarrow> cache_view s2 b = cache_view s b) \<and> bitmap_dealloc cache_ops bm n s2 = Inl AssertFailed"
proof -
  have z: "\<forall>b. length ((\<lambda>_ :: nat. replicate 512 0 :: byte list) b) = BLOCK_SZ" by simp
  note c = cache_manager_new_ok [OF z]
  have "used_bits (bitmap_new 1 1) (cache_view (cache_manager_new (\<lambda>_. replicate 512 0))) = {}"
    unfolding c(3) by (rule used_bits_zeros) simp
  then show ?thesis
    unfolding Let_def by (intro bitmap_alloc_dealloc [where k = 0] c(1,2)) (simp_all add: bitmap_maximum_def bitmap_new_def)
qed

text \<open>
  C27. The number of blocks of a file that \<^verbatim>\<open>total_blocks\<close> computes by arithmetic, and from which growth and truncation take
  the number of blocks to allocate and to expect back, is the number of blocks the inode reaches: its data blocks and the
  single and double indirect index blocks.
\<close>

theorem total_blocks_counts_blocks:
  assumes "di_ok di"
  shows "total_blocks (di_size di) = length (owned v di)"
  using assms total_blocks_owned [of "di_size di"] by (simp add: owned_def length_owned_upto di_ok_def data_blocks_def)

theorem total_blocks_counts_blocks_witness:
  "let di = \<lparr>di_size = 20000, direct = [1..<29], indirect1 = 29, indirect2 = 0, di_type = File, di_padding = [0, 0, 0], link_num = 1\<rparr> in
   total_blocks 20000 = 41 \<and> length (owned (\<lambda>_. replicate 512 0) di) = 41"
proof -
  let ?di = "\<lparr>di_size = 20000, direct = [1..<29], indirect1 = 29, indirect2 = 0, di_type = File, di_padding = [0, 0, 0], link_num = 1\<rparr>"
  have "di_ok ?di" by (simp add: di_ok_def di_wf_def data_blocks_def data_blocks_of_def div_ceil_def list_all_iff)
  from total_blocks_counts_blocks [OF this, of "\<lambda>_. replicate 512 0"] show ?thesis
    by (simp add: total_blocks_def data_blocks_of_def div_ceil_def)
qed

section \<open>Positions of inodes\<close>

text \<open>
  C29. The position of an inode determines its number: \<^verbatim>\<open>get_inode_id\<close> inverts \<^verbatim>\<open>get_disk_inode_pos\<close>. But only 3168 of the 4096
  inodes that each block of the inode bitmap offers lie in the inode area: from the number 3168 n on, the position is
  in the data bitmap or behind it, because three inodes of 132 bytes fill a block while the area is sized by bytes.
\<close>

theorem inode_positions:
  assumes "1 + 1057 * n \<le> N" "N + 4096 \<le> u32_bound" "4096 * n \<le> u32_bound" "i < bitmap_maximum (inode_bitmap (formatted N n))"
  shows "\<exists>b off. get_disk_inode_pos (formatted N n) i = Inr (b, off) \<and> off + DISK_INODE_SZ \<le> BLOCK_SZ \<and>
    efs_get_inode_id (formatted N n) b off = Inr i \<and> (b < start_block_id (data_bitmap (formatted N n)) \<longleftrightarrow> i < 3168 * n)"
proof -
  have i: "i < 4096 * n" using assms(4) formatted_areas(3) [OF assms(1-3)] by simp
  have a: "inode_area_start_block (formatted N n) = 1 + n" "start_block_id (data_bitmap (formatted N n)) = 1 + n + 1056 * n"
    by (simp_all add: formatted_def efs_object_def bitmap_new_def)
  have d: "i div 3 < 1366 * n" using i by linarith
  then have s: "1 + n + i div 3 < u32_bound" using assms(3) by simp
  have o: "i mod 3 * DISK_INODE_SZ div DISK_INODE_SZ = i mod 3" by simp
  have m: "i mod 3 < 3" by simp
  have "efs_get_inode_id (formatted N n) (1 + n + i div 3) (i mod 3 * DISK_INODE_SZ) = Inr i"
    using s i assms(3) by (simp add: efs_get_inode_id_def a(1) sub_res_def o)
  moreover have "1 + n + i div 3 < 1 + n + 1056 * n \<longleftrightarrow> i < 3168 * n" by linarith
  moreover have "i mod 3 * DISK_INODE_SZ + DISK_INODE_SZ \<le> BLOCK_SZ" using m by linarith
  ultimately show ?thesis using s by (simp add: get_disk_inode_pos_def a)
qed

theorem inode_positions_witness:
  "\<exists>b off. get_disk_inode_pos (formatted 6000 1) 4000 = Inr (b, off) \<and> off + DISK_INODE_SZ \<le> BLOCK_SZ \<and>
    efs_get_inode_id (formatted 6000 1) b off = Inr 4000 \<and> \<not> b < start_block_id (data_bitmap (formatted 6000 1))"
  using inode_positions [of 1 6000 4000] formatted_areas(3) [of 1 6000] by simp

section \<open>Encodings\<close>



text \<open>
  C36. The limits of names. A name of 28 bytes is stored but cannot be read back: the search for its end indexes behind the
  array, so every later search or listing of the directory panics; a longer name panics when its entry is built.
\<close>

theorem long_names_panic:
  assumes "0 \<notin> set name" "NAME_LENGTH_LIMIT < length name"
  shows "(length name = 28 \<longrightarrow> (\<exists>d. dirent_new name n = Inr d \<and> dirent_name d = Inl IndexOutOfBounds)) \<and>
    (28 < length name \<longrightarrow> dirent_new name n = Inl IndexOutOfBounds)"
  using dirent_name_28_bytes [of name n] assms by (auto simp: dirent_new_eq)

theorem long_names_panic_witness:
  "(\<exists>d. dirent_new (replicate 28 97) 5 = Inr d \<and> dirent_name d = Inl IndexOutOfBounds)"
  using long_names_panic [of "replicate 28 97" 5] by simp

section \<open>File handles\<close>

lemma write_bytes_write_bytes: "write_bytes (off + length xs) ys (write_bytes off xs bs) = write_bytes off (xs @ ys) bs"
proof (cases "off \<le> length bs")
  case True
  then show ?thesis by (simp add: write_bytes_def copy_into_def min_def ac_simps)
next
  case False
  then show ?thesis by (simp add: write_bytes_def copy_into_def)
qed

lemma length_write_bytes: "length (write_bytes off xs bs) = max (length bs) (off + length xs)"
  by (simp add: write_bytes_def copy_into_def)

lemma write_bytes_nil: "off \<le> length bs \<Longrightarrow> write_bytes off [] bs = bs"
  by (simp add: write_bytes_def copy_into_def)

lemma total_blocks_mono: "m \<le> n \<Longrightarrow> data_blocks_of n \<le> INDIRECT2_BOUND \<Longrightarrow> total_blocks m \<le> total_blocks n"
  using data_blocks_mono [of m n] by (simp add: total_blocks_owned length_owned_mono)

context block_store
begin

lemma runs_unmap: "runs (map_io f m) s P \<Longrightarrow> runs m s (\<lambda>a v. P (f a) v)"
  by (auto simp: store_runs_def map_io_def bind_io_def return_io_def split: sum.splits)

lemma runs_write_slices:
  assumes "ok s" "locked s = []" "abstracts fs (view s) A" "nodes A i = Some (l, bs)"
    and "\<forall>sl \<in> set slices. sl \<noteq> []" "slices \<noteq> [] \<or> off \<le> length bs"
    and "grows A (length bs) (max (length bs) (off + length (concat slices)))"
  shows "runs (write_slices ops fs (ino fs i) slices off n) s (\<lambda>r v. r = (n + length (concat slices), off + length (concat slices)) \<and>
    abstracts fs v (A\<lparr>nodes := (nodes A)(i \<mapsto> (l, write_bytes off (concat slices) bs)),
      free := free A + total_blocks (length bs) - total_blocks (max (length bs) (off + length (concat slices)))\<rparr>))"
  using assms
proof (induction slices arbitrary: s A bs off n)
  case Nil
  then have "max (length bs) off = length bs" by simp
  with Nil show ?case by (auto simp: write_bytes_nil fun_upd_idem intro!: runs_return)
next
  case (Cons sl slices)
  let ?n1 = "max (length bs) (off + length sl)" and ?n2 = "max (length bs) (off + length (concat (sl # slices)))"
  let ?A1 = "A\<lparr>nodes := (nodes A)(i \<mapsto> (l, write_bytes off sl bs)), free := free A + total_blocks (length bs) - total_blocks ?n1\<rparr>"
  have g: "data_blocks_of ?n2 \<le> INDIRECT2_BOUND" "total_blocks ?n2 - total_blocks (length bs) \<le> free A" using Cons.prems(7) by (simp_all add: grows_def)
  have le: "?n1 \<le> ?n2" "length bs \<le> ?n1" by auto
  have g1: "data_blocks_of ?n1 \<le> INDIRECT2_BOUND" using data_blocks_mono [OF le(1)] g(1) by linarith
  have t: "total_blocks (length bs) \<le> total_blocks ?n1" "total_blocks ?n1 \<le> total_blocks ?n2"
    by (rule total_blocks_mono [OF le(2) g1], rule total_blocks_mono [OF le(1) g(1)])
  have gr: "grows A (length bs) ?n1" using g1 g(2) t by (simp add: grows_def)
  have ne: "sl \<noteq> []" using Cons.prems(5) by simp
  have len: "length (write_bytes off sl bs) = ?n1" by (simp add: length_write_bytes)
  have mx: "max (length (write_bytes off sl bs)) (off + length sl + length (concat slices)) = ?n2" by (simp add: len)
  have "total_blocks ?n2 - total_blocks ?n1 \<le> free A + total_blocks (length bs) - total_blocks ?n1" using g(2) t by linarith
  then have gr2: "grows ?A1 (length (write_bytes off sl bs)) ?n2" unfolding grows_def len using g(1) by simp
  have "runs (inode_write_at ops fs (ino fs i) off sl) s (\<lambda>m v. RNum m = RNum (length sl) \<and> abstracts fs v ?A1)"
    by (rule runs_unmap [OF simulates_write [OF Cons.prems(1-4) ne gr refl, unfolded serve_op.simps]])
  then show ?case
    unfolding write_slices.simps
  proof (rule runs_bind)
    fix m s1 assume s1: "ok s1" "locked s1 = locked s" "RNum m = RNum (length sl) \<and> abstracts fs (view s1) ?A1"
    have "runs (write_slices ops fs (ino fs i) slices (off + length sl) (n + length sl)) s1 (\<lambda>r v.
        r = (n + length sl + length (concat slices), off + length sl + length (concat slices)) \<and>
        abstracts fs v (?A1\<lparr>nodes := (nodes ?A1)(i \<mapsto> (l, write_bytes (off + length sl) (concat slices) (write_bytes off sl bs))),
          free := free ?A1 + total_blocks ?n1 - total_blocks ?n2\<rparr>))"
      by (rule Cons.IH [of s1 ?A1 "write_bytes off sl bs" "off + length sl", unfolded mx, unfolded len])
        (use s1 Cons.prems gr2 len in \<open>simp_all only: len\<close>, simp_all)
    moreover have "free ?A1 + total_blocks ?n1 - total_blocks ?n2 = free A + total_blocks (length bs) - total_blocks ?n2"
      using g(2) t by simp
    ultimately show "runs (bind_io (lift_io (assert_res (m = length sl))) (\<lambda>_. write_slices ops fs (ino fs i) slices (off + m) (n + m))) s1 (\<lambda>r v.
        r = (n + length (concat (sl # slices)), off + length (concat (sl # slices))) \<and>
        abstracts fs v (A\<lparr>nodes := (nodes A)(i \<mapsto> (l, write_bytes off (concat (sl # slices)) bs)),
          free := free A + total_blocks (length bs) - total_blocks ?n2\<rparr>))"
      using s1(3) by (simp add: assert_res_def write_bytes_write_bytes add.assoc)
  qed
qed

lemma runs_read_slices:
  assumes "ok s" "locked s = []" "fs_ok fs (view s)" "files fs (view s) i = Some (t, l, bs)"
    and "\<forall>sl \<in> set slices. sl \<noteq> []" "off + length (concat slices) < usize_bound"
  defines "k \<equiv> min (length (concat slices)) (length bs - off)"
  shows "runs (read_slices ops (ino fs i) slices off n) s (\<lambda>(m, off', slices') v. m = n + k \<and> off' = off + k \<and>
    concat slices' = slice_of off k bs @ drop k (concat slices) \<and> map length slices' = map length slices \<and> v = view s)"
  using assms(1-6) unfolding k_def
proof (induction slices arbitrary: s off n)
  case Nil
  then show ?case by (auto simp: slice_of_def intro!: runs_return)
next
  case (Cons sl slices)
  define k1 where "k1 = min (length sl) (length bs - off)"
  define sl' where "sl' = copy_into 0 (slice_of off k1 bs) sl"
  let ?k2 = "min (length (concat slices)) (length bs - (off + k1))" and ?k = "min (length (concat (sl # slices))) (length bs - off)"
  have r: "returns (inode_read_at ops (ino fs i) off sl) s (k1, sl') (view s)"
    using returns_inode_read_at [OF Cons.prems(1-4)] Cons.prems(6) by (simp add: k1_def sl'_def)
  have sl': "sl' = slice_of off k1 bs @ drop k1 sl" "length sl' = length sl" by (simp_all add: sl'_def k1_def copy_into_def slice_of_def)
  have split: "slice_of off (k1 + ?k2) bs = slice_of off k1 bs @ slice_of (off + k1) ?k2 bs" by (simp add: slice_of_def take_add add.commute)
  show ?case
    unfolding read_slices.simps
  proof (rule runs_bind [OF returns_runs [OF r, where P = "\<lambda>a v. a = (k1, sl') \<and> v = view s"]])
    fix a s1 assume s1: "ok s1" "locked s1 = locked s" "a = (k1, sl') \<and> view s1 = view s"
    show "runs (case a of (read_size, sl') \<Rightarrow> if read_size = 0 then return_io (n, off, sl' # slices)
        else bind_io (read_slices ops (ino fs i) slices (off + read_size) (n + read_size)) (\<lambda>(m, off, slices). return_io (m, off, sl' # slices))) s1
        (\<lambda>(m, off', slices') v. m = n + ?k \<and> off' = off + ?k \<and> concat slices' = slice_of off ?k bs @ drop ?k (concat (sl # slices)) \<and>
          map length slices' = map length (sl # slices) \<and> v = view s)"
    proof (cases "k1 = 0")
      case True
      then have "?k = 0" using Cons.prems(5) by (auto simp: k1_def min_def split: if_splits)
      then show ?thesis using True s1 sl' by (auto simp: slice_of_def intro!: runs_return)
    next
      case False
      have k: "?k = k1 + ?k2" using False by (auto simp: k1_def min_def)
      have dj: "k1 = length sl \<or> ?k2 = 0 \<and> k1 \<le> length sl" using False by (auto simp: k1_def min_def)
      have dr: "drop (k1 + ?k2) (sl @ concat slices) = drop k1 sl @ drop ?k2 (concat slices)"
        using dj by auto
      have comm: "drop k1 sl @ slice_of (off + k1) ?k2 bs = slice_of (off + k1) ?k2 bs @ drop k1 sl" using dj by (auto simp: slice_of_def)
      have "runs (read_slices ops (ino fs i) slices (off + k1) (n + k1)) s1 (\<lambda>(m, off', slices') v. m = n + k1 + ?k2 \<and> off' = off + k1 + ?k2 \<and>
          concat slices' = slice_of (off + k1) ?k2 bs @ drop ?k2 (concat slices) \<and> map length slices' = map length slices \<and> v = view s1)"
        using s1 Cons.prems by (intro Cons.IH) (auto simp: k1_def)
      then have "runs (bind_io (read_slices ops (ino fs i) slices (off + k1) (n + k1)) (\<lambda>(m, off, slices). return_io (m, off, sl' # slices))) s1
        (\<lambda>(m, off', slices') v. m = n + ?k \<and> off' = off + ?k \<and> concat slices' = slice_of off ?k bs @ drop ?k (concat (sl # slices)) \<and>
          map length slices' = map length (sl # slices) \<and> v = view s)"
        unfolding k by (rule runs_bind) (use s1(3) sl' dr split comm in \<open>auto intro!: runs_return\<close>)
      then show ?thesis using False s1(3) by simp
    qed
  qed simp
qed

end

lemma abstracts_runs:
  assumes "cache_ok s" "held s = []" "store_runs cache_ok cache_view held m s (\<lambda>r v. r = x \<and> abstracts fs v A)"
  obtains s' where "m s = Inr (x, s')" "cache_ok s'" "held s' = []" "abstracts fs (cache_view s') A"
  using assms by (auto simp: store_runs_def)

text \<open>
  C20. Writing a user buffer through a file handle and reading it back through another. The write stores the bytes of all
  slices one after the other at the offset of the handle, growing the file and filling a gap with zeros; it returns their number and
  advances the offset. A read through a handle at the old offset then fills a buffer of the same total length with exactly
  the bytes written, whatever the slices of both buffers, and advances its offset as well.
\<close>

theorem file_handle_round_trip:
  assumes s: "cache_ok s" "held s = []" "abstracts fs (cache_view s) A" "nodes A i = Some (l, bs)"
    and w: "fh_inode fh = Some (ino fs i)" "buf \<noteq> []" "\<forall>sl \<in> set buf. sl \<noteq> []" "grows A (length bs) (max (length bs) (fh_offset fh + length (concat buf)))"
    and r: "fh_inode fh2 = Some (ino fs i)" "fh_offset fh2 = fh_offset fh" "\<forall>sl \<in> set buf2. sl \<noteq> []" "length (concat buf2) = length (concat buf)"
  shows "\<exists>s1 s2 buf3. fh_write_buf cache_ops fs fh buf s = Inr ((int (length (concat buf)), fh\<lparr>fh_offset := fh_offset fh + length (concat buf)\<rparr>), s1) \<and>
    fh_read_buf cache_ops fh2 buf2 s1 = Inr ((int (length (concat buf)), fh2\<lparr>fh_offset := fh_offset fh + length (concat buf)\<rparr>, buf3), s2) \<and>
    concat buf3 = concat buf \<and> map length buf3 = map length buf2"
proof -
  let ?off = "fh_offset fh" and ?n = "length (concat buf)"
  let ?A = "A\<lparr>nodes := (nodes A)(i \<mapsto> (l, write_bytes ?off (concat buf) bs)), free := free A + total_blocks (length bs) - total_blocks (max (length bs) (?off + ?n))\<rparr>"
  have "max (length bs) (?off + ?n) < u32_bound" using w(4) by (intro cache_store.size_bound) (simp add: grows_def)
  then have small: "?off + ?n < u32_bound" by simp
  obtain s1 where s1: "write_slices cache_ops fs (ino fs i) buf ?off 0 s = Inr ((0 + ?n, ?off + ?n), s1)" "cache_ok s1" "held s1 = []"
    "abstracts fs (cache_view s1) ?A"
    by (rule abstracts_runs [OF s(1,2) cache_store.runs_write_slices [OF s w(3) disjI1 [OF w(2)] w(4)]])
  have nd: "nodes ?A i = Some (l, write_bytes ?off (concat buf) bs)" by simp
  note f = nodes_files(1) [OF s1(4) nd]
  have fs1: "fs_ok fs (cache_view s1)" using s1(4) by (simp add: abstracts_def)
  have len: "length (write_bytes ?off (concat buf) bs) - ?off \<ge> ?n" by (simp add: length_write_bytes)
  have "slice_of ?off ?n (write_bytes ?off (concat buf) bs) = concat buf"
    unfolding write_bytes_def by (rule slice_of_copy_into) simp
  moreover have "?off + length (concat buf2) < usize_bound" using small r(4) by simp
  ultimately obtain s2 buf3 where s2: "read_slices cache_ops (ino fs i) buf2 ?off 0 s1 = Inr ((0 + ?n, ?off + ?n, buf3), s2)"
    "concat buf3 = concat buf" "map length buf3 = map length buf2"
    using cache_store.runs_read_slices [OF s1(2,3) fs1 f r(3), of ?off 0] len r(4) by (auto simp: store_runs_def)
  have i: "usize_as_isize ?n = int ?n" using small by (simp add: usize_as_isize_def)
  have "fh_write_buf cache_ops fs fh buf s = Inr ((int ?n, fh\<lparr>fh_offset := ?off + ?n\<rparr>), s1)"
    "fh_read_buf cache_ops fh2 buf2 s1 = Inr ((int ?n, fh2\<lparr>fh_offset := ?off + ?n\<rparr>, buf3), s2)"
    using s1(1) s2(1) w(1) r(1,2) i by (simp_all add: fh_write_buf_def fh_read_buf_def bind_io_def return_io_def)
  then show ?thesis using s2(2,3) by blast
qed

text \<open>A device with one empty file.\<close>

lemma one_named_file:
  assumes nm: "name_ok name"
  obtains s A where "cache_ok s" "held s = []" "abstracts (formatted 6000 1) (cache_view s) A" "nodes A 1 = Some (1, [])" "free A = 8191"
    "entries A = [(name, 1)]"
proof -
  let ?fs = "formatted 6000 1"
  define L where "L = limit (fresh_fs 6000 1)"
  define A where "A = \<lparr>entries = [(name, 1)], nodes = [1 \<mapsto> (1, [])], free = 8191, limit = L\<rparr>"
  have z: "\<forall>b. length ((\<lambda>_ :: nat. replicate 512 0 :: byte list) b) = BLOCK_SZ" by simp
  note c = cache_manager_new_ok [OF z]
  have b: "1 + 1057 * 1 \<le> (6000 :: nat)" "6000 + 4096 \<le> u32_bound" "4096 * 1 \<le> u32_bound" "0 < (1 :: nat)" by simp_all
  obtain s where s: "cache_ok s" "held s = []" "fs_ok ?fs (cache_view s)" "files ?fs (cache_view s) = [0 \<mapsto> (Directory, 1, [])]"
    "free_blocks ?fs (cache_view s) = data_area ?fs"
    using cache_store.commits_create [OF c(1,2) b(4,1-3)] c(2,3) by (auto simp: store_commits_def)
  have "1 < L" by (simp add: L_def fresh_fs_def)
  then have up: "[Suc 0..<L] = Suc 0 # [Suc (Suc 0)..<L]" by (simp add: upt_conv_Cons)
  have tb: "data_blocks_of 32 = 1" "total_blocks 0 = 0" "total_blocks 32 = 1"
    by (simp_all add: total_blocks_def data_blocks_of_def div_ceil_def)
  have "fresh_fs 6000 1 = \<lparr>entries = [], nodes = Map.empty, free = 8192, limit = L\<rparr>" by (simp add: L_def fresh_fs_def div_ceil_def)
  then have "spec_op ?fs (CreateFile name) (fresh_fs 6000 1) = Some (RInode (Some (ino ?fs 1)), A)"
    by (simp add: add_entry_def grows_def dir_size_def nm up tb A_def)
  from cache_store.runs_serve_op [OF s(1,2) abstracts_fresh [OF b(1-3) s(3-5)] this]
  obtain s' where "cache_ok s'" "held s' = []" "abstracts ?fs (cache_view s') A" using s(2) by (auto simp: store_runs_def)
  then show ?thesis by (rule that) (simp_all add: A_def)
qed

lemma one_file:
  obtains s A where "cache_ok s" "held s = []" "abstracts (formatted 6000 1) (cache_view s) A" "nodes A 1 = Some (1, [])" "free A = 8191"
    "entries A = [([97], 1)]"
proof -
  have "name_ok [97]" by code_simp
  then show ?thesis by (rule one_named_file) (rule that)
qed

theorem file_handle_round_trip_witness:
  "\<exists>s s1 s2 buf3. let fh = fh_new True True (ino (formatted 6000 1) 1)\<lparr>fh_offset := 3\<rparr> in
    fh_write_buf cache_ops (formatted 6000 1) fh [[1, 2], [3]] s = Inr ((3, fh\<lparr>fh_offset := 6\<rparr>), s1) \<and>
    fh_read_buf cache_ops fh [[0], [0, 0]] s1 = Inr ((3, fh\<lparr>fh_offset := 6\<rparr>, buf3), s2) \<and> concat buf3 = [1, 2, 3] \<and> map length buf3 = [1, 2]"
proof -
  obtain s A where s: "cache_ok s" "held s = []" "abstracts (formatted 6000 1) (cache_view s) A" "nodes A 1 = Some (1, [])" "free A = 8191" "entries A = [([97], 1)]"
    by (rule one_file)
  let ?fh = "fh_new True True (ino (formatted 6000 1) 1)\<lparr>fh_offset := 3\<rparr>"
  have "grows A 0 6" using s(5) by (simp add: grows_def total_blocks_def data_blocks_of_def div_ceil_def)
  then have "\<exists>s1 s2 buf3. fh_write_buf cache_ops (formatted 6000 1) ?fh [[1, 2], [3]] s = Inr ((3, ?fh\<lparr>fh_offset := 6\<rparr>), s1) \<and>
    fh_read_buf cache_ops ?fh [[0], [0, 0]] s1 = Inr ((3, ?fh\<lparr>fh_offset := 6\<rparr>, buf3), s2) \<and> concat buf3 = [1, 2, 3] \<and> map length buf3 = [1, 2]"
    using file_handle_round_trip [OF s(1-4), of ?fh "[[1, 2], [3]]" ?fh "[[0], [0, 0]]"] by (simp add: fh_new_def numeral_2_eq_2)
  then show ?thesis unfolding Let_def by (rule exI [of _ s])
qed

end
