(* ===== verification/Task_Relations.thy ===== *)
theory Task_Relations
  imports Rcore_Prelude
begin

text \<open>
  Identifiers and process relations of tg-task-manage (\<^verbatim>\<open>id.rs\<close>, \<^verbatim>\<open>proc_rel.rs\<close>,
  \<^verbatim>\<open>proc_thread_rel.rs\<close>): the parent, the live and the dead children of a process, and for the
  kernel with threads also the live and dead threads of a process. The operations that
  \<^verbatim>\<open>ProcRel\<close> and \<^verbatim>\<open>ProcThreadRel\<close> share are defined once, on the extensible record.

  The second part is about the map of all relations: the process tree. It states what makes the map
  well formed (\<open>tree_wf\<close>) and shows that creating a process, ending one and waiting for one keep it so.
\<close>

section \<open>Identifiers\<close>

abbreviation pid_any :: nat where "pid_any \<equiv> usize_bound - 1"   \<comment> \<open>\<^verbatim>\<open>usize::MAX\<close>\<close>
abbreviation pid_running :: nat where "pid_running \<equiv> usize_bound - 2"   \<comment> \<open>\<^verbatim>\<open>-2 as usize\<close>\<close>

text \<open>\<^verbatim>\<open>ProcId::new\<close> and \<^verbatim>\<open>ThreadId::new\<close> on the value of their counter: the id and the next value.\<close>

definition proc_id_new :: "nat \<Rightarrow> nat \<times> nat" where
  "proc_id_new counter = (counter, (counter + 1) mod usize_bound)"

definition thread_id_new :: "nat \<Rightarrow> nat \<times> nat" where
  "thread_id_new counter = (counter, (counter + 1) mod usize_bound)"

section \<open>Relations of one process\<close>

record proc_rel =
  parent :: nat
  children :: "nat list"
  dead_children :: "(nat \<times> int) list"

definition proc_rel_new :: "nat \<Rightarrow> proc_rel" where
  "proc_rel_new parent_pid = \<lparr>parent = parent_pid, children = [], dead_children = []\<rparr>"

definition add_child :: "nat \<Rightarrow> 'a proc_rel_scheme \<Rightarrow> 'a proc_rel_scheme" where
  "add_child child_pid r = r\<lparr>children := children r @ [child_pid]\<rparr>"

definition del_child :: "nat \<Rightarrow> int \<Rightarrow> 'a proc_rel_scheme \<Rightarrow> 'a proc_rel_scheme" where
  "del_child child_pid exit_code r =
     (case find_index (\<lambda>i. i = child_pid) (children r) of
        Some idx \<Rightarrow> r\<lparr>children := remove_nth idx (children r),
                     dead_children := dead_children r @ [(children r ! idx, exit_code)]\<rparr>
      | None \<Rightarrow> r)"

definition wait_any_child :: "'a proc_rel_scheme \<Rightarrow> (nat \<times> int) option \<times> 'a proc_rel_scheme" where
  "wait_any_child r =
     (if dead_children r = []
      then if children r = [] then (None, r) else (Some (pid_running, - 1), r)
      else (Some (last (dead_children r)), r\<lparr>dead_children := butlast (dead_children r)\<rparr>))"

definition wait_child :: "nat \<Rightarrow> 'a proc_rel_scheme \<Rightarrow> (nat \<times> int) option \<times> 'a proc_rel_scheme" where
  "wait_child child_pid r =
     (case find_index (\<lambda>(i, _). i = child_pid) (dead_children r) of
        Some idx \<Rightarrow> (Some (dead_children r ! idx), r\<lparr>dead_children := remove_nth idx (dead_children r)\<rparr>)
      | None \<Rightarrow>
          (case find_index (\<lambda>i. i = child_pid) (children r) of
             Some _ \<Rightarrow> (Some (pid_running, - 1), r)
           | None \<Rightarrow> (None, r)))"

record proc_thread_rel = proc_rel +
  threads :: "nat list"
  dead_threads :: "(nat \<times> int) list"

definition proc_thread_rel_new :: "nat \<Rightarrow> proc_thread_rel" where
  "proc_thread_rel_new parent_pid =
     \<lparr>parent = parent_pid, children = [], dead_children = [], threads = [], dead_threads = []\<rparr>"

definition add_thread :: "nat \<Rightarrow> proc_thread_rel \<Rightarrow> proc_thread_rel" where
  "add_thread tid r = r\<lparr>threads := threads r @ [tid]\<rparr>"

definition del_thread :: "nat \<Rightarrow> int \<Rightarrow> proc_thread_rel \<Rightarrow> proc_thread_rel" where
  "del_thread tid exit_code r =
     (case find_index (\<lambda>i. i = tid) (threads r) of
        Some idx \<Rightarrow> r\<lparr>threads := remove_nth idx (threads r),
                     dead_threads := dead_threads r @ [(threads r ! idx, exit_code)]\<rparr>
      | None \<Rightarrow> r)"

definition wait_thread :: "nat \<Rightarrow> proc_thread_rel \<Rightarrow> int option \<times> proc_thread_rel" where
  "wait_thread thread_tid r =
     (case find_index (\<lambda>(i, _). i = thread_tid) (dead_threads r) of
        Some idx \<Rightarrow> (Some (snd (dead_threads r ! idx)), r\<lparr>dead_threads := remove_nth idx (dead_threads r)\<rparr>)
      | None \<Rightarrow>
          (case find_index (\<lambda>i. i = thread_tid) (threads r) of
             Some _ \<Rightarrow> (Some (- 2), r)
           | None \<Rightarrow> (None, r)))"

text \<open>
  The loop at the end of \<^verbatim>\<open>make_current_exited\<close> and \<^verbatim>\<open>del_proc\<close>: every child of the process that ends
  becomes a child of process 0; both lookups are unwrapped.
\<close>

fun reparent :: "nat list \<Rightarrow> (nat \<rightharpoonup> 'a proc_rel_scheme) \<Rightarrow> (nat \<rightharpoonup> 'a proc_rel_scheme) res" where
  "reparent [] rm = Inr rm"
| "reparent (i # is) rm =
     bind_res (unwrap (rm i)) (\<lambda>r.
       let rm1 = rm(i \<mapsto> r\<lparr>parent := 0\<rparr>)
       in bind_res (unwrap (rm1 0)) (\<lambda>r0. reparent is (rm1(0 \<mapsto> add_child i r0))))"

text \<open>
  The part of \<^verbatim>\<open>PManager::make_current_exited\<close> and of \<^verbatim>\<open>PThreadManager::del_proc\<close> that works on the
  relation map: the entry of the process is removed (and unwrapped), its parent, if it is there, records
  the exit code, and its children go to process 0.
\<close>

definition end_relations ::
  "nat \<Rightarrow> int \<Rightarrow> (nat \<rightharpoonup> 'a proc_rel_scheme) \<Rightarrow> (nat \<rightharpoonup> 'a proc_rel_scheme) res" where
  "end_relations pid exit_code rm =
     bind_res (unwrap (rm pid)) (\<lambda>current_rel.
       let rm1 = rm(pid := None);
           rm2 = (case rm1 (parent current_rel) of
                    Some parent_rel \<Rightarrow> rm1(parent current_rel \<mapsto> del_child pid exit_code parent_rel)
                  | None \<Rightarrow> rm1)
       in reparent (children current_rel) rm2)"

section \<open>Facts about one process\<close>

lemma del_child_simps [simp]:
  "parent (del_child c e r) = parent r"
  "c \<notin> set (children r) \<Longrightarrow> del_child c e r = r"
  by (auto simp: del_child_def find_index_Some_iff split: option.splits dest: nth_mem)

lemma del_child_member:
  assumes "c \<in> set (children r)" "distinct (children r)"
  shows "set (children (del_child c e r)) = set (children r) - {c}"
    and "distinct (children (del_child c e r))"
    and "dead_children (del_child c e r) = dead_children r @ [(c, e)]"
proof -
  obtain i where "find_index (\<lambda>i. i = c) (children r) = Some i"
    using assms(1) by (metis (mono_tags) find_index_None option.exhaust)
  moreover from this have "i < length (children r)" "children r ! i = c"
    by (simp_all add: find_index_Some_iff)
  ultimately show "set (children (del_child c e r)) = set (children r) - {c}"
    "distinct (children (del_child c e r))"
    "dead_children (del_child c e r) = dead_children r @ [(c, e)]"
    using assms(2) by (auto simp: del_child_def set_remove_nth_distinct)
qed

lemma wait_any_child_dead:
  "dead_children r = ds @ [d] \<Longrightarrow> wait_any_child r = (Some d, r\<lparr>dead_children := ds\<rparr>)"
  by (simp add: wait_any_child_def)

lemma wait_child_dead:
  assumes "(c, e) \<in> set (dead_children r)" "distinct (map fst (dead_children r))"
  shows "\<exists>r'. wait_child c r = (Some (c, e), r') \<and> children r' = children r
    \<and> set (dead_children r') = set (dead_children r) - {(c, e)}"
proof -
  obtain i where i: "find_index (\<lambda>(i, _). i = c) (dead_children r) = Some i"
    using assms(1) by (metis (mono_tags, lifting) case_prod_conv find_index_None option.exhaust)
  then have len: "i < length (dead_children r)" and "fst (dead_children r ! i) = c"
    by (auto simp: find_index_Some_iff split: prod.splits)
  then have "dead_children r ! i = (c, e)"
    using assms by (metis eq_key_imp_eq_value nth_mem prod.collapse)
  with i len show ?thesis
    using assms(2) by (simp add: wait_child_def set_remove_nth_distinct distinct_map)
qed

section \<open>The process tree\<close>

definition par :: "(nat \<rightharpoonup> 'a proc_rel_scheme) \<Rightarrow> nat \<Rightarrow> nat option" where
  "par rm c = map_option parent (rm c)"

text \<open>
  Well-formed relations of the processes created so far, whose ids are below \<open>n\<close>: the children of a
  process are exactly the live processes that name it as their parent; every process but 0 has a live
  parent that is older; process 0 has none; no child is listed twice, and the dead children of
  a process are dead and listed once.
\<close>

definition node_wf :: "nat \<Rightarrow> (nat \<rightharpoonup> 'a proc_rel_scheme) \<Rightarrow> nat \<Rightarrow> 'a proc_rel_scheme \<Rightarrow> bool" where
  "node_wf n rm p r \<longleftrightarrow> p < n \<and>
     (if p = 0 then parent r = pid_any else parent r \<in> dom rm \<and> parent r < p) \<and>
     distinct (children r) \<and> (\<forall>c. c \<in> set (children r) \<longleftrightarrow> par rm c = Some p) \<and>
     distinct (map fst (dead_children r)) \<and>
     (\<forall>d\<in>set (dead_children r). fst d \<notin> dom rm \<and> fst d < n)"

definition tree_wf :: "nat \<Rightarrow> (nat \<rightharpoonup> 'a proc_rel_scheme) \<Rightarrow> bool" where
  "tree_wf n rm \<longleftrightarrow> n \<le> pid_any \<and> (\<forall>p r. rm p = Some r \<longrightarrow> node_wf n rm p r)"

lemma par_None_iff [simp]: "par rm c = None \<longleftrightarrow> c \<notin> dom rm"
  by (simp add: par_def dom_def)

lemma par_Some: "rm c = Some r \<Longrightarrow> par rm c = Some (parent r)"
  by (simp add: par_def)

lemma par_dom: "par rm c = Some p \<Longrightarrow> c \<in> dom rm"
  by (metis option.distinct(1) par_None_iff)

lemma tree_wf_node: "tree_wf n rm \<Longrightarrow> rm p = Some r \<Longrightarrow> node_wf n rm p r"
  by (simp add: tree_wf_def)

lemma node_wf_child: "node_wf n rm p r \<Longrightarrow> c \<in> set (children r) \<longleftrightarrow> par rm c = Some p"
  by (simp add: node_wf_def)

lemma node_wf_parent: "node_wf n rm p r \<Longrightarrow> p \<noteq> 0 \<Longrightarrow> parent r \<in> dom rm \<and> parent r < p"
  by (simp add: node_wf_def)

lemma tree_wf_not_self_child: "tree_wf n rm \<Longrightarrow> rm p = Some r \<Longrightarrow> p \<notin> set (children r)"
  using tree_wf_node [of n rm p r]
  by (cases "p = 0") (auto simp: node_wf_def par_Some)

lemma tree_wf_zero_no_child:
  assumes "tree_wf n rm" "rm p = Some r"
  shows "0 \<notin> set (children r)"
proof
  assume "0 \<in> set (children r)"
  then have "par rm 0 = Some p" using node_wf_child tree_wf_node assms by blast
  then obtain r0 where "rm 0 = Some r0" "parent r0 = p" by (auto simp: par_def)
  then have "p = pid_any" using tree_wf_node [OF assms(1)] by (auto simp: node_wf_def)
  then show False using tree_wf_node [OF assms] assms(1) by (simp add: node_wf_def tree_wf_def)
qed

text \<open>A forest of older parents with any process at all contains process 0.\<close>

lemma tree_wf_root:
  assumes "tree_wf n rm"
  shows "c \<in> dom rm \<Longrightarrow> 0 \<in> dom rm"
proof (induction c rule: less_induct)
  case (less c)
  then obtain r where "rm c = Some r" by blast
  with less node_wf_parent [OF tree_wf_node [OF assms this]] show ?case by (cases "c = 0") blast+
qed

lemma reparent_eq:
  assumes "distinct is" "set is \<subseteq> dom rm" "0 \<notin> set is" "rm 0 = Some r0"
  shows "reparent is rm = Inr (\<lambda>x. if x = 0 then Some (r0\<lparr>children := children r0 @ is\<rparr>)
    else if x \<in> set is then map_option (parent_update (\<lambda>_. 0)) (rm x) else rm x)"
  using assms
proof (induction "is" arbitrary: rm r0)
  case Nil
  then show ?case by (auto simp: fun_eq_iff)
next
  case (Cons i "is")
  then obtain r where r: "rm i = Some r" by auto
  let ?rm = "rm(i \<mapsto> r\<lparr>parent := 0\<rparr>, 0 \<mapsto> add_child i r0)"
  have "reparent is ?rm = Inr (\<lambda>x. if x = 0 then Some ((add_child i r0)\<lparr>children := children (add_child i r0) @ is\<rparr>)
    else if x \<in> set is then map_option (parent_update (\<lambda>_. 0)) (?rm x) else ?rm x)"
    using Cons.prems by (intro Cons.IH) auto
  with Cons.prems r show ?case by (auto simp: add_child_def fun_eq_iff)
qed

lemma reparent_no_root: "is \<noteq> [] \<Longrightarrow> 0 \<notin> dom rm \<Longrightarrow> 0 \<notin> set is \<Longrightarrow> reparent is rm = Inl UnwrapNone"
  by (cases "is") (auto simp: unwrap_def bind_res_def split: option.splits)

text \<open>Creating process \<open>n\<close> as a child of a live process, or process 0 as the first one.\<close>

lemma tree_wf_add:
  assumes wf: "tree_wf n rm" and n: "n < pid_any" and p: "rm p = Some r"
    and new: "children rn = []" "dead_children rn = []" "parent rn = p"
  shows "tree_wf (n + 1) (rm(p \<mapsto> add_child n r, n \<mapsto> rn))"
proof -
  define rm' where "rm' = rm(p \<mapsto> add_child n r, n \<mapsto> rn)"
  have pn: "p < n" and nd: "n \<notin> dom rm"
    using tree_wf_node [OF wf] p by (auto simp: node_wf_def)
  have dom: "dom rm' = insert n (dom rm)" using p by (auto simp: rm'_def)
  have par: "par rm' c = (if c = n then Some p else par rm c)" for c
    using p new pn by (simp add: rm'_def par_def add_child_def)
  have "node_wf (n + 1) rm' q rq" if q: "rm' q = Some rq" for q rq
  proof (cases "q = n")
    case True
    have "par rm c \<noteq> Some n" for c
    proof
      assume "par rm c = Some n"
      then obtain rc where rc: "rm c = Some rc" "parent rc = n" by (auto simp: par_def)
      with tree_wf_node [OF wf rc(1)] nd n show False by (simp add: node_wf_def split: if_splits)
    qed
    moreover have "rq = rn" using True q by (simp add: rm'_def)
    ultimately show ?thesis
      unfolding node_wf_def dom par using True new pn p by auto
  next
    case False
    then obtain r' where r': "rm q = Some r'" "rq = (if q = p then add_child n r' else r')"
      using q p by (auto simp: rm'_def split: if_splits)
    moreover have "par rm n = None" using nd by simp
    ultimately show ?thesis
      using tree_wf_node [OF wf r'(1)] False pn nd
      unfolding node_wf_def dom par by (auto simp: add_child_def simp del: par_None_iff split: if_splits)
  qed
  then show ?thesis using n unfolding rm'_def by (simp add: tree_wf_def)
qed

lemma tree_wf_init:
  "children rn = [] \<Longrightarrow> dead_children rn = [] \<Longrightarrow> parent rn = pid_any \<Longrightarrow> tree_wf 1 [0 \<mapsto> rn]"
  by (auto simp: tree_wf_def node_wf_def par_def)

text \<open>
  Ending process \<open>pid\<close>, not 0, of a well-formed tree never fails; the parent gets the exit code and the
  children go to process 0.
\<close>

lemma end_relations_ok:
  assumes wf: "tree_wf n rm" and r: "rm pid = Some r" and pid: "pid \<noteq> 0"
  obtains rm' rp rp' where "end_relations pid e rm = Inr rm'" "tree_wf n rm'" "dom rm' = dom rm - {pid}"
    "rm (parent r) = Some rp" "rm' (parent r) = Some rp'" "dead_children rp' = dead_children rp @ [(pid, e)]"
proof -
  let ?q = "parent r" and ?cs = "children r"
  obtain rp where rp: "rm ?q = Some rp" and q: "?q < pid"
    using node_wf_parent [OF tree_wf_node [OF wf r] pid] by blast
  have idp: "pid \<in> set (children rp)"
    using node_wf_child [OF tree_wf_node [OF wf rp]] r by (simp add: par_def)
  note del = del_child_member [OF idp, where e = e]
  have dp: "distinct (children rp)" and dcs: "distinct ?cs"
    using tree_wf_node [OF wf rp] tree_wf_node [OF wf r] by (simp_all add: node_wf_def)
  let ?rm2 = "rm(pid := None, ?q \<mapsto> del_child pid e rp)"
  have e1: "end_relations pid e rm = reparent ?cs ?rm2"
    using r rp q by (simp add: end_relations_def)
  have cs: "c \<in> set ?cs \<longleftrightarrow> par rm c = Some pid" for c
    using node_wf_child [OF tree_wf_node [OF wf r]] .
  have "set ?cs \<subseteq> dom rm - {pid}"
    using tree_wf_not_self_child [OF wf r] cs par_dom by blast
  then have "set ?cs \<subseteq> dom ?rm2" by auto
  moreover have "0 \<notin> set ?cs" by (rule tree_wf_zero_no_child [OF wf r])
  moreover obtain r0 where r0: "?rm2 0 = Some r0"
    using tree_wf_root [OF wf, of pid] r pid by fastforce
  ultimately obtain rm' where rep: "reparent ?cs ?rm2 = Inr rm'"
    and rm': "rm' = (\<lambda>x. if x = 0 then Some (r0\<lparr>children := children r0 @ ?cs\<rparr>)
      else if x \<in> set ?cs then map_option (parent_update (\<lambda>_. 0)) (?rm2 x) else ?rm2 x)"
    using dcs reparent_eq by blast
  have dom': "dom rm' = dom rm - {pid}"
    unfolding rm' using r0 pid rp q \<open>set ?cs \<subseteq> dom ?rm2\<close> by (auto split: if_splits)
  have par': "par rm' c = (if c = pid then None else if c \<in> set ?cs then Some 0 else par rm c)" for c
  proof -
    have "par rm pid \<noteq> Some pid" using tree_wf_not_self_child [OF wf r] cs by blast
    then show ?thesis
      using pid r0 rp q \<open>0 \<notin> set ?cs\<close> cs [of c]
      by (cases "c = 0"; cases "rm c"; auto simp: rm' par_def split: if_splits)
  qed
  have "node_wf n rm' p rp'" if p: "rm' p = Some rp'" for p rp'
  proof -
    have pd: "p \<in> dom rm" "p \<noteq> pid" using p dom' by (auto simp: dom_def)
    then obtain r1 where r1: "rm p = Some r1" by blast
    note w = tree_wf_node [OF wf r1]
    let ?r2 = "if p = ?q then del_child pid e r1 else r1"
    have rp': "rp' = (if p = 0 then ?r2\<lparr>children := children ?r2 @ ?cs\<rparr>
        else if p \<in> set ?cs then ?r2\<lparr>parent := 0\<rparr> else ?r2)"
      using p r1 rp r0 pd by (auto simp: rm' split: if_splits)
    have r2: "distinct (children ?r2)" "c \<in> set (children ?r2) \<longleftrightarrow> c \<noteq> pid \<and> par rm c = Some p"
      "dead_children ?r2 = dead_children r1 @ (if p = ?q then [(pid, e)] else [])" for c
      using w r1 rp r dp del by (cases "p = ?q"; auto simp: node_wf_def par_Some)+
    have f: "children rp' = children ?r2 @ (if p = 0 then ?cs else [])"
      "dead_children rp' = dead_children ?r2" "parent rp' = (if p \<in> set ?cs then 0 else parent r1)"
      unfolding rp' using \<open>0 \<notin> set ?cs\<close> by auto
    have "p \<noteq> 0 \<Longrightarrow> p \<notin> set ?cs \<Longrightarrow> parent r1 \<noteq> pid" using cs [of p] r1 by (simp add: par_def)
    moreover have "0 \<in> dom rm'" using r0 by (simp add: rm' dom_def)
    ultimately have "if p = 0 then parent rp' = pid_any else parent rp' \<in> dom rm' \<and> parent rp' < p"
      using w \<open>0 \<notin> set ?cs\<close> by (auto simp: node_wf_def f dom' split: if_splits)
    moreover have "distinct (children rp')"
      unfolding f using r2 dcs pd cs by auto
    moreover have "c \<in> set (children rp') \<longleftrightarrow> par rm' c = Some p" for c
      unfolding f par' using r2(2) pd cs [of c] tree_wf_not_self_child [OF wf r] by auto
    moreover have "pid \<notin> fst ` set (dead_children r1)" "pid < n"
      using w r tree_wf_node [OF wf r] by (auto simp: node_wf_def)
    ultimately show ?thesis
      using w by (auto simp: node_wf_def f r2 dom')
  qed
  then have wf': "tree_wf n rm'" using wf by (simp add: tree_wf_def)
  have "\<exists>rp'. rm' ?q = Some rp' \<and> dead_children rp' = dead_children rp @ [(pid, e)]"
    using rp r0 del dp q by (auto simp: rm' split: if_splits)
  then show ?thesis using that e1 rep wf' dom' rp by metis
qed

text \<open>Consuming the dead children of a process keeps the tree.\<close>

lemma tree_wf_shrink_dead:
  assumes wf: "tree_wf n rm" and r: "rm p = Some r"
    and "set ds \<subseteq> set (dead_children r)" "distinct (map fst ds)"
  shows "tree_wf n (rm(p \<mapsto> r\<lparr>dead_children := ds\<rparr>))" (is "tree_wf n ?rm")
proof -
  have "par ?rm = par rm" "dom ?rm = dom rm" using r by (auto simp: par_def)
  then show ?thesis
    using assms tree_wf_node [OF wf] by (fastforce simp: tree_wf_def node_wf_def)
qed

lemma tree_wf_wait_any_child:
  "tree_wf n rm \<Longrightarrow> rm p = Some r \<Longrightarrow> tree_wf n (rm(p \<mapsto> snd (wait_any_child r)))"
  using tree_wf_node [of n rm p r]
  by (auto simp: wait_any_child_def node_wf_def map_butlast distinct_butlast fun_upd_idem
      dest: in_set_butlastD intro!: tree_wf_shrink_dead)

lemma tree_wf_wait_child:
  "tree_wf n rm \<Longrightarrow> rm p = Some r \<Longrightarrow> tree_wf n (rm(p \<mapsto> snd (wait_child c r)))"
  using tree_wf_node [of n rm p r]
  by (auto simp: wait_child_def node_wf_def map_remove_nth find_index_Some_iff fun_upd_idem
      split: option.splits intro!: tree_wf_shrink_dead distinct_remove_nth
      dest: set_remove_nth_subset [THEN subsetD])

text \<open>Ids that are skipped, and a root without children, which is the only process.\<close>

lemma tree_wf_mono: "tree_wf n rm \<Longrightarrow> n \<le> n' \<Longrightarrow> n' \<le> pid_any \<Longrightarrow> tree_wf n' rm"
  by (fastforce simp: tree_wf_def node_wf_def)

lemma tree_wf_lone_root:
  assumes wf: "tree_wf n rm" and r: "rm 0 = Some r" "children r = []"
  shows "dom rm = {0}"
proof -
  have "c = 0" if "c \<in> dom rm" for c
    using that
  proof (induction c rule: less_induct)
    case (less c)
    then obtain rc where rc: "rm c = Some rc" by blast
    show ?case
    proof (rule ccontr)
      assume "c \<noteq> 0"
      then have "parent rc \<in> dom rm" "parent rc < c" using node_wf_parent [OF tree_wf_node [OF wf rc]] by simp_all
      then have "parent rc = 0" using less.IH by blast
      then have "c \<in> set (children r)" using node_wf_child [OF tree_wf_node [OF wf r(1)]] rc by (simp add: par_def)
      then show False using r(2) by simp
    qed
  qed
  then show ?thesis using r(1) by blast
qed

lemma end_relations_root:
  assumes wf: "tree_wf n rm" and r: "rm 0 = Some r" "children r = []"
  shows "end_relations 0 e rm = Inr Map.empty"
proof -
  have "dom (rm(0 := None)) = {}" using tree_wf_lone_root [OF assms] by simp
  then have rm: "rm(0 := None) = Map.empty" by (simp only: dom_eq_empty_conv)
  then show ?thesis using r by (simp add: end_relations_def)
qed

text \<open>Ending process 0 while it has children panics: they would have to become children of process 0.\<close>

lemma end_relations_root_panics:
  assumes wf: "tree_wf n rm" and r: "rm 0 = Some r" "children r \<noteq> []"
  shows "end_relations 0 e rm = Inl UnwrapNone"
proof -
  have "parent r = pid_any" "n \<le> pid_any" using tree_wf_node [OF wf r(1)] wf by (simp_all add: node_wf_def tree_wf_def)
  moreover from this have "rm pid_any = None"
    using tree_wf_node [OF wf] by (metis leD node_wf_def not_None_eq)
  ultimately have "end_relations 0 e rm = reparent (children r) (rm(0 := None))"
    using r by (simp add: end_relations_def)
  also have "\<dots> = Inl UnwrapNone"
    using r tree_wf_zero_no_child [OF wf r(1)] by (intro reparent_no_root) simp_all
  finally show ?thesis .
qed

end
