(* ===== verification/Proc_Manager.thy ===== *)
theory Proc_Manager
  imports Task_Relations
begin

text \<open>
  \<^verbatim>\<open>PManager\<close> of tg-task-manage (\<^verbatim>\<open>proc_manage.rs\<close>): the process tree, a manager of the process
  objects that is also their scheduler, and the process that runs.

  The type parameter \<^verbatim>\<open>MP: Manage<P, ProcId> + Schedule<ProcId>\<close> is a record of the trait methods
  (\<open>manage_ops\<close>, \<open>sched_ops\<close>; a \<^verbatim>\<open>get_mut\<close> is a read and a write back). What the manager relies on is the locale
  \<open>process_scheduler\<close>; every scheduler of the repository interprets it (\<^verbatim>\<open>Stride_Scheduler\<close>,
  \<^verbatim>\<open>Fifo_Scheduler\<close>). Inside the locale the operations are shown to keep the invariant \<open>pm_inv\<close>: the
  process objects are those of the tree, the tree is well formed, and every process but the one that
  runs is in the ready queue exactly once.
\<close>

section \<open>The interface of the scheduler\<close>

record ('m, 'p) manage_ops =
  op_insert :: "nat \<Rightarrow> 'p \<Rightarrow> 'm \<Rightarrow> 'm"
  op_delete :: "nat \<Rightarrow> 'm \<Rightarrow> 'm"
  op_get :: "nat \<Rightarrow> 'm \<Rightarrow> 'p option"
  op_set :: "nat \<Rightarrow> 'p \<Rightarrow> 'm \<Rightarrow> 'm"

record ('m, 'p) sched_ops = "('m, 'p) manage_ops" +
  op_add :: "nat \<Rightarrow> 'm \<Rightarrow> 'm res"
  op_fetch :: "'m \<Rightarrow> (nat option \<times> 'm) res"

text \<open>
  \<open>tasks_of\<close> is the table of task objects and \<open>ready\<close> the multiset of queued ids. An id must have an
  object when it is queued, is not queued when its object is deleted or written, and \<open>fetchable\<close> says
  that the bookkeeping of the next \<^verbatim>\<open>fetch\<close> stays inside the machine integers.
\<close>

locale process_scheduler =
  fixes ops :: "('m, 'p) sched_ops"
    and swf :: "'m \<Rightarrow> bool"
    and task_ok :: "'p \<Rightarrow> bool"
    and fetchable :: "'m \<Rightarrow> bool"
    and tasks_of :: "'m \<Rightarrow> nat \<rightharpoonup> 'p"
    and ready :: "'m \<Rightarrow> nat multiset"
  assumes get: "op_get ops i m = tasks_of m i"
    and insert: "swf m \<Longrightarrow> i \<notin># ready m \<Longrightarrow> task_ok t \<Longrightarrow>
      swf (op_insert ops i t m) \<and> tasks_of (op_insert ops i t m) = (tasks_of m)(i \<mapsto> t) \<and>
      ready (op_insert ops i t m) = ready m"
    and set: "swf m \<Longrightarrow> i \<notin># ready m \<Longrightarrow> i \<in> dom (tasks_of m) \<Longrightarrow> task_ok t \<Longrightarrow>
      swf (op_set ops i t m) \<and> tasks_of (op_set ops i t m) = (tasks_of m)(i \<mapsto> t) \<and>
      ready (op_set ops i t m) = ready m"
    and delete: "swf m \<Longrightarrow> i \<notin># ready m \<Longrightarrow>
      swf (op_delete ops i m) \<and> tasks_of (op_delete ops i m) = (tasks_of m)(i := None) \<and>
      ready (op_delete ops i m) = ready m"
    and add: "swf m \<Longrightarrow> i \<in> dom (tasks_of m) \<Longrightarrow> i \<notin># ready m \<Longrightarrow>
      \<exists>m'. op_add ops i m = Inr m' \<and> swf m' \<and> tasks_of m' = tasks_of m \<and> ready m' = add_mset i (ready m)"
    and fetch_empty: "swf m \<Longrightarrow> ready m = {#} \<Longrightarrow> op_fetch ops m = Inr (None, m)"
    and fetch: "swf m \<Longrightarrow> ready m \<noteq> {#} \<Longrightarrow> set_mset (ready m) \<subseteq> dom (tasks_of m) \<Longrightarrow> fetchable m \<Longrightarrow>
      \<exists>i m'. op_fetch ops m = Inr (Some i, m') \<and> i \<in># ready m \<and> swf m' \<and>
        dom (tasks_of m') = dom (tasks_of m) \<and> ready m' = ready m - {#i#}"

section \<open>The process manager\<close>

record 'm pmanager =
  rel_map :: "nat \<rightharpoonup> proc_rel"
  manager :: "'m option"
  current :: "nat option"

definition pm_new :: "'m pmanager" where
  "pm_new = \<lparr>rel_map = Map.empty, manager = None, current = None\<rparr>"

definition pm_find_next :: "('m, 'p) sched_ops \<Rightarrow> 'm pmanager \<Rightarrow> ('p option \<times> 'm pmanager) res" where
  "pm_find_next ops pm =
     bind_res (unwrap (manager pm)) (\<lambda>m.
     bind_res (op_fetch ops m) (\<lambda>(r, m').
       let pm' = pm\<lparr>manager := Some m'\<rparr>
       in case r of
            Some i \<Rightarrow>
              (case op_get ops i m' of
                 Some task \<Rightarrow> Inr (Some task, pm'\<lparr>current := Some i\<rparr>)
               | None \<Rightarrow> Inr (None, pm'))
          | None \<Rightarrow> Inr (None, pm')))"

definition pm_set_manager :: "'m \<Rightarrow> 'm pmanager \<Rightarrow> 'm pmanager" where
  "pm_set_manager m pm = pm\<lparr>manager := Some m\<rparr>"

definition pm_make_current_suspend :: "('m, 'p) sched_ops \<Rightarrow> 'm pmanager \<Rightarrow> 'm pmanager res" where
  "pm_make_current_suspend ops pm =
     bind_res (unwrap (current pm)) (\<lambda>i.
     bind_res (unwrap (manager pm)) (\<lambda>m.
     bind_res (op_add ops i m) (\<lambda>m'.
       Inr (pm\<lparr>manager := Some m', current := None\<rparr>))))"

definition pm_make_current_exited :: "('m, 'p) sched_ops \<Rightarrow> int \<Rightarrow> 'm pmanager \<Rightarrow> 'm pmanager res" where
  "pm_make_current_exited ops exit_code pm =
     bind_res (unwrap (current pm)) (\<lambda>i.
     bind_res (unwrap (manager pm)) (\<lambda>m.
     bind_res (end_relations i exit_code (rel_map pm)) (\<lambda>rm'.
       Inr (pm\<lparr>rel_map := rm', manager := Some (op_delete ops i m), current := None\<rparr>))))"

definition pm_add :: "('m, 'p) sched_ops \<Rightarrow> nat \<Rightarrow> 'p \<Rightarrow> nat \<Rightarrow> 'm pmanager \<Rightarrow> 'm pmanager res" where
  "pm_add ops i task parent_pid pm =
     bind_res (unwrap (manager pm)) (\<lambda>m.
     bind_res (op_add ops i (op_insert ops i task m)) (\<lambda>m'.
     bind_res
       (if parent_pid \<noteq> pid_any
        then bind_res (unwrap (rel_map pm parent_pid)) (\<lambda>parent_relation.
               Inr ((rel_map pm)(parent_pid \<mapsto> add_child i parent_relation)))
        else Inr (rel_map pm)) (\<lambda>rm.
       Inr (pm\<lparr>rel_map := rm(i \<mapsto> proc_rel_new parent_pid), manager := Some m'\<rparr>))))"

definition pm_current :: "('m, 'p) sched_ops \<Rightarrow> 'm pmanager \<Rightarrow> 'p option res" where
  "pm_current ops pm =
     bind_res (unwrap (current pm)) (\<lambda>i.
     bind_res (unwrap (manager pm)) (\<lambda>m. Inr (op_get ops i m)))"

definition pm_get_task :: "('m, 'p) sched_ops \<Rightarrow> nat \<Rightarrow> 'm pmanager \<Rightarrow> 'p option res" where
  "pm_get_task ops i pm = bind_res (unwrap (manager pm)) (\<lambda>m. Inr (op_get ops i m))"

text \<open>The write through the reference that \<^verbatim>\<open>current\<close> returns.\<close>

definition pm_write_current :: "('m, 'p) sched_ops \<Rightarrow> 'p \<Rightarrow> 'm pmanager \<Rightarrow> 'm pmanager res" where
  "pm_write_current ops task pm =
     bind_res (unwrap (current pm)) (\<lambda>i.
     bind_res (unwrap (manager pm)) (\<lambda>m. Inr (pm\<lparr>manager := Some (op_set ops i task m)\<rparr>)))"

definition pm_wait :: "nat \<Rightarrow> 'm pmanager \<Rightarrow> ((nat \<times> int) option \<times> 'm pmanager) res" where
  "pm_wait child_pid pm =
     bind_res (unwrap (current pm)) (\<lambda>i.
     bind_res (unwrap (rel_map pm i)) (\<lambda>current_rel.
       let (r, rel') = (if child_pid = pid_any then wait_any_child current_rel
                        else wait_child child_pid current_rel)
       in Inr (r, pm\<lparr>rel_map := (rel_map pm)(i \<mapsto> rel')\<rparr>)))"

section \<open>The invariant\<close>

definition pm_inv :: "('m \<Rightarrow> bool) \<Rightarrow> ('m \<Rightarrow> nat \<rightharpoonup> 'p) \<Rightarrow> ('m \<Rightarrow> nat multiset) \<Rightarrow> nat \<Rightarrow> 'm pmanager \<Rightarrow> bool" where
  "pm_inv swf tasks_of ready n pm \<longleftrightarrow> tree_wf n (rel_map pm) \<and> finite (dom (rel_map pm)) \<and>
     (\<exists>m. manager pm = Some m \<and> swf m \<and> dom (tasks_of m) = dom (rel_map pm) \<and>
        ready m = mset_set (dom (rel_map pm) - set_option (current pm)) \<and>
        set_option (current pm) \<subseteq> dom (rel_map pm))"

context process_scheduler
begin

abbreviation inv :: "nat \<Rightarrow> 'm pmanager \<Rightarrow> bool" where
  "inv \<equiv> pm_inv swf tasks_of ready"

lemma pm_invE:
  assumes "inv n pm"
  obtains m where "manager pm = Some m" "swf m" "dom (tasks_of m) = dom (rel_map pm)"
    "ready m = mset_set (dom (rel_map pm) - set_option (current pm))"
    "set_option (current pm) \<subseteq> dom (rel_map pm)" "tree_wf n (rel_map pm)" "finite (dom (rel_map pm))"
    "finite (dom (rel_map pm) - set_option (current pm))"
  using assms by (auto simp: pm_inv_def)

lemma find_next_inv:
  assumes I: "inv n pm" and c: "current pm = None"
    and f: "\<And>m. manager pm = Some m \<Longrightarrow> fetchable m"
  shows "if dom (rel_map pm) = {} then pm_find_next ops pm = Inr (None, pm)
    else \<exists>i task pm'. pm_find_next ops pm = Inr (Some task, pm') \<and> inv n pm' \<and>
      rel_map pm' = rel_map pm \<and> i \<in> dom (rel_map pm) \<and> current pm' = Some i"
proof -
  obtain m where m: "manager pm = Some m" "swf m" "dom (tasks_of m) = dom (rel_map pm)"
      "ready m = mset_set (dom (rel_map pm))" "finite (dom (rel_map pm))"
    using pm_invE [OF I] c by (metis Diff_empty option.set(1))
  show ?thesis
  proof (cases "dom (rel_map pm) = {}")
    case True
    then have "ready m = {#}" using m by simp
    then have "op_fetch ops m = Inr (None, m)" using fetch_empty m by simp
    then show ?thesis using True m(1) by (simp add: pm_find_next_def)
  next
    case False
    then have "ready m \<noteq> {#}" "set_mset (ready m) \<subseteq> dom (tasks_of m)" using m by (simp_all add: mset_set_empty_iff)
    from fetch [OF m(2) this f [OF m(1)]] obtain i m' where
      i: "op_fetch ops m = Inr (Some i, m')" "i \<in># ready m" "swf m'"
      "dom (tasks_of m') = dom (tasks_of m)" "ready m' = ready m - {#i#}" by blast
    then have id: "i \<in> dom (rel_map pm)" using m by simp
    then obtain task where "op_get ops i m' = Some task" using i m get by (metis domD)
    then have "pm_find_next ops pm = Inr (Some task, pm\<lparr>manager := Some m', current := Some i\<rparr>)"
      using i m by (simp add: pm_find_next_def)
    moreover have "inv n (pm\<lparr>manager := Some m', current := Some i\<rparr>)"
      using I i m id by (auto simp: pm_inv_def mset_set_Diff)
    ultimately show ?thesis using False id by auto
  qed
qed

lemma suspend_inv:
  assumes I: "inv n pm" and c: "current pm = Some i"
  shows "\<exists>pm'. pm_make_current_suspend ops pm = Inr pm' \<and> inv n pm' \<and>
    rel_map pm' = rel_map pm \<and> current pm' = None"
proof -
  obtain m where m: "manager pm = Some m" "swf m" "dom (tasks_of m) = dom (rel_map pm)"
      "ready m = mset_set (dom (rel_map pm) - {i})" "i \<in> dom (rel_map pm)" "finite (dom (rel_map pm))"
    using pm_invE [OF I] c by (metis insert_subset option.simps(15))
  then have "i \<notin># ready m" "i \<in> dom (tasks_of m)" by simp_all
  from add [OF m(2) this(2,1)] obtain m' where m': "op_add ops i m = Inr m'" "swf m'"
    "tasks_of m' = tasks_of m" "ready m' = add_mset i (ready m)" by blast
  moreover have "add_mset i (mset_set (dom (rel_map pm) - {i})) = mset_set (dom (rel_map pm))"
    using m by (metis mset_set.remove)
  ultimately show ?thesis
    using I m c by (auto simp: pm_make_current_suspend_def pm_inv_def)
qed

lemma exited_inv:
  assumes I: "inv n pm" and c: "current pm = Some i" and i: "i \<noteq> 0"
  shows "\<exists>pm' r rp rp'. pm_make_current_exited ops e pm = Inr pm' \<and> inv n pm' \<and> current pm' = None \<and>
    dom (rel_map pm') = dom (rel_map pm) - {i} \<and> rel_map pm i = Some r \<and>
    rel_map pm (parent r) = Some rp \<and> rel_map pm' (parent r) = Some rp' \<and>
    dead_children rp' = dead_children rp @ [(i, e)]"
proof -
  obtain m where m: "manager pm = Some m" "swf m" "dom (tasks_of m) = dom (rel_map pm)"
      "ready m = mset_set (dom (rel_map pm) - {i})" "i \<in> dom (rel_map pm)" "finite (dom (rel_map pm))"
      "tree_wf n (rel_map pm)"
    using pm_invE [OF I] c by (metis insert_subset option.simps(15))
  then obtain r where r: "rel_map pm i = Some r" by blast
  obtain rm' rp rp' where e: "end_relations i e (rel_map pm) = Inr rm'" "tree_wf n rm'"
    "dom rm' = dom (rel_map pm) - {i}" "rel_map pm (parent r) = Some rp" "rm' (parent r) = Some rp'"
    "dead_children rp' = dead_children rp @ [(i, e)]"
    using end_relations_ok [OF m(7) r i] by blast
  have d: "swf (op_delete ops i m)" "tasks_of (op_delete ops i m) = (tasks_of m)(i := None)"
    "ready (op_delete ops i m) = ready m"
    using delete [OF m(2), of i] m by simp_all
  let ?pm = "pm\<lparr>rel_map := rm', manager := Some (op_delete ops i m), current := None\<rparr>"
  have "pm_make_current_exited ops e pm = Inr ?pm"
    using c m(1) e(1) by (simp add: pm_make_current_exited_def)
  moreover have "inv n ?pm" using d e m by (simp add: pm_inv_def)
  ultimately show ?thesis using r e by (intro exI [of _ ?pm]) auto
qed

text \<open>A new process \<open>n\<close>, child of a live process.\<close>

lemma add_inv:
  assumes I: "inv n pm" and p: "p \<in> dom (rel_map pm)" and t: "task_ok t" and n: "n < pid_any"
  shows "\<exists>pm'. pm_add ops n t p pm = Inr pm' \<and> inv (n + 1) pm' \<and> current pm' = current pm \<and>
    dom (rel_map pm') = Set.insert n (dom (rel_map pm))"
proof -
  obtain m where m: "manager pm = Some m" "swf m" "dom (tasks_of m) = dom (rel_map pm)"
      "ready m = mset_set (dom (rel_map pm) - set_option (current pm))" "finite (dom (rel_map pm))"
      "finite (dom (rel_map pm) - set_option (current pm))"
      "set_option (current pm) \<subseteq> dom (rel_map pm)"  and wft: "tree_wf n (rel_map pm)"
    using pm_invE [OF I] by metis
  obtain r where r: "rel_map pm p = Some r" using p by blast
  have pn: "p < n" and nd: "n \<notin> dom (rel_map pm)" "n \<notin> set_option (current pm)"
    using tree_wf_node [OF wft r] tree_wf_node [OF wft] m(7) by (auto simp: node_wf_def dest!: subsetD)
  then have nr: "n \<notin># ready m" using m by simp
  note ins = insert [OF m(2) nr t]
  then obtain m' where m': "op_add ops n (op_insert ops n t m) = Inr m'" "swf m'"
    "tasks_of m' = (tasks_of m)(n \<mapsto> t)" "ready m' = add_mset n (ready m)"
    using add [of "op_insert ops n t m" n] nr by auto
  let ?rm = "(rel_map pm)(p \<mapsto> add_child n r, n \<mapsto> proc_rel_new p)"
  let ?pm = "pm\<lparr>rel_map := ?rm, manager := Some m'\<rparr>"
  have "p \<noteq> pid_any" using pn n by simp
  then have "pm_add ops n t p pm = Inr ?pm"
    using m(1) m'(1) r by (simp add: pm_add_def)
  moreover have "tree_wf (n + 1) ?rm"
    using tree_wf_add [OF wft n r, of "proc_rel_new p"] by (simp add: proc_rel_new_def)
  moreover have dom: "dom ?rm = Set.insert n (dom (rel_map pm))" using r by auto
  moreover have "mset_set (Set.insert n (dom (rel_map pm)) - set_option (current pm)) =
      add_mset n (mset_set (dom (rel_map pm) - set_option (current pm)))"
    using nd m(6) by (simp add: insert_Diff_if)
  ultimately show ?thesis
    using m m' by (intro exI [of _ ?pm]) (auto simp: pm_inv_def)
qed

lemma wait_inv:
  assumes I: "inv n pm" and c: "current pm = Some i"
  shows "\<exists>r pm'. pm_wait q pm = Inr (r, pm') \<and> inv n pm' \<and> current pm' = Some i \<and>
    dom (rel_map pm') = dom (rel_map pm)"
proof -
  have i: "i \<in> dom (rel_map pm)" and wft: "tree_wf n (rel_map pm)"
    using pm_invE [OF I] c by (metis insert_subset option.simps(15))+
  then obtain r where r: "rel_map pm i = Some r" by blast
  define w where "w = (if q = pid_any then wait_any_child r else wait_child q r)"
  let ?pm = "pm\<lparr>rel_map := (rel_map pm)(i \<mapsto> snd w)\<rparr>"
  have "pm_wait q pm = Inr (fst w, ?pm)"
    using c r by (simp add: pm_wait_def w_def split: prod.split)
  moreover have "tree_wf n ((rel_map pm)(i \<mapsto> snd w))"
    using tree_wf_wait_any_child [OF wft r] tree_wf_wait_child [OF wft r] by (simp add: w_def)
  moreover have "dom ((rel_map pm)(i \<mapsto> snd w)) = dom (rel_map pm)" using r by auto
  ultimately show ?thesis using I c by (intro exI [of _ "fst w"] exI [of _ ?pm]) (simp add: pm_inv_def)
qed

lemma write_current_inv:
  assumes I: "inv n pm" and c: "current pm = Some i" and t: "task_ok t"
  shows "\<exists>pm'. pm_write_current ops t pm = Inr pm' \<and> inv n pm' \<and> current pm' = Some i \<and>
    rel_map pm' = rel_map pm \<and> pm_current ops pm' = Inr (Some t)"
proof -
  obtain m where m: "manager pm = Some m" "swf m" "dom (tasks_of m) = dom (rel_map pm)"
      "ready m = mset_set (dom (rel_map pm) - {i})" "i \<in> dom (rel_map pm)" "finite (dom (rel_map pm))"
    using pm_invE [OF I] c by (metis insert_subset option.simps(15))
  then have "i \<notin># ready m" "i \<in> dom (tasks_of m)" by simp_all
  note s = set [OF m(2) this t]
  then show ?thesis
    using I m c by (auto simp: pm_write_current_def pm_inv_def pm_current_def get)
qed

lemma current_some:
  assumes "inv n pm" "current pm = Some i"
  shows "\<exists>t. pm_current ops pm = Inr (Some t)"
  using pm_invE [OF assms(1)] assms(2)
  by (metis bind_res_simps(2) domD get insert_subset option.simps(15) pm_current_def unwrap_simps(2))

text \<open>
  The exit code of a child reaches the parent that waits for it: after the child has ended and some
  process of the tree, its parent, runs, waiting for that child returns the code.
\<close>

lemma exit_then_wait:
  assumes I: "inv n pm" and c: "current pm = Some i" and i: "i \<noteq> 0"
    and r: "rel_map pm i = Some r" and ex: "pm_make_current_exited ops e pm = Inr pm'"
  shows "\<exists>pm''. pm_wait i (pm'\<lparr>current := Some (parent r)\<rparr>) = Inr (Some (i, e), pm'') \<and>
    (\<forall>rp. rel_map pm'' (parent r) = Some rp \<longrightarrow> i \<notin> fst ` set (dead_children rp) \<and> i \<notin> set (children rp))"
proof -
  obtain rp' ds where p: "inv n pm'" "dom (rel_map pm') = dom (rel_map pm) - {i}"
    "rel_map pm' (parent r) = Some rp'" "dead_children rp' = ds @ [(i, e)]"
    using exited_inv [OF I c i, of e] ex r by auto
  have "tree_wf n (rel_map pm')" "tree_wf n (rel_map pm)" using p(1) I by (simp_all add: pm_inv_def)
  then have nw: "node_wf n (rel_map pm') (parent r) rp'" using tree_wf_node p(3) by blast
  then have d: "distinct (map fst (dead_children rp'))" by (simp add: node_wf_def)
  have "(i, e) \<in> set (dead_children rp')" using p by simp
  from wait_child_dead [OF this d] obtain r' where
    r': "wait_child i rp' = (Some (i, e), r')" "children r' = children rp'"
      "set (dead_children r') = set (dead_children rp') - {(i, e)}" by blast
  have "i < n" "n \<le> pid_any"
    using r tree_wf_node \<open>tree_wf n (rel_map pm)\<close> by (auto simp: node_wf_def tree_wf_def)
  then have "i \<noteq> pid_any" by simp
  moreover have "i \<notin> set (children rp')"
    using node_wf_child [OF nw, of i] p(2) by (metis DiffE par_dom singletonI)
  moreover have "i \<notin> fst ` set (dead_children r')"
    using d p(4) r'(3) by (auto dest: image_eqI [of _ fst])
  ultimately show ?thesis
    using p r' by (auto simp: pm_wait_def)
qed

text \<open>Process 0 cannot end while it has children: its own relations are gone when they are moved to it.\<close>

lemma exit_zero_panics:
  assumes I: "inv n pm" and c: "current pm = Some 0" and r: "rel_map pm 0 = Some r" "children r \<noteq> []"
  shows "pm_make_current_exited ops e pm = Inl UnwrapNone"
proof -
  have "end_relations 0 e (rel_map pm) = Inl UnwrapNone"
    by (rule end_relations_root_panics [of n]) (use I r in \<open>simp_all add: pm_inv_def\<close>)
  moreover obtain m where "manager pm = Some m" using I by (auto simp: pm_inv_def)
  ultimately show ?thesis using c by (simp add: pm_make_current_exited_def)
qed

text \<open>Ending the current process either works or is the panic of process 0 with children.\<close>

lemma exited_cases:
  assumes I: "inv n pm" and c: "current pm = Some i"
  shows "pm_make_current_exited ops e pm = Inl UnwrapNone \<and> i = 0 \<and> dom (rel_map pm) \<noteq> {0} \<or>
    (\<exists>pm'. pm_make_current_exited ops e pm = Inr pm' \<and> inv n pm' \<and> current pm' = None \<and>
       dom (rel_map pm') = dom (rel_map pm) - {i})"
proof (cases "i = 0")
  case False
  obtain pm' where "pm_make_current_exited ops e pm = Inr pm'" "inv n pm'" "current pm' = None"
    "dom (rel_map pm') = dom (rel_map pm) - {i}"
    using exited_inv [OF I c False, of e] by (elim exE conjE)
  then show ?thesis by simp
next
  case True
  obtain m where m: "manager pm = Some m" "swf m" "dom (tasks_of m) = dom (rel_map pm)"
      "ready m = mset_set (dom (rel_map pm) - {i})" "i \<in> dom (rel_map pm)" "tree_wf n (rel_map pm)"
    using pm_invE [OF I] c by (metis insert_subset option.simps(15))
  then obtain r where r: "rel_map pm 0 = Some r" using True by blast
  show ?thesis
  proof (cases "children r = []")
    case ch: False
    then obtain c where "c \<in> set (children r)" by fastforce
    then have "par (rel_map pm) c = Some 0" using node_wf_child [OF tree_wf_node [OF m(6) r]] by blast
    then have "c \<in> dom (rel_map pm)" by (rule par_dom)
    moreover have "c \<noteq> 0" using tree_wf_zero_no_child [OF m(6) r] \<open>c \<in> set (children r)\<close> by metis
    ultimately have "dom (rel_map pm) \<noteq> {0}" by (metis singletonD)
    then show ?thesis using exit_zero_panics [OF I _ r ch, of e] c True by simp
  next
    case ch: True
    have lone: "dom (rel_map pm) = {0}" by (rule tree_wf_lone_root [OF m(6) r ch])
    have d: "swf (op_delete ops 0 m)" "tasks_of (op_delete ops 0 m) = (tasks_of m)(0 := None)"
      "ready (op_delete ops 0 m) = ready m"
      using delete [OF m(2), of 0] m(4) True lone by simp_all
    let ?pm = "pm\<lparr>rel_map := Map.empty, manager := Some (op_delete ops 0 m), current := None\<rparr>"
    have "pm_make_current_exited ops e pm = Inr ?pm"
      using c m(1) True end_relations_root [OF m(6) r ch] by (simp add: pm_make_current_exited_def)
    moreover have "dom ((tasks_of m)(0 := None)) = {}" using m(3) lone by simp
    then have "(tasks_of m)(0 := None) = Map.empty" by (simp only: dom_eq_empty_conv)
    then have "inv n ?pm" using d m lone True by (auto simp: pm_inv_def tree_wf_def)
    ultimately show ?thesis using lone True by (intro disjI2 exI [of _ ?pm]) simp
  qed
qed

lemma inv_mono: "inv n pm \<Longrightarrow> n \<le> n' \<Longrightarrow> n' \<le> pid_any \<Longrightarrow> inv n' pm"
  unfolding pm_inv_def using tree_wf_mono by blast

text \<open>The first process, with no parent, in an empty manager.\<close>

lemma first_inv:
  assumes "swf m" "ready m = {#}" "tasks_of m = Map.empty" "task_ok t"
  shows "\<exists>pm'. pm_add ops 0 t pid_any (pm_set_manager m pm_new) = Inr pm' \<and> inv 1 pm' \<and> current pm' = None \<and>
    dom (rel_map pm') = {0}"
proof -
  have "swf (op_insert ops 0 t m)" "tasks_of (op_insert ops 0 t m) = [0 \<mapsto> t]" "ready (op_insert ops 0 t m) = {#}"
    using insert [OF assms(1) _ assms(4), of 0] assms by simp_all
  then obtain m' where m': "op_add ops 0 (op_insert ops 0 t m) = Inr m'" "swf m'" "tasks_of m' = [0 \<mapsto> t]"
    "ready m' = {#0#}"
    using add [of "op_insert ops 0 t m" 0] by auto
  let ?pm = "\<lparr>rel_map = [0 \<mapsto> proc_rel_new pid_any], manager = Some m', current = None\<rparr>"
  have "pm_add ops 0 t pid_any (pm_set_manager m pm_new) = Inr ?pm"
    using m'(1) by (simp add: pm_add_def pm_set_manager_def pm_new_def)
  moreover have "inv 1 ?pm"
    using m' tree_wf_init [of "proc_rel_new pid_any"] by (simp add: pm_inv_def proc_rel_new_def)
  ultimately show ?thesis by auto
qed

end

end
