(* ===== verification/Binary_Heap.thy ===== *)
theory Binary_Heap
  imports Rcore_Prelude
begin

text \<open>
  \<^verbatim>\<open>BinaryHeap\<close> of the Rust standard library, as far as the stride scheduler uses it: \<^verbatim>\<open>push\<close> and
  \<^verbatim>\<open>pop\<close> on the backing vector, with the order of the elements as a parameter \<open>le\<close>. The algorithm is
  kept (and not only its contract), so that the choice among elements of equal priority is the one the
  kernel makes. Both operations keep the heap order and the elements, and \<^verbatim>\<open>pop\<close> returns a greatest one.
\<close>

section \<open>Operations\<close>

text \<open>\<^verbatim>\<open>sift_up\<close>: the vector has a hole at \<open>pos\<close>, into which \<open>x\<close> goes.\<close>

function sift_up :: "('a \<Rightarrow> 'a \<Rightarrow> bool) \<Rightarrow> 'a list \<Rightarrow> nat \<Rightarrow> 'a \<Rightarrow> 'a list" where
  "sift_up le xs pos x =
     (if pos = 0 then xs[pos := x]
      else let parent = (pos - 1) div 2
           in if le x (xs ! parent) then xs[pos := x]
              else sift_up le (xs[pos := xs ! parent]) parent x)"
  by pat_completeness auto
termination by (relation "measure (\<lambda>(_, _, pos, _). pos)") auto

text \<open>\<^verbatim>\<open>sift_down_to_bottom\<close>: the hole moves to a leaf along the greater children.\<close>

function sift_down :: "('a \<Rightarrow> 'a \<Rightarrow> bool) \<Rightarrow> 'a list \<Rightarrow> nat \<Rightarrow> 'a list \<times> nat" where
  "sift_down le xs pos =
     (let child = 2 * pos + 1
      in if child \<le> length xs - 2 \<and> 2 \<le> length xs
         then let c = (if le (xs ! child) (xs ! (child + 1)) then child + 1 else child)
              in sift_down le (xs[pos := xs ! c]) c
         else if child + 1 = length xs then (xs[pos := xs ! child], child)
         else (xs, pos))"
  by pat_completeness auto
termination by (relation "measure (\<lambda>(_, xs, pos). length xs - pos)") (auto simp: Let_def split: if_splits)

declare sift_up.simps [simp del] sift_down.simps [simp del]

definition heap_push :: "('a \<Rightarrow> 'a \<Rightarrow> bool) \<Rightarrow> 'a \<Rightarrow> 'a list \<Rightarrow> 'a list" where
  "heap_push le x xs = sift_up le (xs @ [x]) (length xs) x"

definition heap_pop :: "('a \<Rightarrow> 'a \<Rightarrow> bool) \<Rightarrow> 'a list \<Rightarrow> ('a \<times> 'a list) option" where
  "heap_pop le xs =
     (if xs = [] then None
      else let x = last xs; ys = butlast xs
           in if ys = [] then Some (x, [])
              else let (zs, pos) = sift_down le ys 0 in Some (hd ys, sift_up le zs pos x))"

section \<open>The heap order\<close>

definition is_heap :: "('a \<Rightarrow> 'a \<Rightarrow> bool) \<Rightarrow> 'a list \<Rightarrow> bool" where
  "is_heap le xs \<longleftrightarrow> (\<forall>i<length xs. 0 < i \<longrightarrow> le (xs ! i) (xs ! ((i - 1) div 2)))"

text \<open>
  The order around a hole: the edges that do not touch it are ordered, and the children of the hole are
  below its parent.
\<close>

definition hole_heap :: "('a \<Rightarrow> 'a \<Rightarrow> bool) \<Rightarrow> 'a list \<Rightarrow> nat \<Rightarrow> bool" where
  "hole_heap le xs pos \<longleftrightarrow> pos < length xs \<and>
     (\<forall>i<length xs. 0 < i \<and> i \<noteq> pos \<and> (i - 1) div 2 \<noteq> pos \<longrightarrow> le (xs ! i) (xs ! ((i - 1) div 2))) \<and>
     (\<forall>i<length xs. 0 < i \<and> (i - 1) div 2 = pos \<and> 0 < pos \<longrightarrow> le (xs ! i) (xs ! ((pos - 1) div 2)))"

definition total_preorder :: "('a \<Rightarrow> 'a \<Rightarrow> bool) \<Rightarrow> bool" where
  "total_preorder le \<longleftrightarrow> (\<forall>x y. le x y \<or> le y x) \<and> (\<forall>x y z. le x y \<longrightarrow> le y z \<longrightarrow> le x z)"

lemma total_preorderD:
  assumes "total_preorder le"
  shows "\<not> le x y \<Longrightarrow> le y x" and "le x y \<Longrightarrow> le y z \<Longrightarrow> le x z" and "le x x"
  using assms by (auto simp: total_preorder_def)

lemma mset_move:
  assumes "i < length xs" "j < length xs"
  shows "mset (xs[i := xs ! j, j := x]) = mset (xs[i := x])"
proof (cases "i = j")
  case False
  have "xs[i := xs ! j, j := x] = (xs[i := x])[i := xs[i := x] ! j, j := xs[i := x] ! i]"
    using assms False by (simp add: list_update_swap)
  then show ?thesis using assms by (metis length_list_update mset_swap)
qed simp

lemma length_sift_up [simp]: "length (sift_up le xs pos x) = length xs"
  by (induction le xs pos x rule: sift_up.induct) (subst sift_up.simps, simp add: Let_def)

lemma mset_sift_up: "pos < length xs \<Longrightarrow> mset (sift_up le xs pos x) = mset (xs[pos := x])"
proof (induction le xs pos x rule: sift_up.induct)
  case (1 le xs pos x)
  show ?case
    using 1 mset_move [of pos xs "(pos - 1) div 2" x]
    by (subst sift_up.simps) (auto simp: Let_def)
qed

lemma hole_heap_fill:
  assumes "hole_heap le xs pos" "\<forall>i<length xs. 0 < i \<and> (i - 1) div 2 = pos \<longrightarrow> le (xs ! i) x"
    and "0 < pos \<longrightarrow> le x (xs ! ((pos - 1) div 2))"
  shows "is_heap le (xs[pos := x])"
proof -
  have "le (xs[pos := x] ! i) (xs[pos := x] ! ((i - 1) div 2))" if "i < length xs" "0 < i" for i
  proof -
    have lt: "(i - 1) div 2 < i" using that by simp
    show ?thesis
    proof (cases "i = pos")
      case True
      then show ?thesis using lt assms(3) that by simp
    next
      case False
      then show ?thesis
        using assms that by (cases "(i - 1) div 2 = pos") (simp_all add: hole_heap_def)
    qed
  qed
  then show ?thesis by (simp add: is_heap_def)
qed

text \<open>The parent of the hole moves into it.\<close>

lemma hole_heap_up:
  assumes le: "total_preorder le" and h: "hole_heap le xs pos" and pos: "0 < pos"
  defines "p \<equiv> (pos - 1) div 2"
  shows "hole_heap le (xs[pos := xs ! p]) p"
    and "\<forall>i<length xs. 0 < i \<and> (i - 1) div 2 = p \<longrightarrow> le (xs[pos := xs ! p] ! i) (xs ! p)"
proof -
  note pre = total_preorderD [OF le]
  have p: "p < pos" "pos < length xs" using h pos by (auto simp: p_def hole_heap_def)
  have edge: "le (xs ! i) (xs ! ((i - 1) div 2))"
    if "i < length xs" "0 < i" "i \<noteq> pos" "(i - 1) div 2 \<noteq> pos" for i
    using h that by (simp add: hole_heap_def)
  have low: "le (xs ! i) (xs ! p)" if "i < length xs" "0 < i" "(i - 1) div 2 = pos" for i
    using h that pos by (simp add: hole_heap_def p_def)
  show kids: "\<forall>i<length xs. 0 < i \<and> (i - 1) div 2 = p \<longrightarrow> le (xs[pos := xs ! p] ! i) (xs ! p)"
    using edge p pre(3) by (auto simp: nth_list_update)
  have "le (xs[pos := xs ! p] ! i) (xs[pos := xs ! p] ! ((i - 1) div 2))"
    if "i < length xs" "0 < i" "i \<noteq> p" "(i - 1) div 2 \<noteq> p" for i
  proof -
    have "i \<noteq> pos" using that by (auto simp: p_def)
    then show ?thesis using edge low that p by (cases "(i - 1) div 2 = pos") auto
  qed
  moreover have "le (xs[pos := xs ! p] ! i) (xs[pos := xs ! p] ! ((p - 1) div 2))"
    if "i < length xs" "0 < i" "(i - 1) div 2 = p" "0 < p" for i
  proof -
    have "le (xs ! p) (xs ! ((p - 1) div 2))" using edge [of p] that p by auto
    then show ?thesis using kids that p pre(2) by auto
  qed
  ultimately show "hole_heap le (xs[pos := xs ! p]) p" using p by (simp add: hole_heap_def)
qed

lemma sift_up_heap:
  "total_preorder le \<Longrightarrow> hole_heap le xs pos \<Longrightarrow>
    (\<forall>i<length xs. 0 < i \<and> (i - 1) div 2 = pos \<longrightarrow> le (xs ! i) x) \<Longrightarrow>
    is_heap le (sift_up le xs pos x)"
proof (induction le xs pos x rule: sift_up.induct)
  case (1 le xs pos x)
  note pre = total_preorderD [OF 1(2)]
  let ?p = "(pos - 1) div 2"
  show ?case
  proof (cases "pos = 0 \<or> le x (xs ! ?p)")
    case True
    then have "sift_up le xs pos x = xs[pos := x]" by (subst sift_up.simps) auto
    then show ?thesis using hole_heap_fill [OF 1(3,4)] True by auto
  next
    case False
    then have "0 < pos" and px: "le (xs ! ?p) x" using pre(1) by auto
    note up = hole_heap_up [OF 1(2,3) \<open>0 < pos\<close>]
    have "\<forall>i<length (xs[pos := xs ! ?p]). 0 < i \<and> (i - 1) div 2 = ?p \<longrightarrow> le (xs[pos := xs ! ?p] ! i) x"
      using up(2) px pre(2) by auto
    then show ?thesis
      using 1(1) [OF _ refl _ 1(2) up(1)] False by (subst sift_up.simps) (simp add: Let_def)
  qed
qed

text \<open>The greater child of the hole moves into it.\<close>

lemma hole_heap_down:
  assumes le: "total_preorder le" and h: "hole_heap le xs pos" and c: "c < length xs" "0 < c" "(c - 1) div 2 = pos"
    and g: "\<forall>i<length xs. 0 < i \<and> (i - 1) div 2 = pos \<longrightarrow> le (xs ! i) (xs ! c)"
  shows "hole_heap le (xs[pos := xs ! c]) c"
proof -
  have edge: "le (xs ! i) (xs ! ((i - 1) div 2))"
    if "i < length xs" "0 < i" "i \<noteq> pos" "(i - 1) div 2 \<noteq> pos" for i
    using h that by (simp add: hole_heap_def)
  have pc: "pos < c" "pos < length xs" using c by auto
  have "le (xs[pos := xs ! c] ! i) (xs[pos := xs ! c] ! ((i - 1) div 2))"
    if "i < length xs" "0 < i" "i \<noteq> c" "(i - 1) div 2 \<noteq> c" for i
  proof (cases "i = pos")
    case True
    moreover have "(pos - 1) div 2 \<noteq> pos" using True that by auto
    ultimately show ?thesis using h c that pc by (auto simp: hole_heap_def)
  next
    case False
    then show ?thesis using edge g that pc by (cases "(i - 1) div 2 = pos") auto
  qed
  moreover have "le (xs[pos := xs ! c] ! i) (xs[pos := xs ! c] ! ((c - 1) div 2))"
    if "i < length xs" "0 < i" "(i - 1) div 2 = c" for i
  proof -
    have "i \<noteq> pos" using that pc by auto
    then show ?thesis using edge [of i] that c pc by auto
  qed
  ultimately show ?thesis using c unfolding hole_heap_def length_list_update by blast
qed

lemma sift_down_heap:
  assumes "total_preorder le" "hole_heap le xs pos" "sift_down le xs pos = (ys, q)"
  shows "hole_heap le ys q \<and> 2 * q + 1 \<ge> length ys \<and> length ys = length xs \<and>
    mset (ys[q := x]) = mset (xs[pos := x])"
  using assms
proof (induction le xs pos arbitrary: ys q rule: sift_down.induct)
  case (1 le xs pos)
  note pre = total_preorderD [OF 1(2)]
  let ?c = "2 * pos + 1"
  define d where "d = (if le (xs ! ?c) (xs ! (?c + 1)) then ?c + 1 else ?c)"
  have kids: "i = ?c \<or> i = ?c + 1" if "0 < i" "(i - 1) div 2 = pos" for i using that by auto
  have pos: "pos < length xs" using 1(3) by (simp add: hole_heap_def)
  consider (two) "?c \<le> length xs - 2 \<and> 2 \<le> length xs" | (one) "?c + 1 = length xs" | (leaf) "?c \<ge> length xs"
    by linarith
  then show ?case
  proof cases
    case two
    have d: "d < length xs" "0 < d" "(d - 1) div 2 = pos" using two by (auto simp: d_def)
    have "le (xs ! ?c) (xs ! d)" "le (xs ! (?c + 1)) (xs ! d)" using pre(1,3) by (simp_all add: d_def)
    then have "le (xs ! i) (xs ! d)" if "0 < i" "(i - 1) div 2 = pos" for i
      using kids [OF that] by (elim disjE) simp_all
    then have "\<forall>i<length xs. 0 < i \<and> (i - 1) div 2 = pos \<longrightarrow> le (xs ! i) (xs ! d)" by simp
    note h = hole_heap_down [OF 1(2,3) d this]
    have "sift_down le (xs[pos := xs ! d]) d = (ys, q)"
      using 1(4) two by (subst (asm) sift_down.simps) (simp add: Let_def d_def split: if_splits)
    with 1(1) [OF refl two d_def 1(2) h] show ?thesis using mset_move [OF pos d(1)] by simp
  next
    case one
    have "\<forall>i<length xs. 0 < i \<and> (i - 1) div 2 = pos \<longrightarrow> le (xs ! i) (xs ! ?c)"
      using kids pre(3) one by fastforce
    then have "hole_heap le (xs[pos := xs ! ?c]) ?c"
      using one by (intro hole_heap_down [OF 1(2,3)]) auto
    moreover have "ys = xs[pos := xs ! ?c]" "q = ?c"
      using 1(4) one by (subst (asm) sift_down.simps, simp add: Let_def split: if_splits)+
    ultimately show ?thesis using one mset_move [OF pos, of ?c] by simp
  next
    case leaf
    then have "ys = xs" "q = pos"
      using 1(4) by (subst (asm) sift_down.simps, simp add: Let_def split: if_splits)+
    with 1(3) leaf show ?thesis by simp
  qed
qed

section \<open>Correctness of the operations\<close>

lemma heap_push_ok:
  assumes "total_preorder le" "is_heap le xs"
  shows "is_heap le (heap_push le x xs)" and "mset (heap_push le x xs) = add_mset x (mset xs)"
proof -
  have "hole_heap le (xs @ [x]) (length xs)"
  proof -
    have "(i - 1) div 2 < length xs" if "i < length (xs @ [x])" "0 < i" for i using that by simp
    then show ?thesis
      using assms(2) by (fastforce simp: hole_heap_def is_heap_def nth_append)
  qed
  moreover have "\<forall>i<length (xs @ [x]). 0 < i \<and> (i - 1) div 2 = length xs \<longrightarrow> le ((xs @ [x]) ! i) x"
    by auto
  ultimately show "is_heap le (heap_push le x xs)"
    unfolding heap_push_def by (intro sift_up_heap assms)
  show "mset (heap_push le x xs) = add_mset x (mset xs)"
    by (simp add: heap_push_def mset_sift_up)
qed

lemma is_heap_root: "total_preorder le \<Longrightarrow> is_heap le xs \<Longrightarrow> i < length xs \<Longrightarrow> le (xs ! i) (xs ! 0)"
proof (induction i rule: less_induct)
  case (less i)
  then show ?case
  proof (cases "i = 0")
    case False
    then have "le (xs ! i) (xs ! ((i - 1) div 2))" "le (xs ! ((i - 1) div 2)) (xs ! 0)"
      using less by (auto simp: is_heap_def)
    then show ?thesis using total_preorderD [OF less(2)] by blast
  qed (use total_preorderD(3) [OF less(2)] in simp)
qed

lemma heap_pop_ok:
  assumes le: "total_preorder le" and h: "is_heap le xs" and ne: "xs \<noteq> []"
  obtains x ys where "heap_pop le xs = Some (x, ys)" "is_heap le ys" "mset xs = add_mset x (mset ys)"
    "\<forall>y\<in>set xs. le y x"
proof -
  have g: "\<forall>y\<in>set xs. le y (xs ! 0)" using is_heap_root [OF le h] by (auto simp: in_set_conv_nth)
  show ?thesis
  proof (cases "butlast xs = []")
    case True
    then have "xs = [last xs]" using ne by (metis append_Nil append_butlast_last_id)
    then show ?thesis using that [of "last xs" "[]"] True ne total_preorderD(3) [OF le]
      by (simp add: heap_pop_def is_heap_def) (metis empty_iff empty_set set_ConsD)
  next
    case False
    define ys where "ys = butlast xs"
    obtain zs q where z: "sift_down le ys 0 = (zs, q)" by fastforce
    have xs: "xs = ys @ [last xs]" using ne by (simp add: ys_def)
    have "length xs = Suc (length ys)" "ys \<noteq> []" using ne False by (simp_all add: ys_def)
    moreover have "ys ! i = xs ! i" if "i < length ys" for i using that by (simp add: ys_def nth_butlast)
    ultimately have "hole_heap le ys 0" using h
      by (auto simp: hole_heap_def is_heap_def)
    note s = sift_down_heap [OF le this z, of "last xs"]
    then have "is_heap le (sift_up le zs q (last xs))" by (intro sift_up_heap [OF le]) auto
    moreover have "mset (sift_up le zs q (last xs)) = mset (ys[0 := last xs])"
      using s by (simp add: mset_sift_up hole_heap_def)
    moreover have "mset xs = add_mset (hd ys) (mset (ys[0 := last xs]))"
      using False by (subst xs) (cases ys; simp add: ys_def)
    moreover have "hd ys = xs ! 0" using False xs by (metis hd_append2 hd_conv_nth ne ys_def)
    ultimately show ?thesis
      using that [of "hd ys"] g False ne z by (simp add: heap_pop_def ys_def [symmetric])
  qed
qed

end
