(* ===== verification/Stride_Scheduler.thy ===== *)
theory Stride_Scheduler
  imports Proc_Manager Binary_Heap
begin

text \<open>
  The stride scheduler of chapter 5 (\<^verbatim>\<open>ch5/src/processor.rs\<close>, \<^verbatim>\<open>Stride\<close> of \<^verbatim>\<open>ch5/src/process.rs\<close>):
  a table of processes and a binary heap of pairs of a process id and a copy of its stride, ordered so
  that the least stride is on top. A fetch advances the stride of the process by its pass,
  \<^verbatim>\<open>BIGSTRIDE / priority\<close>.

  Shown are that the scheduler meets the interface of the process manager, that a fetch picks a
  process of least stride, that with passes of at least 1 every queued process is fetched within
  a bound, and that a priority above 200 (pass 0), which \<^verbatim>\<open>set_priority\<close> accepts, starves the others.
\<close>

section \<open>Strides and processes\<close>

abbreviation BIGSTRIDE :: nat where "BIGSTRIDE \<equiv> 200"

record stride =
  priority :: nat
  stride_val :: nat

definition stride_new :: stride where
  "stride_new = \<lparr>priority = 16, stride_val = 0\<rparr>"

definition get_pass :: "stride \<Rightarrow> nat res" where
  "get_pass s = (if priority s = 0 then Inl DivByZero else Inr (BIGSTRIDE div priority s))"

definition stride_update :: "stride \<Rightarrow> stride res" where
  "stride_update s =
     bind_res (get_pass s) (\<lambda>pass.
       if stride_val s + pass < usize_bound then Inr (s\<lparr>stride_val := stride_val s + pass\<rparr>)
       else Inl ArithOverflow)"

text \<open>
  \<^verbatim>\<open>Process\<close> of chapter 5; the context and the address space are type parameters here.
\<close>

record ('c, 's) process =
  proc_pid :: nat
  proc_context :: 'c
  address_space :: 's
  heap_bottom :: nat
  program_brk :: nat
  proc_stride :: stride

section \<open>The scheduler\<close>

type_synonym stride_pair = "nat \<times> stride"

text \<open>\<^verbatim>\<open>Ord for StridePair\<close> compares the strides the other way round.\<close>

definition pair_le :: "stride_pair \<Rightarrow> stride_pair \<Rightarrow> bool" where
  "pair_le a b \<longleftrightarrow> stride_val (snd b) \<le> stride_val (snd a)"

record ('c, 's) proc_manager =
  tasks :: "nat \<rightharpoonup> ('c, 's) process"
  ready_queue :: "stride_pair list"

definition proc_manager_new :: "('c, 's) proc_manager" where
  "proc_manager_new = \<lparr>tasks = Map.empty, ready_queue = []\<rparr>"

definition manage_insert :: "nat \<Rightarrow> ('c, 's) process \<Rightarrow> ('c, 's) proc_manager \<Rightarrow> ('c, 's) proc_manager" where
  "manage_insert i task m = m\<lparr>tasks := (tasks m)(i \<mapsto> task)\<rparr>"

definition manage_get :: "nat \<Rightarrow> ('c, 's) proc_manager \<Rightarrow> ('c, 's) process option" where
  "manage_get i m = tasks m i"

definition manage_delete :: "nat \<Rightarrow> ('c, 's) proc_manager \<Rightarrow> ('c, 's) proc_manager" where
  "manage_delete i m = m\<lparr>tasks := (tasks m)(i := None)\<rparr>"

definition schedule_add :: "nat \<Rightarrow> ('c, 's) proc_manager \<Rightarrow> ('c, 's) proc_manager res" where
  "schedule_add i m =
     bind_res (unwrap (tasks m i)) (\<lambda>task.
       Inr (m\<lparr>ready_queue := heap_push pair_le (i, proc_stride task) (ready_queue m)\<rparr>))"

definition schedule_fetch :: "('c, 's) proc_manager \<Rightarrow> (nat option \<times> ('c, 's) proc_manager) res" where
  "schedule_fetch m =
     (case heap_pop pair_le (ready_queue m) of
        None \<Rightarrow> Inr (None, m)
      | Some ((i, _), queue) \<Rightarrow>
          bind_res (unwrap (tasks m i)) (\<lambda>task.
          bind_res (stride_update (proc_stride task)) (\<lambda>s.
            Inr (Some i, m\<lparr>tasks := (tasks m)(i \<mapsto> task\<lparr>proc_stride := s\<rparr>), ready_queue := queue\<rparr>))))"

definition stride_ops :: "(('c, 's) proc_manager, ('c, 's) process) sched_ops" where
  "stride_ops = \<lparr>op_insert = manage_insert, op_delete = manage_delete, op_get = manage_get,
     op_set = manage_insert, op_add = schedule_add, op_fetch = schedule_fetch\<rparr>"

text \<open>
  \<^verbatim>\<open>set_priority\<close> of chapter 5 on the current process: the new process and the value returned.
\<close>

definition set_priority :: "int \<Rightarrow> ('c, 's) process \<Rightarrow> int \<times> ('c, 's) process" where
  "set_priority prio p =
     (if prio \<ge> 2 then (prio, p\<lparr>proc_stride := (proc_stride p)\<lparr>priority := isize_as_usize prio\<rparr>\<rparr>)
      else (- 1, p))"

section \<open>The scheduler implements the interface of the process manager\<close>

definition prio_ok :: "('c, 's) process \<Rightarrow> bool" where
  "prio_ok p \<longleftrightarrow> 2 \<le> priority (proc_stride p)"

definition stride_wf :: "('c, 's) proc_manager \<Rightarrow> bool" where
  "stride_wf m \<longleftrightarrow> is_heap pair_le (ready_queue m) \<and> distinct (map fst (ready_queue m)) \<and>
     (\<forall>i p. tasks m i = Some p \<longrightarrow> prio_ok p) \<and>
     (\<forall>q\<in>set (ready_queue m). \<exists>p. tasks m (fst q) = Some p \<and> proc_stride p = snd q)"

definition stride_ready :: "('c, 's) proc_manager \<Rightarrow> nat multiset" where
  "stride_ready m = mset (map fst (ready_queue m))"

definition stride_fetchable :: "('c, 's) proc_manager \<Rightarrow> bool" where
  "stride_fetchable m \<longleftrightarrow> (\<forall>p\<in>ran (tasks m). stride_val (proc_stride p) + 100 < usize_bound)"

lemma total_preorder_pair_le [simp]: "total_preorder pair_le"
  by (auto simp: total_preorder_def pair_le_def)

definition advanced :: "('c, 's) process \<Rightarrow> ('c, 's) process" where
  "advanced p = p\<lparr>proc_stride := (proc_stride p)\<lparr>stride_val :=
     stride_val (proc_stride p) + BIGSTRIDE div priority (proc_stride p)\<rparr>\<rparr>"

lemma pass_le_100: "2 \<le> p \<Longrightarrow> BIGSTRIDE div p \<le> 100"
  using div_le_mono2 [of 2 p BIGSTRIDE] by simp

lemma stride_update_eq:
  "2 \<le> priority (proc_stride p) \<Longrightarrow> stride_val (proc_stride p) + 100 < usize_bound \<Longrightarrow>
   stride_update (proc_stride p) = Inr (proc_stride (advanced p))"
  using pass_le_100 [of "priority (proc_stride p)"]
  by (simp add: stride_update_def get_pass_def advanced_def)

lemma advanced_simps [simp]:
  "priority (proc_stride (advanced p)) = priority (proc_stride p)"
  "stride_val (proc_stride (advanced p)) = stride_val (proc_stride p) + BIGSTRIDE div priority (proc_stride p)"
  "prio_ok (advanced p) = prio_ok p"
  by (simp_all add: advanced_def prio_ok_def)

text \<open>What a fetch does on a non-empty queue: a process of least stride leaves it, its stride advanced.\<close>

lemma schedule_fetch_ok:
  assumes wf: "stride_wf m" and ne: "ready_queue m \<noteq> []"
    and small: "\<And>i p. tasks m i = Some p \<Longrightarrow>
      (\<forall>q\<in>set (ready_queue m). stride_val (proc_stride p) \<le> stride_val (snd q)) \<Longrightarrow>
      stride_val (proc_stride p) + 100 < usize_bound"
  obtains i p m' where
    "schedule_fetch m = Inr (Some i, m')" "tasks m i = Some p" "tasks m' = (tasks m)(i \<mapsto> advanced p)"
    "stride_wf m'" "stride_ready m = add_mset i (stride_ready m')" "i \<notin># stride_ready m'"
    "\<forall>q\<in>set (ready_queue m). stride_val (proc_stride p) \<le> stride_val (snd q)"
proof -
  obtain x queue where q: "heap_pop pair_le (ready_queue m) = Some (x, queue)" "is_heap pair_le queue"
    "mset (ready_queue m) = add_mset x (mset queue)" "\<forall>y\<in>set (ready_queue m). pair_le y x"
    using heap_pop_ok [OF total_preorder_pair_le _ ne] wf by (auto simp: stride_wf_def)
  obtain i s where x: "x = (i, s)" by fastforce
  have "(i, s) \<in> set (ready_queue m)" using q(3) x by (metis set_mset_mset union_single_eq_member)
  then obtain p where p: "tasks m i = Some p" "proc_stride p = s" using wf by (auto simp: stride_wf_def)
  have least: "\<forall>q\<in>set (ready_queue m). stride_val (proc_stride p) \<le> stride_val (snd q)"
    using q(4) x p by (simp add: pair_le_def)
  have "2 \<le> priority s" using wf p by (auto simp: stride_wf_def prio_ok_def)
  then have "stride_update s = Inr (proc_stride (advanced p))"
    using stride_update_eq small [OF p(1) least] p(2) by blast
  moreover define m' where "m' = m\<lparr>tasks := (tasks m)(i \<mapsto> advanced p), ready_queue := queue\<rparr>"
  ultimately have f: "schedule_fetch m = Inr (Some i, m')"
    using q(1) x p by (simp add: schedule_fetch_def advanced_def)
  have r: "stride_ready m = add_mset i (stride_ready m')"
    using q(3) x by (simp add: stride_ready_def m'_def)
  moreover have "distinct (map fst (ready_queue m))" using wf by (simp add: stride_wf_def)
  ultimately have ds: "distinct (i # map fst queue)"
    by (metis mset.simps(2) mset_eq_imp_distinct_iff stride_ready_def m'_def select_convs(2) surjective
        update_convs(2))
  moreover have "set queue \<subseteq> set (ready_queue m)"
    using q(3) by (metis set_mset_add_mset_insert set_mset_mset subset_insertI)
  ultimately have "stride_wf m'" using wf q(2) p(1)
    by (auto simp: m'_def stride_wf_def image_iff subset_iff)
  moreover have "i \<notin># stride_ready m'" using ds by (simp add: stride_ready_def m'_def)
  ultimately show ?thesis
    using that [OF f p(1)] r least by (simp add: m'_def)
qed

interpretation stride: process_scheduler stride_ops stride_wf prio_ok stride_fetchable tasks stride_ready
proof
  fix m :: "('c, 's) proc_manager" and i :: nat and t :: "('c, 's) process"
  show "op_get stride_ops i m = tasks m i" by (simp add: stride_ops_def manage_get_def)
  show "stride_wf (op_insert stride_ops i t m) \<and> tasks (op_insert stride_ops i t m) = (tasks m)(i \<mapsto> t) \<and>
      stride_ready (op_insert stride_ops i t m) = stride_ready m"
    if "stride_wf m" "i \<notin># stride_ready m" "prio_ok t"
    using that by (auto simp: stride_ops_def manage_insert_def stride_wf_def stride_ready_def image_iff)
  show "stride_wf (op_set stride_ops i t m) \<and> tasks (op_set stride_ops i t m) = (tasks m)(i \<mapsto> t) \<and>
      stride_ready (op_set stride_ops i t m) = stride_ready m"
    if "stride_wf m" "i \<notin># stride_ready m" "prio_ok t"
    using that by (auto simp: stride_ops_def manage_insert_def stride_wf_def stride_ready_def image_iff)
  show "stride_wf (op_delete stride_ops i m) \<and> tasks (op_delete stride_ops i m) = (tasks m)(i := None) \<and>
      stride_ready (op_delete stride_ops i m) = stride_ready m"
    if "stride_wf m" "i \<notin># stride_ready m"
    using that by (auto simp: stride_ops_def manage_delete_def stride_wf_def stride_ready_def image_iff)
  show "op_fetch stride_ops m = Inr (None, m)" if "stride_ready m = {#}"
    using that by (simp add: stride_ops_def stride_ready_def schedule_fetch_def heap_pop_def)
next
  fix m :: "('c, 's) proc_manager" and i :: nat
  assume wf: "stride_wf m" and i: "i \<in> dom (tasks m)" "i \<notin># stride_ready m"
  then obtain p where p: "tasks m i = Some p" by blast
  have h: "is_heap pair_le (ready_queue m)" using wf by (simp add: stride_wf_def)
  note push = heap_push_ok [OF total_preorder_pair_le h, of "(i, proc_stride p)"]
  let ?m = "m\<lparr>ready_queue := heap_push pair_le (i, proc_stride p) (ready_queue m)\<rparr>"
  have "set (ready_queue ?m) = Set.insert (i, proc_stride p) (set (ready_queue m))"
    using push(2) by (metis select_convs(2) set_mset_add_mset_insert set_mset_mset surjective update_convs(2))
  moreover have r: "stride_ready ?m = add_mset i (stride_ready m)"
    using push(2) by (simp add: stride_ready_def)
  moreover have "distinct (map fst (ready_queue ?m))"
  proof -
    have "mset (map fst (ready_queue ?m)) = mset (i # map fst (ready_queue m))"
      using r by (simp add: stride_ready_def)
    moreover have "distinct (i # map fst (ready_queue m))"
      using i(2) wf by (simp add: stride_ready_def stride_wf_def)
    ultimately show ?thesis using mset_eq_imp_distinct_iff by blast
  qed
  ultimately have "stride_wf ?m" "stride_ready ?m = add_mset i (stride_ready m)"
    using wf p push(1) by (simp_all add: stride_wf_def)
  then show "\<exists>m'. op_add stride_ops i m = Inr m' \<and> stride_wf m' \<and> tasks m' = tasks m \<and>
      stride_ready m' = add_mset i (stride_ready m)"
    using p by (simp add: stride_ops_def schedule_add_def)
next
  fix m :: "('c, 's) proc_manager"
  assume wf: "stride_wf m" and ne: "stride_ready m \<noteq> {#}"
    and f: "stride_fetchable m"
  have ne': "ready_queue m \<noteq> []" using ne by (auto simp: stride_ready_def)
  show "\<exists>i m'. op_fetch stride_ops m = Inr (Some i, m') \<and> i \<in># stride_ready m \<and> stride_wf m' \<and>
      dom (tasks m') = dom (tasks m) \<and> stride_ready m' = stride_ready m - {#i#}"
  proof -
    obtain i p m' where q: "schedule_fetch m = Inr (Some i, m')" "tasks m i = Some p"
      "tasks m' = (tasks m)(i \<mapsto> advanced p)" "stride_wf m'" "stride_ready m = add_mset i (stride_ready m')"
      using schedule_fetch_ok [OF wf ne'] f unfolding stride_fetchable_def by (metis ranI)
    then show ?thesis by (intro exI [of _ i] exI [of _ m']) (auto simp: stride_ops_def)
  qed
qed

section \<open>Which process runs next\<close>

text \<open>A round of processes that all yield: the fetched process is queued again.\<close>

definition yield_round :: "('c, 's) proc_manager \<Rightarrow> (nat \<times> ('c, 's) proc_manager) res" where
  "yield_round m =
     bind_res (schedule_fetch m) (\<lambda>(r, m1).
     bind_res (unwrap r) (\<lambda>i.
     bind_res (schedule_add i m1) (\<lambda>m2. Inr (i, m2))))"

fun yield_rounds :: "nat \<Rightarrow> ('c, 's) proc_manager \<Rightarrow> (nat list \<times> ('c, 's) proc_manager) res" where
  "yield_rounds 0 m = Inr ([], m)"
| "yield_rounds (Suc k) m =
     bind_res (yield_round m) (\<lambda>(i, m1).
     bind_res (yield_rounds k m1) (\<lambda>(is, m2). Inr (i # is, m2)))"

text \<open>The stride of a process, 0 when there is none, and how far the strides of the queue are behind \<open>v\<close>.\<close>

definition stride_at :: "('c, 's) proc_manager \<Rightarrow> nat \<Rightarrow> nat" where
  "stride_at m i = (case tasks m i of None \<Rightarrow> 0 | Some p \<Rightarrow> stride_val (proc_stride p))"

definition pass_at :: "('c, 's) proc_manager \<Rightarrow> nat \<Rightarrow> nat" where
  "pass_at m i = (case tasks m i of None \<Rightarrow> 0 | Some p \<Rightarrow> BIGSTRIDE div priority (proc_stride p))"

definition lag :: "nat \<Rightarrow> ('c, 's) proc_manager \<Rightarrow> nat" where
  "lag v m = (\<Sum>j\<in>#stride_ready m. v + 1 - stride_at m j)"

lemma schedule_add_ok:
  assumes "stride_wf m" "tasks m i = Some p" "i \<notin># stride_ready m"
  obtains m' where "schedule_add i m = Inr m'" "stride_wf m'" "tasks m' = tasks m"
    "stride_ready m' = add_mset i (stride_ready m)"
  using stride.add [OF assms(1) _ assms(3)] assms(2) by (auto simp: stride_ops_def)

lemma queue_stride_at: "stride_wf m \<Longrightarrow> q \<in> set (ready_queue m) \<Longrightarrow> stride_val (snd q) = stride_at m (fst q)"
  by (fastforce simp: stride_wf_def stride_at_def)

text \<open>
  A round picks a queued process of least stride; the strides of the others, the queue and all passes
  stay as they are.
\<close>

lemma yield_round_ok:
  assumes wf: "stride_wf m" and v: "v \<in># stride_ready m" and b: "stride_at m v + 100 < usize_bound"
  obtains i m' where "yield_round m = Inr (i, m')" "stride_wf m'" "i \<in># stride_ready m"
    "stride_ready m' = stride_ready m" "\<forall>j\<in>#stride_ready m. stride_at m i \<le> stride_at m j"
    "stride_at m' = (stride_at m)(i := stride_at m i + pass_at m i)" "pass_at m' = pass_at m"
proof -
  have ne: "ready_queue m \<noteq> []" using v by (auto simp: stride_ready_def)
  obtain sv where sv: "(v, sv) \<in> set (ready_queue m)" using v by (auto simp: stride_ready_def)
  have small: "stride_val (proc_stride p) + 100 < usize_bound"
    if "\<forall>q\<in>set (ready_queue m). stride_val (proc_stride p) \<le> stride_val (snd q)" for p :: "('a, 'b) process"
    using that sv queue_stride_at [OF wf sv] b by fastforce
  obtain i p m1 where q: "schedule_fetch m = Inr (Some i, m1)" "tasks m i = Some p"
      "tasks m1 = (tasks m)(i \<mapsto> advanced p)" "stride_wf m1" "stride_ready m = add_mset i (stride_ready m1)"
      "i \<notin># stride_ready m1" "\<forall>q\<in>set (ready_queue m). stride_val (proc_stride p) \<le> stride_val (snd q)"
    using schedule_fetch_ok [OF wf ne small] by metis
  then obtain m2 where a: "schedule_add i m1 = Inr m2" "stride_wf m2" "tasks m2 = tasks m1"
      "stride_ready m2 = stride_ready m"
    using schedule_add_ok [OF q(4), of i "advanced p"] by auto
  have "stride_at m i \<le> stride_at m j" if j: "j \<in># stride_ready m" for j
  proof -
    obtain sj where "(j, sj) \<in> set (ready_queue m)" using j by (auto simp: stride_ready_def)
    then show ?thesis using q(2,7) queue_stride_at [OF wf] by (fastforce simp: stride_at_def)
  qed
  moreover have "yield_round m = Inr (i, m2)" using q(1) a(1) by (simp add: yield_round_def)
  moreover have "stride_at m2 = (stride_at m)(i := stride_at m i + pass_at m i)" "pass_at m2 = pass_at m"
    using q(2,3) a(3) by (auto simp: stride_at_def pass_at_def fun_eq_iff)
  moreover have "i \<in># stride_ready m" using q(5) by simp
  ultimately show ?thesis using that a by blast
qed

text \<open>A round that does not pick \<open>v\<close> reduces the lag behind the stride of \<open>v\<close>.\<close>

lemma lag_decreases:
  assumes "i \<in># stride_ready m" "stride_ready m' = stride_ready m" "stride_at m i \<le> w" "0 < pass_at m i"
    and at: "stride_at m' = (stride_at m)(i := stride_at m i + pass_at m i)"
  shows "lag w m' < lag w m"
proof -
  obtain R where R: "stride_ready m = add_mset i R" using assms(1) by (meson multi_member_split)
  have "(\<Sum>j\<in>#R. w + 1 - stride_at m' j) \<le> (\<Sum>j\<in>#R. w + 1 - stride_at m j)"
    by (intro sum_mset_mono) (auto simp: at)
  then show ?thesis using assms R by (simp add: lag_def)
qed

lemma lag_pos: "v \<in># stride_ready m \<Longrightarrow> 1 \<le> lag (stride_at m v) m"
  by (auto simp: lag_def dest!: multi_member_split)

text \<open>Two queued processes for the witnesses: 0 with stride 0 and priority \<open>prio\<close>, 1 with stride 5.\<close>

definition sample_process :: "nat \<Rightarrow> nat \<Rightarrow> nat \<Rightarrow> (unit, unit) process" where
  "sample_process i prio s = \<lparr>proc_pid = i, proc_context = (), address_space = (), heap_bottom = 0,
     program_brk = 0, proc_stride = \<lparr>priority = prio, stride_val = s\<rparr>\<rparr>"

definition sample_manager :: "nat \<Rightarrow> (unit, unit) proc_manager" where
  "sample_manager prio = \<lparr>tasks = [0 \<mapsto> sample_process 0 prio 0, 1 \<mapsto> sample_process 1 16 5],
     ready_queue = [(0, \<lparr>priority = prio, stride_val = 0\<rparr>), (1, \<lparr>priority = 16, stride_val = 5\<rparr>)]\<rparr>"

lemma sample_manager_facts:
  "2 \<le> prio \<Longrightarrow> stride_wf (sample_manager prio)"
  "stride_ready (sample_manager prio) = {#0, 1#}"
  "stride_at (sample_manager prio) 0 = 0" "stride_at (sample_manager prio) 1 = 5"
  "pass_at (sample_manager prio) 0 = 200 div prio" "pass_at (sample_manager prio) 1 = 12"
  by (auto simp: stride_wf_def sample_manager_def sample_process_def is_heap_def pair_le_def prio_ok_def
      stride_ready_def stride_at_def pass_at_def less_Suc_eq split: if_splits)

text \<open>
  C14. No starvation among priorities up to 200: when every queued process yields its turn and has a
  positive pass, a queued process \<open>v\<close> is fetched within as many rounds as the strides in the queue are
  behind its own (plus one for each process that is not ahead), and no round faults.
\<close>

theorem stride_no_starvation:
  assumes "stride_wf m" "v \<in># stride_ready m" "stride_at m v + 100 < usize_bound"
    and "\<forall>j\<in>#stride_ready m. 0 < pass_at m j"
  shows "\<exists>k \<le> lag (stride_at m v) m. \<exists>is m'. yield_rounds k m = Inr (is, m') \<and> v \<in> set is"
  using assms
proof (induction "lag (stride_at m v) m" arbitrary: m rule: less_induct)
  case less
  obtain i m1 where r: "yield_round m = Inr (i, m1)" "stride_wf m1" "i \<in># stride_ready m"
    "stride_ready m1 = stride_ready m" "\<forall>j\<in>#stride_ready m. stride_at m i \<le> stride_at m j"
    "stride_at m1 = (stride_at m)(i := stride_at m i + pass_at m i)" "pass_at m1 = pass_at m"
    by (rule yield_round_ok [OF less.prems(1-3)])
  show ?case
  proof (cases "i = v")
    case True
    then have "yield_rounds 1 m = Inr ([v], m1)" using r(1) by simp
    then show ?thesis using lag_pos [OF less.prems(2)] by (metis list.set_intros(1))
  next
    case False
    then have v1: "stride_at m1 v = stride_at m v" using r(6) by simp
    have dec: "lag (stride_at m1 v) m1 < lag (stride_at m v) m"
      unfolding v1 using less.prems r by (intro lag_decreases [of i]) auto
    from less.hyps [OF dec] obtain k "is" m' where
      "k \<le> lag (stride_at m1 v) m1" "yield_rounds k m1 = Inr (is, m')" "v \<in> set is"
      using less.prems r v1 by auto
    then show ?thesis
      using dec r(1) by (intro exI [of _ "Suc k"] conjI exI [of _ "i # is"] exI [of _ m']) auto
  qed
qed

theorem stride_no_starvation_witness:
  "\<exists>k \<le> lag 5 (sample_manager 100). \<exists>is m'. yield_rounds k (sample_manager 100) = Inr (is, m') \<and> 1 \<in> set is"
  using stride_no_starvation [of "sample_manager 100" 1] sample_manager_facts [of 100] by simp

text \<open>
  C31. A process whose pass is 0 and whose stride is below that of all the others is the one that is
  fetched in every round: as long as it yields, no other process ever runs.
\<close>

theorem stride_starvation:
  assumes "stride_wf m" "v \<in># stride_ready m" "stride_at m v + 100 < usize_bound" "pass_at m v = 0"
    and "\<forall>j\<in>#stride_ready m. j \<noteq> v \<longrightarrow> stride_at m v < stride_at m j"
  shows "\<exists>m'. yield_rounds k m = Inr (replicate k v, m')"
  using assms
proof (induction k arbitrary: m)
  case (Suc k)
  obtain i m1 where r: "yield_round m = Inr (i, m1)" "stride_wf m1" "i \<in># stride_ready m"
    "stride_ready m1 = stride_ready m" "\<forall>j\<in>#stride_ready m. stride_at m i \<le> stride_at m j"
    "stride_at m1 = (stride_at m)(i := stride_at m i + pass_at m i)" "pass_at m1 = pass_at m"
    by (rule yield_round_ok [OF Suc.prems(1-3)])
  then have "i = v" using Suc.prems by (metis leD)
  then show ?case using Suc.IH [of m1] Suc.prems r by auto
qed simp

theorem stride_starvation_witness:
  "\<exists>m'. yield_rounds 1000 (sample_manager 201) = Inr (replicate 1000 0, m')"
  using stride_starvation [of "sample_manager 201" 0 1000] sample_manager_facts [of 201] by simp

text \<open>
  \<^verbatim>\<open>set_priority\<close> accepts exactly the priorities from 2 on and returns them, leaving a process with
  any other value unchanged; the pass of the process is then positive exactly for the priorities
  up to 200.
\<close>

theorem set_priority_pass:
  assumes "in_isize prio"
  shows "if prio < 2 then set_priority prio p = (- 1, p)
    else fst (set_priority prio p) = prio \<and> prio_ok (snd (set_priority prio p)) \<and>
      get_pass (proc_stride (snd (set_priority prio p))) = Inr (nat (200 div prio)) \<and>
      (get_pass (proc_stride (snd (set_priority prio p))) = Inr 0 \<longleftrightarrow> 200 < prio)"
proof (cases "prio < 2")
  case False
  then have u: "isize_as_usize prio = nat prio" using assms by (simp add: isize_as_usize_nonneg in_isize_def)
  moreover have "(200::nat) div nat prio = nat (200 div prio)"
    using False by (metis nat_div_distrib nat_numeral zero_le_numeral)
  ultimately show ?thesis
    using False by (auto simp: set_priority_def prio_ok_def get_pass_def div_eq_0_iff)
qed (simp add: set_priority_def)

theorem set_priority_pass_witness:
  "fst (set_priority 201 (sample_process 0 16 0)) = 201 \<and>
   get_pass (proc_stride (snd (set_priority 201 (sample_process 0 16 0)))) = Inr 0 \<and>
   set_priority 1 (sample_process 0 16 0) = (- 1, sample_process 0 16 0)"
  using set_priority_pass [of 201 "sample_process 0 16 0"] set_priority_pass [of 1 "sample_process 0 16 0"]
  by (simp add: in_isize_def)

end
