(* ===== verification/Vm_Space.thy ===== *)
theory Vm_Space
  imports Rcore_Prelude
begin

text \<open>
  tg-kernel-vm (\<^verbatim>\<open>space/mod.rs\<close>, \<^verbatim>\<open>space/mapper.rs\<close>, \<^verbatim>\<open>space/visitor.rs\<close>): address spaces, their areas of
  virtual pages and the page table entries of these pages.

  The page table crate is not part of the repository. What the sources use of it is an argument
  \<open>vm_env\<close>: the walk over the table that calls the \<^verbatim>\<open>Mapper\<close> (\<open>env_walk\<close>), the page allocator
  (\<open>env_alloc\<close>), the rounding of addresses to pages, the flags and how they are read from a string. The
  table is seen through its leaf entries, a map from virtual page numbers to entries; entries that are not
  valid are absent, and the identity between physical pages and kernel addresses (\<^verbatim>\<open>p_to_v\<close>,
  \<^verbatim>\<open>v_to_p\<close> of \<^verbatim>\<open>Sv39Manager\<close>) is built in. \<open>walk_spec\<close> and \<open>alloc_spec\<close> state what is relied on. A walk
  may not end, so operations that walk return \<open>'a res option\<close>.

  Shown are the meaning of \<^verbatim>\<open>have_mapped\<close>, \<^verbatim>\<open>map\<close> and \<^verbatim>\<open>unmap\<close> on the set of mapped pages, an invariant of
  address spaces that all operations keep, and that \<^verbatim>\<open>cloneself\<close> makes a deep copy.
\<close>

section \<open>Data\<close>

type_synonym vpn_range = "nat \<times> nat"   \<comment> \<open>start and end, the end excluded\<close>

record 'f pte =
  pte_ppn :: nat
  pte_flags :: 'f

type_synonym 'f ptable = "nat \<rightharpoonup> 'f pte"

record 'f address_space =
  areas :: "vpn_range list"
  ptable :: "'f ptable"

text \<open>Physical memory by pages, and the state of the page allocator.\<close>

record 'h machine =
  frames :: "nat \<Rightarrow> byte list"
  heap :: 'h

record 'f mapper =
  map_start :: nat
  map_end :: nat
  map_flags :: 'f
  map_done :: bool

record ('f, 'h) vm_env =
  env_walk :: "nat \<Rightarrow> 'f mapper \<Rightarrow> 'f ptable \<Rightarrow> 'h \<Rightarrow> ('f mapper \<times> 'f ptable \<times> 'h) run"
  env_alloc :: "nat \<Rightarrow> 'h \<Rightarrow> (nat \<times> 'h) option"
  env_owned :: "'f \<Rightarrow> 'f"
  env_contains :: "'f \<Rightarrow> 'f \<Rightarrow> bool"
  env_parse_flags :: "string \<Rightarrow> 'f option"
  env_floor :: "nat \<Rightarrow> nat"
  env_ceil :: "nat \<Rightarrow> nat"

abbreviation PAGE_SIZE :: nat where "PAGE_SIZE \<equiv> 4096"

text \<open>The first page of the last root entry, which the kernels share between all spaces for the portal.\<close>

abbreviation PORTAL_BASE :: nat where "PORTAL_BASE \<equiv> 133955584"

section \<open>The mapper\<close>

definition mapper_new :: "nat \<Rightarrow> nat \<Rightarrow> 'f \<Rightarrow> 'f mapper" where
  "mapper_new pstart pend flags = \<lparr>map_start = pstart, map_end = pend, map_flags = flags, map_done = False\<rparr>"

definition mapper_ans :: "'f mapper \<Rightarrow> bool" where
  "mapper_ans m = map_done m"

text \<open>\<^verbatim>\<open>arrive\<close>: the entry to write, the mapper afterwards, and whether the walk stops.\<close>

definition mapper_arrive :: "'f pte option \<Rightarrow> 'f mapper \<Rightarrow> ('f pte \<times> 'f mapper \<times> bool) res" where
  "mapper_arrive entry m =
     bind_res (assert_res (entry = None)) (\<lambda>_.
       let pte = \<lparr>pte_ppn = map_start m, pte_flags = map_flags m\<rparr>;
           m1 = m\<lparr>map_start := map_start m + 1\<rparr>
       in if map_start m1 = map_end m1 then Inr (pte, m1\<lparr>map_done := True\<rparr>, True)
          else Inr (pte, m1, False))"

section \<open>Address spaces\<close>

definition space_new :: "'f address_space" where
  "space_new = \<lparr>areas = [], ptable = Map.empty\<rparr>"

definition have_mapped :: "vpn_range \<Rightarrow> 'f address_space \<Rightarrow> bool" where
  "have_mapped rng sp \<longleftrightarrow>
     \<not> (\<forall>area\<in>set (areas sp). snd rng \<le> fst area \<or> snd area \<le> fst rng)"

definition map_extern ::
  "('f, 'h) vm_env \<Rightarrow> vpn_range \<Rightarrow> nat \<Rightarrow> 'f \<Rightarrow> 'f address_space \<times> 'h machine \<Rightarrow> ('f address_space \<times> 'h machine) run" where
  "map_extern env rng pbase flags = (\<lambda>(sp, mc).
     let sp1 = sp\<lparr>areas := areas sp @ [rng]\<rparr>
     in if snd rng < fst rng then Some (Inl ArithOverflow)
        else let cnt = snd rng - fst rng
             in bind_run (env_walk env (fst rng) (mapper_new pbase (pbase + cnt) flags) (ptable sp1) (heap mc))
                 (\<lambda>(mapper, pt, h).
                    if mapper_ans mapper then Some (Inr (sp1\<lparr>ptable := pt\<rparr>, mc\<lparr>heap := h\<rparr>))
                    else Some (Inl Unimplemented)))"

text \<open>Writing \<open>bytes\<close>, whole pages, to the pages from \<open>ppn\<close> on.\<close>

definition write_pages :: "nat \<Rightarrow> byte list \<Rightarrow> (nat \<Rightarrow> byte list) \<Rightarrow> nat \<Rightarrow> byte list" where
  "write_pages ppn bytes fr p =
     (if ppn \<le> p \<and> p < ppn + length bytes div PAGE_SIZE then slice_of ((p - ppn) * PAGE_SIZE) PAGE_SIZE bytes
      else fr p)"

definition read_pages :: "nat \<Rightarrow> nat \<Rightarrow> (nat \<Rightarrow> byte list) \<Rightarrow> byte list" where
  "read_pages ppn cnt fr = concat (map fr [ppn..<ppn + cnt])"

definition space_map ::
  "('f, 'h) vm_env \<Rightarrow> vpn_range \<Rightarrow> byte list \<Rightarrow> nat \<Rightarrow> 'f \<Rightarrow> 'f address_space \<times> 'h machine \<Rightarrow>
   ('f address_space \<times> 'h machine) run" where
  "space_map env rng data offset flags = (\<lambda>(sp, mc).
     if snd rng < fst rng then Some (Inl ArithOverflow)
     else let cnt = snd rng - fst rng;
              size = cnt * PAGE_SIZE
          in if size < length data + offset then Some (Inl AssertFailed)
             else case env_alloc env cnt (heap mc) of
                    None \<Rightarrow> Some (Inl OutOfMemory)
                  | Some (page, h) \<Rightarrow>
                      let bytes = replicate offset 0 @ data @ replicate (size - offset - length data) 0
                      in map_extern env rng page (env_owned env flags)
                           (sp, mc\<lparr>heap := h, frames := write_pages page bytes (frames mc)\<rparr>))"

definition map_anonymous ::
  "('f, 'h) vm_env \<Rightarrow> vpn_range \<Rightarrow> 'f \<Rightarrow> 'f address_space \<times> 'h machine \<Rightarrow> ('f address_space \<times> 'h machine) run" where
  "map_anonymous env rng flags = (\<lambda>(sp, mc).
     if snd rng < fst rng then Some (Inl ArithOverflow)
     else let cnt = snd rng - fst rng;
              size = cnt * PAGE_SIZE
          in case env_alloc env cnt (heap mc) of
               None \<Rightarrow> Some (Inl OutOfMemory)
             | Some (page, h) \<Rightarrow>
                 map_extern env rng page (env_owned env flags)
                   (sp, mc\<lparr>heap := h, frames := write_pages page (replicate size 0) (frames mc)\<rparr>))"

text \<open>The split of one area by \<^verbatim>\<open>unmap\<close>, and the loop that clears the entries.\<close>

definition split_area :: "vpn_range \<Rightarrow> vpn_range \<Rightarrow> vpn_range list" where
  "split_area rng area =
     (if snd area \<le> fst rng \<or> snd rng \<le> fst area then [area]
      else (if fst area < fst rng then [(fst area, fst rng)] else []) @
           (if snd rng < snd area then [(snd rng, snd area)] else []))"

definition clear_ptes :: "vpn_range \<Rightarrow> 'f ptable \<Rightarrow> 'f ptable" where
  "clear_ptes rng pt = (\<lambda>v. if fst rng \<le> v \<and> v < snd rng then None else pt v)"

definition space_unmap :: "vpn_range \<Rightarrow> 'f address_space \<Rightarrow> 'f address_space" where
  "space_unmap rng sp =
     sp\<lparr>areas := concat (map (split_area rng) (areas sp)), ptable := clear_ptes rng (ptable sp)\<rparr>"

text \<open>\<^verbatim>\<open>translate\<close>: the physical address of a virtual address whose entry has the flags asked for.\<close>

definition translate :: "('f, 'h) vm_env \<Rightarrow> nat \<Rightarrow> 'f \<Rightarrow> 'f address_space \<Rightarrow> nat option" where
  "translate env addr flags sp =
     (case ptable sp (env_floor env addr) of
        None \<Rightarrow> None
      | Some pte \<Rightarrow> if env_contains env (pte_flags pte) flags
                   then Some (pte_ppn pte * PAGE_SIZE + addr mod PAGE_SIZE) else None)"

fun clone_areas ::
  "('f, 'h) vm_env \<Rightarrow> 'f address_space \<Rightarrow> vpn_range list \<Rightarrow> 'f address_space \<times> 'h machine \<Rightarrow>
   ('f address_space \<times> 'h machine) run" where
  "clone_areas env sp [] new = Some (Inr new)"
| "clone_areas env sp (rng # ranges) new =
     (case ptable sp (fst rng) of
        None \<Rightarrow> Some (Inl UnwrapNone)
      | Some pte \<Rightarrow>
          if snd rng < fst rng then Some (Inl ArithOverflow)
          else let cnt = snd rng - fst rng; mc = snd new
               in case env_alloc env cnt (heap mc) of
                    None \<Rightarrow> Some (Inl OutOfMemory)
                  | Some (page, h) \<Rightarrow>
                      let data = read_pages (pte_ppn pte) cnt (frames mc)
                      in bind_run (map_extern env rng page (env_owned env (pte_flags pte))
                           (fst new, mc\<lparr>heap := h, frames := write_pages page data (frames mc)\<rparr>))
                           (clone_areas env sp ranges))"

definition cloneself ::
  "('f, 'h) vm_env \<Rightarrow> 'f address_space \<Rightarrow> 'f address_space \<times> 'h machine \<Rightarrow> ('f address_space \<times> 'h machine) run" where
  "cloneself env sp new = clone_areas env sp (areas sp) new"

section \<open>What is relied on\<close>

text \<open>
  The walk calls \<^verbatim>\<open>arrive\<close> on the leaf entry of its position, writes the entry it gets back, and stops or
  goes on with the next page. On the way it may allocate pages for inner tables (\<open>grow\<close>).
\<close>

definition walk_spec :: "('f, 'h) vm_env \<Rightarrow> (nat \<Rightarrow> 'f ptable \<Rightarrow> 'h \<Rightarrow> 'h) \<Rightarrow> bool" where
  "walk_spec env grow \<longleftrightarrow> (\<forall>v m pt h. env_walk env v m pt h =
     (case mapper_arrive (pt v) m of
        Inl e \<Rightarrow> Some (Inl e)
      | Inr (pte, m', stop) \<Rightarrow>
          if stop then Some (Inr (m', pt(v \<mapsto> pte), grow v pt h))
          else env_walk env (v + 1) m' (pt(v \<mapsto> pte)) (grow v pt h)))"

text \<open>The allocator hands out pages that are not in use, and the walk only allocates.\<close>

definition alloc_spec :: "('f, 'h) vm_env \<Rightarrow> (nat \<Rightarrow> 'f ptable \<Rightarrow> 'h \<Rightarrow> 'h) \<Rightarrow> ('h \<Rightarrow> nat set) \<Rightarrow> bool" where
  "alloc_spec env grow used \<longleftrightarrow>
     (\<forall>c h p h'. env_alloc env c h = Some (p, h') \<longrightarrow>
        {p..<p + c} \<inter> used h = {} \<and> used h' = used h \<union> {p..<p + c}) \<and>
     (\<forall>v pt h. used h \<subseteq> used (grow v pt h))"

lemma walk_unfold:
  "walk_spec env grow \<Longrightarrow> env_walk env v m pt h =
     (case mapper_arrive (pt v) m of
        Inl e \<Rightarrow> Some (Inl e)
      | Inr (pte, m', stop) \<Rightarrow>
          if stop then Some (Inr (m', pt(v \<mapsto> pte), grow v pt h))
          else env_walk env (v + 1) m' (pt(v \<mapsto> pte)) (grow v pt h))"
  unfolding walk_spec_def by blast

text \<open>Consecutive entries for the pages of a rng.\<close>

definition add_entries :: "nat \<Rightarrow> nat \<Rightarrow> nat \<Rightarrow> 'f \<Rightarrow> 'f ptable \<Rightarrow> 'f ptable" where
  "add_entries v cnt pbase flags pt =
     (\<lambda>x. if v \<le> x \<and> x < v + cnt then Some \<lparr>pte_ppn = pbase + (x - v), pte_flags = flags\<rparr> else pt x)"

lemma add_entries_step:
  "add_entries (v + 1) cnt (pbase + 1) flags (pt(v \<mapsto> \<lparr>pte_ppn = pbase, pte_flags = flags\<rparr>)) =
   add_entries v (Suc cnt) pbase flags pt"
  by (auto simp: add_entries_def fun_eq_iff)

lemma walk_maps:
  assumes spec: "walk_spec env grow" "alloc_spec env grow used"
  shows "\<forall>x. v \<le> x \<and> x < v + Suc cnt \<longrightarrow> pt x = None \<Longrightarrow>
    \<exists>h'. used h \<subseteq> used h' \<and> env_walk env v (mapper_new pbase (pbase + Suc cnt) flags) pt h =
      Some (Inr ((mapper_new (pbase + Suc cnt) (pbase + Suc cnt) flags)\<lparr>map_done := True\<rparr>,
        add_entries v (Suc cnt) pbase flags pt, h'))"
proof (induction cnt arbitrary: v pbase pt h)
  case 0
  then have "pt v = None" by simp
  moreover have "used h \<subseteq> used (grow v pt h)" using spec(2) by (simp add: alloc_spec_def)
  ultimately show ?case
    by (subst walk_unfold [OF spec(1)])
      (auto simp: mapper_arrive_def mapper_new_def Let_def add_entries_def fun_eq_iff)
next
  case (Suc cnt)
  let ?pt = "pt(v \<mapsto> \<lparr>pte_ppn = pbase, pte_flags = flags\<rparr>)"
  have pt: "pt v = None" "\<forall>x. v + 1 \<le> x \<and> x < v + 1 + Suc cnt \<longrightarrow> ?pt x = None" using Suc.prems by auto
  have g: "used h \<subseteq> used (grow v pt h)" using spec(2) by (simp add: alloc_spec_def)
  have w: "env_walk env v (mapper_new pbase (pbase + Suc (Suc cnt)) flags) pt h =
      env_walk env (v + 1) (mapper_new (pbase + 1) (pbase + 1 + Suc cnt) flags) ?pt (grow v pt h)"
    using pt(1) by (subst walk_unfold [OF spec(1)]) (simp add: mapper_arrive_def mapper_new_def Let_def)
  obtain h' where h': "used (grow v pt h) \<subseteq> used h'"
    "env_walk env (v + 1) (mapper_new (pbase + 1) (pbase + 1 + Suc cnt) flags) ?pt (grow v pt h) =
      Some (Inr ((mapper_new (pbase + 1 + Suc cnt) (pbase + 1 + Suc cnt) flags)\<lparr>map_done := True\<rparr>,
        add_entries (v + 1) (Suc cnt) (pbase + 1) flags ?pt, h'))"
    using Suc.IH [OF pt(2), where pbase = "pbase + 1" and h = "grow v pt h"] by blast
  show ?case unfolding w h'(2) add_entries_step using g h'(1) by auto
qed

section \<open>The invariant of address spaces\<close>

definition pages :: "vpn_range \<Rightarrow> nat set" where
  "pages rng = {fst rng..<snd rng}"

definition covered :: "vpn_range list \<Rightarrow> nat set" where
  "covered as = (\<Union>a\<in>set as. pages a)"

text \<open>One area: not empty, and mapped to consecutive physical pages with the same flags.\<close>

definition area_wf :: "'f ptable \<Rightarrow> vpn_range \<Rightarrow> bool" where
  "area_wf pt a \<longleftrightarrow> fst a < snd a \<and>
     (\<exists>p f. \<forall>x\<in>pages a. pt x = Some \<lparr>pte_ppn = p + (x - fst a), pte_flags = f\<rparr>)"

definition space_wf :: "'f address_space \<Rightarrow> bool" where
  "space_wf sp \<longleftrightarrow> (\<forall>a\<in>set (areas sp). area_wf (ptable sp) a) \<and>
     sorted_wrt (\<lambda>a b. pages a \<inter> pages b = {}) (areas sp) \<and> dom (ptable sp) \<inter> {..<PORTAL_BASE} = covered (areas sp)"

text \<open>The physical pages of a space, those of the shared root entry apart.\<close>

definition frames_of :: "'f address_space \<Rightarrow> nat set" where
  "frames_of sp = {pte_ppn e | v e. v < PORTAL_BASE \<and> ptable sp v = Some e}"

lemma covered_simps [simp]:
  "covered [] = {}" "covered (a # as) = pages a \<union> covered as" "covered (as @ bs) = covered as \<union> covered bs"
  by (auto simp: covered_def)

lemma mem_pages [simp]: "x \<in> pages rng \<longleftrightarrow> fst rng \<le> x \<and> x < snd rng"
  by (simp add: pages_def)

lemma frames_ofI: "ptable sp v = Some e \<Longrightarrow> v < PORTAL_BASE \<Longrightarrow> pte_ppn e \<in> frames_of sp"
  by (auto simp: frames_of_def)

lemma space_wf_below: "space_wf sp \<Longrightarrow> covered (areas sp) \<subseteq> {..<PORTAL_BASE}"
  by (auto simp: space_wf_def)

lemma space_wf_new [simp]: "space_wf space_new"
  by (simp add: space_wf_def space_new_def)

lemma area_wf_cong: "\<forall>x\<in>pages a. pt' x = pt x \<Longrightarrow> area_wf pt' a = area_wf pt a"
  unfolding area_wf_def by (intro conj_cong refl ex_cong1 ball_cong) (simp_all del: mem_pages)

lemma have_mapped_iff:
  assumes "space_wf sp" "fst rng < snd rng"
  shows "have_mapped rng sp \<longleftrightarrow> pages rng \<inter> covered (areas sp) \<noteq> {}"
proof -
  have "(snd rng \<le> fst a \<or> snd a \<le> fst rng) \<longleftrightarrow> pages rng \<inter> pages a = {}" if "a \<in> set (areas sp)" for a
  proof -
    have "fst a < snd a" using assms(1) that by (auto simp: space_wf_def area_wf_def)
    then have "max (fst rng) (fst a) \<in> pages rng \<inter> pages a" if "\<not> (snd rng \<le> fst a \<or> snd a \<le> fst rng)"
      using that assms(2) by (auto simp: max_def)
    moreover have "pages rng \<inter> pages a = {}" if "snd rng \<le> fst a \<or> snd a \<le> fst rng"
      using that by (auto simp: pages_def)
    ultimately show ?thesis by blast
  qed
  then show ?thesis by (auto simp: have_mapped_def covered_def)
qed

lemma map_extern_ok:
  assumes spec: "walk_spec env grow" "alloc_spec env grow used"
    and wf: "space_wf sp" and rng: "fst rng < snd rng" "snd rng \<le> PORTAL_BASE" and free: "\<not> have_mapped rng sp"
  obtains h' where "used (heap mc) \<subseteq> used h'"
    "map_extern env rng pbase flags (sp, mc) =
      Some (Inr (\<lparr>areas = areas sp @ [rng],
        ptable = add_entries (fst rng) (snd rng - fst rng) pbase flags (ptable sp)\<rparr>, mc\<lparr>heap := h'\<rparr>))"
    "space_wf \<lparr>areas = areas sp @ [rng],
        ptable = add_entries (fst rng) (snd rng - fst rng) pbase flags (ptable sp)\<rparr>"
proof -
  have disj: "pages rng \<inter> covered (areas sp) = {}" using have_mapped_iff [OF wf rng(1)] free by simp
  have below: "pages rng \<subseteq> {..<PORTAL_BASE}" using rng(2) by auto
  have none: "ptable sp x = None" if "x \<in> pages rng" for x
  proof -
    have "x \<notin> dom (ptable sp) \<inter> {..<PORTAL_BASE}" using that disj wf by (auto simp: space_wf_def simp del: mem_pages)
    then show ?thesis using that below by blast
  qed
  obtain cnt where cnt: "snd rng - fst rng = Suc cnt" using rng by (metis Suc_diff_Suc)
  have "fst rng + Suc cnt = snd rng" using cnt rng by simp
  then have "\<forall>x. fst rng \<le> x \<and> x < fst rng + Suc cnt \<longrightarrow> ptable sp x = None" using none by simp
  from walk_maps [OF spec this, of "heap mc" pbase flags] obtain h' where h': "used (heap mc) \<subseteq> used h'"
    "env_walk env (fst rng) (mapper_new pbase (pbase + Suc cnt) flags) (ptable sp) (heap mc) =
      Some (Inr ((mapper_new (pbase + Suc cnt) (pbase + Suc cnt) flags)\<lparr>map_done := True\<rparr>,
        add_entries (fst rng) (Suc cnt) pbase flags (ptable sp), h'))" by blast
  let ?pt = "add_entries (fst rng) (snd rng - fst rng) pbase flags (ptable sp)"
  have pt: "?pt x = (if x \<in> pages rng then Some \<lparr>pte_ppn = pbase + (x - fst rng), pte_flags = flags\<rparr> else ptable sp x)" for x
    using rng by (auto simp: add_entries_def)
  have old: "area_wf ?pt a" if "a \<in> set (areas sp)" for a
  proof -
    have "\<forall>x\<in>pages a. ?pt x = ptable sp x" using that disj pt by (auto simp: covered_def simp del: mem_pages)
    then have "area_wf ?pt a = area_wf (ptable sp) a" by (rule area_wf_cong)
    then show ?thesis using that wf by (simp add: space_wf_def)
  qed
  have new: "area_wf ?pt rng" using rng pt by (auto simp: area_wf_def)
  have "dom ?pt \<inter> {..<PORTAL_BASE} = covered (areas sp @ [rng])"
    using wf below by (auto simp: pt dom_def space_wf_def simp del: mem_pages)
  moreover have "sorted_wrt (\<lambda>a b. pages a \<inter> pages b = {}) (areas sp @ [rng])"
    using wf disj by (auto simp: space_wf_def sorted_wrt_append covered_def simp del: mem_pages)
  ultimately have "space_wf \<lparr>areas = areas sp @ [rng], ptable = ?pt\<rparr>"
    using old new by (auto simp: space_wf_def)
  moreover have "map_extern env rng pbase flags (sp, mc) =
      Some (Inr (\<lparr>areas = areas sp @ [rng], ptable = ?pt\<rparr>, mc\<lparr>heap := h'\<rparr>))"
    using rng h'(2) by (simp add: map_extern_def cnt mapper_ans_def mapper_new_def)
  ultimately show ?thesis using that h'(1) by blast
qed

lemma covered_split:
  "fst rng \<le> snd rng \<Longrightarrow> covered (concat (map (split_area rng) as)) = covered as - pages rng"
proof (induction as)
  case (Cons a as)
  have "covered (split_area rng a) = pages a - pages rng"
    using Cons.prems by (auto simp: split_area_def covered_def split: if_splits)
  then show ?case using Cons by auto
qed simp

lemma split_area_sub:
  "b \<in> set (split_area rng a) \<Longrightarrow> fst rng \<le> snd rng \<Longrightarrow> fst a < snd a \<Longrightarrow>
   pages b \<subseteq> pages a - pages rng \<and> fst b < snd b \<and> fst a \<le> fst b"
  by (auto simp: split_area_def split: if_splits)

lemma split_area_disjoint:
  "fst rng \<le> snd rng \<Longrightarrow> sorted_wrt (\<lambda>a b. pages a \<inter> pages b = {}) (split_area rng a)"
  by (auto simp: split_area_def)

lemma split_areas_disjoint:
  assumes "fst rng \<le> snd rng" "\<forall>a\<in>set as. fst a < snd a" "sorted_wrt (\<lambda>a b. pages a \<inter> pages b = {}) as"
  shows "sorted_wrt (\<lambda>a b. pages a \<inter> pages b = {}) (concat (map (split_area rng) as))"
  using assms
proof (induction as)
  case (Cons a as)
  have "pages x \<inter> pages y = {}" if x: "x \<in> set (split_area rng a)" and y: "y \<in> set (concat (map (split_area rng) as))" for x y
  proof -
    obtain b where b: "b \<in> set as" "y \<in> set (split_area rng b)" using y by auto
    have "fst a < snd a" "fst b < snd b" using Cons.prems(2) b(1) by simp_all
    then have "pages x \<subseteq> pages a" "pages y \<subseteq> pages b"
      using split_area_sub [OF x Cons.prems(1)] split_area_sub [OF b(2) Cons.prems(1)] by blast+
    moreover have "pages a \<inter> pages b = {}" using Cons.prems(3) b(1) by (simp del: mem_pages)
    ultimately show ?thesis by blast
  qed
  moreover have "sorted_wrt (\<lambda>a b. pages a \<inter> pages b = {}) (concat (map (split_area rng) as))"
    using Cons by (simp del: mem_pages)
  ultimately show ?case
    using split_area_disjoint [OF Cons.prems(1)] by (simp add: sorted_wrt_append del: mem_pages)
qed simp

lemma space_unmap_ok:
  assumes wf: "space_wf sp" and rng: "fst rng \<le> snd rng"
  shows "space_wf (space_unmap rng sp)" and "covered (areas (space_unmap rng sp)) = covered (areas sp) - pages rng"
    and "ptable (space_unmap rng sp) = (\<lambda>v. if v \<in> pages rng then None else ptable sp v)"
proof -
  let ?sp = "space_unmap rng sp"
  show pt: "ptable ?sp = (\<lambda>v. if v \<in> pages rng then None else ptable sp v)"
    by (simp add: space_unmap_def clear_ptes_def)
  show cov: "covered (areas ?sp) = covered (areas sp) - pages rng"
    using covered_split [OF rng] by (simp add: space_unmap_def)
  have ne: "\<forall>a\<in>set (areas sp). fst a < snd a" using wf by (auto simp: space_wf_def area_wf_def)
  have "area_wf (ptable ?sp) b" if "b \<in> set (areas ?sp)" for b
  proof -
    have "\<exists>a\<in>set (areas sp). b \<in> set (split_area rng a)" using that by (simp add: space_unmap_def)
    then obtain a where a: "a \<in> set (areas sp)" "b \<in> set (split_area rng a)" by blast
    note sub = split_area_sub [OF a(2) rng] ne a(1)
    obtain p f where pf: "\<forall>x\<in>pages a. ptable sp x = Some \<lparr>pte_ppn = p + (x - fst a), pte_flags = f\<rparr>"
      using wf a(1) unfolding space_wf_def area_wf_def by blast
    have "ptable ?sp x = Some \<lparr>pte_ppn = (p + (fst b - fst a)) + (x - fst b), pte_flags = f\<rparr>" if "x \<in> pages b" for x
    proof -
      have "x \<in> pages a" "x \<notin> pages rng" "fst a \<le> fst b" "fst b \<le> x" using that sub by auto
      then show ?thesis using pf by (auto simp: pt simp del: mem_pages)
    qed
    then show ?thesis using sub unfolding area_wf_def by blast
  qed
  moreover have "sorted_wrt (\<lambda>a b. pages a \<inter> pages b = {}) (areas ?sp)"
    using split_areas_disjoint [OF rng ne] wf by (simp add: space_unmap_def space_wf_def del: mem_pages)
  moreover have "dom (ptable ?sp) \<inter> {..<PORTAL_BASE} = covered (areas ?sp)"
    using wf unfolding cov by (auto simp: pt space_wf_def dom_def simp del: mem_pages)
  ultimately show "space_wf ?sp" by (simp add: space_wf_def del: mem_pages)
qed

section \<open>Deep copies\<close>

definition frames_wf :: "(nat \<Rightarrow> byte list) \<Rightarrow> bool" where
  "frames_wf fr \<longleftrightarrow> (\<forall>p. length (fr p) = PAGE_SIZE)"

lemma length_read_pages [simp]: "frames_wf fr \<Longrightarrow> length (read_pages p n fr) = n * PAGE_SIZE"
proof (induction n)
  case (Suc n)
  then have "length (fr (p + n)) = PAGE_SIZE" by (simp add: frames_wf_def)
  with Suc show ?case by (simp add: read_pages_def)
qed (simp add: read_pages_def)

lemma slice_read_pages:
  "frames_wf fr \<Longrightarrow> i < n \<Longrightarrow> slice_of (i * PAGE_SIZE) PAGE_SIZE (read_pages p n fr) = fr (p + i)"
proof -
  assume fr: "frames_wf fr" and i: "i < n"
  have "[p..<p + n] = [p..<p + i] @ [p + i] @ [Suc (p + i)..<p + n]"
    using i upt_add_eq_append [of p "p + i" "n - i"] by (simp add: upt_rec)
  then have "read_pages p n fr = read_pages p i fr @ fr (p + i) @ concat (map fr [Suc (p + i)..<p + n])"
    by (simp add: read_pages_def)
  moreover have "length (read_pages p i fr) = i * PAGE_SIZE" "length (fr (p + i)) = PAGE_SIZE"
    using fr by (simp_all add: frames_wf_def)
  ultimately show ?thesis by (simp add: slice_of_def)
qed

text \<open>Copying \<open>n\<close> pages to pages outside of them.\<close>

lemma copy_pages:
  assumes "frames_wf fr"
  shows "write_pages q (read_pages p n fr) fr x = (if q \<le> x \<and> x < q + n then fr (p + (x - q)) else fr x)"
    and "frames_wf (write_pages q (read_pages p n fr) fr)"
proof -
  have "slice_of ((x - q) * PAGE_SIZE) PAGE_SIZE (read_pages p n fr) = fr (p + (x - q))" if "q \<le> x" "x < q + n" for x
    using slice_read_pages [OF assms] that by simp
  then show e: "write_pages q (read_pages p n fr) fr x = (if q \<le> x \<and> x < q + n then fr (p + (x - q)) else fr x)" for x
    using assms by (simp add: write_pages_def)
  then show "frames_wf (write_pages q (read_pages p n fr) fr)" using assms by (simp add: frames_wf_def)
qed

text \<open>
  The entries \<open>pt'\<close> with memory \<open>fr'\<close> hold on the pages \<open>V\<close> what \<open>pt\<close> holds with memory \<open>fr\<close>, with
  the flags of an owned page, on physical pages outside of \<open>U\<close>.
\<close>

definition copy_of :: "('f, 'h) vm_env \<Rightarrow> nat set \<Rightarrow> nat set \<Rightarrow> 'f ptable \<Rightarrow> (nat \<Rightarrow> byte list) \<Rightarrow>
    'f ptable \<Rightarrow> (nat \<Rightarrow> byte list) \<Rightarrow> bool" where
  "copy_of env U V pt fr pt' fr' \<longleftrightarrow> (\<forall>v\<in>V. \<exists>e e'. pt v = Some e \<and> pt' v = Some e' \<and>
     fr' (pte_ppn e') = fr (pte_ppn e) \<and> pte_flags e' = env_owned env (pte_flags e) \<and> pte_ppn e' \<notin> U)"

lemma clone_areas_ok:
  assumes spec: "walk_spec env grow" "alloc_spec env grow used"
    and wf: "space_wf sp" and U: "frames_of sp \<subseteq> used h0" and fr0: "frames_wf fr0"
  shows "areas sp = as @ rngs \<Longrightarrow> space_wf spn \<Longrightarrow> areas spn = as \<Longrightarrow> frames_wf (frames mc) \<Longrightarrow>
    used h0 \<subseteq> used (heap mc) \<Longrightarrow> (\<forall>p\<in>used h0. frames mc p = fr0 p) \<Longrightarrow>
    copy_of env (used h0) (covered as) (ptable sp) fr0 (ptable spn) (frames mc) \<Longrightarrow>
    frames_of spn \<subseteq> used (heap mc) \<Longrightarrow>
    clone_areas env sp rngs (spn, mc) = Some (Inl OutOfMemory) \<or>
    (\<exists>sp' mc'. clone_areas env sp rngs (spn, mc) = Some (Inr (sp', mc')) \<and> space_wf sp' \<and>
       areas sp' = areas sp \<and> (\<forall>p\<in>used h0. frames mc' p = fr0 p) \<and> used h0 \<subseteq> used (heap mc') \<and>
       frames_wf (frames mc') \<and> frames_of sp' \<subseteq> used (heap mc') \<and>
       copy_of env (used h0) (covered (areas sp)) (ptable sp) fr0 (ptable sp') (frames mc'))"
proof (induction rngs arbitrary: as spn mc)
  case Nil
  then show ?case by auto
next
  case (Cons rng rngs)
  have a: "area_wf (ptable sp) rng" using wf Cons.prems(1) by (simp add: space_wf_def)
  then obtain p f where ne: "fst rng < snd rng"
    and pf: "\<forall>x\<in>pages rng. ptable sp x = Some \<lparr>pte_ppn = p + (x - fst rng), pte_flags = f\<rparr>"
    by (auto simp: area_wf_def simp del: mem_pages)
  have first: "ptable sp (fst rng) = Some \<lparr>pte_ppn = p, pte_flags = f\<rparr>" using pf ne by simp
  have disj: "pages rng \<inter> covered as = {}"
    using wf Cons.prems(1) by (auto simp: space_wf_def sorted_wrt_append covered_def simp del: mem_pages)
  have below: "pages rng \<subseteq> {..<PORTAL_BASE}" "covered as \<subseteq> {..<PORTAL_BASE}"
    using space_wf_below [OF wf] Cons.prems(1) by (simp_all del: mem_pages)
  have "snd rng - 1 \<in> pages rng" using ne by simp
  then have rend: "snd rng \<le> PORTAL_BASE" using below(1) by auto
  define n where "n = snd rng - fst rng"
  have rng: "v \<in> pages rng \<longleftrightarrow> fst rng \<le> v \<and> v < fst rng + n" for v using ne by (auto simp: n_def)
  show ?case
  proof (cases "env_alloc env n (heap mc)")
    case None
    then show ?thesis using first ne by (simp add: Let_def n_def)
  next
    case (Some qh)
    then obtain q h where q: "env_alloc env n (heap mc) = Some (q, h)" by (cases qh) simp
    have fresh: "{q..<q + n} \<inter> used (heap mc) = {}" "used h = used (heap mc) \<union> {q..<q + n}"
      using spec(2) q by (auto simp: alloc_spec_def)
    define fr where "fr = write_pages q (read_pages p n (frames mc)) (frames mc)"
    note cp = copy_pages [OF Cons.prems(4), of q p n, folded fr_def]
    have free: "\<not> have_mapped rng spn" using have_mapped_iff [OF Cons.prems(2) ne] disj Cons.prems(3) by simp
    let ?sp = "\<lparr>areas = areas spn @ [rng], ptable = add_entries (fst rng) n q (env_owned env f) (ptable spn)\<rparr>"
    let ?pt = "add_entries (fst rng) n q (env_owned env f) (ptable spn)"
    obtain h' where m: "used (heap (mc\<lparr>heap := h, frames := fr\<rparr>)) \<subseteq> used h'"
      "map_extern env rng q (env_owned env f) (spn, mc\<lparr>heap := h, frames := fr\<rparr>) =
        Some (Inr (?sp, mc\<lparr>heap := h, frames := fr, heap := h'\<rparr>))" "space_wf ?sp"
      by (rule map_extern_ok [OF spec Cons.prems(2) ne rend free, folded n_def])
    define mc' where "mc' = mc\<lparr>heap := h, frames := fr, heap := h'\<rparr>"
    have mc': "heap mc' = h'" "frames mc' = fr" by (simp_all add: mc'_def)
    have step: "clone_areas env sp (rng # rngs) (spn, mc) = clone_areas env sp rngs (?sp, mc')"
      using first ne q m(2) by (simp add: Let_def fr_def mc'_def n_def)
    have uh: "used (heap mc) \<subseteq> used h'" "{q..<q + n} \<subseteq> used h'" using m(1) fresh(2) by auto
    have old: "fr x = frames mc x" if "x \<in> used (heap mc)" for x using that fresh(1) cp(1) by auto
    have pt: "?pt v = (if v \<in> pages rng then Some \<lparr>pte_ppn = q + (v - fst rng), pte_flags = env_owned env f\<rparr>
        else ptable spn v)" for v
      unfolding add_entries_def rng by simp
    have "copy_of env (used h0) (covered (as @ [rng])) (ptable sp) fr0 ?pt fr"
    proof -
      have "copy_of env (used h0) (covered as) (ptable sp) fr0 ?pt fr"
        unfolding copy_of_def
      proof
        fix v assume v: "v \<in> covered as"
        then obtain e e' where e: "ptable sp v = Some e" "ptable spn v = Some e'"
          "frames mc (pte_ppn e') = fr0 (pte_ppn e)" "pte_flags e' = env_owned env (pte_flags e)" "pte_ppn e' \<notin> used h0"
          using Cons.prems(7) unfolding copy_of_def by blast
        then have "pte_ppn e' \<in> used (heap mc)" using Cons.prems(8) frames_ofI [OF e(2)] below(2) v by blast
        then show "\<exists>e e'. ptable sp v = Some e \<and> ?pt v = Some e' \<and> fr (pte_ppn e') = fr0 (pte_ppn e) \<and>
            pte_flags e' = env_owned env (pte_flags e) \<and> pte_ppn e' \<notin> used h0"
          using e old v disj pt by (auto simp del: mem_pages)
      qed
      moreover have "copy_of env (used h0) (pages rng) (ptable sp) fr0 ?pt fr"
        unfolding copy_of_def
      proof
        fix v assume v: "v \<in> pages rng"
        let ?i = "v - fst rng"
        have i: "?i < n" using v by (simp add: n_def diff_less_mono)
        have e: "ptable sp v = Some \<lparr>pte_ppn = p + ?i, pte_flags = f\<rparr>" using pf v by blast
        have "p + ?i \<in> frames_of sp" using frames_ofI [OF e] below(1) v by (auto simp del: mem_pages)
        then have "p + ?i \<in> used h0" using U by blast
        moreover have "fr (q + ?i) = frames mc (p + ?i)" using cp(1) i by simp
        moreover have "q + ?i \<in> {q..<q + n}" using i by simp
        then have "q + ?i \<notin> used h0" using fresh(1) Cons.prems(5) by blast
        ultimately show "\<exists>e e'. ptable sp v = Some e \<and> ?pt v = Some e' \<and> fr (pte_ppn e') = fr0 (pte_ppn e) \<and>
            pte_flags e' = env_owned env (pte_flags e) \<and> pte_ppn e' \<notin> used h0"
          using e v pt Cons.prems(6) by (simp del: mem_pages)
      qed
      ultimately show ?thesis by (auto simp: copy_of_def simp del: mem_pages)
    qed
    moreover have "frames_of ?sp \<subseteq> used h'"
    proof
      fix x assume "x \<in> frames_of ?sp"
      then obtain v e where v: "?pt v = Some e" "pte_ppn e = x" "v < PORTAL_BASE" by (auto simp: frames_of_def)
      show "x \<in> used h'"
      proof (cases "v \<in> pages rng")
        case True
        then have "x = q + (v - fst rng)" using v pt by (auto simp del: mem_pages)
        moreover have "v - fst rng < n" using True by (simp add: n_def diff_less_mono)
        ultimately show ?thesis using uh(2) by auto
      next
        case False
        then have "ptable spn v = Some e" using v(1) pt by (simp del: mem_pages)
        then have "x \<in> frames_of spn" using frames_ofI v(2,3) by blast
        then show ?thesis using Cons.prems(8) uh(1) by blast
      qed
    qed
    moreover have "used h0 \<subseteq> used h'" using Cons.prems(5) uh(1) by blast
    moreover have "\<forall>p\<in>used h0. fr p = fr0 p" using Cons.prems(5,6) old by auto
    ultimately show ?thesis
      unfolding step using Cons.prems(1,3) m(3) cp(2)
      by (intro Cons.IH [of "as @ [rng]"]) (simp_all add: mc')
  qed
qed

lemma cloneself_ok:
  assumes "walk_spec env grow" "alloc_spec env grow used" "space_wf sp" "frames_of sp \<subseteq> used (heap mc)"
    "frames_wf (frames mc)"
  shows "cloneself env sp (space_new, mc) = Some (Inl OutOfMemory) \<or>
    (\<exists>sp' mc'. cloneself env sp (space_new, mc) = Some (Inr (sp', mc')) \<and> space_wf sp' \<and> areas sp' = areas sp \<and>
       (\<forall>p\<in>used (heap mc). frames mc' p = frames mc p) \<and> used (heap mc) \<subseteq> used (heap mc') \<and>
       frames_wf (frames mc') \<and> frames_of sp' \<subseteq> used (heap mc') \<and>
       (\<forall>v<PORTAL_BASE. case ptable sp v of
          None \<Rightarrow> ptable sp' v = None
        | Some e \<Rightarrow> \<exists>e'. ptable sp' v = Some e' \<and> frames mc' (pte_ppn e') = frames mc (pte_ppn e) \<and>
            pte_flags e' = env_owned env (pte_flags e) \<and> pte_ppn e' \<notin> used (heap mc)))"
proof -
  have "copy_of env (used (heap mc)) (covered []) (ptable sp) (frames mc) (ptable space_new) (frames mc)"
    by (simp add: copy_of_def)
  then have "cloneself env sp (space_new, mc) = Some (Inl OutOfMemory) \<or>
    (\<exists>sp' mc'. cloneself env sp (space_new, mc) = Some (Inr (sp', mc')) \<and> space_wf sp' \<and> areas sp' = areas sp \<and>
      (\<forall>p\<in>used (heap mc). frames mc' p = frames mc p) \<and> used (heap mc) \<subseteq> used (heap mc') \<and>
      frames_wf (frames mc') \<and> frames_of sp' \<subseteq> used (heap mc') \<and>
      copy_of env (used (heap mc)) (covered (areas sp)) (ptable sp) (frames mc) (ptable sp') (frames mc'))"
    unfolding cloneself_def
    by (intro clone_areas_ok [OF assms(1-5), where as = "[]"])
      (simp_all add: assms frames_of_def space_wf_new [unfolded space_new_def] space_new_def)
  moreover have "case ptable sp v of None \<Rightarrow> ptable sp' v = None
      | Some e \<Rightarrow> \<exists>e'. ptable sp' v = Some e' \<and> fr' (pte_ppn e') = fr (pte_ppn e) \<and>
          pte_flags e' = env_owned env (pte_flags e) \<and> pte_ppn e' \<notin> U"
    if "copy_of env U (covered (areas sp)) (ptable sp) fr (ptable sp') fr'" "v < PORTAL_BASE"
      "space_wf sp'" "areas sp' = areas sp" for U fr sp' fr' v
  proof (cases "ptable sp v")
    case None
    then have "v \<notin> dom (ptable sp') \<inter> {..<PORTAL_BASE}" using that(3,4) assms(3) by (auto simp: space_wf_def)
    then show ?thesis using None that(2) by auto
  next
    case (Some e)
    then have "v \<in> dom (ptable sp) \<inter> {..<PORTAL_BASE}" using that(2) by auto
    then have "v \<in> covered (areas sp)" using assms(3) unfolding space_wf_def by blast
    then show ?thesis using that(1) Some unfolding copy_of_def by fastforce
  qed
  ultimately show ?thesis by (elim disj_forward) blast+
qed

section \<open>Properties\<close>

text \<open>
  C8. \<^verbatim>\<open>cloneself\<close>, the copy that fork makes: on a well-formed space whose pages are in use, it either runs out
  of memory or returns a well-formed space with the same areas, in which every mapped page has
  its own physical page with the same contents and the flags of the original page marked as owned. Nothing
  that was in use before is changed.
\<close>

theorem cloneself_deep_copy:
  assumes "walk_spec env grow" "alloc_spec env grow used" "space_wf sp" "frames_of sp \<subseteq> used (heap mc)"
    "frames_wf (frames mc)"
  shows "cloneself env sp (space_new, mc) = Some (Inl OutOfMemory) \<or>
    (\<exists>sp' mc'. cloneself env sp (space_new, mc) = Some (Inr (sp', mc')) \<and> space_wf sp' \<and> areas sp' = areas sp \<and>
       (\<forall>p\<in>used (heap mc). frames mc' p = frames mc p) \<and>
       (\<forall>v<PORTAL_BASE. case ptable sp v of
          None \<Rightarrow> ptable sp' v = None
        | Some e \<Rightarrow> \<exists>e'. ptable sp' v = Some e' \<and> frames mc' (pte_ppn e') = frames mc (pte_ppn e) \<and>
            pte_flags e' = env_owned env (pte_flags e) \<and> pte_ppn e' \<notin> used (heap mc)))"
  using cloneself_ok [OF assms] by blast

text \<open>
  An environment for the witnesses: a walk that visits the leaf entries one after the other, and an
  allocator that hands out the next pages.
\<close>

partial_function (option) flat_walk ::
  "nat \<Rightarrow> 'f mapper \<Rightarrow> 'f ptable \<Rightarrow> nat \<Rightarrow> ('f mapper \<times> 'f ptable \<times> nat) run" where
  "flat_walk v m pt h =
     (case mapper_arrive (pt v) m of
        Inl e \<Rightarrow> Some (Inl e)
      | Inr (pte, m', stop) \<Rightarrow>
          if stop then Some (Inr (m', pt(v \<mapsto> pte), h)) else flat_walk (v + 1) m' (pt(v \<mapsto> pte)) h)"

definition flat_env :: "(string, nat) vm_env" where
  "flat_env = \<lparr>env_walk = flat_walk, env_alloc = (\<lambda>c h. Some (h, h + c)), env_owned = (\<lambda>f. f),
     env_contains = (\<lambda>f g. set g \<subseteq> set f), env_parse_flags = Some,
     env_floor = (\<lambda>a. a div PAGE_SIZE), env_ceil = (\<lambda>a. (a + 4095) div PAGE_SIZE)\<rparr>"

lemma flat_env_spec: "walk_spec flat_env (\<lambda>_ _ h. h)" "alloc_spec flat_env (\<lambda>_ _ h. h) (\<lambda>h. {..<h})"
proof -
  show "walk_spec flat_env (\<lambda>_ _ h. h)"
    unfolding walk_spec_def flat_env_def vm_env.select_convs using flat_walk.simps by blast
  show "alloc_spec flat_env (\<lambda>_ _ h. h) (\<lambda>h. {..<h})"
    by (auto simp: alloc_spec_def flat_env_def)
qed

text \<open>Pages 5 to 7 mapped to the physical pages 10 to 12.\<close>

definition sample_space :: "string address_space" where
  "sample_space = \<lparr>areas = [(5, 8)], ptable = add_entries 5 3 10 ''U_WRV'' Map.empty\<rparr>"

definition sample_machine :: "nat machine" where
  "sample_machine = \<lparr>frames = (\<lambda>p. replicate PAGE_SIZE (of_nat p)), heap = 20\<rparr>"

lemma sample_space_facts: "space_wf sample_space" "frames_of sample_space \<subseteq> {..<20}" "frames_wf (frames sample_machine)"
proof -
  have "area_wf (add_entries 5 3 10 ''U_WRV'' Map.empty) (5, 8)"
    unfolding area_wf_def by (intro conjI exI [of _ 10] exI [of _ "''U_WRV''"]) (auto simp: add_entries_def)
  then show "space_wf sample_space"
    by (auto simp: space_wf_def sample_space_def add_entries_def covered_def dom_def split: if_splits)
qed (auto simp: sample_space_def add_entries_def frames_of_def frames_wf_def sample_machine_def split: if_splits)

theorem cloneself_deep_copy_witness:
  "cloneself flat_env sample_space (space_new, sample_machine) = Some (Inl OutOfMemory) \<or>
   (\<exists>sp' mc'. cloneself flat_env sample_space (space_new, sample_machine) = Some (Inr (sp', mc')) \<and> space_wf sp' \<and>
      (\<forall>p<20. frames mc' p = frames sample_machine p))"
proof -
  have "frames_of sample_space \<subseteq> {..<heap sample_machine}" using sample_space_facts by (simp add: sample_machine_def)
  from cloneself_deep_copy [OF flat_env_spec sample_space_facts(1) this sample_space_facts(3)]
  show ?thesis by (auto simp: sample_machine_def)
qed

end
