(* ===== verification/Memory_Syscalls.thy ===== *)
theory Memory_Syscalls
  imports Vm_Space
begin

text \<open>
  The memory system calls of chapter 5 on the address space of the current process: \<^verbatim>\<open>mmap\<close> and \<^verbatim>\<open>munmap\<close>
  (\<^verbatim>\<open>ch5/src/main.rs\<close>), and the program break (\<^verbatim>\<open>change_program_brk\<close> of \<^verbatim>\<open>ch5/src/process.rs\<close>, \<^verbatim>\<open>sbrk\<close>).
  Log output is left out. The calls that walk the page table return \<open>'a run\<close>, see \<^verbatim>\<open>Vm_Space\<close>.
\<close>

section \<open>mmap and munmap\<close>

definition prot_flags :: "int \<Rightarrow> string" where
  "prot_flags prot =
     [CHR ''U'',
      if (prot div 4) mod 2 = 1 then CHR ''X'' else CHR ''_'',
      if (prot div 2) mod 2 = 1 then CHR ''W'' else CHR ''_'',
      if prot mod 2 = 1 then CHR ''R'' else CHR ''_'',
      CHR ''V'']"

definition sys_mmap ::
  "('f, 'h) vm_env \<Rightarrow> nat \<Rightarrow> nat \<Rightarrow> int \<Rightarrow> 'f address_space \<times> 'h machine \<Rightarrow>
   (int \<times> 'f address_space \<times> 'h machine) run" where
  "sys_mmap env addr len prot st =
     (if trailing_zeros (of_nat addr) < 12 then Some (Inr (- 1, st))
      else if prot div 8 \<noteq> 0 \<or> prot = 0 then Some (Inr (- 1, st))
      else if usize_bound \<le> addr + len then Some (Inl ArithOverflow)
      else let rng = (env_floor env addr, env_ceil env (addr + len))
           in if have_mapped rng (fst st) then Some (Inr (- 1, st))
              else case env_parse_flags env (prot_flags prot) of
                     None \<Rightarrow> Some (Inl UnwrapNone)
                   | Some flags \<Rightarrow>
                       bind_run (map_anonymous env rng flags st) (\<lambda>st'. Some (Inr (0, st'))))"

definition sys_munmap ::
  "('f, 'h) vm_env \<Rightarrow> nat \<Rightarrow> nat \<Rightarrow> 'f address_space \<times> 'h machine \<Rightarrow> (int \<times> 'f address_space \<times> 'h machine) res" where
  "sys_munmap env addr len st =
     (if trailing_zeros (of_nat addr) < 12 then Inr (- 1, st)
      else if usize_bound \<le> addr + len then Inl ArithOverflow
      else let s = env_floor env addr; e = env_ceil env (addr + len)
           in if \<forall>x\<in>set [s..<e]. have_mapped (x, x + 1) (fst st)
              then Inr (0, space_unmap (s, e) (fst st), snd st)
              else Inr (- 1, st))"

section \<open>The program break\<close>

record 'f brk_process =
  brk_space :: "'f address_space"
  brk_heap_bottom :: nat
  brk_program_brk :: nat

definition change_program_brk ::
  "('f, 'h) vm_env \<Rightarrow> int \<Rightarrow> 'f brk_process \<times> 'h machine \<Rightarrow> (nat option \<times> 'f brk_process \<times> 'h machine) run" where
  "change_program_brk env sz = (\<lambda>(p, mc).
     let old_brk = brk_program_brk p;
         new_brk = usize_as_isize old_brk + sz
     in if \<not> in_isize new_brk then Some (Inl ArithOverflow)
        else if new_brk < usize_as_isize (brk_heap_bottom p) then Some (Inr (None, p, mc))
        else let new_brk = isize_as_usize new_brk;
                 old_brk_ceil = env_ceil env old_brk;
                 new_brk_ceil = env_ceil env new_brk
             in bind_run
                  (if sz > 0 then
                     (if new_brk_ceil > old_brk_ceil
                      then case env_parse_flags env ''U_WRV'' of
                             None \<Rightarrow> Some (Inl UnwrapNone)
                           | Some flags \<Rightarrow> space_map env (old_brk_ceil, new_brk_ceil) [] 0 flags (brk_space p, mc)
                      else Some (Inr (brk_space p, mc)))
                   else if sz < 0 then
                     (if old_brk_ceil > new_brk_ceil
                      then Some (Inr (space_unmap (new_brk_ceil, old_brk_ceil) (brk_space p), mc))
                      else Some (Inr (brk_space p, mc)))
                   else Some (Inr (brk_space p, mc)))
                  (\<lambda>(sp, mc'). Some (Inr (Some old_brk, p\<lparr>brk_space := sp, brk_program_brk := new_brk\<rparr>, mc'))))"

definition sys_sbrk ::
  "('f, 'h) vm_env \<Rightarrow> int \<Rightarrow> 'f brk_process \<times> 'h machine \<Rightarrow> (int \<times> 'f brk_process \<times> 'h machine) run" where
  "sys_sbrk env sz st =
     bind_run (change_program_brk env sz st) (\<lambda>(r, st').
       Some (Inr (case r of Some old_brk \<Rightarrow> usize_as_isize old_brk | None \<Rightarrow> - 1, st')))"

section \<open>Lemmas\<close>

text \<open>Mapping fresh pages that are all zero or hold initial data.\<close>

lemma map_anonymous_ok:
  assumes spec: "walk_spec env grow" "alloc_spec env grow used"
    and wf: "space_wf sp" and rng: "fst rng < snd rng" "snd rng \<le> PORTAL_BASE" and free: "\<not> have_mapped rng sp"
  shows "map_anonymous env rng flags (sp, mc) = Some (Inl OutOfMemory) \<or>
    (\<exists>sp' mc' page. map_anonymous env rng flags (sp, mc) = Some (Inr (sp', mc')) \<and> space_wf sp' \<and>
       areas sp' = areas sp @ [rng] \<and>
       ptable sp' = add_entries (fst rng) (snd rng - fst rng) page (env_owned env flags) (ptable sp) \<and>
       {page..<page + (snd rng - fst rng)} \<inter> used (heap mc) = {} \<and>
       (\<forall>p\<in>used (heap mc). frames mc' p = frames mc p) \<and>
       (\<forall>p\<in>{page..<page + (snd rng - fst rng)}. frames mc' p = replicate PAGE_SIZE 0))"
proof (cases "env_alloc env (snd rng - fst rng) (heap mc)")
  case None
  then show ?thesis using rng by (simp add: map_anonymous_def Let_def)
next
  case (Some ph)
  define n where "n = snd rng - fst rng"
  obtain page h where ph: "env_alloc env n (heap mc) = Some (page, h)" using Some by (cases ph) (simp add: n_def)
  have fresh: "{page..<page + n} \<inter> used (heap mc) = {}" using spec(2) ph by (auto simp: alloc_spec_def)
  define fr where "fr = write_pages page (replicate (n * PAGE_SIZE) 0) (frames mc)"
  obtain h' where m: "map_extern env rng page (env_owned env flags) (sp, mc\<lparr>heap := h, frames := fr\<rparr>) =
      Some (Inr (\<lparr>areas = areas sp @ [rng], ptable = add_entries (fst rng) n page (env_owned env flags) (ptable sp)\<rparr>,
        mc\<lparr>heap := h, frames := fr, heap := h'\<rparr>))"
    "space_wf \<lparr>areas = areas sp @ [rng], ptable = add_entries (fst rng) n page (env_owned env flags) (ptable sp)\<rparr>"
    using map_extern_ok [OF spec wf rng free, folded n_def] by metis
  have call: "map_anonymous env rng flags (sp, mc) =
      map_extern env rng page (env_owned env flags) (sp, mc\<lparr>heap := h, frames := fr\<rparr>)"
    using rng ph by (simp add: map_anonymous_def Let_def fr_def n_def)
  have "fr p = frames mc p" if "p \<in> used (heap mc)" for p
    using that fresh by (auto simp: fr_def write_pages_def)
  moreover have "fr p = replicate PAGE_SIZE 0" if "p \<in> {page..<page + n}" for p
  proof -
    have "p - page + 1 \<le> n" using that by auto
    then have "(p - page + 1) * PAGE_SIZE \<le> n * PAGE_SIZE" by (rule mult_le_mono1)
    then have "(p - page) * PAGE_SIZE + PAGE_SIZE \<le> n * PAGE_SIZE" by simp
    then show ?thesis using that by (simp add: fr_def write_pages_def slice_of_def)
  qed
  ultimately show ?thesis
    unfolding call m(1) using m(2) fresh by (auto simp: n_def)
qed

lemma have_mapped_page:
  assumes "space_wf sp"
  shows "have_mapped (x, x + 1) sp \<longleftrightarrow> x \<in> covered (areas sp)"
  using have_mapped_iff [OF assms, of "(x, x + 1)"] by (auto simp: pages_def)

section \<open>Properties\<close>



text \<open>
  C24. \<^verbatim>\<open>munmap\<close> at an aligned address returns 0 exactly when every page of the range is mapped, and then
  unmaps exactly these pages; otherwise it returns -1 and changes nothing.
\<close>

theorem munmap_unmaps_exactly:
  assumes wf: "space_wf sp" and args: "addr mod PAGE_SIZE = 0" "addr + len < usize_bound"
    and rng: "env_floor env addr \<le> env_ceil env (addr + len)"
  defines "R \<equiv> {env_floor env addr..<env_ceil env (addr + len)}"
  shows "if R \<subseteq> covered (areas sp)
    then \<exists>sp'. sys_munmap env addr len (sp, mc) = Inr (0, sp', mc) \<and> space_wf sp' \<and>
      covered (areas sp') = covered (areas sp) - R \<and>
      ptable sp' = (\<lambda>v. if v \<in> R then None else ptable sp v)
    else sys_munmap env addr len (sp, mc) = Inr (- 1, sp, mc)"
proof -
  let ?rng = "(env_floor env addr, env_ceil env (addr + len))"
  have al: "\<not> trailing_zeros (of_nat addr) < 12" using args(1) trailing_zeros_page by simp
  have R: "pages ?rng = R" by (simp add: pages_def R_def)
  have "(\<forall>x\<in>set [env_floor env addr..<env_ceil env (addr + len)]. have_mapped (x, x + 1) sp) \<longleftrightarrow> R \<subseteq> covered (areas sp)"
    unfolding have_mapped_page [OF wf] by (auto simp: R_def)
  then show ?thesis
    using al args(2) space_unmap_ok [OF wf, of ?rng] rng R by (simp add: sys_munmap_def Let_def)
qed

theorem munmap_unmaps_exactly_witness:
  "\<exists>sp'. sys_munmap flat_env (6 * 4096) 4096 (sample_space, sample_machine) = Inr (0, sp', sample_machine) \<and>
     covered (areas sp') = {5, 7}"
proof -
  have r: "{env_floor flat_env (6 * 4096)..<env_ceil flat_env (6 * 4096 + 4096)} = {6}" by (auto simp: flat_env_def)
  have "covered (areas sample_space) = {5, 6, 7}" by (auto simp: sample_space_def pages_def)
  then show ?thesis
    using munmap_unmaps_exactly [OF sample_space_facts(1), of "6 * 4096" 4096 flat_env sample_machine] r
    by (auto simp: flat_env_def)
qed

fun arrive_times :: "nat \<Rightarrow> 'f mapper \<Rightarrow> ('f mapper \<times> bool) res" where
  "arrive_times 0 m = Inr (m, False)"
| "arrive_times (Suc n) m =
     bind_res (mapper_arrive None m) (\<lambda>(_, m', stop). if stop then Inr (m', True) else arrive_times n m')"

text \<open>
  A mapper for no pages is never done: however many entries it arrives at, it asks for the next one. A
  walk that starts with it, as \<^verbatim>\<open>mmap\<close> of length 0 at an unmapped address does, cannot stop.
\<close>

theorem mapper_empty_range_never_done:
  "\<exists>m'. arrive_times n (mapper_new p p flags) = Inr (m', False) \<and> \<not> mapper_ans m'"
proof -
  have "\<exists>m'. arrive_times n m = Inr (m', False) \<and> \<not> map_done m'"
    if "map_end m \<le> map_start m" "\<not> map_done m" for m :: "'a mapper"
    using that by (induction n arbitrary: m) (auto simp: mapper_arrive_def Let_def)
  then show ?thesis by (auto simp: mapper_new_def mapper_ans_def)
qed

lemma space_map_empty: "space_map env rng [] 0 flags = map_anonymous env rng flags"
proof (intro ext)
  fix st show "space_map env rng [] 0 flags st = map_anonymous env rng flags st"
    by (cases st; cases "env_alloc env (snd rng - fst rng) (heap (snd st))") (auto simp: space_map_def map_anonymous_def)
qed

text \<open>
  C25. The program break: a request below the bottom of the heap returns None and changes nothing. Otherwise
  the old break is returned and the break moves by the size; shrinking unmaps exactly the pages above the new
  break, and growing into unmapped pages maps exactly the pages up to the new break or runs out of
  memory.
\<close>

theorem program_brk_moves:
  assumes spec: "walk_spec env grow" "alloc_spec env grow used" and wf: "space_wf (brk_space p)"
    and flags: "env_parse_flags env ''U_WRV'' = Some flags"
    and brk: "brk_heap_bottom p \<le> brk_program_brk p" "brk_program_brk p < 2 ^ 63"
      "in_isize (int (brk_program_brk p) + sz)"
    and mono: "sz \<le> 0 \<longrightarrow> env_ceil env (nat (int (brk_program_brk p) + sz)) \<le> env_ceil env (brk_program_brk p)"
    and low: "env_ceil env (nat (int (brk_program_brk p) + sz)) \<le> PORTAL_BASE"
    and free: "{env_ceil env (brk_program_brk p)..<env_ceil env (nat (int (brk_program_brk p) + sz))} \<inter>
      covered (areas (brk_space p)) = {}"
  shows "if int (brk_program_brk p) + sz < int (brk_heap_bottom p)
    then change_program_brk env sz (p, mc) = Some (Inr (None, p, mc))
    else change_program_brk env sz (p, mc) = Some (Inl OutOfMemory) \<or>
      (\<exists>sp' mc'. change_program_brk env sz (p, mc) = Some (Inr (Some (brk_program_brk p),
          p\<lparr>brk_space := sp', brk_program_brk := nat (int (brk_program_brk p) + sz)\<rparr>, mc')) \<and> space_wf sp' \<and>
        covered (areas sp') =
          (if sz > 0 then covered (areas (brk_space p)) \<union>
             {env_ceil env (brk_program_brk p)..<env_ceil env (nat (int (brk_program_brk p) + sz))}
           else covered (areas (brk_space p)) -
             {env_ceil env (nat (int (brk_program_brk p) + sz))..<env_ceil env (brk_program_brk p)}))"
proof (cases "int (brk_program_brk p) + sz < int (brk_heap_bottom p)")
  case True
  then show ?thesis using brk by (simp add: change_program_brk_def Let_def)
next
  case False
  let ?old = "brk_program_brk p" and ?new = "nat (int (brk_program_brk p) + sz)"
  let ?o = "env_ceil env ?old" and ?n = "env_ceil env ?new"
  have nonneg: "0 \<le> int ?old + sz" using False by linarith
  then have new: "isize_as_usize (int ?old + sz) = ?new" using brk(3) by (simp add: isize_as_usize_nonneg in_isize_def)
  have b: "usize_as_isize ?old = int ?old" "usize_as_isize (brk_heap_bottom p) = int (brk_heap_bottom p)"
    using brk by simp_all
  show ?thesis
  proof (cases "sz > 0")
    case True
    show ?thesis
    proof (cases "?o < ?n")
      case True
      then have free': "\<not> have_mapped (?o, ?n) (brk_space p)"
        using have_mapped_iff [OF wf, of "(?o, ?n)"] free by (simp add: pages_def)
      have "change_program_brk env sz (p, mc) = bind_run (map_anonymous env (?o, ?n) flags (brk_space p, mc))
          (\<lambda>(sp, mc'). Some (Inr (Some ?old, p\<lparr>brk_space := sp, brk_program_brk := ?new\<rparr>, mc')))"
        using False \<open>sz > 0\<close> True brk(3) flags b new by (simp add: change_program_brk_def Let_def space_map_empty)
      then show ?thesis
        using map_anonymous_ok [OF spec wf _ _ free', of flags mc] True low False \<open>sz > 0\<close>
        by (auto simp: pages_def)
    next
      case no: False
      then have "change_program_brk env sz (p, mc) =
          Some (Inr (Some ?old, p\<lparr>brk_space := brk_space p, brk_program_brk := ?new\<rparr>, mc))"
        using False \<open>sz > 0\<close> brk(3) b new by (simp add: change_program_brk_def Let_def)
      then show ?thesis
        unfolding if_not_P [OF False] using \<open>sz > 0\<close> no wf
        by (intro disjI2 exI [of _ "brk_space p"] exI [of _ mc]) auto
    qed
  next
    case neg: False
    then have "?n \<le> ?o" using mono by simp
    define sp where "sp = (if sz < 0 \<and> ?n < ?o then space_unmap (?n, ?o) (brk_space p) else brk_space p)"
    have "change_program_brk env sz (p, mc) = Some (Inr (Some ?old, p\<lparr>brk_space := sp, brk_program_brk := ?new\<rparr>, mc))"
      using False neg brk(3) b new by (simp add: change_program_brk_def Let_def sp_def)
    moreover have "space_wf sp" "covered (areas sp) = covered (areas (brk_space p)) - {?n..<?o}"
    proof -
      have "?n = ?o" if "\<not> (sz < 0 \<and> ?n < ?o)" using that neg \<open>?n \<le> ?o\<close> by auto
      then show "space_wf sp" "covered (areas sp) = covered (areas (brk_space p)) - {?n..<?o}"
        using space_unmap_ok [OF wf, of "(?n, ?o)"] wf by (auto simp: sp_def pages_def simp del: mem_pages)
    qed
    ultimately show ?thesis
      unfolding if_not_P [OF False] using neg by (intro disjI2 exI [of _ sp] exI [of _ mc]) simp
  qed
qed

definition sample_brk :: "string brk_process" where
  "sample_brk = \<lparr>brk_space = space_new, brk_heap_bottom = 4096, brk_program_brk = 4096\<rparr>"

theorem program_brk_moves_witness:
  "change_program_brk flat_env 100 (sample_brk, sample_machine) = Some (Inl OutOfMemory) \<or>
   (\<exists>sp' mc'. change_program_brk flat_env 100 (sample_brk, sample_machine) =
      Some (Inr (Some 4096, sample_brk\<lparr>brk_space := sp', brk_program_brk := 4196\<rparr>, mc')) \<and> covered (areas sp') = {1})"
proof -
  have e: "env_ceil flat_env 4096 = 1" "env_ceil flat_env 4196 = 2" "env_parse_flags flat_env ''U_WRV'' = Some ''U_WRV''"
    by (simp_all add: flat_env_def)
  have s: "brk_space sample_brk = space_new" "brk_heap_bottom sample_brk = 4096" "brk_program_brk sample_brk = 4096"
    "areas (space_new :: string address_space) = []"
    by (simp_all add: sample_brk_def space_new_def)
  have "{1..<2 :: nat} = {1}" by auto
  then show ?thesis
    using program_brk_moves [OF flat_env_spec, of sample_brk "''U_WRV''" 100 sample_machine]
    by (simp add: s e in_isize_def) blast
qed



end
