(* ===== verification/Syscall_Dispatch.thy ===== *)
theory Syscall_Dispatch
  imports Rcore_Prelude
begin

text \<open>
  The kernel side of tg-syscall (\<^verbatim>\<open>kernel/mod.rs\<close>): the numbers of the system calls (from
  \<^verbatim>\<open>syscall.h.in\<close>), the traits of the subsystems and \<^verbatim>\<open>handle\<close>, which decodes the arguments of a call and
  forwards it to its subsystem. A call that has been decoded is a value of \<open>syscall\<close>, one constructor per
  trait method; an implementation of the traits is a function on these values, and the containers that
  hold the implementations are the set of subsystems that have been initialised.
\<close>

datatype subsystem = IO | PROCESS | MEMORY | SCHEDULING | CLOCK | SIGNAL | THREAD | SYNC_MUTEX | TRACE

datatype syscall =
    SysWrite nat nat nat
  | SysRead nat nat nat
  | SysOpen nat nat
  | SysClose nat
  | SysLinkat int nat int nat nat
  | SysUnlinkat int nat nat
  | SysFstat nat nat
  | SysPipe nat
  | SysExit nat
  | SysFork
  | SysExec nat nat
  | SysWait int nat
  | SysGetpid
  | SysSpawn nat nat
  | SysSbrk int
  | SysClockGettime nat nat
  | SysSchedYield
  | SysSetPriority int
  | SysMunmap nat nat
  | SysMmap nat nat int int int nat
  | SysKill int nat
  | SysSigaction nat nat nat
  | SysSigprocmask nat
  | SysSigreturn
  | SysWaittid nat
  | SysGettid
  | SysThreadCreate nat nat
  | SysSemaphoreCreate nat
  | SysSemaphoreUp nat
  | SysSemaphoreDown nat
  | SysMutexCreate bool
  | SysMutexLock nat
  | SysMutexUnlock nat
  | SysCondvarCreate nat
  | SysCondvarSignal nat
  | SysCondvarWait nat nat
  | SysEnableDeadlockDetect int
  | SysTrace nat nat nat

text \<open>The subsystem trait a method belongs to.\<close>

fun subsystem_of :: "syscall \<Rightarrow> subsystem" where
  "subsystem_of (SysWrite _ _ _) = IO"
| "subsystem_of (SysRead _ _ _) = IO"
| "subsystem_of (SysOpen _ _) = IO"
| "subsystem_of (SysClose _) = IO"
| "subsystem_of (SysLinkat _ _ _ _ _) = IO"
| "subsystem_of (SysUnlinkat _ _ _) = IO"
| "subsystem_of (SysFstat _ _) = IO"
| "subsystem_of (SysPipe _) = IO"
| "subsystem_of (SysExit _) = PROCESS"
| "subsystem_of SysFork = PROCESS"
| "subsystem_of (SysExec _ _) = PROCESS"
| "subsystem_of (SysWait _ _) = PROCESS"
| "subsystem_of SysGetpid = PROCESS"
| "subsystem_of (SysSpawn _ _) = PROCESS"
| "subsystem_of (SysSbrk _) = PROCESS"
| "subsystem_of (SysClockGettime _ _) = CLOCK"
| "subsystem_of SysSchedYield = SCHEDULING"
| "subsystem_of (SysSetPriority _) = SCHEDULING"
| "subsystem_of (SysMunmap _ _) = MEMORY"
| "subsystem_of (SysMmap _ _ _ _ _ _) = MEMORY"
| "subsystem_of (SysKill _ _) = SIGNAL"
| "subsystem_of (SysSigaction _ _ _) = SIGNAL"
| "subsystem_of (SysSigprocmask _) = SIGNAL"
| "subsystem_of SysSigreturn = SIGNAL"
| "subsystem_of (SysWaittid _) = THREAD"
| "subsystem_of SysGettid = THREAD"
| "subsystem_of (SysThreadCreate _ _) = THREAD"
| "subsystem_of (SysTrace _ _ _) = TRACE"
| "subsystem_of _ = SYNC_MUTEX"

datatype syscall_result = Done int | Unsupported nat

text \<open>The decoding of \<^verbatim>\<open>handle\<close>: the number of the call and its six arguments.\<close>

definition decode :: "nat \<Rightarrow> nat list \<Rightarrow> syscall option" where
  "decode i args =
     (let a = (\<lambda>n. args ! n); i32 = (\<lambda>n. int_as_i32 (int (a n)))
      in if i = 64 then Some (SysWrite (a 0) (a 1) (a 2))
         else if i = 63 then Some (SysRead (a 0) (a 1) (a 2))
         else if i = 56 then Some (SysOpen (a 0) (a 1))
         else if i = 57 then Some (SysClose (a 0))
         else if i = 37 then Some (SysLinkat (i32 0) (a 1) (i32 2) (a 3) (as_u32 (a 4)))
         else if i = 35 then Some (SysUnlinkat (i32 0) (a 1) (as_u32 (a 2)))
         else if i = 80 then Some (SysFstat (a 0) (a 1))
         else if i = 93 then Some (SysExit (a 0))
         else if i = 220 then Some SysFork
         else if i = 221 then Some (SysExec (a 0) (a 1))
         else if i = 260 then Some (SysWait (usize_as_isize (a 0)) (a 1))
         else if i = 172 then Some SysGetpid
         else if i = 113 then Some (SysClockGettime (a 0) (a 1))
         else if i = 124 then Some SysSchedYield
         else if i = 215 then Some (SysMunmap (a 0) (a 1))
         else if i = 222 then Some (SysMmap (a 0) (a 1) (i32 2) (i32 3) (i32 4) (a 5))
         else if i = 129 then Some (SysKill (usize_as_isize (a 0)) (a 1 mod 256))
         else if i = 134 then Some (SysSigaction (a 0 mod 256) (a 1) (a 2))
         else if i = 135 then Some (SysSigprocmask (a 0))
         else if i = 139 then Some SysSigreturn
         else if i = 95 then Some (SysWaittid (a 0))
         else if i = 178 then Some SysGettid
         else if i = 1000 then Some (SysThreadCreate (a 0) (a 1))
         else if i = 1020 then Some (SysSemaphoreCreate (a 0))
         else if i = 1021 then Some (SysSemaphoreUp (a 0))
         else if i = 1022 then Some (SysSemaphoreDown (a 0))
         else if i = 1010 then Some (SysMutexCreate (a 0 \<noteq> 0))
         else if i = 1011 then Some (SysMutexLock (a 0))
         else if i = 1012 then Some (SysMutexUnlock (a 0))
         else if i = 1030 then Some (SysCondvarCreate (a 0))
         else if i = 1031 then Some (SysCondvarSignal (a 0))
         else if i = 1032 then Some (SysCondvarWait (a 0) (a 1))
         else if i = 469 then Some (SysEnableDeadlockDetect (i32 0))
         else if i = 410 then Some (SysTrace (a 0) (a 1) (a 2))
         else if i = 400 then Some (SysSpawn (a 0) (a 1))
         else if i = 140 then Some (SysSetPriority (usize_as_isize (a 0)))
         else if i = 214 then Some (SysSbrk (i32 0))
         else if i = 59 then Some (SysPipe (a 0))
         else None)"

text \<open>
  \<^verbatim>\<open>handle\<close> with the implementations \<open>impl\<close> of the subsystems in \<open>inited\<close>; \<open>st\<close> is the state of the kernel.
\<close>

definition handle ::
  "subsystem set \<Rightarrow> (syscall \<Rightarrow> 's \<Rightarrow> (int \<times> 's) run) \<Rightarrow> nat \<Rightarrow> nat list \<Rightarrow> 's \<Rightarrow> (syscall_result \<times> 's) run" where
  "handle inited impl i args st =
     (case decode i args of
        None \<Rightarrow> Some (Inr (Unsupported i, st))
      | Some c \<Rightarrow>
          if subsystem_of c \<in> inited
          then bind_run (impl c st) (\<lambda>(ret, st'). Some (Inr (Done ret, st')))
          else Some (Inr (Unsupported i, st)))"

text \<open>\<^verbatim>\<open>TimeSpec\<close> and its addition (\<^verbatim>\<open>time.rs\<close>).\<close>

record time_spec =
  tv_sec :: nat
  tv_nsec :: nat

definition from_millsecond :: "nat \<Rightarrow> time_spec" where
  "from_millsecond ms = \<lparr>tv_sec = ms div 1000, tv_nsec = ms mod 1000 * 1000000\<rparr>"

definition time_add :: "time_spec \<Rightarrow> time_spec \<Rightarrow> time_spec res" where
  "time_add a b =
     (if tv_sec a + tv_sec b < usize_bound \<and> tv_nsec a + tv_nsec b < usize_bound then
        let ans = \<lparr>tv_sec = tv_sec a + tv_sec b, tv_nsec = tv_nsec a + tv_nsec b\<rparr>
        in if tv_nsec ans > 1000000000 then
             (if tv_sec ans + 1 < usize_bound
              then Inr \<lparr>tv_sec = tv_sec ans + 1, tv_nsec = tv_nsec ans - 1000000000\<rparr>
              else Inl ArithOverflow)
           else Inr ans
      else Inl ArithOverflow)"

definition nanos :: "time_spec \<Rightarrow> nat" where
  "nanos t = tv_sec t * 1000000000 + tv_nsec t"

text \<open>
  The addition of two normalised times returns a time with the sum of their nanoseconds in total. The result
  is normalised except when the nanoseconds of the summands add up to exactly one second, because the
  carry is decided by a strict comparison.
\<close>

lemma time_add_normalised:
  assumes "tv_nsec a < 1000000000" "tv_nsec b < 1000000000" "tv_sec a + tv_sec b + 1 < usize_bound"
  shows "\<exists>t. time_add a b = Inr t \<and> nanos t = nanos a + nanos b \<and>
    (tv_nsec t < 1000000000 \<longleftrightarrow> tv_nsec a + tv_nsec b \<noteq> 1000000000)"
  using assms by (auto simp: time_add_def nanos_def Let_def)

text \<open>Numbers that no subsystem claims leave the state alone.\<close>

lemma handle_unsupported:
  "decode i args = None \<or> (\<exists>c. decode i args = Some c \<and> subsystem_of c \<notin> inited) \<Longrightarrow>
   handle inited impl i args st = Some (Inr (Unsupported i, st))"
  by (auto simp: handle_def)

lemma handle_Done:
  "decode i args = Some c \<Longrightarrow> subsystem_of c \<in> inited \<Longrightarrow>
   handle inited impl i args st = bind_run (impl c st) (\<lambda>(ret, st'). Some (Inr (Done ret, st')))"
  by (simp add: handle_def)

text \<open>The kernel sees the exit call exactly when its number is 93.\<close>

lemma decode_exit: "decode i args = Some (SysExit e) \<longleftrightarrow> i = 93 \<and> e = args ! 0"
  by (auto simp: decode_def Let_def split: if_splits)

end
