(* ===== verification/Process_Kernel.thy ===== *)
theory Process_Kernel
  imports Stride_Scheduler Memory_Syscalls Kernel_Context Syscall_Dispatch
begin

text \<open>
  The kernel of chapter 5: processes (\<^verbatim>\<open>ch5/src/process.rs\<close>: \<^verbatim>\<open>from_elf\<close>, \<^verbatim>\<open>fork\<close>, \<^verbatim>\<open>exec\<close>), the system calls of
  \<^verbatim>\<open>SyscallContext\<close> (\<^verbatim>\<open>ch5/src/main.rs\<close>) and one turn of the main loop of \<^verbatim>\<open>rust_main\<close>: take the next
  process, run it until it traps, serve the trap and put the process back or end it.

  The parsed form of an ELF file (\<^verbatim>\<open>xmas_elf\<close>), the table of programs, the entries of the shared root entry and
  what the user program does between two traps are arguments. Memory that the kernel reaches through a
  translated pointer is physical memory from the translated address on, as the code reads and writes it.
\<close>

section \<open>State\<close>

text \<open>
  The process of chapter 6 has the fields of chapter 5 and a descriptor table, and its kernel has the same code
  around the file system calls. The definitions are therefore open in what a process holds besides its address space
  (\<open>us_files\<close>, of type \<open>'z\<close>; nothing in chapter 5): a new process gets \<open>ke_fresh\<close>, a forked one \<open>ke_inherit\<close> of its parent's.
\<close>

record elf_segment =
  seg_load :: bool
  seg_offset :: nat
  seg_file_size :: nat
  seg_virtual_addr :: nat
  seg_mem_size :: nat
  seg_execute :: bool
  seg_write :: bool
  seg_read :: bool

record elf_file =
  elf_header64 :: bool
  elf_executable :: bool
  elf_riscv :: bool
  elf_entry :: nat
  elf_segments :: "elf_segment list"
  elf_input :: "byte list"

record ('f, 'z) user_space =
  us_space :: "'f Vm_Space.address_space"
  us_root :: nat
  us_files :: 'z

type_synonym ('f, 'z) proc = "(foreign_context, ('f, 'z) user_space) process"
type_synonym ('f, 'z) procs = "(foreign_context, ('f, 'z) user_space) proc_manager"

record ('f, 'z, 'h) kernel_env =
  ke_vm :: "('f, 'h) vm_env"
  ke_apps :: "(byte list \<times> byte list) list"
  ke_elf :: "byte list \<Rightarrow> elf_file option"
  ke_portal :: "'f ptable"
  ke_fresh :: 'z
  ke_inherit :: "'z \<Rightarrow> 'z"

record ('f, 'z, 'h) kernel =
  processor :: "('f, 'z) procs pmanager"
  next_pid :: nat
  kmachine :: "'h machine"
  console_out :: "byte list"
  console_in :: "byte list"
  time_now :: nat

section \<open>Physical memory\<close>

definition read_phys :: "nat \<Rightarrow> nat \<Rightarrow> (nat \<Rightarrow> byte list) \<Rightarrow> byte list" where
  "read_phys pa len fr = map (\<lambda>a. fr (a div PAGE_SIZE) ! (a mod PAGE_SIZE)) [pa..<pa + len]"

definition write_phys :: "nat \<Rightarrow> byte list \<Rightarrow> (nat \<Rightarrow> byte list) \<Rightarrow> nat \<Rightarrow> byte list" where
  "write_phys pa bytes fr p =
     map (\<lambda>off. let a = p * PAGE_SIZE + off
               in if pa \<le> a \<and> a < pa + length bytes then bytes ! (a - pa) else fr p ! off) [0..<PAGE_SIZE]"

section \<open>Processes\<close>

text \<open>\<^verbatim>\<open>AddressSpace::new\<close> with a fresh root page, and the satp value of a root.\<close>

definition user_space_new :: "('f, 'z, 'h) kernel_env \<Rightarrow> 'z \<Rightarrow> 'h machine \<Rightarrow> (('f, 'z) user_space \<times> 'h machine) run" where
  "user_space_new env z mc =
     (case env_alloc (ke_vm env) 1 (heap mc) of
        None \<Rightarrow> Some (Inl OutOfMemory)
      | Some (root, h) \<Rightarrow>
          Some (Inr (\<lparr>us_space = space_new, us_root = root, us_files = z\<rparr>,
            mc\<lparr>heap := h, frames := write_pages root (replicate PAGE_SIZE 0) (frames mc)\<rparr>)))"

definition satp_of :: "nat \<Rightarrow> nat" where
  "satp_of root = 8 * 2 ^ 60 + root"

definition map_portal :: "('f, 'z, 'h) kernel_env \<Rightarrow> ('f, 'z) user_space \<Rightarrow> ('f, 'z) user_space" where
  "map_portal env us =
     us\<lparr>us_space := (us_space us)\<lparr>ptable := (\<lambda>v. if PORTAL_BASE \<le> v \<and> v < PORTAL_BASE + 2 ^ 18 then ke_portal env v
        else ptable (us_space us) v)\<rparr>\<rparr>"

definition segment_flags :: "elf_segment \<Rightarrow> string" where
  "segment_flags seg =
     [CHR ''U'', if seg_execute seg then CHR ''X'' else CHR ''_'', if seg_write seg then CHR ''W'' else CHR ''_'',
      if seg_read seg then CHR ''R'' else CHR ''_'', CHR ''V'']"

fun load_segments ::
  "('f, 'h) vm_env \<Rightarrow> byte list \<Rightarrow> elf_segment list \<Rightarrow> nat \<Rightarrow> 'f Vm_Space.address_space \<times> 'h machine \<Rightarrow>
   (nat \<times> 'f Vm_Space.address_space \<times> 'h machine) run" where
  "load_segments env input [] max_end_va st = Some (Inr (max_end_va, st))"
| "load_segments env input (seg # segs) max_end_va st =
     (if \<not> seg_load seg then load_segments env input segs max_end_va st
      else let off_file = seg_offset seg; len_file = seg_file_size seg; off_mem = seg_virtual_addr seg
           in if usize_bound \<le> off_mem + seg_mem_size seg then Some (Inl ArithOverflow)
              else let end_mem = off_mem + seg_mem_size seg
                   in if off_file mod PAGE_SIZE \<noteq> off_mem mod PAGE_SIZE then Some (Inl AssertFailed)
                      else if length input < off_file + len_file then Some (Inl IndexOutOfBounds)
                      else case env_parse_flags env (segment_flags seg) of
                             None \<Rightarrow> Some (Inl UnwrapNone)
                           | Some flags \<Rightarrow>
                               bind_run (space_map env (env_floor env off_mem, env_ceil env end_mem)
                                   (slice_of off_file len_file input) (off_mem mod PAGE_SIZE) flags st)
                                 (load_segments env input segs (if end_mem > max_end_va then end_mem else max_end_va)))"

definition from_elf ::
  "('f, 'z, 'h) kernel_env \<Rightarrow> elf_file \<Rightarrow> nat \<times> 'h machine \<Rightarrow> (('f, 'z) proc option \<times> nat \<times> 'h machine) run" where
  "from_elf env elf = (\<lambda>(pid, mc).
     if \<not> (elf_header64 elf \<and> elf_executable elf \<and> elf_riscv elf) then Some (Inr (None, pid, mc))
     else
       bind_run (user_space_new env (ke_fresh env) mc) (\<lambda>(us, mc1).
       bind_run (load_segments (ke_vm env) (elf_input elf) (elf_segments elf) 0 (us_space us, mc1))
         (\<lambda>(max_end_va, sp, mc2).
         let bottom = env_ceil (ke_vm env) max_end_va * PAGE_SIZE
         in case env_alloc (ke_vm env) 2 (heap mc2) of
              None \<Rightarrow> Some (Inl OutOfMemory)
            | Some (stack, h) \<Rightarrow>
                (case env_parse_flags (ke_vm env) ''U_WRV'' of
                   None \<Rightarrow> Some (Inl UnwrapNone)
                 | Some flags \<Rightarrow>
                     bind_run (map_extern (ke_vm env) (2 ^ 26 - 2, 2 ^ 26) stack flags
                         (sp, mc2\<lparr>heap := h, frames := write_pages stack (replicate (2 * PAGE_SIZE) 0) (frames mc2)\<rparr>))
                       (\<lambda>(sp', mc3).
                       bind_run (Some (lc_set_sp (2 ^ 38) (lc_user (elf_entry elf)))) (\<lambda>ctx.
                         let (i, pid') = proc_id_new pid
                         in Some (Inr (Some \<lparr>proc_pid = i,
                              proc_context = \<lparr>fc_context = ctx, fc_satp = satp_of (us_root us)\<rparr>,
                              process.address_space = map_portal env (us\<lparr>us_space := sp'\<rparr>),
                              heap_bottom = bottom, program_brk = bottom, proc_stride = stride_new\<rparr>, pid', mc3))))))))"

definition proc_exec ::
  "('f, 'z, 'h) kernel_env \<Rightarrow> elf_file \<Rightarrow> ('f, 'z) proc \<Rightarrow> nat \<times> 'h machine \<Rightarrow> (('f, 'z) proc \<times> nat \<times> 'h machine) run" where
  "proc_exec env elf p st =
     bind_run (from_elf env elf st) (\<lambda>(r, st').
       case r of
         None \<Rightarrow> Some (Inl UnwrapNone)
       | Some proc \<Rightarrow>
           Some (Inr (p\<lparr>process.address_space := (process.address_space p)\<lparr>us_space := us_space (process.address_space proc),
               us_root := us_root (process.address_space proc)\<rparr>,
             proc_context := proc_context proc, heap_bottom := heap_bottom proc, program_brk := program_brk proc\<rparr>, st')))"

definition proc_fork ::
  "('f, 'z, 'h) kernel_env \<Rightarrow> ('f, 'z) proc \<Rightarrow> nat \<times> 'h machine \<Rightarrow> (('f, 'z) proc \<times> nat \<times> 'h machine) run" where
  "proc_fork env p = (\<lambda>(pid, mc).
     let (i, pid') = proc_id_new pid
     in bind_run (user_space_new env (ke_inherit env (us_files (process.address_space p))) mc) (\<lambda>(us, mc1).
        bind_run (cloneself (ke_vm env) (us_space (process.address_space p)) (us_space us, mc1)) (\<lambda>(sp, mc2).
          Some (Inr (\<lparr>proc_pid = i,
            proc_context = \<lparr>fc_context = fc_context (proc_context p), fc_satp = satp_of (us_root us)\<rparr>,
            process.address_space = map_portal env (us\<lparr>us_space := sp\<rparr>),
            heap_bottom = heap_bottom p, program_brk = program_brk p, proc_stride = stride_new\<rparr>, pid', mc2)))))"

section \<open>System calls\<close>

text \<open>\<^verbatim>\<open>PROCESSOR.get_mut().current().unwrap()\<close>, and the write back of what the code changes through it.\<close>

definition k_current :: "('f, 'z, 'h, 'y) kernel_scheme \<Rightarrow> ('f, 'z) proc res" where
  "k_current k = bind_res (pm_current stride_ops (processor k)) unwrap"

definition k_write_current :: "('f, 'z) proc \<Rightarrow> ('f, 'z, 'h, 'y) kernel_scheme \<Rightarrow> ('f, 'z, 'h, 'y) kernel_scheme res" where
  "k_write_current p k = bind_res (pm_write_current stride_ops p (processor k)) (\<lambda>pm. Inr (k\<lparr>processor := pm\<rparr>))"

abbreviation run_res :: "'a res \<Rightarrow> ('a \<Rightarrow> 'b run) \<Rightarrow> 'b run" where
  "run_res r f \<equiv> bind_run (Some r) f"

text \<open>\<^verbatim>\<open>translate\<close> in the space of a process with flags given by their string.\<close>

definition k_translate :: "('f, 'z, 'h) kernel_env \<Rightarrow> string \<Rightarrow> nat \<Rightarrow> ('f, 'z) proc \<Rightarrow> nat option res" where
  "k_translate env flags addr p =
     bind_res (unwrap (env_parse_flags (ke_vm env) flags)) (\<lambda>f.
       Inr (translate (ke_vm env) addr f (us_space (process.address_space p))))"

definition sys_write :: "('f, 'z, 'h) kernel_env \<Rightarrow> nat \<Rightarrow> nat \<Rightarrow> nat \<Rightarrow> ('f, 'z, 'h, 'y) kernel_scheme \<Rightarrow> (int \<times> ('f, 'z, 'h, 'y) kernel_scheme) run" where
  "sys_write env fd buf cnt k =
     (if fd = 1 \<or> fd = 2 then
        run_res (k_current k) (\<lambda>p.
        run_res (k_translate env ''RV'' buf p) (\<lambda>ptr.
          case ptr of
            Some pa \<Rightarrow> Some (Inr (usize_as_isize cnt,
              k\<lparr>console_out := console_out k @ read_phys pa cnt (frames (kmachine k))\<rparr>))
          | None \<Rightarrow> Some (Inr (- 1, k))))
      else Some (Inr (- 1, k)))"

text \<open>
  The bytes come one by one from \<^verbatim>\<open>console_getchar\<close>, which waits for a character: the call returns when
  enough characters arrive on the console.
\<close>

definition sys_read :: "('f, 'z, 'h) kernel_env \<Rightarrow> nat \<Rightarrow> nat \<Rightarrow> nat \<Rightarrow> ('f, 'z, 'h, 'y) kernel_scheme \<Rightarrow> (int \<times> ('f, 'z, 'h, 'y) kernel_scheme) run" where
  "sys_read env fd buf cnt k =
     (if fd = 0 then
        run_res (k_current k) (\<lambda>p.
        run_res (k_translate env ''W_V'' buf p) (\<lambda>ptr.
          case ptr of
            Some pa \<Rightarrow>
              if length (console_in k) < cnt then None
              else Some (Inr (usize_as_isize cnt,
                     k\<lparr>console_in := drop cnt (console_in k),
                       kmachine := (kmachine k)\<lparr>frames := write_phys pa (take cnt (console_in k)) (frames (kmachine k))\<rparr>\<rparr>))
          | None \<Rightarrow> Some (Inr (- 1, k))))
      else Some (Inr (- 1, k)))"

definition sys_exit :: "nat \<Rightarrow> int" where
  "sys_exit exit_code = usize_as_isize exit_code"

definition sys_fork :: "('f, 'z, 'h) kernel_env \<Rightarrow> ('f, 'z, 'h, 'y) kernel_scheme \<Rightarrow> (int \<times> ('f, 'z, 'h, 'y) kernel_scheme) run" where
  "sys_fork env k =
     run_res (k_current k) (\<lambda>current.
     bind_run (proc_fork env current (next_pid k, kmachine k)) (\<lambda>(child, pid', mc).
     run_res (lc_set_a 0 0 (fc_context (proc_context child))) (\<lambda>ctx.
     run_res (pm_add stride_ops (proc_pid child)
         (child\<lparr>proc_context := (proc_context child)\<lparr>fc_context := ctx\<rparr>\<rparr>) (proc_pid current) (processor k)) (\<lambda>pm.
       Some (Inr (usize_as_isize (proc_pid child), k\<lparr>processor := pm, next_pid := pid', kmachine := mc\<rparr>))))))"

text \<open>The program a user string names: translated, looked up and parsed.\<close>

definition find_app ::
  "('f, 'z, 'h) kernel_env \<Rightarrow> nat \<Rightarrow> nat \<Rightarrow> ('f, 'z) proc \<Rightarrow> ('f, 'z, 'h, 'y) kernel_scheme \<Rightarrow> elf_file option res" where
  "find_app env path cnt p k =
     bind_res (k_translate env ''RV'' path p) (\<lambda>ptr.
       Inr (Option.bind ptr (\<lambda>pa.
            Option.bind (map_of (ke_apps env) (read_phys pa cnt (frames (kmachine k)))) (ke_elf env))))"

text \<open>Unknown programs print the names of the known ones, one per line, and an empty line.\<close>

definition print_apps :: "byte list list \<Rightarrow> ('f, 'z, 'h, 'y) kernel_scheme \<Rightarrow> ('f, 'z, 'h, 'y) kernel_scheme" where
  "print_apps names k = k\<lparr>console_out := console_out k @ concat (map (\<lambda>app. app @ [10]) names) @ [10]\<rparr>"

definition exec_elf ::
  "('f, 'z, 'h) kernel_env \<Rightarrow> elf_file \<Rightarrow> ('f, 'z, 'h, 'y) kernel_scheme \<Rightarrow> (int \<times> ('f, 'z, 'h, 'y) kernel_scheme) run" where
  "exec_elf env elf k =
     run_res (k_current k) (\<lambda>current.
     bind_run (proc_exec env elf current (next_pid k, kmachine k)) (\<lambda>(p', pid', mc).
     run_res (k_write_current p' k) (\<lambda>k'.
       Some (Inr (0, k'\<lparr>next_pid := pid', kmachine := mc\<rparr>)))))"

definition sys_exec :: "('f, 'z, 'h) kernel_env \<Rightarrow> nat \<Rightarrow> nat \<Rightarrow> ('f, 'z, 'h, 'y) kernel_scheme \<Rightarrow> (int \<times> ('f, 'z, 'h, 'y) kernel_scheme) run" where
  "sys_exec env path cnt k =
     run_res (k_current k) (\<lambda>current.
     run_res (find_app env path cnt current k) (\<lambda>data.
       case data of
         None \<Rightarrow> Some (Inr (- 1, print_apps (map fst (ke_apps env)) k))
       | Some elf \<Rightarrow> exec_elf env elf k))"

definition sys_wait :: "('f, 'z, 'h) kernel_env \<Rightarrow> int \<Rightarrow> nat \<Rightarrow> ('f, 'z, 'h, 'y) kernel_scheme \<Rightarrow> (int \<times> ('f, 'z, 'h, 'y) kernel_scheme) run" where
  "sys_wait env pid exit_code_ptr k =
     run_res (k_current k) (\<lambda>current.
     run_res (pm_wait (isize_as_usize pid) (processor k)) (\<lambda>(r, pm).
       let k1 = k\<lparr>processor := pm\<rparr>
       in case r of
            None \<Rightarrow> Some (Inr (- 1, k1))
          | Some (dead_pid, exit_code) \<Rightarrow>
              run_res (k_translate env ''W_V'' exit_code_ptr current) (\<lambda>ptr.
                Some (Inr (usize_as_isize dead_pid,
                  case ptr of
                    None \<Rightarrow> k1
                  | Some pa \<Rightarrow> k1\<lparr>kmachine := (kmachine k1)\<lparr>frames :=
                      write_phys pa (le_bytes 4 (i32_bits (int_as_i32 exit_code))) (frames (kmachine k1))\<rparr>\<rparr>)))))"

definition sys_getpid :: "('f, 'z, 'h, 'y) kernel_scheme \<Rightarrow> (int \<times> ('f, 'z, 'h, 'y) kernel_scheme) run" where
  "sys_getpid k = run_res (k_current k) (\<lambda>p. Some (Inr (usize_as_isize (proc_pid p), k)))"

definition spawn_elf ::
  "('f, 'z, 'h) kernel_env \<Rightarrow> elf_file \<Rightarrow> ('f, 'z, 'h, 'y) kernel_scheme \<Rightarrow> (int \<times> ('f, 'z, 'h, 'y) kernel_scheme) run" where
  "spawn_elf env elf k =
     run_res (k_current k) (\<lambda>current.
     bind_run (from_elf env elf (next_pid k, kmachine k)) (\<lambda>(r, pid', mc).
       case r of
         None \<Rightarrow> Some (Inr (- 1, k\<lparr>next_pid := pid', kmachine := mc\<rparr>))
       | Some child \<Rightarrow>
           run_res (lc_set_a 0 (proc_pid child) (fc_context (proc_context child))) (\<lambda>ctx.
           run_res (pm_add stride_ops (proc_pid child)
               (child\<lparr>proc_context := (proc_context child)\<lparr>fc_context := ctx\<rparr>\<rparr>) (proc_pid current) (processor k)) (\<lambda>pm.
             Some (Inr (usize_as_isize (proc_pid child), k\<lparr>processor := pm, next_pid := pid', kmachine := mc\<rparr>))))))"

definition sys_spawn ::
  "('f, 'z, 'h) kernel_env \<Rightarrow> nat \<Rightarrow> nat \<Rightarrow> ('f, 'z, 'h, 'y) kernel_scheme \<Rightarrow> (int \<times> ('f, 'z, 'h, 'y) kernel_scheme) run" where
  "sys_spawn env path cnt k =
     run_res (k_current k) (\<lambda>current.
     run_res (find_app env path cnt current k) (\<lambda>data.
       case data of
         None \<Rightarrow> Some (Inr (- 1, print_apps (map fst (ke_apps env)) k))
       | Some elf \<Rightarrow> spawn_elf env elf k))"

definition sys_sbrk5 :: "('f, 'z, 'h) kernel_env \<Rightarrow> int \<Rightarrow> ('f, 'z, 'h, 'y) kernel_scheme \<Rightarrow> (int \<times> ('f, 'z, 'h, 'y) kernel_scheme) run" where
  "sys_sbrk5 env sz k =
     run_res (k_current k) (\<lambda>p.
     bind_run (sys_sbrk (ke_vm env) sz
         (\<lparr>brk_space = us_space (process.address_space p), brk_heap_bottom = heap_bottom p,
           brk_program_brk = program_brk p\<rparr>, kmachine k)) (\<lambda>(ret, b, mc).
     run_res (k_write_current (p\<lparr>process.address_space := (process.address_space p)\<lparr>us_space := brk_space b\<rparr>,
         program_brk := brk_program_brk b\<rparr>) (k\<lparr>kmachine := mc\<rparr>)) (\<lambda>k'.
       Some (Inr (ret, k')))))"

definition sched_yield :: "('f, 'z, 'h, 'y) kernel_scheme \<Rightarrow> (int \<times> ('f, 'z, 'h, 'y) kernel_scheme) run" where
  "sched_yield k = Some (Inr (0, k))"

definition sys_set_priority :: "int \<Rightarrow> ('f, 'z, 'h, 'y) kernel_scheme \<Rightarrow> (int \<times> ('f, 'z, 'h, 'y) kernel_scheme) run" where
  "sys_set_priority prio k =
     run_res (k_current k) (\<lambda>p.
       let (ret, p') = set_priority prio p
       in run_res (k_write_current p' k) (\<lambda>k'. Some (Inr (ret, k'))))"

definition clock_gettime :: "('f, 'z, 'h) kernel_env \<Rightarrow> nat \<Rightarrow> nat \<Rightarrow> ('f, 'z, 'h, 'y) kernel_scheme \<Rightarrow> (int \<times> ('f, 'z, 'h, 'y) kernel_scheme) run" where
  "clock_gettime env clock_id tp k =
     (if clock_id = 1 then
        run_res (k_current k) (\<lambda>p.
        run_res (k_translate env ''W_V'' tp p) (\<lambda>ptr.
          case ptr of
            Some pa \<Rightarrow>
              if usize_bound \<le> time_now k * 10000 then Some (Inl ArithOverflow)
              else let time = time_now k * 10000 div 125
                   in Some (Inr (0, k\<lparr>kmachine := (kmachine k)\<lparr>frames :=
                        write_phys pa (le_bytes 8 (time div 1000000000) @ le_bytes 8 (time mod 1000000000))
                          (frames (kmachine k))\<rparr>\<rparr>))
          | None \<Rightarrow> Some (Inr (- 1, k))))
      else Some (Inr (- 1, k)))"

definition sys_mmap5 ::
  "('f, 'z, 'h) kernel_env \<Rightarrow> nat \<Rightarrow> nat \<Rightarrow> int \<Rightarrow> ('f, 'z, 'h, 'y) kernel_scheme \<Rightarrow> (int \<times> ('f, 'z, 'h, 'y) kernel_scheme) run" where
  "sys_mmap5 env addr len prot k =
     run_res (k_current k) (\<lambda>p.
     bind_run (sys_mmap (ke_vm env) addr len prot (us_space (process.address_space p), kmachine k)) (\<lambda>(ret, sp, mc).
     run_res (k_write_current (p\<lparr>process.address_space := (process.address_space p)\<lparr>us_space := sp\<rparr>\<rparr>)
         (k\<lparr>kmachine := mc\<rparr>)) (\<lambda>k'.
       Some (Inr (ret, k')))))"

definition sys_munmap5 ::
  "('f, 'z, 'h) kernel_env \<Rightarrow> nat \<Rightarrow> nat \<Rightarrow> ('f, 'z, 'h, 'y) kernel_scheme \<Rightarrow> (int \<times> ('f, 'z, 'h, 'y) kernel_scheme) run" where
  "sys_munmap5 env addr len k =
     run_res (k_current k) (\<lambda>p.
     run_res (sys_munmap (ke_vm env) addr len (us_space (process.address_space p), kmachine k)) (\<lambda>(ret, sp, mc).
     run_res (k_write_current (p\<lparr>process.address_space := (process.address_space p)\<lparr>us_space := sp\<rparr>\<rparr>)
         (k\<lparr>kmachine := mc\<rparr>)) (\<lambda>k'.
       Some (Inr (ret, k')))))"

text \<open>
  The implementations that \<^verbatim>\<open>rust_main\<close> registers. The methods of \<^verbatim>\<open>IO\<close> that chapter 5 does not implement are
  the default methods of the trait.
\<close>

definition subsystems5 :: "subsystem set" where
  "subsystems5 = {IO, PROCESS, SCHEDULING, CLOCK, MEMORY}"

fun syscall5 :: "('f, 'z, 'h) kernel_env \<Rightarrow> syscall \<Rightarrow> ('f, 'z, 'h, 'y) kernel_scheme \<Rightarrow> (int \<times> ('f, 'z, 'h, 'y) kernel_scheme) run" where
  "syscall5 env (SysWrite fd buf cnt) k = sys_write env fd buf cnt k"
| "syscall5 env (SysRead fd buf cnt) k = sys_read env fd buf cnt k"
| "syscall5 env (SysExit exit_code) k = Some (Inr (sys_exit exit_code, k))"
| "syscall5 env SysFork k = sys_fork env k"
| "syscall5 env (SysExec path cnt) k = sys_exec env path cnt k"
| "syscall5 env (SysWait pid exit_code_ptr) k = sys_wait env pid exit_code_ptr k"
| "syscall5 env SysGetpid k = sys_getpid k"
| "syscall5 env (SysSpawn path cnt) k = sys_spawn env path cnt k"
| "syscall5 env (SysSbrk sz) k = sys_sbrk5 env sz k"
| "syscall5 env (SysClockGettime clock_id tp) k = clock_gettime env clock_id tp k"
| "syscall5 env SysSchedYield k = sched_yield k"
| "syscall5 env (SysSetPriority prio) k = sys_set_priority prio k"
| "syscall5 env (SysMunmap addr len) k = sys_munmap5 env addr len k"
| "syscall5 env (SysMmap addr len prot _ _ _) k = sys_mmap5 env addr len prot k"
| "syscall5 env _ k = Some (Inl Unimplemented)"

section \<open>The main loop\<close>

text \<open>
  A user program: from its context and memory to the context at the next trap, the memory then, and
  whether the trap is an environment call.
\<close>

type_synonym user_program = "foreign_context \<Rightarrow> (nat \<Rightarrow> byte list) \<Rightarrow> foreign_context \<times> (nat \<Rightarrow> byte list) \<times> bool"

definition k_exited :: "int \<Rightarrow> ('f, 'z, 'h, 'y) kernel_scheme \<Rightarrow> ('f, 'z, 'h, 'y) kernel_scheme res" where
  "k_exited exit_code k =
     bind_res (pm_make_current_exited stride_ops exit_code (processor k)) (\<lambda>pm. Inr (k\<lparr>processor := pm\<rparr>))"

text \<open>What the loop does with the result of call number \<open>i\<close>.\<close>

definition finish_syscall :: "nat \<Rightarrow> syscall_result \<Rightarrow> ('f, 'z, 'h, 'y) kernel_scheme \<Rightarrow> ('f, 'z, 'h, 'y) kernel_scheme run" where
  "finish_syscall i r k =
     (case r of
        Done ret \<Rightarrow>
          if i = 93 then Some (k_exited ret k)
          else run_res (k_current k) (\<lambda>task.
               run_res (lc_set_a 0 (isize_as_usize ret) (fc_context (proc_context task))) (\<lambda>ctx.
               run_res (k_write_current (task\<lparr>proc_context := (proc_context task)\<lparr>fc_context := ctx\<rparr>\<rparr>) k) (\<lambda>k1.
               run_res (pm_make_current_suspend stride_ops (processor k1)) (\<lambda>pm.
                 Some (Inr (k1\<lparr>processor := pm\<rparr>))))))
      | Unsupported _ \<Rightarrow> Some (k_exited (- 2) k))"

text \<open>Serving an environment call of the current process, whose saved context is up to date, with the calls of a chapter.\<close>

definition serve_with ::
  "(syscall \<Rightarrow> ('f, 'z, 'h, 'y) kernel_scheme \<Rightarrow> (int \<times> ('f, 'z, 'h, 'y) kernel_scheme) run) \<Rightarrow>
   ('f, 'z, 'h, 'y) kernel_scheme \<Rightarrow> ('f, 'z, 'h, 'y) kernel_scheme run" where
  "serve_with calls k =
     run_res (k_current k) (\<lambda>task.
     let ctx = lc_move_next (fc_context (proc_context task))
     in run_res (k_write_current (task\<lparr>proc_context := (proc_context task)\<lparr>fc_context := ctx\<rparr>\<rparr>) k) (\<lambda>k1.
        run_res (lc_a 7 ctx) (\<lambda>i.
        run_res (lc_a 0 ctx) (\<lambda>a0. run_res (lc_a 1 ctx) (\<lambda>a1. run_res (lc_a 2 ctx) (\<lambda>a2.
        run_res (lc_a 3 ctx) (\<lambda>a3. run_res (lc_a 4 ctx) (\<lambda>a4. run_res (lc_a 5 ctx) (\<lambda>a5.
        bind_run (handle subsystems5 calls i [a0, a1, a2, a3, a4, a5] k1) (\<lambda>(r, k2).
          finish_syscall i r k2))))))))))"

text \<open>One turn of the loop; the result says whether the loop goes on.\<close>

definition turn_with ::
  "(syscall \<Rightarrow> ('f, 'z, 'h, 'y) kernel_scheme \<Rightarrow> (int \<times> ('f, 'z, 'h, 'y) kernel_scheme) run) \<Rightarrow>
   user_program \<Rightarrow> ('f, 'z, 'h, 'y) kernel_scheme \<Rightarrow> (bool \<times> ('f, 'z, 'h, 'y) kernel_scheme) run" where
  "turn_with calls user k =
     run_res (pm_find_next stride_ops (processor k)) (\<lambda>(next_task, pm).
       case next_task of
         None \<Rightarrow> Some (Inr (False, k\<lparr>processor := pm\<rparr>))
       | Some task \<Rightarrow>
           let (fc, fr, ecall) = user (proc_context task) (frames (kmachine k));
               k1 = k\<lparr>processor := pm, kmachine := (kmachine k)\<lparr>frames := fr\<rparr>\<rparr>
           in run_res (k_write_current (task\<lparr>proc_context := fc\<rparr>) k1) (\<lambda>k2.
              bind_run (if ecall then serve_with calls k2 else Some (k_exited (- 3) k2)) (\<lambda>k3.
                Some (Inr (True, k3)))))"

definition serve_syscall :: "('f, 'z, 'h) kernel_env \<Rightarrow> ('f, 'z, 'h, 'y) kernel_scheme \<Rightarrow> ('f, 'z, 'h, 'y) kernel_scheme run" where
  "serve_syscall env = serve_with (syscall5 env)"

definition kernel_turn ::
  "('f, 'z, 'h) kernel_env \<Rightarrow> user_program \<Rightarrow> ('f, 'z, 'h, 'y) kernel_scheme \<Rightarrow> (bool \<times> ('f, 'z, 'h, 'y) kernel_scheme) run" where
  "kernel_turn env = turn_with (syscall5 env)"

text \<open>The state in which the loop starts: the first process, loaded from \<^verbatim>\<open>initproc\<close>.\<close>

definition boot_with :: "'y \<Rightarrow> ('f, 'z, 'h) kernel_env \<Rightarrow> elf_file \<Rightarrow> 'h machine \<Rightarrow> ('f, 'z, 'h, 'y) kernel_scheme run" where
  "boot_with y env elf mc =
     bind_run (from_elf env elf (0, mc)) (\<lambda>(r, pid, mc').
       let k = \<lparr>processor = pm_new, next_pid = pid, kmachine = mc', console_out = [], console_in = [], time_now = 0, \<dots> = y\<rparr>
       in case r of
            None \<Rightarrow> Some (Inr k)
          | Some p \<Rightarrow>
              run_res (pm_add stride_ops (proc_pid p) p pid_any (pm_set_manager proc_manager_new (processor k))) (\<lambda>pm.
                Some (Inr (k\<lparr>processor := pm\<rparr>))))"

definition boot :: "('f, unit, 'h) kernel_env \<Rightarrow> elf_file \<Rightarrow> 'h machine \<Rightarrow> ('f, unit, 'h) kernel run" where
  "boot = boot_with ()"

end
