(* ===== verification/Process_Invariant.thy ===== *)
theory Process_Invariant
  imports Process_Kernel
begin

text \<open>
  What the main loop of chapter 5 keeps: the process tree, the table of processes and the ready queue agree
  (\<open>pm_inv\<close> for the stride scheduler), every process object carries the id it is stored under,
  a context with all its registers and a legal priority, and its stride is bounded by the number of
  turns. The properties are about reachable kernels and about single system calls.
\<close>

section \<open>The invariant of the kernel\<close>

definition proc_ok :: "nat \<Rightarrow> nat \<Rightarrow> ('f, 'z) proc \<Rightarrow> bool" where
  "proc_ok b i p \<longleftrightarrow> proc_pid p = i \<and> lc_wf (fc_context (proc_context p)) \<and> prio_ok p \<and>
     stride_val (proc_stride p) \<le> b"

definition procs_ok :: "nat \<Rightarrow> ('f, 'z) procs pmanager \<Rightarrow> bool" where
  "procs_ok b pm \<longleftrightarrow> (\<forall>m i p. manager pm = Some m \<longrightarrow> tasks m i = Some p \<longrightarrow> proc_ok b i p)"

abbreviation pm5_inv :: "nat \<Rightarrow> ('f, 'z) procs pmanager \<Rightarrow> bool" where
  "pm5_inv \<equiv> pm_inv stride_wf tasks stride_ready"

definition k_inv :: "nat \<Rightarrow> ('f, 'z, 'h, 'y) kernel_scheme \<Rightarrow> bool" where
  "k_inv b k \<longleftrightarrow> pm5_inv (next_pid k) (processor k) \<and> procs_ok b (processor k)"

text \<open>A kernel that serves a call of process \<open>i\<close>.\<close>

definition serving :: "nat \<Rightarrow> nat \<Rightarrow> ('f, 'z, 'h, 'y) kernel_scheme \<Rightarrow> bool" where
  "serving b i k \<longleftrightarrow> k_inv b k \<and> current (processor k) = Some i"

lemma k_inv_simps [simp]:
  "k_inv b (k\<lparr>kmachine := mc\<rparr>) = k_inv b k" "k_inv b (k\<lparr>console_out := out\<rparr>) = k_inv b k"
  "k_inv b (k\<lparr>console_in := inp\<rparr>) = k_inv b k" "k_inv b (k\<lparr>time_now := t\<rparr>) = k_inv b k"
  "serving b i (k\<lparr>kmachine := mc\<rparr>) = serving b i k" "serving b i (k\<lparr>console_out := out\<rparr>) = serving b i k"
  "serving b i (k\<lparr>console_in := inp\<rparr>) = serving b i k" "serving b i (k\<lparr>time_now := t\<rparr>) = serving b i k"
  by (simp_all add: k_inv_def serving_def)

lemma k_inv_next_pid:
  "k_inv b k \<Longrightarrow> next_pid k \<le> n \<Longrightarrow> n \<le> pid_any \<Longrightarrow> k_inv b (k\<lparr>next_pid := n\<rparr>)"
  unfolding k_inv_def using stride.inv_mono by fastforce

lemma serving_next_pid:
  "serving b i k \<Longrightarrow> next_pid k \<le> n \<Longrightarrow> n \<le> pid_any \<Longrightarrow> serving b i (k\<lparr>next_pid := n\<rparr>)"
  unfolding serving_def using k_inv_next_pid by fastforce

lemma serving_current:
  assumes "serving b i k"
  obtains p where "k_current k = Inr p" "proc_ok b i p"
proof -
  obtain t where t: "pm_current stride_ops (processor k) = Inr (Some t)"
    using stride.current_some assms unfolding serving_def k_inv_def by blast
  moreover from this assms have "proc_ok b i t"
    by (auto simp: serving_def k_inv_def procs_ok_def pm_current_def stride_ops_def manage_get_def split: option.splits)
  ultimately show ?thesis using that by (simp add: k_current_def)
qed

lemma serving_write:
  assumes S: "serving b i k" and p: "proc_ok b i p"
  obtains pm where "k_write_current p k = Inr (k\<lparr>processor := pm\<rparr>)" "serving b i (k\<lparr>processor := pm\<rparr>)"
    "k_current (k\<lparr>processor := pm\<rparr>) = Inr p" "rel_map pm = rel_map (processor k)"
proof -
  have "prio_ok p" using p by (simp add: proc_ok_def)
  then obtain pm where pm: "pm_write_current stride_ops p (processor k) = Inr pm" "pm5_inv (next_pid k) pm"
    "current pm = Some i" "rel_map pm = rel_map (processor k)" "pm_current stride_ops pm = Inr (Some p)"
    using stride.write_current_inv [of "next_pid k" "processor k" i p] S by (auto simp: serving_def k_inv_def)
  moreover have "procs_ok b pm"
    using pm(1) S p
    by (auto simp: procs_ok_def serving_def k_inv_def pm_write_current_def stride_ops_def manage_insert_def
        split: option.splits if_splits)
  ultimately show ?thesis
    using that [of pm] by (simp add: k_write_current_def serving_def k_inv_def k_current_def)
qed

lemma serving_add:
  assumes S: "serving b i k" and j: "next_pid k < pid_any" and p: "proc_ok b (next_pid k) p"
  obtains pm where "pm_add stride_ops (next_pid k) p i (processor k) = Inr pm"
    "serving b i (k\<lparr>processor := pm, next_pid := next_pid k + 1\<rparr>)"
    "dom (rel_map pm) = insert (next_pid k) (dom (rel_map (processor k)))"
proof -
  have i: "i \<in> dom (rel_map (processor k))" using S by (auto simp: serving_def k_inv_def pm_inv_def)
  have "prio_ok p" using p by (simp add: proc_ok_def)
  then obtain pm where pm: "pm_add stride_ops (next_pid k) p i (processor k) = Inr pm"
    "pm5_inv (next_pid k + 1) pm" "current pm = current (processor k)"
    "dom (rel_map pm) = insert (next_pid k) (dom (rel_map (processor k)))"
    using stride.add_inv [OF _ i _ j, of p] S unfolding serving_def k_inv_def by blast
  moreover have "procs_ok b pm"
    using pm(1) S p
    by (auto simp: procs_ok_def serving_def k_inv_def pm_add_def stride_ops_def manage_insert_def schedule_add_def
        split: option.splits if_splits)
  ultimately show ?thesis
    using that [of pm] S by (simp add: serving_def k_inv_def)
qed

section \<open>Creating processes\<close>

text \<open>The child \<open>c\<close> as the system calls add it, with a value in its register a0.\<close>

lemma serving_add_child:
  assumes S: "serving b i k" and n: "next_pid k < pid_any" and c: "proc_ok b (next_pid k) c"
    and ctx: "lc_set_a 0 v (fc_context (proc_context c)) = Inr ctx" and p: "proc_ok b i p"
    and pm: "pm_add stride_ops (proc_pid c) (c\<lparr>proc_context := (proc_context c)\<lparr>fc_context := ctx\<rparr>\<rparr>) (proc_pid p)
      (processor k) = Inr pm"
  shows "serving b i (k\<lparr>processor := pm, next_pid := next_pid k + 1, kmachine := mc\<rparr>)"
proof -
  have pid: "proc_pid c = next_pid k" "proc_pid p = i" using p c by (simp_all add: proc_ok_def)
  have "lc_wf ctx" using ctx c by (auto simp: lc_set_a_ok proc_ok_def)
  then have "proc_ok b (next_pid k) (c\<lparr>proc_context := (proc_context c)\<lparr>fc_context := ctx\<rparr>\<rparr>)"
    using c by (simp add: proc_ok_def prio_ok_def)
  from serving_add [OF S n this] obtain pm' where
    "pm_add stride_ops (next_pid k) (c\<lparr>proc_context := (proc_context c)\<lparr>fc_context := ctx\<rparr>\<rparr>) i (processor k) = Inr pm'"
    "serving b i (k\<lparr>processor := pm', next_pid := next_pid k + 1\<rparr>)" .
  then show ?thesis using pm unfolding pid by simp
qed

lemma proc_id_new_small: "n < pid_any \<Longrightarrow> proc_id_new n = (n, n + 1)"
  by (simp add: proc_id_new_def)

lemma from_elf_ok:
  assumes "from_elf env elf (n, mc) = Some (Inr (r, n', mc'))" "n < pid_any"
  shows "n \<le> n' \<and> n' \<le> n + 1 \<and> (\<forall>p. r = Some p \<longrightarrow> proc_ok b n p \<and> n' = n + 1)"
  using assms
  by (auto simp: from_elf_def Let_def proc_id_new_small proc_ok_def prio_ok_def stride_new_def
      lc_set_sp_def lc_set_x_def lc_wf_def lc_user_def split: option.split_asm if_split_asm prod.split_asm)

lemma proc_fork_ok:
  assumes "proc_fork env p (n, mc) = Some (Inr (c, n', mc'))" "n < pid_any" "proc_ok b i p"
  shows "proc_ok b n c \<and> n' = n + 1"
  using assms
  by (auto simp: proc_fork_def Let_def proc_id_new_small proc_ok_def prio_ok_def stride_new_def)

lemma proc_exec_ok:
  assumes "proc_exec env elf p (n, mc) = Some (Inr (p', n', mc'))" "n < pid_any" "proc_ok b i p"
  shows "proc_ok b i p' \<and> proc_pid p' = proc_pid p \<and> proc_stride p' = proc_stride p \<and> n' = n + 1"
proof -
  obtain q where "from_elf env elf (n, mc) = Some (Inr (Some q, n', mc'))"
    and p': "p' = p\<lparr>process.address_space := (process.address_space p)\<lparr>us_space := us_space (process.address_space q),
      us_root := us_root (process.address_space q)\<rparr>, proc_context := proc_context q, heap_bottom := heap_bottom q, program_brk := program_brk q\<rparr>"
    using assms(1) by (auto simp: proc_exec_def split: option.split_asm)
  from from_elf_ok [OF this(1) assms(2), of b] have "proc_ok b n q" "n' = n + 1" by simp_all
  then show ?thesis using assms(3) by (simp add: p' proc_ok_def prio_ok_def)
qed

section \<open>System calls keep the invariant\<close>

text \<open>
  A call that returns leaves a kernel that serves the same process, and hands out at most one process id.
\<close>

definition keeps :: "(('f, 'z, 'h, 'y) kernel_scheme \<Rightarrow> (int \<times> ('f, 'z, 'h, 'y) kernel_scheme) run) \<Rightarrow> bool" where
  "keeps f \<longleftrightarrow> (\<forall>b i k r k'. serving b i k \<longrightarrow> next_pid k < pid_any \<longrightarrow> f k = Some (Inr (r, k')) \<longrightarrow>
     serving b i k' \<and> next_pid k \<le> next_pid k' \<and> next_pid k' \<le> next_pid k + 1)"

lemma keepsI:
  "(\<And>b i k r k'. serving b i k \<Longrightarrow> next_pid k < pid_any \<Longrightarrow> f k = Some (Inr (r, k')) \<Longrightarrow>
     serving b i k' \<and> next_pid k \<le> next_pid k' \<and> next_pid k' \<le> next_pid k + 1) \<Longrightarrow> keeps f"
  by (simp add: keeps_def)

lemma k_current_ok: "serving b i k \<Longrightarrow> k_current k = Inr p \<Longrightarrow> proc_ok b i p"
  by (metis Inr_inject serving_current)

lemma k_write_ok:
  assumes S: "serving b i k" and p: "proc_ok b i p" and w: "k_write_current p k = Inr k'"
  shows "serving b i k' \<and> next_pid k' = next_pid k \<and> kmachine k' = kmachine k"
proof -
  obtain pm where "k_write_current p k = Inr (k\<lparr>processor := pm\<rparr>)" "serving b i (k\<lparr>processor := pm\<rparr>)"
    by (rule serving_write [OF S p])
  then show ?thesis using w by auto
qed

lemma k_write_pid_ok:
  "serving b i k \<Longrightarrow> proc_ok b i p \<Longrightarrow> k_write_current p k = Inr k' \<Longrightarrow> n' = next_pid k + 1 \<Longrightarrow>
   next_pid k < pid_any \<Longrightarrow> serving b i (k'\<lparr>next_pid := n'\<rparr>)"
  using k_write_ok [of b i k p k'] by (intro serving_next_pid) auto

lemma proc_ok_upd [simp]:
  "proc_ok b i (p\<lparr>process.address_space := sp\<rparr>) = proc_ok b i p"
  "proc_ok b i (p\<lparr>program_brk := x\<rparr>) = proc_ok b i p"
  "proc_ok b i (p\<lparr>proc_context := c\<rparr>) \<longleftrightarrow> proc_pid p = i \<and> lc_wf (fc_context c) \<and> prio_ok p \<and> stride_val (proc_stride p) \<le> b"
  by (auto simp: proc_ok_def prio_ok_def)

lemma keeps_no_change:
  assumes "\<And>k r k'. f k = Some (Inr (r, k')) \<Longrightarrow> processor k' = processor k \<and> next_pid k' = next_pid k"
  shows "keeps f"
  by (rule keepsI) (use assms in \<open>fastforce simp: serving_def k_inv_def\<close>)

lemma keeps_sys_write: "keeps (sys_write env fd buf cnt)"
  by (rule keeps_no_change) (auto simp: sys_write_def split: if_split_asm option.split_asm)

lemma keeps_sys_read: "keeps (sys_read env fd buf cnt)"
  by (rule keeps_no_change) (auto simp: sys_read_def split: if_split_asm option.split_asm)

lemma keeps_sys_getpid: "keeps sys_getpid"
  by (rule keeps_no_change) (auto simp: sys_getpid_def)

lemma keeps_sched_yield: "keeps sched_yield"
  by (rule keeps_no_change) (auto simp: sched_yield_def)

lemma keeps_clock_gettime: "keeps (clock_gettime env clock_id tp)"
  by (rule keeps_no_change) (auto simp: clock_gettime_def Let_def split: if_split_asm option.split_asm)

lemma in_isize_cast [simp]: "in_isize (usize_as_isize x)"
  by (simp add: usize_as_isize_def in_isize_def) linarith

lemma keeps_sys_set_priority: "in_isize prio \<Longrightarrow> keeps (sys_set_priority prio)"
proof (rule keepsI)
  fix b i k r k'
  assume prio: "in_isize prio" and S: "serving b i k" and r: "sys_set_priority prio k = Some (Inr (r, k'))"
  obtain p where p: "k_current k = Inr p" "proc_ok b i p" by (rule serving_current [OF S])
  have "2 \<le> isize_as_usize prio" if "2 \<le> prio"
    using that prio by (simp add: isize_as_usize_nonneg in_isize_def)
  then have "proc_ok b i (snd (set_priority prio p))"
    using p(2) by (simp add: set_priority_def proc_ok_def prio_ok_def)
  moreover have "k_write_current (snd (set_priority prio p)) k = Inr k'"
    using r p(1) by (auto simp: sys_set_priority_def split: prod.split_asm)
  ultimately show "serving b i k' \<and> next_pid k \<le> next_pid k' \<and> next_pid k' \<le> next_pid k + 1"
    using k_write_ok [OF S] by fastforce
qed

lemma keeps_sys_fork: "keeps (sys_fork env)"
proof (rule keepsI)
  fix b i k r k'
  assume S: "serving b i k" and n: "next_pid k < pid_any" and r: "sys_fork env k = Some (Inr (r, k'))"
  obtain p c mc ctx pm n' where p: "k_current k = Inr p" and c: "proc_fork env p (next_pid k, kmachine k) = Some (Inr (c, n', mc))"
    and ctx: "lc_set_a 0 0 (fc_context (proc_context c)) = Inr ctx"
    and pm: "pm_add stride_ops (proc_pid c) (c\<lparr>proc_context := (proc_context c)\<lparr>fc_context := ctx\<rparr>\<rparr>) (proc_pid p)
      (processor k) = Inr pm" and k': "k' = k\<lparr>processor := pm, next_pid := n', kmachine := mc\<rparr>"
    using r by (auto simp: sys_fork_def)
  have pok: "proc_ok b i p" by (rule k_current_ok [OF S p])
  then have "proc_ok b (next_pid k) c" "n' = next_pid k + 1" using proc_fork_ok [OF c n pok] by simp_all
  with serving_add_child [OF S n _ ctx pok pm, of mc]
  show "serving b i k' \<and> next_pid k \<le> next_pid k' \<and> next_pid k' \<le> next_pid k + 1" by (simp add: k')
qed

lemma keeps_exec_elf: "keeps (exec_elf env elf)"
proof (rule keepsI)
  fix b i k r k'
  assume S: "serving b i k" and n: "next_pid k < pid_any" and r: "exec_elf env elf k = Some (Inr (r, k'))"
  obtain p where p: "k_current k = Inr p" "proc_ok b i p" by (rule serving_current [OF S])
  obtain p' n' mc k1 where e: "proc_exec env elf p (next_pid k, kmachine k) = Some (Inr (p', n', mc))"
      "k_write_current p' k = Inr k1" "k' = k1\<lparr>next_pid := n', kmachine := mc\<rparr>"
    using r p(1) by (auto simp: exec_elf_def)
  then have "proc_ok b i p'" "n' = next_pid k + 1" using proc_exec_ok [OF e(1) n p(2)] by simp_all
  then show "serving b i k' \<and> next_pid k \<le> next_pid k' \<and> next_pid k' \<le> next_pid k + 1"
    using k_write_pid_ok [OF S _ e(2) _ n] e(3) by simp
qed

lemma keeps_spawn_elf: "keeps (spawn_elf env elf)"
proof (rule keepsI)
  fix b i k r k'
  assume S: "serving b i k" and n: "next_pid k < pid_any" and r: "spawn_elf env elf k = Some (Inr (r, k'))"
  obtain p where p: "k_current k = Inr p" "proc_ok b i p" by (rule serving_current [OF S])
  obtain c n' mc where e: "from_elf env elf (next_pid k, kmachine k) = Some (Inr (c, n', mc))"
    using r p(1) by (auto simp: spawn_elf_def)
  note ok = from_elf_ok [OF e n, of b]
  show "serving b i k' \<and> next_pid k \<le> next_pid k' \<and> next_pid k' \<le> next_pid k + 1"
  proof (cases c)
    case None
    then have "k' = k\<lparr>next_pid := n', kmachine := mc\<rparr>" using r p(1) e by (simp add: spawn_elf_def)
    then show ?thesis using ok S n serving_next_pid [OF S, of n'] by simp
  next
    case c: (Some c)
    obtain ctx pm where x: "lc_set_a 0 (proc_pid c) (fc_context (proc_context c)) = Inr ctx"
      "pm_add stride_ops (proc_pid c) (c\<lparr>proc_context := (proc_context c)\<lparr>fc_context := ctx\<rparr>\<rparr>) (proc_pid p)
        (processor k) = Inr pm" "k' = k\<lparr>processor := pm, next_pid := n', kmachine := mc\<rparr>"
      using r p(1) e c by (auto simp: spawn_elf_def)
    have "proc_ok b (next_pid k) c" "n' = next_pid k + 1" using ok c by simp_all
    with serving_add_child [OF S n _ x(1) p(2) x(2), of mc] show ?thesis by (simp add: x(3))
  qed
qed

text \<open>Calls that look a program up and go on with it.\<close>

lemma keeps_cases:
  assumes "\<And>k r k'. f k = Some (Inr (r, k')) \<Longrightarrow> k' = print_apps names k \<or> (\<exists>g. keeps g \<and> g k = Some (Inr (r, k')))"
  shows "keeps f"
proof (rule keepsI)
  fix b i k r k'
  assume S: "serving b i k" "next_pid k < pid_any" and r: "f k = Some (Inr (r, k'))"
  show "serving b i k' \<and> next_pid k \<le> next_pid k' \<and> next_pid k' \<le> next_pid k + 1"
    using assms [OF r] S unfolding keeps_def print_apps_def by auto
qed

lemma keeps_sys_exec: "keeps (sys_exec env path cnt)"
  by (rule keeps_cases [where names = "map fst (ke_apps env)"]) (auto simp: sys_exec_def split: option.split_asm, metis keeps_exec_elf)

lemma keeps_sys_spawn: "keeps (sys_spawn env path cnt)"
  by (rule keeps_cases [where names = "map fst (ke_apps env)"]) (auto simp: sys_spawn_def split: option.split_asm, metis keeps_spawn_elf)

lemma keeps_sys_wait: "keeps (sys_wait env pid ptr)"
proof (rule keepsI)
  fix b i k r k'
  assume S: "serving b i k" and r: "sys_wait env pid ptr k = Some (Inr (r, k'))"
  obtain w pm where w: "pm_wait (isize_as_usize pid) (processor k) = Inr (w, pm)" "pm5_inv (next_pid k) pm"
    "current pm = Some i"
    using stride.wait_inv S unfolding serving_def k_inv_def by blast
  moreover have "manager pm = manager (processor k)"
    using w(1) by (auto simp: pm_wait_def Let_def split: prod.split_asm)
  ultimately have "serving b i (k\<lparr>processor := pm\<rparr>)"
    using S by (simp add: serving_def k_inv_def procs_ok_def)
  moreover have "\<exists>mc. k' = k\<lparr>processor := pm, kmachine := mc\<rparr>"
    using r w(1) by (auto simp: sys_wait_def Let_def split: option.split_asm prod.split_asm)
      (metis kernel.surjective kernel.update_convs(1,3))+
  ultimately show "serving b i k' \<and> next_pid k \<le> next_pid k' \<and> next_pid k' \<le> next_pid k + 1" by auto
qed

text \<open>The memory calls write the new space back into the current process.\<close>

lemma k_write_machine:
  "serving b i k \<Longrightarrow> proc_ok b i p \<Longrightarrow> k_write_current p (k\<lparr>kmachine := mc\<rparr>) = Inr k' \<Longrightarrow>
   serving b i k' \<and> next_pid k' = next_pid k"
  using k_write_ok [of b i "k\<lparr>kmachine := mc\<rparr>" p k'] by simp

lemma keeps_write_space:
  assumes "\<And>k r k'. f k = Some (Inr (r, k')) \<Longrightarrow>
    \<exists>p p' mc. k_current k = Inr p \<and> (\<forall>b i. proc_ok b i p' = proc_ok b i p) \<and>
      k_write_current p' (k\<lparr>kmachine := mc\<rparr>) = Inr k'"
  shows "keeps f"
proof (rule keepsI)
  fix b i k r k'
  assume S: "serving b i k" and "f k = Some (Inr (r, k'))"
  then obtain p p' mc where p: "k_current k = Inr p" "\<forall>b i. proc_ok b i p' = proc_ok b i p"
      "k_write_current p' (k\<lparr>kmachine := mc\<rparr>) = Inr k'" using assms by metis
  then have "proc_ok b i p'" using k_current_ok [OF S] by blast
  from k_write_machine [OF S this p(3)]
  show "serving b i k' \<and> next_pid k \<le> next_pid k' \<and> next_pid k' \<le> next_pid k + 1" by simp
qed

lemma keeps_sys_mmap5: "keeps (sys_mmap5 env addr len prot)"
  by (rule keeps_write_space) (auto simp: sys_mmap5_def, metis proc_ok_upd(1,2))

lemma keeps_sys_munmap5: "keeps (sys_munmap5 env addr len)"
  by (rule keeps_write_space) (auto simp: sys_munmap5_def, metis proc_ok_upd(1,2))

lemma keeps_sys_sbrk5: "keeps (sys_sbrk5 env sz)"
  by (rule keeps_write_space) (auto simp: sys_sbrk5_def, metis proc_ok_upd(1,2))

lemmas keeps_syscalls = keeps_sys_write keeps_sys_read keeps_sys_fork keeps_sys_exec keeps_sys_wait keeps_sys_getpid
  keeps_sys_spawn keeps_sys_sbrk5 keeps_clock_gettime keeps_sched_yield keeps_sys_set_priority keeps_sys_munmap5
  keeps_sys_mmap5

text \<open>Every call that \<^verbatim>\<open>handle\<close> decodes.\<close>

lemma decode_priority: "decode j args = Some (SysSetPriority prio) \<Longrightarrow> in_isize prio"
  by (auto simp: decode_def Let_def split: if_split_asm)

definition keeps_calls ::
  "(syscall \<Rightarrow> ('f, 'z, 'h, 'y) kernel_scheme \<Rightarrow> (int \<times> ('f, 'z, 'h, 'y) kernel_scheme) run) \<Rightarrow> bool" where
  "keeps_calls calls \<longleftrightarrow> (\<forall>j args c. decode j args = Some c \<longrightarrow> keeps (calls c))"

lemma keeps_syscall5: "keeps_calls (syscall5 env)"
  unfolding keeps_calls_def
proof (intro allI impI)
  fix j args c
  assume d: "decode j args = Some c"
  have eta: "keeps (\<lambda>k. Some (Inr (v, k)))" "keeps (\<lambda>k. Some (Inl Unimplemented))" for v
    by (rule keeps_no_change, simp)+
  show "keeps (syscall5 env c)"
    using d decode_priority [of j args] keeps_syscalls eta
    by (cases c) (simp_all add: syscall5.simps [abs_def])
qed

section \<open>A turn of the main loop\<close>

lemma procs_ok_mono: "procs_ok b pm \<Longrightarrow> b \<le> b' \<Longrightarrow> procs_ok b' pm"
  by (fastforce simp: procs_ok_def proc_ok_def)

lemma fetch_procs_ok:
  assumes ok: "procs_ok b pm" and f: "pm_find_next stride_ops pm = Inr (r, pm')"
  shows "procs_ok (b + 100) pm'"
proof -
  obtain m m' t where m: "manager pm = Some m" "schedule_fetch m = Inr (t, m')" "manager pm' = Some m'"
    using f by (auto simp: pm_find_next_def stride_ops_def Let_def split: option.split_asm)
  have "proc_ok (b + 100) i p" if tp: "tasks m' i = Some p" for i p
  proof (cases "tasks m i = Some p")
    case True
    then have "proc_ok b i p" using ok m(1) by (simp add: procs_ok_def)
    then show ?thesis by (simp add: proc_ok_def)
  next
    case False
    then obtain q s where q: "tasks m i = Some q" "stride_update (proc_stride q) = Inr s" "p = q\<lparr>proc_stride := s\<rparr>"
      using m(2) tp by (auto simp: schedule_fetch_def split: option.split_asm prod.split_asm if_split_asm)
    then have "proc_ok b i q" using ok m(1) by (simp add: procs_ok_def)
    moreover from this have "s = (proc_stride q)\<lparr>stride_val := stride_val (proc_stride q) + BIGSTRIDE div priority (proc_stride q)\<rparr>"
      "BIGSTRIDE div priority (proc_stride q) \<le> 100"
      using q(2) pass_le_100 by (auto simp: proc_ok_def prio_ok_def stride_update_def get_pass_def split: if_split_asm)
    ultimately show ?thesis by (auto simp: q(3) proc_ok_def prio_ok_def)
  qed
  then show ?thesis by (simp add: procs_ok_def m(3))
qed

lemma find_next_serving:
  assumes K: "k_inv b k" and c: "current (processor k) = None" and b: "b + 100 < usize_bound"
  shows "if dom (rel_map (processor k)) = {} then pm_find_next stride_ops (processor k) = Inr (None, processor k)
    else \<exists>i task pm. pm_find_next stride_ops (processor k) = Inr (Some task, pm) \<and>
      serving (b + 100) i (k\<lparr>processor := pm\<rparr>) \<and> proc_ok (b + 100) i task \<and>
      rel_map pm = rel_map (processor k) \<and> i \<in> dom (rel_map pm)"
proof -
  have I: "pm5_inv (next_pid k) (processor k)" and ok: "procs_ok b (processor k)" using K by (simp_all add: k_inv_def)
  have f: "stride_fetchable m" if "manager (processor k) = Some m" for m
    using ok that b by (fastforce simp: stride_fetchable_def procs_ok_def proc_ok_def ran_def)
  show ?thesis
  proof (cases "dom (rel_map (processor k)) = {}")
    case True
    then show ?thesis using stride.find_next_inv [OF I c f] by simp
  next
    case False
    then obtain i task pm where n: "pm_find_next stride_ops (processor k) = Inr (Some task, pm)"
      "pm5_inv (next_pid k) pm" "rel_map pm = rel_map (processor k)" "i \<in> dom (rel_map (processor k))"
      "current pm = Some i"
      using stride.find_next_inv [OF I c f] by auto
    have S: "serving (b + 100) i (k\<lparr>processor := pm\<rparr>)"
      using n(2,5) fetch_procs_ok [OF ok n(1)] by (simp add: serving_def k_inv_def)
    have "k_current (k\<lparr>processor := pm\<rparr>) = Inr task"
      using n(1,5) by (auto simp: k_current_def pm_find_next_def pm_current_def Let_def split: option.split_asm)
    then have "proc_ok (b + 100) i task" using k_current_ok [OF S] by blast
    then show ?thesis using False n S by auto
  qed
qed

lemma k_exited_ok:
  assumes S: "serving b i k" and e: "k_exited e k = Inr k'"
  shows "k_inv b k' \<and> current (processor k') = None \<and> next_pid k' = next_pid k"
proof -
  obtain pm where pm: "pm_make_current_exited stride_ops e (processor k) = Inr pm" "k' = k\<lparr>processor := pm\<rparr>"
    using e by (auto simp: k_exited_def)
  then have "pm5_inv (next_pid k) pm \<and> current pm = None"
    using stride.exited_cases [of "next_pid k" "processor k" i e] S by (auto simp: serving_def k_inv_def)
  moreover have "procs_ok b pm"
    using pm(1) S
    by (auto simp: procs_ok_def serving_def k_inv_def pm_make_current_exited_def stride_ops_def manage_delete_def
        split: if_split_asm)
  ultimately show ?thesis by (simp add: pm(2) k_inv_def)
qed

lemma suspend_ok:
  assumes S: "serving b i k"
  obtains pm where "pm_make_current_suspend stride_ops (processor k) = Inr pm" "k_inv b (k\<lparr>processor := pm\<rparr>)"
    "current pm = None" "rel_map pm = rel_map (processor k)"
proof -
  obtain pm where pm: "pm_make_current_suspend stride_ops (processor k) = Inr pm" "pm5_inv (next_pid k) pm"
    "rel_map pm = rel_map (processor k)" "current pm = None"
    using stride.suspend_inv S unfolding serving_def k_inv_def by blast
  moreover have "procs_ok b pm"
    using pm(1) S
    by (auto simp: procs_ok_def serving_def k_inv_def pm_make_current_suspend_def stride_ops_def schedule_add_def)
  ultimately show ?thesis using that by (simp add: k_inv_def)
qed

lemma finish_syscall_ok:
  assumes S: "serving b i k" and r: "finish_syscall j res k = Some (Inr k')"
  shows "k_inv b k' \<and> current (processor k') = None \<and> next_pid k' = next_pid k"
proof (cases "\<exists>ret. res = Done ret \<and> j \<noteq> 93")
  case False
  then have "\<exists>e. k_exited e k = Inr k'" using r by (auto simp: finish_syscall_def split: syscall_result.split_asm)
  then show ?thesis using k_exited_ok [OF S] by blast
next
  case True
  then obtain ret where res: "res = Done ret" "j \<noteq> 93" by blast
  obtain task where t: "k_current k = Inr task" "proc_ok b i task" by (rule serving_current [OF S])
  then obtain ctx where ctx: "lc_set_a 0 (isize_as_usize ret) (fc_context (proc_context task)) = Inr ctx" "lc_wf ctx"
    by (auto simp: proc_ok_def lc_set_a_ok)
  define p where "p = task\<lparr>proc_context := (proc_context task)\<lparr>fc_context := ctx\<rparr>\<rparr>"
  have "proc_ok b i p" using t(2) ctx(2) by (simp add: proc_ok_def prio_ok_def p_def)
  then obtain pm where k1: "k_write_current p k = Inr (k\<lparr>processor := pm\<rparr>)" "serving b i (k\<lparr>processor := pm\<rparr>)"
    by (rule serving_write [OF S])
  obtain pm' where pm': "pm_make_current_suspend stride_ops pm = Inr pm'"
    "k_inv b (k\<lparr>processor := pm, processor := pm'\<rparr>)" "current pm' = None"
    using suspend_ok [OF k1(2)] by auto
  have "k' = k\<lparr>processor := pm'\<rparr>"
    using r res t(1) ctx(1) k1(1) pm'(1) by (simp add: finish_syscall_def p_def)
  then show ?thesis using pm' by simp
qed

text \<open>The call and its arguments are in the registers a7 and a0 to a5.\<close>

definition call_of :: "local_context \<Rightarrow> nat \<times> nat list" where
  "call_of ctx = (x_regs ctx ! 16, map (\<lambda>n. x_regs ctx ! (9 + n)) [0..<6])"

lemma serve_with_eq:
  assumes S: "serving b i k" and t: "k_current k = Inr task"
  obtains k1 where "serving b i k1" "next_pid k1 = next_pid k" "rel_map (processor k1) = rel_map (processor k)"
    "k_current k1 = Inr (task\<lparr>proc_context := (proc_context task)\<lparr>fc_context := lc_move_next (fc_context (proc_context task))\<rparr>\<rparr>)"
    "kmachine k1 = kmachine k"
    "serve_with calls k = (let (j, args) = call_of (fc_context (proc_context task))
       in bind_run (handle subsystems5 (calls) j args k1) (\<lambda>(r, k2). finish_syscall j r k2))"
proof -
  have tok: "proc_ok b i task" by (rule k_current_ok [OF S t])
  define ctx where "ctx = lc_move_next (fc_context (proc_context task))"
  have ctx: "lc_wf ctx" "x_regs ctx = x_regs (fc_context (proc_context task))"
    using tok by (simp_all add: proc_ok_def ctx_def lc_move_next_def lc_wf_def)
  have "proc_ok b i (task\<lparr>proc_context := (proc_context task)\<lparr>fc_context := ctx\<rparr>\<rparr>)"
    using tok ctx by (simp add: proc_ok_def prio_ok_def)
  then obtain pm where w: "k_write_current (task\<lparr>proc_context := (proc_context task)\<lparr>fc_context := ctx\<rparr>\<rparr>) k =
      Inr (k\<lparr>processor := pm\<rparr>)" "serving b i (k\<lparr>processor := pm\<rparr>)"
      "k_current (k\<lparr>processor := pm\<rparr>) = Inr (task\<lparr>proc_context := (proc_context task)\<lparr>fc_context := ctx\<rparr>\<rparr>)"
      "rel_map pm = rel_map (processor k)"
    by (rule serving_write [OF S])
  have u: "[0..<6] = [0, 1, 2, 3, 4, 5 :: nat]" by (simp add: upt_conv_Cons)
  have "serve_with calls k = (let (j, args) = call_of (fc_context (proc_context task))
      in bind_run (handle subsystems5 (calls) j args (k\<lparr>processor := pm\<rparr>)) (\<lambda>(r, k2). finish_syscall j r k2))"
    using t w(1) ctx by (simp add: serve_with_def Let_def ctx_def [symmetric] lc_a_ok call_of_def u)
  then show ?thesis using that [of "k\<lparr>processor := pm\<rparr>"] w by (simp add: ctx_def)
qed

lemma handle_keeps:
  assumes calls: "keeps_calls calls" and S: "serving b i k" and n: "next_pid k < pid_any"
    and h: "handle subsystems5 (calls) j args k = Some (Inr (res, k'))"
  shows "serving b i k' \<and> next_pid k \<le> next_pid k' \<and> next_pid k' \<le> next_pid k + 1"
proof (cases "decode j args")
  case (Some c)
  then show ?thesis
    using h S n calls Some unfolding keeps_def keeps_calls_def
    by (fastforce simp: handle_def split: if_split_asm)
qed (use h S in \<open>auto simp: handle_def\<close>)

lemma serve_with_ok:
  assumes calls: "keeps_calls calls" and S: "serving b i k" and n: "next_pid k < pid_any" and r: "serve_with calls k = Some (Inr k')"
  shows "k_inv b k' \<and> current (processor k') = None \<and> next_pid k \<le> next_pid k' \<and> next_pid k' \<le> next_pid k + 1"
proof -
  obtain task where t: "k_current k = Inr task" by (rule serving_current [OF S])
  obtain j args where ja: "call_of (fc_context (proc_context task)) = (j, args)" by fastforce
  obtain k1 where k1: "serving b i k1" "next_pid k1 = next_pid k"
    "serve_with calls k = bind_run (handle subsystems5 (calls) j args k1) (\<lambda>(r, k2). finish_syscall j r k2)"
    using serve_with_eq [OF S t, of calls] ja by auto
  from r [unfolded k1(3)] obtain res k2 where "handle subsystems5 (calls) j args k1 = Some (Inr (res, k2))"
    "finish_syscall j res k2 = Some (Inr k')" by auto
  then show ?thesis
    using handle_keeps [OF calls k1(1), of j args res k2] finish_syscall_ok [of b i k2 j res k'] n k1(2) by auto
qed

text \<open>User programs that the hardware can run: the saved context has its 31 registers.\<close>

definition user_wf :: "user_program \<Rightarrow> bool" where
  "user_wf user \<longleftrightarrow> (\<forall>fc fr. lc_wf (fc_context fc) \<longrightarrow> lc_wf (fc_context (fst (user fc fr))))"

text \<open>The state in which the loop serves the trap of the process it has picked.\<close>

lemma turn_serving:
  assumes K: "k_inv b k" and c: "current (processor k) = None" and b: "b + 100 < usize_bound" and u: "user_wf user"
    and ne: "dom (rel_map (processor k)) \<noteq> {}"
  obtains i task fc ecall k1 where "proc_ok (b + 100) i task" "serving (b + 100) i k1" "next_pid k1 = next_pid k"
    "rel_map (processor k1) = rel_map (processor k)" "i \<in> dom (rel_map (processor k))"
    "fc = fst (user (proc_context task) (frames (kmachine k)))"
    "ecall = snd (snd (user (proc_context task) (frames (kmachine k))))"
    "k_current k1 = Inr (task\<lparr>proc_context := fc\<rparr>)"
    "turn_with calls user k = bind_run (if ecall then serve_with calls k1 else Some (k_exited (- 3) k1))
       (\<lambda>k2. Some (Inr (True, k2)))"
proof -
  obtain i task pm where n: "pm_find_next stride_ops (processor k) = Inr (Some task, pm)"
    "serving (b + 100) i (k\<lparr>processor := pm\<rparr>)" "proc_ok (b + 100) i task"
    "rel_map pm = rel_map (processor k)" "i \<in> dom (rel_map pm)"
    using find_next_serving [OF K c b] unfolding if_not_P [OF ne] by blast
  obtain fc fr ecall where us: "user (proc_context task) (frames (kmachine k)) = (fc, fr, ecall)"
    by (metis prod.exhaust)
  have "lc_wf (fc_context (proc_context task))" using n(3) by (simp add: proc_ok_def)
  then have "lc_wf (fc_context fc)" using u us unfolding user_wf_def by (metis fst_conv)
  then have p: "proc_ok (b + 100) i (task\<lparr>proc_context := fc\<rparr>)" using n(3) by (simp add: proc_ok_def prio_ok_def)
  let ?k = "k\<lparr>processor := pm, kmachine := (kmachine k)\<lparr>frames := fr\<rparr>\<rparr>"
  have "serving (b + 100) i ?k" using n(2) by simp
  from serving_write [OF this p] obtain pm2 where w: "k_write_current (task\<lparr>proc_context := fc\<rparr>) ?k = Inr (?k\<lparr>processor := pm2\<rparr>)"
    "serving (b + 100) i (?k\<lparr>processor := pm2\<rparr>)" "k_current (?k\<lparr>processor := pm2\<rparr>) = Inr (task\<lparr>proc_context := fc\<rparr>)"
    "rel_map pm2 = rel_map pm" by auto
  define k1 where "k1 = ?k\<lparr>processor := pm2\<rparr>"
  have k1: "next_pid k1 = next_pid k" "rel_map (processor k1) = rel_map (processor k)"
    using w(4) n(4) by (simp_all add: k1_def)
  have "turn_with calls user k = bind_run (if ecall then serve_with calls k1 else Some (k_exited (- 3) k1))
      (\<lambda>k2. Some (Inr (True, k2)))"
    using n(1) us w(1) by (simp add: turn_with_def k1_def)
  then show ?thesis
    using that [OF n(3) w(2) [folded k1_def] k1 _ _ _ w(3) [folded k1_def]] n(4,5) us by simp
qed

lemma turn_with_ok:
  assumes calls: "keeps_calls calls" and K: "k_inv b k" and c: "current (processor k) = None" and b: "b + 100 < usize_bound" and u: "user_wf user"
    and n: "next_pid k < pid_any" and t: "turn_with calls user k = Some (Inr (go, k'))"
  shows "k_inv (b + 100) k' \<and> current (processor k') = None \<and> next_pid k \<le> next_pid k' \<and> next_pid k' \<le> next_pid k + 1 \<and>
    (go \<longleftrightarrow> dom (rel_map (processor k)) \<noteq> {})"
proof (cases "dom (rel_map (processor k)) = {}")
  case True
  then have "go = False" "k' = k" using t find_next_serving [OF K c b] by (simp_all add: turn_with_def)
  then show ?thesis using K c True procs_ok_mono [of b "processor k" "b + 100"] by (simp add: k_inv_def)
next
  case False
  obtain i k1 ecall where k1: "serving (b + 100) i k1" "next_pid k1 = next_pid k"
    "turn_with calls user k = bind_run (if ecall then serve_with calls k1 else Some (k_exited (- 3) k1))
       (\<lambda>k2. Some (Inr (True, k2)))"
    by (rule turn_serving [OF K c b u False, of calls])
  from t [unfolded k1(3)] have "go" "(if ecall then serve_with calls k1 else Some (k_exited (- 3) k1)) = Some (Inr k')"
    by auto
  then show ?thesis
    using False serve_with_ok [OF calls k1(1), of k'] k_exited_ok [OF k1(1), of "- 3" k'] n k1(2) by (cases ecall) simp_all
qed

section \<open>Properties\<close>

text \<open>
  The kernels that the loop reaches in \<open>n\<close> turns from the boot of an executable for the right machine. What
  arrives on the console and the clock change freely between turns, and every turn may run another user
  program.
\<close>

inductive k_reach :: "('f, unit, 'h) kernel_env \<Rightarrow> elf_file \<Rightarrow> 'h machine \<Rightarrow> nat \<Rightarrow> ('f, unit, 'h) kernel \<Rightarrow> bool"
  for env elf mc where
  k_boot: "boot env elf mc = Some (Inr k) \<Longrightarrow> elf_header64 elf \<and> elf_executable elf \<and> elf_riscv elf \<Longrightarrow>
     k_reach env elf mc 0 k"
| k_turn: "k_reach env elf mc n k \<Longrightarrow> user_wf user \<Longrightarrow>
     kernel_turn env user (k\<lparr>console_in := inp, time_now := now\<rparr>) = Some (Inr (True, k')) \<Longrightarrow>
     k_reach env elf mc (Suc n) k'"

inductive_cases k_reach_0: "k_reach env elf mc 0 k"

lemma boot_with_ok:
  assumes "boot_with y env elf mc = Some (Inr k)" "elf_header64 elf \<and> elf_executable elf \<and> elf_riscv elf"
  shows "k_inv 0 k \<and> current (processor k) = None \<and> next_pid k = 1 \<and> dom (rel_map (processor k)) = {0}"
proof -
  obtain r n' mc' where e: "from_elf env elf (0, mc) = Some (Inr (r, n', mc'))"
    using assms(1) by (auto simp: boot_with_def)
  then have "r \<noteq> None"
    using assms(2) by (auto simp: from_elf_def Let_def split: option.split_asm prod.split_asm)
  then obtain p where r: "r = Some p" by blast
  have p: "proc_ok 0 0 p" "n' = 1" using from_elf_ok [OF e, of 0] r by simp_all
  have "stride_wf (proc_manager_new :: ('a, 'b) procs)" "stride_ready (proc_manager_new :: ('a, 'b) procs) = {#}"
    "tasks (proc_manager_new :: ('a, 'b) procs) = Map.empty"
    by (simp_all add: proc_manager_new_def stride_wf_def stride_ready_def is_heap_def)
  from stride.first_inv [OF this, of p] p(1) obtain pm where
    pm: "pm_add stride_ops 0 p pid_any (pm_set_manager proc_manager_new pm_new) = Inr pm" "pm5_inv 1 pm"
      "current pm = None" "dom (rel_map pm) = {0}" by (auto simp: proc_ok_def)
  moreover have "procs_ok 0 pm"
    using pm(1) p(1) by (auto simp: procs_ok_def pm_add_def stride_ops_def manage_insert_def schedule_add_def pm_set_manager_def
        proc_manager_new_def pm_new_def split: if_split_asm)
  moreover have "proc_pid p = 0" using p(1) by (simp add: proc_ok_def)
  then have "k = \<lparr>processor = pm, next_pid = n', kmachine = mc', console_out = [], console_in = [], time_now = 0, \<dots> = y\<rparr>"
    using assms(1) e r pm(1) by (simp add: boot_with_def)
  ultimately show ?thesis using p(2) by (simp add: k_inv_def)
qed

text \<open>
  C2. The invariant of the kernel of chapter 5: in every state that the loop reaches in \<open>n\<close> turns, no process is
  marked as running, the process tree is well formed, the process table and the tree have the same processes,
  each of them is in the ready queue exactly once, every process object has its own id, a
  complete context and a priority of at least 2, and every stride is at most \<open>100 * n\<close>. The bound on \<open>n\<close> keeps
  strides and process ids inside their 64 bits.
\<close>

theorem kernel_invariant:
  assumes "k_reach env elf mc n k" "100 * n + 100 < usize_bound"
  shows "k_inv (100 * n) k \<and> current (processor k) = None \<and> next_pid k \<le> n + 1"
  using assms
proof (induction rule: k_reach.induct)
  case (k_boot k)
  then show ?case using boot_with_ok unfolding boot_def by fastforce
next
  case (k_turn n k user inp now k')
  then have I: "k_inv (100 * n) k" "current (processor k) = None" "next_pid k \<le> n + 1" by simp_all
  have "k_inv (100 * n + 100) k' \<and> current (processor k') = None \<and> next_pid k' \<le> next_pid k + 1"
    using turn_with_ok [OF keeps_syscall5 _ _ _ k_turn.hyps(2) _ k_turn.hyps(3) [unfolded kernel_turn_def], of "100 * n"] I k_turn.prems by simp
  then show ?case using I(3) by (simp add: add.commute)
qed

text \<open>A process with the sample space, as the only process, and the kernel that serves it.\<close>

definition sample_env :: "(string, unit, nat) kernel_env" where
  "sample_env = \<lparr>ke_vm = flat_env, ke_apps = [], ke_elf = Map.empty, ke_portal = Map.empty, ke_fresh = (), ke_inherit = id\<rparr>"

definition sample_elf :: elf_file where
  "sample_elf = \<lparr>elf_header64 = True, elf_executable = True, elf_riscv = True, elf_entry = 4096, elf_segments = [],
     elf_input = []\<rparr>"

definition sample_proc :: "(string, unit) proc" where
  "sample_proc = \<lparr>proc_pid = 0, proc_context = \<lparr>fc_context = lc_user 4096, fc_satp = satp_of 1\<rparr>,
     process.address_space = \<lparr>us_space = sample_space, us_root = 1, us_files = ()\<rparr>, heap_bottom = 0, program_brk = 0,
     proc_stride = stride_new\<rparr>"

definition sample_kernel :: "(string, unit, nat) kernel" where
  "sample_kernel = \<lparr>processor = \<lparr>rel_map = [0 \<mapsto> proc_rel_new pid_any],
     manager = Some \<lparr>tasks = [0 \<mapsto> sample_proc], ready_queue = []\<rparr>, current = Some 0\<rparr>, next_pid = 1,
     kmachine = sample_machine, console_out = [], console_in = [], time_now = 0\<rparr>"

lemma sample_kernel_serving: "serving 0 0 sample_kernel" "k_current sample_kernel = Inr sample_proc"
proof -
  have "tree_wf 1 [0 \<mapsto> proc_rel_new pid_any]" by (rule tree_wf_init) (simp_all add: proc_rel_new_def)
  then show "serving 0 0 sample_kernel"
    by (auto simp: serving_def k_inv_def sample_kernel_def pm_inv_def stride_wf_def stride_ready_def is_heap_def procs_ok_def
        proc_ok_def prio_ok_def sample_proc_def stride_new_def split: if_splits)
  show "k_current sample_kernel = Inr sample_proc"
    by (simp add: k_current_def pm_current_def sample_kernel_def stride_ops_def manage_get_def)
qed

theorem kernel_invariant_witness:
  "\<exists>k. k_reach sample_env sample_elf sample_machine 0 k \<and> k_inv 0 k \<and> next_pid k \<le> 1"
proof -
  have "\<exists>k. boot sample_env sample_elf sample_machine = Some (Inr k)"
    by (simp add: boot_def boot_with_def from_elf_def user_space_new_def sample_env_def sample_elf_def flat_env_def sample_machine_def
        map_extern_def flat_walk.simps mapper_arrive_def mapper_new_def mapper_ans_def space_new_def Let_def
        lc_set_sp_def lc_set_x_def lc_user_def proc_id_new_def pm_add_def pm_set_manager_def pm_new_def
        stride_ops_def manage_insert_def schedule_add_def)
  then obtain k where "boot sample_env sample_elf sample_machine = Some (Inr k)" by blast
  then have "k_reach sample_env sample_elf sample_machine 0 k" by (rule k_boot) (simp add: sample_elf_def)
  from this kernel_invariant [OF this] show ?thesis by auto
qed

end
