(* ===== verification/Process_Lifecycle.thy ===== *)
theory Process_Lifecycle
  imports Process_Invariant
begin

text \<open>
  The life of a process in the kernel of chapter 5: what \<^verbatim>\<open>fork\<close> gives the child, what \<^verbatim>\<open>exec\<close> keeps, how the exit
  code of a process reaches its parent through \<^verbatim>\<open>wait\<close>, and the calls that bring the kernel down.
\<close>

section \<open>Fork\<close>

lemma space_wf_map_portal: "space_wf (us_space us) \<Longrightarrow> space_wf (us_space (map_portal env us))"
proof -
  assume wf: "space_wf (us_space us)"
  let ?sp = "us_space (map_portal env us)"
  have same: "ptable ?sp v = ptable (us_space us) v" if "v < PORTAL_BASE" for v
    using that by (simp add: map_portal_def)
  have a: "areas ?sp = areas (us_space us)" by (simp add: map_portal_def)
  have "area_wf (ptable ?sp) x" if x: "x \<in> set (areas (us_space us))" for x
  proof -
    have "pages x \<subseteq> {..<PORTAL_BASE}" using space_wf_below [OF wf] x by (auto simp: covered_def simp del: mem_pages)
    then have "\<forall>v\<in>pages x. ptable ?sp v = ptable (us_space us) v" using same by blast
    then have "area_wf (ptable ?sp) x = area_wf (ptable (us_space us)) x" by (rule area_wf_cong)
    then show ?thesis using wf x by (simp add: space_wf_def)
  qed
  moreover have "dom (ptable ?sp) \<inter> {..<PORTAL_BASE} = dom (ptable (us_space us)) \<inter> {..<PORTAL_BASE}"
    using same by (auto simp: dom_def)
  ultimately show ?thesis using wf a by (simp add: space_wf_def)
qed

lemma us_files_map_portal [simp]: "us_files (map_portal env us) = us_files us"
  by (simp add: map_portal_def)

text \<open>The pages of \<open>sp'\<close> with memory \<open>fr'\<close> are a copy of those of \<open>sp\<close> with memory \<open>fr\<close>, outside of \<open>U\<close>.\<close>

definition private_copy ::
  "('f, 'h) vm_env \<Rightarrow> nat set \<Rightarrow> 'f Vm_Space.address_space \<Rightarrow> (nat \<Rightarrow> byte list) \<Rightarrow> 'f Vm_Space.address_space \<Rightarrow>
   (nat \<Rightarrow> byte list) \<Rightarrow> bool" where
  "private_copy env U sp fr sp' fr' \<longleftrightarrow> areas sp' = areas sp \<and>
     (\<forall>v<PORTAL_BASE. case ptable sp v of
        None \<Rightarrow> ptable sp' v = None
      | Some e \<Rightarrow> \<exists>e'. ptable sp' v = Some e' \<and> fr' (pte_ppn e') = fr (pte_ppn e) \<and>
          pte_flags e' = env_owned env (pte_flags e) \<and> pte_ppn e' \<notin> U)"

lemma proc_fork_copies:
  assumes spec: "walk_spec (ke_vm env) grow" "alloc_spec (ke_vm env) grow used"
    and wf: "space_wf (us_space (process.address_space p))" and U: "frames_of (us_space (process.address_space p)) \<subseteq> used (heap mc)"
    and fr: "frames_wf (frames mc)"
  shows "proc_fork env p (n, mc) = Some (Inl OutOfMemory) \<or>
    (\<exists>c mc'. proc_fork env p (n, mc) = Some (Inr (c, snd (proc_id_new n), mc')) \<and> proc_pid c = n \<and>
       fc_context (proc_context c) = fc_context (proc_context p) \<and>
       space_wf (us_space (process.address_space c)) \<and> (\<forall>f\<in>used (heap mc). frames mc' f = frames mc f) \<and>
       heap_bottom c = heap_bottom p \<and> program_brk c = program_brk p \<and>
       us_files (process.address_space c) = ke_inherit env (us_files (process.address_space p)) \<and>
       private_copy (ke_vm env) (used (heap mc)) (us_space (process.address_space p)) (frames mc)
         (us_space (process.address_space c)) (frames mc'))"
proof (cases "env_alloc (ke_vm env) 1 (heap mc)")
  case None
  then show ?thesis by (simp add: proc_fork_def user_space_new_def Let_def split: prod.split)
next
  case (Some rh)
  obtain root h where rh: "env_alloc (ke_vm env) 1 (heap mc) = Some (root, h)" using Some by (cases rh) simp
  have "{root..<root + 1} \<inter> used (heap mc) = {} \<and> used h = used (heap mc) \<union> {root..<root + 1}"
    using spec(2) rh unfolding alloc_spec_def by blast
  then have fresh: "root \<notin> used (heap mc)" "used (heap mc) \<subseteq> used h" by auto
  define mc1 where "mc1 = mc\<lparr>heap := h, frames := write_pages root (replicate PAGE_SIZE 0) (frames mc)\<rparr>"
  have heap1: "heap mc1 = h" by (simp add: mc1_def)
  have fr1: "frames mc1 f = (if f = root then replicate PAGE_SIZE 0 else frames mc f)" for f
    by (auto simp: mc1_def write_pages_def slice_of_def)
  have wf1: "frames_wf (frames mc1)" using fr by (simp add: frames_wf_def fr1)
  let ?sp = "us_space (process.address_space p)"
  let ?z = "ke_inherit env (us_files (process.address_space p))"
  let ?us = "\<lparr>us_space = space_new, us_root = root, us_files = ?z\<rparr>"
  have us: "user_space_new env ?z mc = Some (Inr (?us, mc1))" using rh by (simp add: user_space_new_def mc1_def)
  have U1: "frames_of ?sp \<subseteq> used (heap mc1)" using U fresh(2) heap1 by auto
  show ?thesis
  proof (cases "cloneself (ke_vm env) ?sp (space_new, mc1) = Some (Inl OutOfMemory)")
    case True
    then show ?thesis using us by (simp add: proc_fork_def Let_def split: prod.split)
  next
    case False
    then obtain sp' mc' where cl: "cloneself (ke_vm env) ?sp (space_new, mc1) = Some (Inr (sp', mc'))" "space_wf sp'"
      "areas sp' = areas ?sp" "\<forall>f\<in>used h. frames mc' f = frames mc1 f"
      "\<forall>v<PORTAL_BASE. case ptable ?sp v of None \<Rightarrow> ptable sp' v = None
        | Some e \<Rightarrow> \<exists>e'. ptable sp' v = Some e' \<and> frames mc' (pte_ppn e') = frames mc1 (pte_ppn e) \<and>
            pte_flags e' = env_owned (ke_vm env) (pte_flags e) \<and> pte_ppn e' \<notin> used h"
      using cloneself_ok [OF spec wf U1 wf1] unfolding heap1 by blast
    have keep: "\<forall>f\<in>used (heap mc). frames mc' f = frames mc f" using cl(4) fr1 fresh by auto
    have "private_copy (ke_vm env) (used (heap mc)) ?sp (frames mc) (us_space (map_portal env (?us\<lparr>us_space := sp'\<rparr>))) (frames mc')"
      unfolding private_copy_def
    proof (intro conjI allI impI)
      fix v assume v: "v < PORTAL_BASE"
      have "pte_ppn e \<in> used (heap mc)" if "ptable ?sp v = Some e" for e using frames_ofI [OF that v] U by blast
      then have "frames mc1 (pte_ppn e) = frames mc (pte_ppn e)" if "ptable ?sp v = Some e" for e
        using that fresh(1) fr1 by auto
      then show "case ptable ?sp v of None \<Rightarrow> ptable (us_space (map_portal env (?us\<lparr>us_space := sp'\<rparr>))) v = None
        | Some e \<Rightarrow> \<exists>e'. ptable (us_space (map_portal env (?us\<lparr>us_space := sp'\<rparr>))) v = Some e' \<and>
            frames mc' (pte_ppn e') = frames mc (pte_ppn e) \<and>
            pte_flags e' = env_owned (ke_vm env) (pte_flags e) \<and> pte_ppn e' \<notin> used (heap mc)"
        using cl(5) v fresh(2) by (fastforce simp: map_portal_def split: option.split)
    qed (simp add: map_portal_def cl(3))
    then show ?thesis
      using us cl(1,2) keep space_wf_map_portal [of "?us\<lparr>us_space := sp'\<rparr>" env]
      by (simp add: proc_fork_def Let_def proc_id_new_def)
  qed
qed

text \<open>
  C17. Fork: when the current process has a well-formed space whose pages are in use, the call runs out of
  memory or returns the next process id. Then the child has the registers of the parent with 0 in
  a0 and the same program counter, in chapter 6 its own copy of the descriptor table, a well-formed space that is a private copy of the parent's pages, the parent in
  the process tree and a place in the ready queue, while the parent itself and all memory that was in use are
  unchanged.
\<close>

theorem fork_copies_process:
  assumes spec: "walk_spec (ke_vm env) grow" "alloc_spec (ke_vm env) grow used"
    and S: "serving b i k" and p: "k_current k = Inr p" and n: "next_pid k < 2 ^ 63"
    and wf: "space_wf (us_space (process.address_space p))"
    and U: "frames_of (us_space (process.address_space p)) \<subseteq> used (heap (kmachine k))"
    and fr: "frames_wf (frames (kmachine k))"
  shows "sys_fork env k = Some (Inl OutOfMemory) \<or>
    (\<exists>k' c m. sys_fork env k = Some (Inr (int (next_pid k), k')) \<and> serving b i k' \<and> k_current k' = Inr p \<and>
       manager (processor k') = Some m \<and> tasks m (next_pid k) = Some c \<and> next_pid k \<in># stride_ready m \<and>
       par (rel_map (processor k')) (next_pid k) = Some i \<and>
       fc_context (proc_context c) =
         (fc_context (proc_context p))\<lparr>x_regs := (x_regs (fc_context (proc_context p)))[9 := 0]\<rparr> \<and>
       space_wf (us_space (process.address_space c)) \<and>
       us_files (process.address_space c) = ke_inherit env (us_files (process.address_space p)) \<and>
       (\<forall>f\<in>used (heap (kmachine k)). frames (kmachine k') f = frames (kmachine k) f) \<and>
       private_copy (ke_vm env) (used (heap (kmachine k))) (us_space (process.address_space p)) (frames (kmachine k))
         (us_space (process.address_space c)) (frames (kmachine k')))"
proof (cases "proc_fork env p (next_pid k, kmachine k) = Some (Inl OutOfMemory)")
  case True
  then show ?thesis using p by (simp add: sys_fork_def)
next
  case False
  let ?n = "next_pid k" and ?sp = "us_space (process.address_space p)"
  obtain c mc where c: "proc_fork env p (?n, kmachine k) = Some (Inr (c, snd (proc_id_new ?n), mc))" "proc_pid c = ?n"
    "fc_context (proc_context c) = fc_context (proc_context p)" "space_wf (us_space (process.address_space c))"
    "\<forall>f\<in>used (heap (kmachine k)). frames mc f = frames (kmachine k) f"
    "private_copy (ke_vm env) (used (heap (kmachine k))) ?sp (frames (kmachine k)) (us_space (process.address_space c)) (frames mc)"
    "us_files (process.address_space c) = ke_inherit env (us_files (process.address_space p))"
    using proc_fork_copies [OF spec wf U fr, of ?n] False by blast
  have np: "?n < pid_any" using n by simp
  have pok: "proc_ok b i p" by (rule k_current_ok [OF S p])
  have cok: "proc_ok b ?n c" using proc_fork_ok [OF c(1) np pok] by simp
  define ctx where "ctx = (fc_context (proc_context p))\<lparr>x_regs := (x_regs (fc_context (proc_context p)))[9 := 0]\<rparr>"
  have ctx: "lc_set_a 0 0 (fc_context (proc_context c)) = Inr ctx"
    using pok by (simp add: c(3) lc_set_a_ok proc_ok_def ctx_def)
  define c' where "c' = c\<lparr>proc_context := (proc_context c)\<lparr>fc_context := ctx\<rparr>\<rparr>"
  have "lc_wf ctx" using pok by (simp add: ctx_def proc_ok_def)
  then have c'ok: "proc_ok b ?n c'" using cok by (simp add: proc_ok_def prio_ok_def c'_def)
  obtain pm where pm: "pm_add stride_ops ?n c' i (processor k) = Inr pm"
    "serving b i (k\<lparr>processor := pm, next_pid := ?n + 1\<rparr>)" by (rule serving_add [OF S np c'ok])
  define k' where "k' = k\<lparr>processor := pm, next_pid := ?n + 1, kmachine := mc\<rparr>"
  have "proc_pid p = i" using pok by (simp add: proc_ok_def)
  then have call: "sys_fork env k = Some (Inr (int ?n, k'))"
    using p c(1,2) ctx pm(1) n by (simp add: sys_fork_def c'_def k'_def proc_id_new_small)
  have S': "serving b i k'" using pm(2) by (simp add: k'_def)
  obtain m0 m where m: "manager (processor k) = Some m0" "schedule_add ?n (manage_insert ?n c' m0) = Inr m"
    "manager pm = Some m" "par (rel_map pm) ?n = Some i"
    using pm(1) S by (auto simp: pm_add_def stride_ops_def par_def proc_rel_new_def serving_def k_inv_def pm_inv_def
        split: if_split_asm)
  have tm: "tasks m = (tasks m0)(?n \<mapsto> c')"
    using m(2) by (auto simp: schedule_add_def manage_insert_def)
  have "?n \<notin> dom (rel_map (processor k))" "i \<in> dom (rel_map (processor k))"
    using S tree_wf_node by (fastforce simp: serving_def k_inv_def pm_inv_def node_wf_def)+
  then have ni: "?n \<noteq> i" by blast
  have cur: "k_current k' = Inr p"
    using p S S' m(1,3) tm ni by (auto simp: k_current_def pm_current_def stride_ops_def manage_get_def k'_def serving_def)
  have "?n \<in># stride_ready m"
    using S' ni m(3) by (auto simp: serving_def k_inv_def pm_inv_def k'_def dom_def par_def dest: arg_cong [where f = set_mset])
      (use m(4) in \<open>auto simp: par_def\<close>)
  then show ?thesis
    using call S' cur m(3,4) tm c(4-7) by (intro disjI2 exI [of _ k'] exI [of _ c'] exI [of _ m]) (simp add: k'_def c'_def ctx_def)
qed

lemma sample_kernel_fork_facts:
  "walk_spec (ke_vm sample_env) (\<lambda>_ _ h. h)" "alloc_spec (ke_vm sample_env) (\<lambda>_ _ h. h) (\<lambda>h. {..<h})"
  "space_wf (us_space (process.address_space sample_proc))"
  "frames_of (us_space (process.address_space sample_proc)) \<subseteq> {..<heap (kmachine sample_kernel)}"
  "frames_wf (frames (kmachine sample_kernel))" "next_pid sample_kernel = 1"
  using flat_env_spec sample_space_facts
  by (simp_all add: sample_env_def sample_proc_def sample_kernel_def) (simp add: sample_machine_def)

theorem fork_copies_process_witness:
  "sys_fork sample_env sample_kernel = Some (Inl OutOfMemory) \<or>
   (\<exists>k' m. sys_fork sample_env sample_kernel = Some (Inr (1, k')) \<and> k_current k' = Inr sample_proc \<and>
      manager (processor k') = Some m \<and> 1 \<in># stride_ready m)"
  using fork_copies_process [OF sample_kernel_fork_facts(1,2) sample_kernel_serving _ sample_kernel_fork_facts(3,4,5)]
  unfolding sample_kernel_fork_facts(6) by auto

section \<open>Exec\<close>


text \<open>The name in the memory of the sample process is a program for another machine.\<close>

definition app_env :: "(string, unit, nat) kernel_env" where
  "app_env = sample_env\<lparr>ke_apps := [(read_phys (10 * 4096) 3 (frames sample_machine), [])], ke_elf := (\<lambda>_. Some (sample_elf\<lparr>elf_riscv := False\<rparr>))\<rparr>"


section \<open>Exit and wait\<close>

text \<open>
  C18. The exit code of a process reaches its parent: process \<open>i\<close> ends, and later the parent, whose relations have not
  changed in between, waits for it with a writable pointer. Then \<^verbatim>\<open>wait\<close> returns the id of the child and stores the low 32
  bits of the code at the pointer, and the child is gone from the lists of the parent.
\<close>

theorem exit_code_reaches_parent:
  assumes S: "serving b i k" and i: "i \<noteq> 0" "i < 2 ^ 63" and r: "rel_map (processor k) i = Some r"
    and ex: "k_exited code k = Inr k'"
    and S1: "serving b1 (parent r) k1" and same: "rel_map (processor k1) (parent r) = rel_map (processor k') (parent r)"
    and p: "k_current k1 = Inr p" and ptr: "k_translate env ''W_V'' exit_code_ptr p = Inr (Some pa)"
  shows "\<exists>k2. sys_wait env (int i) exit_code_ptr k1 = Some (Inr (int i, k2)) \<and> serving b1 (parent r) k2 \<and>
    frames (kmachine k2) = write_phys pa (le_bytes 4 (i32_bits (int_as_i32 code))) (frames (kmachine k1)) \<and>
    (\<forall>rp. rel_map (processor k2) (parent r) = Some rp \<longrightarrow> i \<notin> fst ` set (dead_children rp) \<and> i \<notin> set (children rp))"
proof -
  obtain pm where pm: "pm_make_current_exited stride_ops code (processor k) = Inr pm" "k' = k\<lparr>processor := pm\<rparr>"
    using ex by (auto simp: k_exited_def)
  have I: "pm5_inv (next_pid k) (processor k)" "current (processor k) = Some i" using S by (simp_all add: serving_def k_inv_def)
  obtain pm2 where w: "pm_wait i (pm\<lparr>current := Some (parent r)\<rparr>) = Inr (Some (i, code), pm2)"
    "\<forall>rp. rel_map pm2 (parent r) = Some rp \<longrightarrow> i \<notin> fst ` set (dead_children rp) \<and> i \<notin> set (children rp)"
    using stride.exit_then_wait [OF I i(1) r pm(1)] by blast
  have c1: "current (processor k1) = Some (parent r)" using S1 by (simp add: serving_def)
  have "\<exists>pm3. pm_wait i (processor k1) = Inr (Some (i, code), pm3) \<and> rel_map pm3 (parent r) = rel_map pm2 (parent r)"
    using w(1) c1 same pm(2) by (auto simp: pm_wait_def Let_def split: prod.split_asm)
  then obtain pm3 where w3: "pm_wait i (processor k1) = Inr (Some (i, code), pm3)"
    "rel_map pm3 (parent r) = rel_map pm2 (parent r)" by blast
  have "isize_as_usize (int i) = i" using i(2) by (simp add: isize_as_usize_nonneg)
  then have call: "sys_wait env (int i) exit_code_ptr k1 = Some (Inr (int i, k1\<lparr>processor := pm3,
      kmachine := (kmachine k1)\<lparr>frames := write_phys pa (le_bytes 4 (i32_bits (int_as_i32 code))) (frames (kmachine k1))\<rparr>\<rparr>))"
    using p w3(1) ptr i(2) by (simp add: sys_wait_def)
  then show ?thesis
  proof (intro exI conjI)
    obtain v pm4 where "pm_wait i (processor k1) = Inr (v, pm4)" "pm5_inv (next_pid k1) pm4" "current pm4 = Some (parent r)"
      using stride.wait_inv S1 unfolding serving_def k_inv_def by blast
    moreover have "manager pm3 = manager (processor k1)"
      using w3(1) by (auto simp: pm_wait_def Let_def split: prod.split_asm)
    ultimately show "serving b1 (parent r) (k1\<lparr>processor := pm3,
        kmachine := (kmachine k1)\<lparr>frames := write_phys pa (le_bytes 4 (i32_bits (int_as_i32 code))) (frames (kmachine k1))\<rparr>\<rparr>)"
      using S1 w3(1) by (simp add: serving_def k_inv_def procs_ok_def)
  qed (use w(2) w3(2) in simp_all)
qed

text \<open>Process 1, a child of process 0, runs and ends with code 7; then process 0 runs.\<close>

definition two_kernel :: "(string, unit, nat) kernel" where
  "two_kernel = sample_kernel\<lparr>processor :=
     \<lparr>rel_map = [0 \<mapsto> add_child 1 (proc_rel_new pid_any), 1 \<mapsto> proc_rel_new 0],
      manager = Some \<lparr>tasks = [0 \<mapsto> sample_proc, 1 \<mapsto> sample_proc\<lparr>proc_pid := 1\<rparr>], ready_queue = [(0, stride_new)]\<rparr>,
      current = Some 1\<rparr>, next_pid := 2\<rparr>"

definition after_exit :: "nat option \<Rightarrow> stride_pair list \<Rightarrow> (string, unit, nat) kernel" where
  "after_exit cur queue = two_kernel\<lparr>processor :=
     \<lparr>rel_map = [0 \<mapsto> \<lparr>parent = pid_any, children = [], dead_children = [(1, 7)]\<rparr>],
      manager = Some \<lparr>tasks = [0 \<mapsto> sample_proc], ready_queue = queue\<rparr>, current = cur\<rparr>\<rparr>"

lemma is_heap_short: "length xs \<le> 1 \<Longrightarrow> is_heap le xs"
  by (auto simp: is_heap_def)

lemma two_kernel_facts:
  "serving 0 1 two_kernel" "k_exited 7 two_kernel = Inr (after_exit None [(0, stride_new)])"
  "serving 0 0 (after_exit (Some 0) [])"
proof -
  have t1: "tree_wf 1 [0 \<mapsto> proc_rel_new pid_any]" by (rule tree_wf_init) (simp_all add: proc_rel_new_def)
  have "tree_wf (1 + 1) ([0 \<mapsto> proc_rel_new pid_any](0 \<mapsto> add_child 1 (proc_rel_new pid_any), 1 \<mapsto> proc_rel_new 0))"
    by (rule tree_wf_add [OF t1]) (simp_all add: proc_rel_new_def)
  then have t2: "tree_wf 2 [0 \<mapsto> add_child 1 (proc_rel_new pid_any), 1 \<mapsto> proc_rel_new 0]" by (simp add: numeral_2_eq_2)
  show "serving 0 1 two_kernel"
    using t2 by (auto simp: serving_def k_inv_def two_kernel_def sample_kernel_def pm_inv_def stride_wf_def stride_ready_def
        is_heap_short procs_ok_def proc_ok_def prio_ok_def sample_proc_def stride_new_def split: if_splits)
  show "k_exited 7 two_kernel = Inr (after_exit None [(0, stride_new)])"
    by (auto simp: k_exited_def pm_make_current_exited_def two_kernel_def sample_kernel_def after_exit_def end_relations_def
        add_child_def proc_rel_new_def del_child_def stride_ops_def manage_delete_def Let_def remove_nth_def)
  have "tree_wf 2 [0 \<mapsto> \<lparr>parent = pid_any, children = [], dead_children = [(1, 7)]\<rparr>]"
    by (auto simp: tree_wf_def node_wf_def par_def split: if_splits)
  then show "serving 0 0 (after_exit (Some 0) [])"
    by (auto simp: serving_def k_inv_def two_kernel_def sample_kernel_def after_exit_def pm_inv_def stride_wf_def stride_ready_def
        is_heap_short procs_ok_def proc_ok_def prio_ok_def sample_proc_def stride_new_def split: if_splits)
qed

theorem exit_code_reaches_parent_witness:
  "\<exists>k2. sys_wait sample_env 1 (5 * 4096) (after_exit (Some 0) []) = Some (Inr (1, k2)) \<and>
     frames (kmachine k2) = write_phys (10 * 4096) (le_bytes 4 7) (frames sample_machine)"
proof -
  have k1: "k_current (after_exit (Some 0) []) = Inr sample_proc"
    by (simp add: k_current_def pm_current_def after_exit_def stride_ops_def manage_get_def)
  have tr: "k_translate sample_env ''W_V'' (5 * 4096) sample_proc = Inr (Some (10 * 4096))"
    by (simp add: k_translate_def sample_env_def flat_env_def sample_proc_def sample_space_def translate_def add_entries_def)
  have r: "rel_map (processor two_kernel) 1 = Some (proc_rel_new 0)" by (simp add: two_kernel_def)
  show ?thesis
    using exit_code_reaches_parent [OF two_kernel_facts(1) _ _ r two_kernel_facts(2), of 0 "after_exit (Some 0) []", OF _ _ _ _ k1 tr]
      two_kernel_facts(3)
    by (auto simp: proc_rel_new_def after_exit_def two_kernel_def sample_kernel_def int_as_i32_def i32_bits_def)
qed

section \<open>Calls that bring the kernel down\<close>

text \<open>
  C35. Process 0 cannot end while other processes live: whether it calls exit, makes an unsupported call or takes
  another trap, the attempt to hand its children over fails and the kernel panics.
\<close>

theorem initproc_exit_panics:
  assumes "serving b 0 k" "dom (rel_map (processor k)) \<noteq> {0}"
  shows "k_exited code k = Inl UnwrapNone"
proof -
  have I: "pm5_inv (next_pid k) (processor k)" "current (processor k) = Some 0"
    using assms(1) by (simp_all add: serving_def k_inv_def)
  then obtain r where r: "rel_map (processor k) 0 = Some r" by (auto simp: pm_inv_def)
  have wf: "tree_wf (next_pid k) (rel_map (processor k))" using I(1) by (simp add: pm_inv_def)
  have "children r \<noteq> []" using tree_wf_lone_root [OF wf r] assms(2) by blast
  then show ?thesis using stride.exit_zero_panics [OF I r] by (simp add: k_exited_def)
qed

theorem initproc_exit_panics_witness:
  "\<exists>k. serving 0 0 k \<and> k_exited 3 (k :: (string, unit, nat) kernel) = Inl UnwrapNone"
proof -
  define k where "k = two_kernel\<lparr>processor := (processor two_kernel)\<lparr>
      manager := Some \<lparr>tasks = [0 \<mapsto> sample_proc, 1 \<mapsto> sample_proc\<lparr>proc_pid := 1\<rparr>], ready_queue = [(1, stride_new)]\<rparr>,
      current := Some 0\<rparr>\<rparr>"
  have wf: "tree_wf 2 (rel_map (processor two_kernel))"
    using two_kernel_facts(1) by (simp add: serving_def k_inv_def pm_inv_def) (simp add: two_kernel_def)
  have diff: "{Suc 0, 0} - {0 :: nat} = {Suc 0}" by auto
  from wf have S: "serving 0 0 k"
    by (auto simp: diff serving_def k_inv_def k_def two_kernel_def sample_kernel_def pm_inv_def stride_wf_def stride_ready_def
        is_heap_short procs_ok_def proc_ok_def prio_ok_def sample_proc_def stride_new_def split: if_splits)
  have "1 \<in> dom (rel_map (processor k))" by (simp add: k_def two_kernel_def)
  then have "dom (rel_map (processor k)) \<noteq> {0}" by (metis singletonD zero_neq_one)
  from initproc_exit_panics [OF S this] have "k_exited 3 k = Inl UnwrapNone" .
  then show ?thesis using S by (intro exI [of _ k] conjI)
qed

text \<open>
  The calls of the \<^verbatim>\<open>IO\<close> trait that chapter 5 does not implement are not refused: a process that calls openat, close,
  linkat, unlinkat, fstat or pipe2 panics the kernel through the default method of the trait.
\<close>

lemma unimplemented_io_panics:
  assumes "serving b i k" "k_current k = Inr task"
    "fst (call_of (fc_context (proc_context task))) \<in> {35, 37, 56, 57, 59, 80}"
  shows "serve_syscall env k = Some (Inl Unimplemented)"
proof -
  obtain j args where ja: "call_of (fc_context (proc_context task)) = (j, args)" by fastforce
  obtain k1 where k1: "serve_syscall env k =
      bind_run (handle subsystems5 (syscall5 env) j args k1) (\<lambda>(r, k2). finish_syscall j r k2)"
    using serve_with_eq [OF assms(1,2), of "syscall5 env"] ja by (auto simp: serve_syscall_def)
  have "j \<in> {35, 37, 56, 57, 59, 80}" using assms(3) ja by simp
  then have "handle subsystems5 (syscall5 env) j args k1 = Some (Inl Unimplemented)"
    by (auto simp: handle_def decode_def subsystems5_def Let_def)
  then show ?thesis by (simp add: k1)
qed

lemma unimplemented_io_panics_witness:
  "\<exists>(k :: (string, unit, nat) kernel) task. serving 0 0 k \<and> k_current k = Inr task \<and> serve_syscall sample_env k = Some (Inl Unimplemented)"
proof -
  define p where "p = sample_proc\<lparr>proc_context := \<lparr>fc_context = (lc_user 0)\<lparr>x_regs := (replicate 31 0)[16 := 56]\<rparr>, fc_satp = 0\<rparr>\<rparr>"
  have "proc_ok 0 0 p" by (simp add: proc_ok_def p_def prio_ok_def sample_proc_def stride_new_def lc_wf_def)
  from serving_write [OF sample_kernel_serving(1) this] obtain pm where
    "serving 0 0 (sample_kernel\<lparr>processor := pm\<rparr>)" "k_current (sample_kernel\<lparr>processor := pm\<rparr>) = Inr p" .
  then obtain k where k: "serving 0 0 (k :: (string, unit, nat) kernel)" "k_current k = Inr p" by (rule that)
  have "fst (call_of (fc_context (proc_context p))) \<in> {35, 37, 56, 57, 59, 80}" by (simp add: call_of_def p_def)
  from unimplemented_io_panics [OF k this] have "serve_syscall sample_env k = Some (Inl Unimplemented)" .
  then show ?thesis using k by blast
qed

end
