(* ===== verification/File_Kernel.thy ===== *)
theory File_Kernel
  imports Fs_Properties Process_Lifecycle
begin

text \<open>
  The kernel of chapter 6: the file system manager (\<^verbatim>\<open>ch6/src/fs.rs\<close>), the descriptor tables of the processes
  (\<^verbatim>\<open>ch6/src/process.rs\<close>) and the system calls that use them (\<^verbatim>\<open>ch6/src/main.rs\<close>). The processes, the scheduler, the memory
  calls and the main loop are the code of chapter 5 and are taken from there; the kernel has the block cache as one more
  field. A call that reads a path up to a zero byte or waits for console input may not return; \<open>None\<close> stands for that.
\<close>

unbundle bit_operations_syntax

section \<open>The file system manager\<close>

abbreviation O_CREATE :: nat where "O_CREATE \<equiv> 9"
abbreviation O_TRUNC :: nat where "O_TRUNC \<equiv> 10"

text \<open>\<^verbatim>\<open>OpenFlags::from_bits\<close> rejects bits that name no flag.\<close>

definition open_flags_of :: "nat \<Rightarrow> open_flags option" where
  "open_flags_of bits =
     (let flags = of_nat bits :: 32 word in
      if flags AND NOT (1 + 2 + 2 ^ O_CREATE + 2 ^ O_TRUNC) = 0 then Some flags else None)"

text \<open>The manager: the root inode with the file system and the device it belongs to.\<close>

record 's file_system =
  fm_root :: inode
  fm_efs :: easy_fs
  fm_ops :: "'s block_ops"

definition fs_find :: "'s file_system \<Rightarrow> byte list \<Rightarrow> ('s, inode option) io" where
  "fs_find F path = inode_find (fm_ops F) (fm_efs F) (fm_root F) path"

definition fs_open :: "'s file_system \<Rightarrow> byte list \<Rightarrow> open_flags \<Rightarrow> ('s, file_handle option) io" where
  "fs_open F path flags =
     (let (r, w) = read_write flags in
      if bit flags O_CREATE then
        bind_io (fs_find F path) (\<lambda>found.
          case found of
            Some nd \<Rightarrow> bind_io (inode_clear (fm_ops F) (fm_efs F) nd) (\<lambda>_. return_io (Some (fh_new r w nd)))
          | None \<Rightarrow>
              bind_io (inode_create (fm_ops F) (fm_efs F) (fm_root F) path) (\<lambda>new_inode.
                return_io (map_option (fh_new r w) new_inode)))
      else
        bind_io (fs_find F path) (\<lambda>found.
          case found of
            None \<Rightarrow> return_io None
          | Some nd \<Rightarrow>
              bind_io (if bit flags O_TRUNC then inode_clear (fm_ops F) (fm_efs F) nd else return_io ()) (\<lambda>_.
                return_io (Some (fh_new r w nd)))))"

definition fs_readdir :: "'s file_system \<Rightarrow> ('s, byte list list option) io" where
  "fs_readdir F = bind_io (readdir (fm_ops F) (fm_root F)) (\<lambda>names. return_io (Some names))"

definition fs_link :: "'s file_system \<Rightarrow> byte list \<Rightarrow> byte list \<Rightarrow> ('s, int) io" where
  "fs_link F src dst =
     bind_io (inode_link (fm_ops F) (fm_efs F) (fm_root F) src dst) (\<lambda>b. return_io (if b then 0 else - 1))"

definition fs_unlink :: "'s file_system \<Rightarrow> byte list \<Rightarrow> ('s, int) io" where
  "fs_unlink F path = bind_io (inode_unlink (fm_ops F) (fm_efs F) (fm_root F) path) (\<lambda>b. return_io (if b then 0 else - 1))"

text \<open>The loop of \<^verbatim>\<open>read_all\<close> ends when a read returns nothing; its buffer is reused.\<close>

partial_function (option) read_all_loop ::
  "'s block_ops \<Rightarrow> inode \<Rightarrow> nat \<Rightarrow> byte list \<Rightarrow> byte list \<Rightarrow> 's \<Rightarrow> (byte list \<times> 's) run" where
  "read_all_loop ops nd offset buffer v s =
     (case inode_read_at ops nd offset buffer s of
        Inl e \<Rightarrow> Some (Inl e)
      | Inr ((len, buffer'), s') \<Rightarrow>
          if len = 0 then Some (Inr (v, s'))
          else read_all_loop ops nd (offset + len) buffer' (v @ take len buffer') s')"

definition read_all :: "'s block_ops \<Rightarrow> file_handle \<Rightarrow> 's \<Rightarrow> (byte list \<times> 's) run" where
  "read_all ops fd s =
     (case fh_inode fd of None \<Rightarrow> Some (Inr ([], s)) | Some nd \<Rightarrow> read_all_loop ops nd 0 (replicate 512 0) [] s)"

section \<open>State\<close>

type_synonym fd_table = "file_handle option list"

record ('f, 'h, 's) kernel6 = "('f, fd_table, 'h) kernel" +
  fs_store :: 's

definition with_store :: "('s, 'a) io \<Rightarrow> ('a \<Rightarrow> ('f, 'h, 's) kernel6 \<Rightarrow> 'b run) \<Rightarrow> ('f, 'h, 's) kernel6 \<Rightarrow> 'b run" where
  "with_store m f k = bind_run (Some (m (fs_store k))) (\<lambda>(a, s). f a (k\<lparr>fs_store := s\<rparr>))"

text \<open>The table of a new process, and the copy that \<^verbatim>\<open>fork\<close> makes; the copied handles have offsets of their own.\<close>

definition fds_new :: fd_table where
  "fds_new = [Some (fh_empty True False), Some (fh_empty False True), Some (fh_empty False True)]"

fun fork_fds :: "fd_table \<Rightarrow> fd_table" where
  "fork_fds [] = []"
| "fork_fds (fd # fds) = (case fd of Some file \<Rightarrow> Some file | None \<Rightarrow> None) # fork_fds fds"

definition files_env :: "('f, unit, 'h) kernel_env \<Rightarrow> ('f, fd_table, 'h) kernel_env" where
  "files_env env =
     \<lparr>ke_vm = ke_vm env, ke_apps = ke_apps env, ke_elf = ke_elf env, ke_portal = ke_portal env,
      ke_fresh = fds_new, ke_inherit = fork_fds\<rparr>"

section \<open>User memory\<close>

text \<open>\<^verbatim>\<open>string.push(ch as char)\<close>: a byte is a code point below 256, of one or two bytes in UTF-8.\<close>

definition push_char :: "byte \<Rightarrow> byte list" where
  "push_char ch = (if unat ch < 128 then [ch] else [192 OR drop_bit 6 ch, 128 OR (ch AND 63)])"

text \<open>The bytes of physical memory from the translated address on, up to a zero.\<close>

partial_function (option) get_str :: "(nat \<Rightarrow> byte list) \<Rightarrow> nat \<Rightarrow> byte list \<Rightarrow> byte list option" where
  "get_str fr pa string =
     (let ch = fr (pa div PAGE_SIZE) ! (pa mod PAGE_SIZE) in
      if ch = 0 then Some string else get_str fr (pa + 1) (string @ push_char ch))"

definition user_path :: "('f, 'h, 's) kernel6 \<Rightarrow> nat \<Rightarrow> byte list run" where
  "user_path k pa = map_option Inr (get_str (frames (kmachine k)) pa [])"

definition put_user :: "nat \<Rightarrow> byte list \<Rightarrow> ('f, 'z, 'h, 'y) kernel_scheme \<Rightarrow> ('f, 'z, 'h, 'y) kernel_scheme" where
  "put_user pa bytes k = k\<lparr>kmachine := (kmachine k)\<lparr>frames := write_phys pa bytes (frames (kmachine k))\<rparr>\<rparr>"

section \<open>File system calls\<close>

abbreviation fds_of :: "('f, fd_table) proc \<Rightarrow> fd_table" where
  "fds_of p \<equiv> us_files (process.address_space p)"

definition set_fds :: "fd_table \<Rightarrow> ('f, fd_table) proc \<Rightarrow> ('f, fd_table) proc" where
  "set_fds fds p = p\<lparr>process.address_space := (process.address_space p)\<lparr>us_files := fds\<rparr>\<rparr>"

definition sys6_write ::
  "('f, fd_table, 'h) kernel_env \<Rightarrow> 's file_system \<Rightarrow> nat \<Rightarrow> nat \<Rightarrow> nat \<Rightarrow> ('f, 'h, 's) kernel6 \<Rightarrow> (int \<times> ('f, 'h, 's) kernel6) run" where
  "sys6_write env F fd buf cnt k =
     run_res (k_current k) (\<lambda>current.
     run_res (k_translate env ''RV'' buf current) (\<lambda>ptr.
       case ptr of
         None \<Rightarrow> Some (Inr (- 1, k))
       | Some pa \<Rightarrow>
           let bytes = read_phys pa cnt (frames (kmachine k)) in
           if fd = 1 \<or> fd = 2 then Some (Inr (usize_as_isize cnt, k\<lparr>console_out := console_out k @ bytes\<rparr>))
           else run_res (index_res (fds_of current) fd) (\<lambda>entry.
             case entry of
               None \<Rightarrow> Some (Inr (- 1, k))
             | Some file \<Rightarrow>
                 if writable file
                 then with_store (fh_write_buf (fm_ops F) (fm_efs F) file [bytes]) (\<lambda>(n, file') k1.
                      run_res (k_write_current (set_fds ((fds_of current)[fd := Some file']) current) k1) (\<lambda>k2.
                        Some (Inr (n, k2)))) k
                 else Some (Inr (- 1, k)))))"

definition sys6_read ::
  "('f, fd_table, 'h) kernel_env \<Rightarrow> 's file_system \<Rightarrow> nat \<Rightarrow> nat \<Rightarrow> nat \<Rightarrow> ('f, 'h, 's) kernel6 \<Rightarrow> (int \<times> ('f, 'h, 's) kernel6) run" where
  "sys6_read env F fd buf cnt k =
     run_res (k_current k) (\<lambda>current.
     run_res (k_translate env ''W_V'' buf current) (\<lambda>ptr.
       case ptr of
         None \<Rightarrow> Some (Inr (- 1, k))
       | Some pa \<Rightarrow>
           if fd = 0 then
             if length (console_in k) < cnt then None
             else Some (Inr (usize_as_isize cnt, put_user pa (take cnt (console_in k)) (k\<lparr>console_in := drop cnt (console_in k)\<rparr>)))
           else run_res (index_res (fds_of current) fd) (\<lambda>entry.
             case entry of
               None \<Rightarrow> Some (Inr (- 1, k))
             | Some file \<Rightarrow>
                 if readable file
                 then with_store (fh_read_buf (fm_ops F) file [read_phys pa cnt (frames (kmachine k))]) (\<lambda>(n, file', slices) k1.
                      run_res (k_write_current (set_fds ((fds_of current)[fd := Some file']) current) k1) (\<lambda>k2.
                        Some (Inr (n, put_user pa (concat slices) k2)))) k
                 else Some (Inr (- 1, k)))))"

definition sys6_open ::
  "('f, fd_table, 'h) kernel_env \<Rightarrow> 's file_system \<Rightarrow> nat \<Rightarrow> nat \<Rightarrow> ('f, 'h, 's) kernel6 \<Rightarrow> (int \<times> ('f, 'h, 's) kernel6) run" where
  "sys6_open env F path flags k =
     run_res (k_current k) (\<lambda>current.
     run_res (k_translate env ''RV'' path current) (\<lambda>ptr.
       case ptr of
         None \<Rightarrow> Some (Inr (- 1, k))
       | Some pa \<Rightarrow>
           bind_run (user_path k pa) (\<lambda>string.
           run_res (unwrap (open_flags_of flags)) (\<lambda>f.
           with_store (fs_open F string f) (\<lambda>r k1.
             case r of
               None \<Rightarrow> Some (Inr (- 1, k1))
             | Some fd \<Rightarrow>
                 let new_fd = length (fds_of current) in
                 run_res (k_write_current (set_fds (fds_of current @ [Some fd]) current) k1) (\<lambda>k2.
                   Some (Inr (usize_as_isize new_fd, k2)))) k))))"

definition sys6_close :: "nat \<Rightarrow> ('f, 'h, 's) kernel6 \<Rightarrow> (int \<times> ('f, 'h, 's) kernel6) run" where
  "sys6_close fd k =
     run_res (k_current k) (\<lambda>current.
       if length (fds_of current) \<le> fd \<or> fds_of current ! fd = None then Some (Inr (- 1, k))
       else run_res (k_write_current (set_fds ((fds_of current)[fd := None]) current) k) (\<lambda>k1. Some (Inr (0, k1))))"

definition sys6_linkat ::
  "('f, fd_table, 'h) kernel_env \<Rightarrow> 's file_system \<Rightarrow> nat \<Rightarrow> nat \<Rightarrow> ('f, 'h, 's) kernel6 \<Rightarrow> (int \<times> ('f, 'h, 's) kernel6) run" where
  "sys6_linkat env F oldpath newpath k =
     run_res (k_current k) (\<lambda>current.
     run_res (k_translate env ''RV'' oldpath current) (\<lambda>old_ptr.
     run_res (k_translate env ''RV'' newpath current) (\<lambda>new_ptr.
       case (old_ptr, new_ptr) of
         (Some old_pa, Some new_pa) \<Rightarrow>
           bind_run (user_path k old_pa) (\<lambda>old_path.
           bind_run (user_path k new_pa) (\<lambda>new_path.
             with_store (fs_link F old_path new_path) (\<lambda>r k1. Some (Inr (r, k1))) k))
       | _ \<Rightarrow> Some (Inr (- 1, k)))))"

definition sys6_unlinkat ::
  "('f, fd_table, 'h) kernel_env \<Rightarrow> 's file_system \<Rightarrow> nat \<Rightarrow> ('f, 'h, 's) kernel6 \<Rightarrow> (int \<times> ('f, 'h, 's) kernel6) run" where
  "sys6_unlinkat env F path k =
     run_res (k_current k) (\<lambda>current.
     run_res (k_translate env ''RV'' path current) (\<lambda>ptr.
       case ptr of
         None \<Rightarrow> Some (Inr (- 1, k))
       | Some pa \<Rightarrow>
           bind_run (user_path k pa) (\<lambda>string.
             with_store (fs_unlink F string) (\<lambda>r k1. Some (Inr (r, k1))) k)))"

text \<open>\<^verbatim>\<open>Stat\<close>: device, inode number, mode, links and 56 bytes of padding.\<close>

record stat =
  st_dev :: nat
  st_ino :: nat
  st_mode :: nat
  st_nlink :: nat

definition stat_new :: stat where
  "stat_new = \<lparr>st_dev = 0, st_ino = 0, st_mode = 0, st_nlink = 0\<rparr>"

definition stat_bytes :: "stat \<Rightarrow> byte list" where
  "stat_bytes st = le_bytes 8 (st_dev st) @ le_bytes 8 (st_ino st) @ le_bytes 4 (st_mode st) @ le_bytes 4 (st_nlink st) @ replicate 56 0"

abbreviation S_DIR :: nat where "S_DIR \<equiv> 16384"
abbreviation S_FILE :: nat where "S_FILE \<equiv> 32768"

definition sys6_fstat ::
  "('f, fd_table, 'h) kernel_env \<Rightarrow> 's file_system \<Rightarrow> nat \<Rightarrow> nat \<Rightarrow> ('f, 'h, 's) kernel6 \<Rightarrow> (int \<times> ('f, 'h, 's) kernel6) run" where
  "sys6_fstat env F fd st k =
     run_res (k_current k) (\<lambda>current.
       if length (fds_of current) \<le> fd then Some (Inr (- 1, k))
       else case fds_of current ! fd of
         None \<Rightarrow> Some (Inr (- 1, k))
       | Some fh \<Rightarrow>
           (case fh_inode fh of
              None \<Rightarrow> Some (Inr (- 1, k))
            | Some nd \<Rightarrow>
                run_res (k_translate env ''W_V'' st current) (\<lambda>ptr.
                  case ptr of
                    None \<Rightarrow> Some (Inr (- 1, k))
                  | Some pa \<Rightarrow>
                      run_res (get_inode_id (fm_efs F) nd) (\<lambda>inode_id.
                      with_store (get_link_num (fm_ops F) nd) (\<lambda>nlink.
                      with_store (inode_is_dir (fm_ops F) nd) (\<lambda>d k1.
                        let stat = stat_new\<lparr>st_ino := inode_id, st_nlink := nlink, st_mode := (if d then S_DIR else S_FILE)\<rparr>
                        in Some (Inr (0, put_user pa (stat_bytes stat) k1)))) k))))"

section \<open>Process calls\<close>

text \<open>
  \<^verbatim>\<open>exec\<close> and \<^verbatim>\<open>spawn\<close> open the named file, read it as a whole and parse it; a name that cannot be opened prints the
  names in the directory. What follows (\<open>go\<close>) is the code of chapter 5.
\<close>

definition load_app ::
  "('f, fd_table, 'h) kernel_env \<Rightarrow> 's file_system \<Rightarrow> nat \<Rightarrow> nat \<Rightarrow>
   (elf_file \<Rightarrow> ('f, 'h, 's) kernel6 \<Rightarrow> (int \<times> ('f, 'h, 's) kernel6) run) \<Rightarrow> ('f, 'h, 's) kernel6 \<Rightarrow> (int \<times> ('f, 'h, 's) kernel6) run" where
  "load_app env F path cnt go k =
     run_res (k_current k) (\<lambda>current.
     run_res (k_translate env ''RV'' path current) (\<lambda>ptr.
     with_store
       (case ptr of
          None \<Rightarrow> return_io None
        | Some pa \<Rightarrow> fs_open F (read_phys pa cnt (frames (kmachine k))) 0)
       (\<lambda>opened k1.
         case opened of
           None \<Rightarrow>
             with_store (fs_readdir F) (\<lambda>names k2.
             run_res (unwrap names) (\<lambda>apps. Some (Inr (- 1, print_apps apps k2)))) k1
         | Some fd \<Rightarrow>
             bind_run (read_all (fm_ops F) fd (fs_store k1)) (\<lambda>(elf_data, s).
             run_res (unwrap (ke_elf env elf_data)) (\<lambda>elf. go elf (k1\<lparr>fs_store := s\<rparr>)))) k))"

definition sys6_exec ::
  "('f, fd_table, 'h) kernel_env \<Rightarrow> 's file_system \<Rightarrow> nat \<Rightarrow> nat \<Rightarrow> ('f, 'h, 's) kernel6 \<Rightarrow> (int \<times> ('f, 'h, 's) kernel6) run" where
  "sys6_exec env F path cnt = load_app env F path cnt (exec_elf env)"

definition sys6_spawn ::
  "('f, fd_table, 'h) kernel_env \<Rightarrow> 's file_system \<Rightarrow> nat \<Rightarrow> nat \<Rightarrow> ('f, 'h, 's) kernel6 \<Rightarrow> (int \<times> ('f, 'h, 's) kernel6) run" where
  "sys6_spawn env F path cnt = load_app env F path cnt (spawn_elf env)"

fun syscall6 ::
  "('f, fd_table, 'h) kernel_env \<Rightarrow> 's file_system \<Rightarrow> syscall \<Rightarrow> ('f, 'h, 's) kernel6 \<Rightarrow> (int \<times> ('f, 'h, 's) kernel6) run" where
  "syscall6 env F (SysWrite fd buf cnt) k = sys6_write env F fd buf cnt k"
| "syscall6 env F (SysRead fd buf cnt) k = sys6_read env F fd buf cnt k"
| "syscall6 env F (SysOpen path flags) k = sys6_open env F path flags k"
| "syscall6 env F (SysClose fd) k = sys6_close fd k"
| "syscall6 env F (SysLinkat _ oldpath _ newpath _) k = sys6_linkat env F oldpath newpath k"
| "syscall6 env F (SysUnlinkat _ path _) k = sys6_unlinkat env F path k"
| "syscall6 env F (SysFstat fd st) k = sys6_fstat env F fd st k"
| "syscall6 env F (SysExec path cnt) k = sys6_exec env F path cnt k"
| "syscall6 env F (SysSpawn path cnt) k = sys6_spawn env F path cnt k"
| "syscall6 env F call k = syscall5 env call k"

section \<open>The main loop\<close>

definition kernel6_turn ::
  "('f, unit, 'h) kernel_env \<Rightarrow> 's file_system \<Rightarrow> user_program \<Rightarrow> ('f, 'h, 's) kernel6 \<Rightarrow> (bool \<times> ('f, 'h, 's) kernel6) run" where
  "kernel6_turn env F = turn_with (syscall6 (files_env env) F)"

text \<open>The first process is the file \<^verbatim>\<open>initproc\<close>.\<close>

definition boot6 ::
  "('f, unit, 'h) kernel_env \<Rightarrow> 's file_system \<Rightarrow> 's \<Rightarrow> 'h machine \<Rightarrow> ('f, 'h, 's) kernel6 run" where
  "boot6 env F s mc =
     run_res (fs_open F (map (of_nat \<circ> of_char) ''initproc'') 0 s) (\<lambda>(opened, s1).
     run_res (unwrap opened) (\<lambda>fd.
     bind_run (read_all (fm_ops F) fd s1) (\<lambda>(initproc, s2).
     run_res (unwrap (ke_elf env initproc)) (\<lambda>elf.
       boot_with \<lparr>fs_store = s2\<rparr> (files_env env) elf mc))))"

end
