(* ===== verification/Descriptors.thy ===== *)
theory Descriptors
  imports Signal_Delivery Pipe_Ring File_Kernel
begin

text \<open>
  What chapters 7 and 8 share below their kernels: descriptors that are files or ends of pipes (\<^verbatim>\<open>Fd\<close> of \<^verbatim>\<open>ch8/src/fs.rs\<close>, the same in
  chapter 7) and the representation of signal actions in user memory.

  The file system behind the trait \<^verbatim>\<open>FSManager\<close> and the methods of \<^verbatim>\<open>FileHandle\<close> is an argument \<open>file_layer\<close>: these chapters link
  the copy of easy-fs without hard links, and \<open>efs_layer\<close> is the instance for the copy that is modelled. Pipes are numbered; the
  number of strong references to the write end of a pipe, which decides about the end of file, is kept in its ring and follows the
  descriptors as they are cloned and dropped.
\<close>

section \<open>Descriptors\<close>

record 's file_layer =
  fl_open :: "byte list \<Rightarrow> open_flags \<Rightarrow> ('s, file_handle option) io"
  fl_readdir :: "('s, byte list list option) io"
  fl_read_all :: "file_handle \<Rightarrow> 's \<Rightarrow> (byte list \<times> 's) run"
  fl_read :: "file_handle \<Rightarrow> user_buffer \<Rightarrow> ('s, int \<times> file_handle \<times> user_buffer) io"
  fl_write :: "file_handle \<Rightarrow> user_buffer \<Rightarrow> ('s, int \<times> file_handle) io"

definition efs_layer :: "'s file_system \<Rightarrow> 's file_layer" where
  "efs_layer F = \<lparr>fl_open = fs_open F, fl_readdir = fs_readdir F, fl_read_all = read_all (fm_ops F),
     fl_read = fh_read_buf (fm_ops F), fl_write = fh_write_buf (fm_ops F) (fm_efs F)\<rparr>"

datatype fd = FdFile file_handle | FdPipeRead nat | FdPipeWrite nat | FdEmpty bool bool

fun fd_readable :: "fd \<Rightarrow> bool" where
  "fd_readable (FdFile f) = readable f"
| "fd_readable (FdPipeRead _) = True"
| "fd_readable (FdPipeWrite _) = False"
| "fd_readable (FdEmpty r _) = r"

fun fd_writable :: "fd \<Rightarrow> bool" where
  "fd_writable (FdFile f) = writable f"
| "fd_writable (FdPipeRead _) = False"
| "fd_writable (FdPipeWrite _) = True"
| "fd_writable (FdEmpty _ w) = w"

text \<open>Reading and writing: the result, the descriptor afterwards, the buffer after a read, and the pipes.\<close>

fun fd_read ::
  "'s file_layer \<Rightarrow> fd \<Rightarrow> user_buffer \<Rightarrow> pipe_ring_buffer list \<Rightarrow> ('s, int \<times> fd \<times> user_buffer \<times> pipe_ring_buffer list) io" where
  "fd_read L (FdFile f) buf rings = bind_io (fl_read L f buf) (\<lambda>(n, f', buf'). return_io (n, FdFile f', buf', rings))"
| "fd_read L (FdPipeRead i) buf rings =
     lift_io (bind_res (index_res rings i) (\<lambda>ring.
       bind_res (pipe_read buf ring) (\<lambda>(n, buf', ring'). Inr (n, FdPipeRead i, buf', rings[i := ring']))))"
| "fd_read L fd buf rings = return_io (- 1, fd, buf, rings)"

fun fd_write ::
  "'s file_layer \<Rightarrow> fd \<Rightarrow> user_buffer \<Rightarrow> pipe_ring_buffer list \<Rightarrow> ('s, int \<times> fd \<times> pipe_ring_buffer list) io" where
  "fd_write L (FdFile f) buf rings = bind_io (fl_write L f buf) (\<lambda>(n, f'). return_io (n, FdFile f', rings))"
| "fd_write L (FdPipeWrite i) buf rings =
     lift_io (bind_res (index_res rings i) (\<lambda>ring.
       bind_res (pipe_write buf ring) (\<lambda>(n, ring'). Inr (n, FdPipeWrite i, rings[i := ring']))))"
| "fd_write L fd buf rings = return_io (- 1, fd, rings)"

text \<open>Cloning and dropping descriptors changes the strong references of write ends.\<close>

fun count_writers :: "(nat \<Rightarrow> nat) \<Rightarrow> fd option list \<Rightarrow> pipe_ring_buffer list \<Rightarrow> pipe_ring_buffer list" where
  "count_writers f [] rings = rings"
| "count_writers f (Some (FdPipeWrite i) # fds) rings =
     count_writers f fds (rings[i := (rings ! i)\<lparr>write_end := map_option f (write_end (rings ! i))\<rparr>])"
| "count_writers f (_ # fds) rings = count_writers f fds rings"

definition clone_fds :: "fd option list \<Rightarrow> pipe_ring_buffer list \<Rightarrow> pipe_ring_buffer list" where
  "clone_fds = count_writers Suc"

definition drop_fds :: "fd option list \<Rightarrow> pipe_ring_buffer list \<Rightarrow> pipe_ring_buffer list" where
  "drop_fds = count_writers (\<lambda>n. n - 1)"

definition std_fds :: "fd option list" where
  "std_fds = [Some (FdEmpty True False), Some (FdEmpty False True), Some (FdEmpty False True)]"

section \<open>Signal actions\<close>

text \<open>\<^verbatim>\<open>SignalAction\<close> in user memory.\<close>

definition action_bytes :: "signal_action \<Rightarrow> byte list" where
  "action_bytes a = le_bytes 8 (handler a) @ le_bytes 8 (action_mask a)"

definition action_of :: "byte list \<Rightarrow> signal_action" where
  "action_of bytes = \<lparr>handler = le_nat (take 8 bytes), action_mask = le_nat (drop 8 bytes)\<rparr>"

end
