(* ===== verification/Fifo_Scheduler.thy ===== *)
theory Fifo_Scheduler
  imports Proc_Manager
begin

text \<open>
  The FIFO schedulers of chapters 7 and 8: a table of tasks and a queue of ids (\<^verbatim>\<open>ThreadManager\<close> of
  \<^verbatim>\<open>ch8/src/processor.rs\<close>; \<^verbatim>\<open>ProcManager\<close> of \<^verbatim>\<open>ch7/src/processor.rs\<close> has the same fields and bodies), and
  the table of processes without a queue of chapter 8 (\<^verbatim>\<open>ProcManager\<close>). The first meets the
  interface of the process manager, the second that of a plain table (\<open>task_table\<close>).
\<close>

locale task_table =
  fixes pops :: "('m, 'p, 'z) manage_ops_scheme" and table :: "'m \<Rightarrow> nat \<rightharpoonup> 'p"
  assumes tget: "op_get pops i m = table m i"
    and tinsert: "table (op_insert pops i t m) = (table m)(i \<mapsto> t)"
    and tset: "i \<in> dom (table m) \<Longrightarrow> table (op_set pops i t m) = (table m)(i \<mapsto> t)"
    and tdelete: "table (op_delete pops i m) = (table m)(i := None)"

section \<open>The thread manager\<close>

record 't thread_manager =
  tm_tasks :: "nat \<rightharpoonup> 't"
  tm_ready_queue :: "nat list"

definition thread_manager_new :: "'t thread_manager" where
  "thread_manager_new = \<lparr>tm_tasks = Map.empty, tm_ready_queue = []\<rparr>"

definition tm_insert :: "nat \<Rightarrow> 't \<Rightarrow> 't thread_manager \<Rightarrow> 't thread_manager" where
  "tm_insert i task m = m\<lparr>tm_tasks := (tm_tasks m)(i \<mapsto> task)\<rparr>"

definition tm_get :: "nat \<Rightarrow> 't thread_manager \<Rightarrow> 't option" where
  "tm_get i m = tm_tasks m i"

definition tm_delete :: "nat \<Rightarrow> 't thread_manager \<Rightarrow> 't thread_manager" where
  "tm_delete i m = m\<lparr>tm_tasks := (tm_tasks m)(i := None)\<rparr>"

definition tm_add :: "nat \<Rightarrow> 't thread_manager \<Rightarrow> 't thread_manager res" where
  "tm_add i m = Inr (m\<lparr>tm_ready_queue := tm_ready_queue m @ [i]\<rparr>)"

definition tm_fetch :: "'t thread_manager \<Rightarrow> (nat option \<times> 't thread_manager) res" where
  "tm_fetch m =
     (case tm_ready_queue m of
        [] \<Rightarrow> Inr (None, m)
      | i # q \<Rightarrow> Inr (Some i, m\<lparr>tm_ready_queue := q\<rparr>))"

definition fifo_ops :: "('t thread_manager, 't) sched_ops" where
  "fifo_ops = \<lparr>op_insert = tm_insert, op_delete = tm_delete, op_get = tm_get, op_set = tm_insert,
     op_add = tm_add, op_fetch = tm_fetch\<rparr>"

definition tm_ready :: "'t thread_manager \<Rightarrow> nat multiset" where
  "tm_ready m = mset (tm_ready_queue m)"

lemmas tm_defs = tm_insert_def tm_get_def tm_delete_def tm_add_def tm_fetch_def tm_ready_def fifo_ops_def

interpretation fifo: process_scheduler fifo_ops "\<lambda>_. True" "\<lambda>_. True" "\<lambda>_. True" tm_tasks tm_ready
  by unfold_locales (auto simp: tm_defs split: list.splits)

interpretation fifo_table: task_table fifo_ops tm_tasks
  by unfold_locales (auto simp: tm_defs)

section \<open>The process table\<close>

record 'p proc_table =
  procs :: "nat \<rightharpoonup> 'p"

definition proc_table_new :: "'p proc_table" where
  "proc_table_new = \<lparr>procs = Map.empty\<rparr>"

definition pt_insert :: "nat \<Rightarrow> 'p \<Rightarrow> 'p proc_table \<Rightarrow> 'p proc_table" where
  "pt_insert i item m = m\<lparr>procs := (procs m)(i \<mapsto> item)\<rparr>"

definition pt_get :: "nat \<Rightarrow> 'p proc_table \<Rightarrow> 'p option" where
  "pt_get i m = procs m i"

definition pt_delete :: "nat \<Rightarrow> 'p proc_table \<Rightarrow> 'p proc_table" where
  "pt_delete i m = m\<lparr>procs := (procs m)(i := None)\<rparr>"

definition proc_table_ops :: "('p proc_table, 'p) manage_ops" where
  "proc_table_ops = \<lparr>op_insert = pt_insert, op_delete = pt_delete, op_get = pt_get, op_set = pt_insert\<rparr>"

interpretation proc_tab: task_table proc_table_ops procs
  by unfold_locales (auto simp: pt_insert_def pt_get_def pt_delete_def proc_table_ops_def)

end
