(* ===== verification/Pipe_Kernel.thy ===== *)
theory Pipe_Kernel
  imports Descriptors Fifo_Scheduler
begin

text \<open>
  The kernel of chapter 7: processes with descriptors for pipes and with signals (\<^verbatim>\<open>ch7/src/process.rs\<close>), their system calls and the
  main loop (\<^verbatim>\<open>ch7/src/main.rs\<close>), over the process manager and the first-in-first-out scheduler (\<^verbatim>\<open>ch7/src/processor.rs\<close>, the
  scheduler of \<open>Fifo_Scheduler\<close> with processes as its tasks). A reference into the process table is the entry of its key.
\<close>

section \<open>State\<close>

record 'f process7 =
  p7_pid :: nat
  p7_context :: foreign_context
  p7_space :: "('f, unit) user_space"
  p7_fds :: "fd option list"
  p7_signal :: signal_impl
  p7_heap_bottom :: nat
  p7_program_brk :: nat

record ('f, 'h, 's) kernel7 =
  processor7 :: "'f process7 thread_manager pmanager"
  next_pid7 :: nat
  machine7 :: "'h machine"
  out7 :: "byte list"
  in7 :: "byte list"
  time7 :: nat
  pipes7 :: "pipe_ring_buffer list"
  store7 :: 's

type_synonym ('f, 'h, 's) call7 = "('f, 'h, 's) kernel7 \<Rightarrow> (int \<times> ('f, 'h, 's) kernel7) run"

definition k7_current :: "('f, 'h, 's) kernel7 \<Rightarrow> 'f process7 res" where
  "k7_current k = bind_res (pm_current fifo_ops (processor7 k)) unwrap"

definition put_current7 :: "'f process7 \<Rightarrow> ('f, 'h, 's) kernel7 \<Rightarrow> ('f, 'h, 's) kernel7 res" where
  "put_current7 p k = bind_res (pm_write_current fifo_ops p (processor7 k)) (\<lambda>pm. Inr (k\<lparr>processor7 := pm\<rparr>))"

text \<open>The write through the reference that \<^verbatim>\<open>get_task\<close> returns.\<close>

definition put_task7 :: "nat \<Rightarrow> 'f process7 \<Rightarrow> ('f, 'h, 's) kernel7 \<Rightarrow> ('f, 'h, 's) kernel7 res" where
  "put_task7 i p k =
     bind_res (unwrap (manager (processor7 k))) (\<lambda>m.
       Inr (k\<lparr>processor7 := (processor7 k)\<lparr>manager := Some (op_set fifo_ops i p m)\<rparr>\<rparr>))"

definition translate7 :: "('f, unit, 'h) kernel_env \<Rightarrow> string \<Rightarrow> nat \<Rightarrow> 'f process7 \<Rightarrow> nat option res" where
  "translate7 env flags addr p =
     bind_res (unwrap (env_parse_flags (ke_vm env) flags)) (\<lambda>f.
       Inr (translate (ke_vm env) addr f (us_space (p7_space p))))"

definition put_user7 :: "nat \<Rightarrow> byte list \<Rightarrow> ('f, 'h, 's) kernel7 \<Rightarrow> ('f, 'h, 's) kernel7" where
  "put_user7 pa bytes k = k\<lparr>machine7 := (machine7 k)\<lparr>frames := write_phys pa bytes (frames (machine7 k))\<rparr>\<rparr>"

definition get_user7 :: "nat \<Rightarrow> nat \<Rightarrow> ('f, 'h, 's) kernel7 \<Rightarrow> byte list" where
  "get_user7 pa cnt k = read_phys pa cnt (frames (machine7 k))"

definition with_store7 :: "('s, 'a) io \<Rightarrow> ('a \<Rightarrow> ('f, 'h, 's) kernel7 \<Rightarrow> 'b run) \<Rightarrow> ('f, 'h, 's) kernel7 \<Rightarrow> 'b run" where
  "with_store7 m f k = bind_run (Some (m (store7 k))) (\<lambda>(a, s). f a (k\<lparr>store7 := s\<rparr>))"

section \<open>Processes\<close>

definition from_elf7 ::
  "('f, unit, 'h) kernel_env \<Rightarrow> elf_file \<Rightarrow> ('f, 'h, 's) kernel7 \<Rightarrow> ('f process7 option \<times> ('f, 'h, 's) kernel7) run" where
  "from_elf7 env elf k =
     (if \<not> (elf_header64 elf \<and> elf_executable elf \<and> elf_riscv elf) then Some (Inr (None, k))
      else
        bind_run (user_space_new env () (machine7 k)) (\<lambda>(us, mc1).
        bind_run (load_segments (ke_vm env) (elf_input elf) (elf_segments elf) 0 (us_space us, mc1)) (\<lambda>(max_end_va, sp, mc2).
          let bottom = env_ceil (ke_vm env) max_end_va * PAGE_SIZE in
          case env_alloc (ke_vm env) 2 (heap mc2) of
            None \<Rightarrow> Some (Inl OutOfMemory)
          | Some (stack, h) \<Rightarrow>
              run_res (unwrap (env_parse_flags (ke_vm env) ''U_WRV'')) (\<lambda>flags.
              bind_run (map_extern (ke_vm env) (2 ^ 26 - 2, 2 ^ 26) stack flags
                  (sp, mc2\<lparr>heap := h, frames := write_pages stack (replicate (2 * PAGE_SIZE) 0) (frames mc2)\<rparr>)) (\<lambda>(sp', mc3).
              run_res (lc_set_sp (2 ^ 38) (lc_user (elf_entry elf))) (\<lambda>ctx.
                let (i, pid') = proc_id_new (next_pid7 k)
                in Some (Inr (Some \<lparr>p7_pid = i, p7_context = \<lparr>fc_context = ctx, fc_satp = satp_of (us_root us)\<rparr>,
                     p7_space = map_portal env (us\<lparr>us_space := sp'\<rparr>), p7_fds = std_fds, p7_signal = signal_impl_new,
                     p7_heap_bottom = bottom, p7_program_brk = bottom\<rparr>, k\<lparr>machine7 := mc3, next_pid7 := pid'\<rparr>))))))))"

definition exec7 ::
  "('f, unit, 'h) kernel_env \<Rightarrow> elf_file \<Rightarrow> 'f process7 \<Rightarrow> ('f, 'h, 's) kernel7 \<Rightarrow> ('f process7 \<times> ('f, 'h, 's) kernel7) run" where
  "exec7 env elf p k =
     bind_run (from_elf7 env elf k) (\<lambda>(r, k1).
     run_res (unwrap r) (\<lambda>proc.
       Some (Inr (p\<lparr>p7_space := p7_space proc, p7_context := p7_context proc, p7_heap_bottom := p7_heap_bottom proc,
         p7_program_brk := p7_program_brk proc\<rparr>, k1))))"

definition fork7 ::
  "('f, unit, 'h) kernel_env \<Rightarrow> 'f process7 \<Rightarrow> ('f, 'h, 's) kernel7 \<Rightarrow> ('f process7 \<times> ('f, 'h, 's) kernel7) run" where
  "fork7 env p k =
     (let (i, pid') = proc_id_new (next_pid7 k)
      in bind_run (user_space_new env () (machine7 k)) (\<lambda>(us, mc1).
         bind_run (cloneself (ke_vm env) (us_space (p7_space p)) (us_space us, mc1)) (\<lambda>(sp, mc2).
           Some (Inr (\<lparr>p7_pid = i, p7_context = \<lparr>fc_context = fc_context (p7_context p), fc_satp = satp_of (us_root us)\<rparr>,
             p7_space = map_portal env (us\<lparr>us_space := sp\<rparr>), p7_fds = p7_fds p, p7_signal = from_fork (p7_signal p),
             p7_heap_bottom = p7_heap_bottom p, p7_program_brk = p7_program_brk p\<rparr>,
             k\<lparr>next_pid7 := pid', machine7 := mc2, pipes7 := clone_fds (p7_fds p) (pipes7 k)\<rparr>)))))"

section \<open>Files and pipes\<close>

definition sys7_write :: "('f, unit, 'h) kernel_env \<Rightarrow> 's file_layer \<Rightarrow> nat \<Rightarrow> nat \<Rightarrow> nat \<Rightarrow> ('f, 'h, 's) call7" where
  "sys7_write env L fd buf cnt k =
     run_res (k7_current k) (\<lambda>p.
     run_res (translate7 env ''RV'' buf p) (\<lambda>ptr.
       case ptr of
         None \<Rightarrow> Some (Inr (- 1, k))
       | Some pa \<Rightarrow>
           if fd = 1 \<or> fd = 2 then Some (Inr (usize_as_isize cnt, k\<lparr>out7 := out7 k @ get_user7 pa cnt k\<rparr>))
           else run_res (index_res (p7_fds p) fd) (\<lambda>entry.
             case entry of
               None \<Rightarrow> Some (Inr (- 1, k))
             | Some file \<Rightarrow>
                 if fd_writable file
                 then with_store7 (fd_write L file [get_user7 pa cnt k] (pipes7 k)) (\<lambda>(n, file', rings) k1.
                      run_res (put_current7 (p\<lparr>p7_fds := (p7_fds p)[fd := Some file']\<rparr>) (k1\<lparr>pipes7 := rings\<rparr>)) (\<lambda>k2.
                        Some (Inr (n, k2)))) k
                 else Some (Inr (- 1, k)))))"

definition sys7_read :: "('f, unit, 'h) kernel_env \<Rightarrow> 's file_layer \<Rightarrow> nat \<Rightarrow> nat \<Rightarrow> nat \<Rightarrow> ('f, 'h, 's) call7" where
  "sys7_read env L fd buf cnt k =
     run_res (k7_current k) (\<lambda>p.
     run_res (translate7 env ''W_V'' buf p) (\<lambda>ptr.
       case ptr of
         None \<Rightarrow> Some (Inr (- 1, k))
       | Some pa \<Rightarrow>
           if fd = 0 then
             if length (in7 k) < cnt then None
             else Some (Inr (usize_as_isize cnt, put_user7 pa (take cnt (in7 k)) (k\<lparr>in7 := drop cnt (in7 k)\<rparr>)))
           else run_res (index_res (p7_fds p) fd) (\<lambda>entry.
             case entry of
               None \<Rightarrow> Some (Inr (- 1, k))
             | Some file \<Rightarrow>
                 if fd_readable file
                 then with_store7 (fd_read L file [get_user7 pa cnt k] (pipes7 k)) (\<lambda>(n, file', slices, rings) k1.
                      run_res (put_current7 (p\<lparr>p7_fds := (p7_fds p)[fd := Some file']\<rparr>) (k1\<lparr>pipes7 := rings\<rparr>)) (\<lambda>k2.
                        Some (Inr (n, put_user7 pa (concat slices) k2)))) k
                 else Some (Inr (- 1, k)))))"

definition sys7_open :: "('f, unit, 'h) kernel_env \<Rightarrow> 's file_layer \<Rightarrow> nat \<Rightarrow> nat \<Rightarrow> ('f, 'h, 's) call7" where
  "sys7_open env L path flags k =
     run_res (k7_current k) (\<lambda>p.
     run_res (translate7 env ''RV'' path p) (\<lambda>ptr.
       case ptr of
         None \<Rightarrow> Some (Inr (- 1, k))
       | Some pa \<Rightarrow>
           bind_run (map_option Inr (get_str (frames (machine7 k)) pa [])) (\<lambda>string.
           run_res (unwrap (open_flags_of flags)) (\<lambda>f.
           with_store7 (fl_open L string f) (\<lambda>r k1.
             case r of
               None \<Rightarrow> Some (Inr (- 1, k1))
             | Some file_handle \<Rightarrow>
                 let new_fd = length (p7_fds p) in
                 run_res (put_current7 (p\<lparr>p7_fds := p7_fds p @ [Some (FdFile file_handle)]\<rparr>) k1) (\<lambda>k2.
                   Some (Inr (usize_as_isize new_fd, k2)))) k))))"

definition sys7_close :: "nat \<Rightarrow> ('f, 'h, 's) call7" where
  "sys7_close fd k =
     run_res (k7_current k) (\<lambda>p.
       if length (p7_fds p) \<le> fd \<or> p7_fds p ! fd = None then Some (Inr (- 1, k))
       else run_res (put_current7 (p\<lparr>p7_fds := (p7_fds p)[fd := None]\<rparr>)
              (k\<lparr>pipes7 := drop_fds [p7_fds p ! fd] (pipes7 k)\<rparr>)) (\<lambda>k1. Some (Inr (0, k1))))"

text \<open>The two numbers are stored before the descriptors are pushed; a pipe that cannot be handed out is dropped.\<close>

definition sys7_pipe :: "('f, unit, 'h) kernel_env \<Rightarrow> nat \<Rightarrow> ('f, 'h, 's) call7" where
  "sys7_pipe env pipe k =
     run_res (k7_current k) (\<lambda>p.
     let i = length (pipes7 k); read_fd = length (p7_fds p); write_fd = read_fd + 1 in
     run_res (translate7 env ''W_V'' pipe p) (\<lambda>ptr.
       case ptr of
         None \<Rightarrow> Some (Inr (- 1, k))
       | Some pa \<Rightarrow>
           let k1 = put_user7 pa (le_bytes 8 read_fd) k in
           run_res (add_res usize_bound pipe 8) (\<lambda>addr.
           run_res (translate7 env ''W_V'' addr p) (\<lambda>ptr'.
             case ptr' of
               None \<Rightarrow> Some (Inr (- 1, k1))
             | Some pa' \<Rightarrow>
                 run_res (put_current7 (p\<lparr>p7_fds := p7_fds p @ [Some (FdPipeRead i), Some (FdPipeWrite i)]\<rparr>)
                     ((put_user7 pa' (le_bytes 8 write_fd) k1)\<lparr>pipes7 := pipes7 k @ [make_pipe]\<rparr>)) (\<lambda>k2.
                   Some (Inr (0, k2)))))))"

section \<open>Process calls\<close>

definition sys7_fork :: "('f, unit, 'h) kernel_env \<Rightarrow> ('f, 'h, 's) call7" where
  "sys7_fork env k =
     run_res (k7_current k) (\<lambda>p.
     bind_run (fork7 env p k) (\<lambda>(child_proc, k1).
     run_res (lc_set_a 0 0 (fc_context (p7_context child_proc))) (\<lambda>ctx.
     run_res (pm_add fifo_ops (p7_pid child_proc) (child_proc\<lparr>p7_context := (p7_context child_proc)\<lparr>fc_context := ctx\<rparr>\<rparr>)
         (p7_pid p) (processor7 k1)) (\<lambda>pm.
       Some (Inr (usize_as_isize (p7_pid child_proc), k1\<lparr>processor7 := pm\<rparr>))))))"

definition print_apps7 :: "byte list list \<Rightarrow> ('f, 'h, 's) kernel7 \<Rightarrow> ('f, 'h, 's) kernel7" where
  "print_apps7 names k = k\<lparr>out7 := out7 k @ concat (map (\<lambda>app. app @ [10]) names) @ [10]\<rparr>"

definition sys7_exec :: "('f, unit, 'h) kernel_env \<Rightarrow> 's file_layer \<Rightarrow> nat \<Rightarrow> nat \<Rightarrow> ('f, 'h, 's) call7" where
  "sys7_exec env L path cnt k =
     run_res (k7_current k) (\<lambda>p.
     run_res (translate7 env ''RV'' path p) (\<lambda>ptr.
     with_store7 (case ptr of None \<Rightarrow> return_io None | Some pa \<Rightarrow> fl_open L (get_user7 pa cnt k) 0) (\<lambda>opened k1.
       case opened of
         None \<Rightarrow>
           with_store7 (fl_readdir L) (\<lambda>names k2.
           run_res (unwrap names) (\<lambda>apps. Some (Inr (- 1, print_apps7 apps k2)))) k1
       | Some fd \<Rightarrow>
           bind_run (fl_read_all L fd (store7 k1)) (\<lambda>(elf_data, s).
           run_res (unwrap (ke_elf env elf_data)) (\<lambda>elf.
           bind_run (exec7 env elf p (k1\<lparr>store7 := s\<rparr>)) (\<lambda>(p', k2).
           run_res (put_current7 p' k2) (\<lambda>k3. Some (Inr (0, k3))))))) k))"

definition sys7_wait :: "('f, unit, 'h) kernel_env \<Rightarrow> int \<Rightarrow> nat \<Rightarrow> ('f, 'h, 's) call7" where
  "sys7_wait env pid exit_code_ptr k =
     run_res (k7_current k) (\<lambda>p.
     run_res (pm_wait (isize_as_usize pid) (processor7 k)) (\<lambda>(r, pm).
       let k1 = k\<lparr>processor7 := pm\<rparr>
       in case r of
            None \<Rightarrow> Some (Inr (- 1, k1))
          | Some (dead_pid, exit_code) \<Rightarrow>
              run_res (translate7 env ''W_V'' exit_code_ptr p) (\<lambda>ptr.
                Some (Inr (usize_as_isize dead_pid,
                  case ptr of None \<Rightarrow> k1 | Some pa \<Rightarrow> put_user7 pa (le_bytes 4 (i32_bits (int_as_i32 exit_code))) k1)))))"

definition sys7_getpid :: "('f, 'h, 's) call7" where
  "sys7_getpid k = run_res (k7_current k) (\<lambda>p. Some (Inr (usize_as_isize (p7_pid p), k)))"

definition sys7_sbrk :: "('f, unit, 'h) kernel_env \<Rightarrow> int \<Rightarrow> ('f, 'h, 's) call7" where
  "sys7_sbrk env sz k =
     run_res (k7_current k) (\<lambda>p.
     bind_run (sys_sbrk (ke_vm env) sz
         (\<lparr>brk_space = us_space (p7_space p), brk_heap_bottom = p7_heap_bottom p, brk_program_brk = p7_program_brk p\<rparr>, machine7 k))
       (\<lambda>(ret, b, mc).
     run_res (put_current7 (p\<lparr>p7_space := (p7_space p)\<lparr>us_space := brk_space b\<rparr>, p7_program_brk := brk_program_brk b\<rparr>)
         (k\<lparr>machine7 := mc\<rparr>)) (\<lambda>k1.
       Some (Inr (ret, k1)))))"

definition clock_gettime7 :: "('f, unit, 'h) kernel_env \<Rightarrow> nat \<Rightarrow> nat \<Rightarrow> ('f, 'h, 's) call7" where
  "clock_gettime7 env clock_id tp k =
     (if clock_id = 1 then
        run_res (k7_current k) (\<lambda>p.
        run_res (translate7 env ''W_V'' tp p) (\<lambda>ptr.
          case ptr of
            None \<Rightarrow> Some (Inr (- 1, k))
          | Some pa \<Rightarrow>
              if usize_bound \<le> time7 k * 10000 then Some (Inl ArithOverflow)
              else let time = time7 k * 10000 div 125
                   in Some (Inr (0, put_user7 pa (le_bytes 8 (time div 1000000000) @ le_bytes 8 (time mod 1000000000)) k))))
      else Some (Inr (- 1, k)))"

section \<open>Signal calls\<close>

definition sys7_kill :: "int \<Rightarrow> nat \<Rightarrow> ('f, 'h, 's) call7" where
  "sys7_kill pid signum k =
     run_res (pm_get_task fifo_ops (isize_as_usize pid) (processor7 k)) (\<lambda>target.
       case target of
         None \<Rightarrow> Some (Inr (- 1, k))
       | Some target_task \<Rightarrow>
           (case signal_no_try_from signum of
              None \<Rightarrow> Some (Inr (- 1, k))
            | Some signal_no \<Rightarrow>
                if signal_no \<noteq> SIG_ERR
                then run_res (put_task7 (isize_as_usize pid)
                       (target_task\<lparr>p7_signal := add_signal signal_no (p7_signal target_task)\<rparr>) k) (\<lambda>k1. Some (Inr (0, k1)))
                else Some (Inr (- 1, k))))"

text \<open>The two halves of \<^verbatim>\<open>sigaction\<close>; \<^verbatim>\<open>None\<close> is the early return of -1.\<close>

definition give_old_action7 ::
  "('f, unit, 'h) kernel_env \<Rightarrow> nat \<Rightarrow> nat \<Rightarrow> 'f process7 \<Rightarrow> ('f, 'h, 's) kernel7 \<Rightarrow> ('f, 'h, 's) kernel7 option res" where
  "give_old_action7 env signal_no old_action p k =
     (if old_action = 0 then Inr (Some k)
      else bind_res (translate7 env ''W_V'' old_action p) (\<lambda>ptr.
        case ptr of
          None \<Rightarrow> Inr None
        | Some pa \<Rightarrow>
            bind_res (get_action_ref signal_no (p7_signal p)) (\<lambda>r.
              Inr (map_option (\<lambda>a. put_user7 pa (action_bytes a) k) r))))"

definition take_new_action7 ::
  "('f, unit, 'h) kernel_env \<Rightarrow> nat \<Rightarrow> nat \<Rightarrow> 'f process7 \<Rightarrow> ('f, 'h, 's) kernel7 \<Rightarrow> ('f, 'h, 's) kernel7 option res" where
  "take_new_action7 env signal_no action p k =
     (if action = 0 then Inr (Some k)
      else bind_res (translate7 env ''RV'' action p) (\<lambda>ptr.
        case ptr of
          None \<Rightarrow> Inr None
        | Some pa \<Rightarrow>
            bind_res (set_action signal_no (action_of (get_user7 pa 16 k)) (p7_signal p)) (\<lambda>(b, sg).
            bind_res (put_current7 (p\<lparr>p7_signal := sg\<rparr>) k) (\<lambda>k1. Inr (if b then Some k1 else None)))))"

definition sys7_sigaction :: "('f, unit, 'h) kernel_env \<Rightarrow> nat \<Rightarrow> nat \<Rightarrow> nat \<Rightarrow> ('f, 'h, 's) call7" where
  "sys7_sigaction env signum action old_action k =
     (if MAX_SIG < signum then Some (Inr (- 1, k))
      else
        run_res (k7_current k) (\<lambda>p.
          case signal_no_try_from signum of
            None \<Rightarrow> Some (Inr (- 1, k))
          | Some signal_no \<Rightarrow>
              if signal_no = SIG_ERR then Some (Inr (- 1, k))
              else run_res (give_old_action7 env signal_no old_action p k) (\<lambda>r.
                case r of
                  None \<Rightarrow> Some (Inr (- 1, k))
                | Some k1 \<Rightarrow>
                    run_res (take_new_action7 env signal_no action p k1) (\<lambda>r'.
                      case r' of None \<Rightarrow> Some (Inr (- 1, k1)) | Some k2 \<Rightarrow> Some (Inr (0, k2))))))"

definition sys7_sigprocmask :: "nat \<Rightarrow> ('f, 'h, 's) call7" where
  "sys7_sigprocmask msk k =
     run_res (k7_current k) (\<lambda>p.
       let (old, sg) = update_mask msk (p7_signal p)
       in run_res (put_current7 (p\<lparr>p7_signal := sg\<rparr>) k) (\<lambda>k1. Some (Inr (usize_as_isize old, k1))))"

definition sys7_sigreturn :: "('f, 'h, 's) call7" where
  "sys7_sigreturn k =
     run_res (k7_current k) (\<lambda>p.
       let (b, sg, ctx) = sig_return (p7_signal p) (fc_context (p7_context p))
       in run_res (put_current7 (p\<lparr>p7_signal := sg, p7_context := (p7_context p)\<lparr>fc_context := ctx\<rparr>\<rparr>) k) (\<lambda>k1.
            Some (Inr (if b then 0 else - 1, k1))))"

section \<open>The main loop\<close>

definition subsystems7 :: "subsystem set" where
  "subsystems7 = {IO, PROCESS, SCHEDULING, CLOCK, SIGNAL}"

fun syscall7 :: "('f, unit, 'h) kernel_env \<Rightarrow> 's file_layer \<Rightarrow> syscall \<Rightarrow> ('f, 'h, 's) call7" where
  "syscall7 env L (SysWrite fd buf cnt) k = sys7_write env L fd buf cnt k"
| "syscall7 env L (SysRead fd buf cnt) k = sys7_read env L fd buf cnt k"
| "syscall7 env L (SysOpen path flags) k = sys7_open env L path flags k"
| "syscall7 env L (SysClose fd) k = sys7_close fd k"
| "syscall7 env L (SysPipe pipe) k = sys7_pipe env pipe k"
| "syscall7 env L (SysExit exit_code) k = Some (Inr (sys_exit exit_code, k))"
| "syscall7 env L SysFork k = sys7_fork env k"
| "syscall7 env L (SysExec path cnt) k = sys7_exec env L path cnt k"
| "syscall7 env L (SysWait pid exit_code_ptr) k = sys7_wait env pid exit_code_ptr k"
| "syscall7 env L SysGetpid k = sys7_getpid k"
| "syscall7 env L (SysSbrk sz) k = sys7_sbrk env sz k"
| "syscall7 env L SysSchedYield k = Some (Inr (0, k))"
| "syscall7 env L (SysClockGettime clock_id tp) k = clock_gettime7 env clock_id tp k"
| "syscall7 env L (SysKill pid signum) k = sys7_kill pid signum k"
| "syscall7 env L (SysSigaction signum action old_action) k = sys7_sigaction env signum action old_action k"
| "syscall7 env L (SysSigprocmask msk) k = sys7_sigprocmask msk k"
| "syscall7 env L SysSigreturn k = sys7_sigreturn k"
| "syscall7 env L _ k = Some (Inl Unimplemented)"

text \<open>A process that ends is deleted and drops its descriptors.\<close>

definition k7_exited :: "int \<Rightarrow> ('f, 'h, 's) kernel7 \<Rightarrow> ('f, 'h, 's) kernel7 res" where
  "k7_exited exit_code k =
     bind_res (k7_current k) (\<lambda>p.
     bind_res (pm_make_current_exited fifo_ops exit_code (processor7 k)) (\<lambda>pm.
       Inr (k\<lparr>processor7 := pm, pipes7 := drop_fds (p7_fds p) (pipes7 k)\<rparr>)))"

definition k7_suspend :: "('f, 'h, 's) kernel7 \<Rightarrow> ('f, 'h, 's) kernel7 res" where
  "k7_suspend k = bind_res (pm_make_current_suspend fifo_ops (processor7 k)) (\<lambda>pm. Inr (k\<lparr>processor7 := pm\<rparr>))"

definition finish7 :: "nat \<Rightarrow> syscall_result \<Rightarrow> ('f, 'h, 's) kernel7 \<Rightarrow> ('f, 'h, 's) kernel7 res" where
  "finish7 i r k =
     (case r of
        Done ret \<Rightarrow>
          if i = 93 then k7_exited ret k
          else bind_res (k7_current k) (\<lambda>task.
               bind_res (lc_set_a 0 (isize_as_usize ret) (fc_context (p7_context task))) (\<lambda>ctx.
               bind_res (put_current7 (task\<lparr>p7_context := (p7_context task)\<lparr>fc_context := ctx\<rparr>\<rparr>) k) k7_suspend))
      | Unsupported _ \<Rightarrow> k7_exited (- 2) k)"

definition signal_step7 :: "('f, 'h, 's) kernel7 \<Rightarrow> (signal_result \<times> ('f, 'h, 's) kernel7) res" where
  "signal_step7 k =
     bind_res (k7_current k) (\<lambda>task.
     bind_res (handle_signals (p7_signal task) (fc_context (p7_context task))) (\<lambda>(r, sg, ctx).
     bind_res (put_current7 (task\<lparr>p7_signal := sg, p7_context := (p7_context task)\<lparr>fc_context := ctx\<rparr>\<rparr>) k) (\<lambda>k1.
       Inr (r, k1))))"

definition serve7 :: "('f, unit, 'h) kernel_env \<Rightarrow> 's file_layer \<Rightarrow> ('f, 'h, 's) kernel7 \<Rightarrow> ('f, 'h, 's) kernel7 run" where
  "serve7 env L k =
     run_res (k7_current k) (\<lambda>task.
     let ctx = lc_move_next (fc_context (p7_context task)) in
     run_res (put_current7 (task\<lparr>p7_context := (p7_context task)\<lparr>fc_context := ctx\<rparr>\<rparr>) k) (\<lambda>k1.
     run_res (lc_a 7 ctx) (\<lambda>i.
     run_res (lc_a 0 ctx) (\<lambda>a0. run_res (lc_a 1 ctx) (\<lambda>a1. run_res (lc_a 2 ctx) (\<lambda>a2.
     run_res (lc_a 3 ctx) (\<lambda>a3. run_res (lc_a 4 ctx) (\<lambda>a4. run_res (lc_a 5 ctx) (\<lambda>a5.
     bind_run (handle subsystems7 (syscall7 env L) i [a0, a1, a2, a3, a4, a5] k1) (\<lambda>(r, k2).
     run_res (signal_step7 k2) (\<lambda>(sr, k3).
       case sr of
         ProcessKilled exit_code \<Rightarrow> Some (k7_exited exit_code k3)
       | _ \<Rightarrow> Some (finish7 i r k3))))))))))))"

definition kernel7_turn ::
  "('f, unit, 'h) kernel_env \<Rightarrow> 's file_layer \<Rightarrow> user_program \<Rightarrow> ('f, 'h, 's) kernel7 \<Rightarrow> (bool \<times> ('f, 'h, 's) kernel7) run" where
  "kernel7_turn env L user k =
     run_res (pm_find_next fifo_ops (processor7 k)) (\<lambda>(next_task, pm).
       case next_task of
         None \<Rightarrow> Some (Inr (False, k\<lparr>processor7 := pm\<rparr>))
       | Some task \<Rightarrow>
           let (fc, fr, ecall) = user (p7_context task) (frames (machine7 k));
               k1 = k\<lparr>processor7 := pm, machine7 := (machine7 k)\<lparr>frames := fr\<rparr>\<rparr>
           in run_res (put_current7 (task\<lparr>p7_context := fc\<rparr>) k1) (\<lambda>k2.
              bind_run (if ecall then serve7 env L k2 else Some (k7_exited (- 3) k2)) (\<lambda>k3.
                Some (Inr (True, k3)))))"

definition kernel7_init :: "'s \<Rightarrow> 'h machine \<Rightarrow> ('f, 'h, 's) kernel7" where
  "kernel7_init s mc = \<lparr>processor7 = pm_new, next_pid7 = 0, machine7 = mc, out7 = [], in7 = [], time7 = 0, pipes7 = [], store7 = s\<rparr>"

definition boot7 :: "('f, unit, 'h) kernel_env \<Rightarrow> 's file_layer \<Rightarrow> 's \<Rightarrow> 'h machine \<Rightarrow> ('f, 'h, 's) kernel7 run" where
  "boot7 env L s mc =
     run_res (fl_open L (map (of_nat \<circ> of_char) ''initproc'') 0 s) (\<lambda>(opened, s1).
     run_res (unwrap opened) (\<lambda>fd.
     bind_run (fl_read_all L fd s1) (\<lambda>(initproc, s2).
     run_res (unwrap (ke_elf env initproc)) (\<lambda>elf.
     bind_run (from_elf7 env elf (kernel7_init s2 mc)) (\<lambda>(r, k).
       case r of
         None \<Rightarrow> Some (Inr k)
       | Some process \<Rightarrow>
           run_res (pm_add fifo_ops (p7_pid process) process pid_any (pm_set_manager thread_manager_new (processor7 k))) (\<lambda>pm.
             Some (Inr (k\<lparr>processor7 := pm\<rparr>))))))))"

end
