(* ===== verification/File_Calls.thy ===== *)
theory File_Calls
  imports File_Kernel
begin

text \<open>
  What the file system calls of chapter 6 do: reading a whole file ends and returns its contents, opening follows the flags, and
  what a process writes through one descriptor it reads back through another. The results are stated over the abstract file
  system of \<open>Fs_Refinement\<close>, which the block cache of the kernel implements.
\<close>

section \<open>Reading a whole file\<close>

context block_store
begin

lemma read_all_loop_returns:
  assumes "ok s" "locked s = []" "fs_ok fs (view s)" "files fs (view s) i = Some (t, l, bs)"
    and "length buffer = 512" "off \<le> length bs"
  shows "\<exists>s'. read_all_loop ops (ino fs i) off buffer v s = Some (Inr (v @ drop off bs, s')) \<and> ok s' \<and> view s' = view s \<and> locked s' = []"
  using assms
proof (induction "length bs - off" arbitrary: off buffer v s rule: less_induct)
  case less
  obtain di where di: "di_size di = length bs" "di_ok di" by (rule files_inode [OF less.prems(3,4)])
  then have "off + length buffer < usize_bound" using less.prems(5,6) by (simp add: di_ok_def di_wf_def)
  from returns_inode_read_at [OF less.prems(1-4) this]
  obtain s1 where s1: "inode_read_at ops (ino fs i) off buffer s =
      Inr ((min 512 (length bs - off), copy_into 0 (slice_of off (min 512 (length bs - off)) bs) buffer), s1)"
    "ok s1" "view s1 = view s" "locked s1 = []"
    using less.prems(2,5) by (auto simp: store_returns_def)
  define n where "n = min 512 (length bs - off)"
  show ?case
  proof (cases "n = 0")
    case True
    then have "drop off bs = []" by (simp add: n_def)
    then show ?thesis using s1 True by (subst read_all_loop.simps) (simp add: n_def)
  next
    case False
    let ?buf = "copy_into 0 (slice_of off n bs) buffer"
    have buf: "length ?buf = 512" "take n ?buf = slice_of off n bs"
      using less.prems(5) by (simp_all add: copy_into_def slice_of_def n_def)
    have "length bs - (off + n) < length bs - off" using False by (simp add: n_def)
    moreover have "off + n \<le> length bs" using less.prems(6) by (simp add: n_def)
    ultimately obtain s2 where
      s2: "read_all_loop ops (ino fs i) (off + n) ?buf (v @ slice_of off n bs) s1 = Some (Inr ((v @ slice_of off n bs) @ drop (off + n) bs, s2))"
        "ok s2" "view s2 = view s1" "locked s2 = []"
      using less.hyps [OF _ s1(2,4) _ _ buf(1), of "off + n" "v @ slice_of off n bs"] less.prems(3,4) s1(3) by auto
    have "slice_of off n bs @ drop (off + n) bs = drop off bs" by (simp add: slice_of_def add.commute flip: drop_drop)
    then show ?thesis
      using s1(1,3) s2 False buf(2) by (subst read_all_loop.simps) (simp flip: n_def)
  qed
qed

end

section \<open>Opening\<close>

text \<open>
  The specification: \<^verbatim>\<open>CREATE\<close> and \<^verbatim>\<open>TRUNC\<close> empty a file that exists, \<^verbatim>\<open>CREATE\<close> creates one that does not, and
  other names are not found.
\<close>

definition opened_as :: "easy_fs \<Rightarrow> open_flags \<Rightarrow> nat \<Rightarrow> file_handle" where
  "opened_as fs flags j = fh_new (fst (read_write flags)) (snd (read_write flags)) (ino fs j)"

definition spec_open :: "easy_fs \<Rightarrow> byte list \<Rightarrow> open_flags \<Rightarrow> abstract_fs \<Rightarrow> (file_handle option \<times> abstract_fs) option" where
  "spec_open fs path flags A =
     (case map_of (entries A) path of
        Some j \<Rightarrow>
          if bit flags O_CREATE \<or> bit flags O_TRUNC
          then map_option (\<lambda>(_, A'). (Some (opened_as fs flags j), A')) (spec_op fs (ClearFile j) A)
          else Some (Some (opened_as fs flags j), A)
      | None \<Rightarrow>
          if bit flags O_CREATE
          then case find (\<lambda>j. nodes A j = None) [1..<limit A] of None \<Rightarrow> None | Some j \<Rightarrow>
                 map_option (\<lambda>A'. (Some (opened_as fs flags j), A'\<lparr>nodes := (nodes A')(j \<mapsto> (1, []))\<rparr>)) (add_entry path j A)
          else Some (None, A))"

definition manager_of :: "'s block_ops \<Rightarrow> easy_fs \<Rightarrow> 's file_system" where
  "manager_of ops fs = \<lparr>fm_root = ino fs 0, fm_efs = fs, fm_ops = ops\<rparr>"

lemma manager_of_simps [simp]:
  "fm_root (manager_of ops fs) = ino fs 0" "fm_efs (manager_of ops fs) = fs" "fm_ops (manager_of ops fs) = ops"
  by (simp_all add: manager_of_def)

context block_store
begin

lemma simulates_runs:
  assumes "simulates fs op s r A" "serve_op ops fs op = map_io f m"
  shows "runs m s (\<lambda>a v. f a = r \<and> abstracts fs v A)"
  by (rule runs_unmap) (use assms in simp)

lemma runs_fs_open:
  assumes s: "ok s" "locked s = []" "abstracts fs (view s) A" and op: "spec_open fs path flags A = Some (r, A')"
  shows "runs (fs_open (manager_of ops fs) path flags) s (\<lambda>x v. x = r \<and> abstracts fs v A')"
proof -
  obtain rd wr where rw: "read_write flags = (rd, wr)" by fastforce
  let ?found = "map_option (ino fs) (map_of (entries A) path)"
  have find: "runs (fs_find (manager_of ops fs) path) s (\<lambda>x v. RInode x = RInode ?found \<and> abstracts fs v A)"
    unfolding fs_find_def manager_of_simps by (rule simulates_runs [OF runs_serve_op [OF s, of "FindFile path"]]) simp_all
  have clear: "runs (bind_io (inode_clear ops fs (ino fs j)) (\<lambda>_. return_io y)) s1 (\<lambda>a v. a = y \<and> abstracts fs v A1)"
    if "ok s1" "locked s1 = locked s" "abstracts fs (view s1) A" "spec_op fs (ClearFile j) A = Some (x, A1)" for j s1 x A1 y
  proof (rule runs_bind)
    show "runs (inode_clear ops fs (ino fs j)) s1 (\<lambda>a v. RUnit = x \<and> abstracts fs v A1)"
      by (rule simulates_runs [OF runs_serve_op [OF that(1) _ that(3,4)]]) (use that(2) s(2) in simp_all)
  qed (auto intro: runs_return)
  show ?thesis
  proof (cases "map_of (entries A) path")
    case None
    show ?thesis
    proof (cases "bit flags O_CREATE")
      case True
      obtain j A1 where j: "find (\<lambda>j. nodes A j = None) [1..<limit A] = Some j" "add_entry path j A = Some A1"
        "r = Some (opened_as fs flags j)" "A' = A1\<lparr>nodes := (nodes A1)(j \<mapsto> (1, []))\<rparr>"
        using op None True by (auto simp: spec_open_def split: option.split_asm)
      have create: "runs (bind_io (inode_create ops fs (ino fs 0) path) (\<lambda>nd. return_io (map_option (fh_new rd wr) nd))) s1
          (\<lambda>x v. x = r \<and> abstracts fs v A')" if "ok s1" "locked s1 = locked s" "abstracts fs (view s1) A" for s1
      proof (rule runs_bind)
        show "runs (inode_create ops fs (ino fs 0) path) s1 (\<lambda>x v. RInode x = RInode (Some (ino fs j)) \<and> abstracts fs v A')"
          by (rule simulates_runs [OF runs_serve_op [OF that(1) _ that(3), of "CreateFile path"]]) (use that(2) s(2) j in simp_all)
      qed (auto simp: j(3) opened_as_def rw intro!: runs_return)
      then show ?thesis
        using find None True unfolding fs_open_def rw Let_def by (auto elim!: runs_bind)
    next
      case False
      then have "r = None" "A' = A" using op None by (simp_all add: spec_open_def)
      then show ?thesis
        using find None False unfolding fs_open_def rw Let_def by (auto intro!: runs_return elim!: runs_bind)
    qed
  next
    case (Some j)
    show ?thesis
    proof (cases "bit flags O_CREATE \<or> bit flags O_TRUNC")
      case True
      then obtain x where x: "spec_op fs (ClearFile j) A = Some (x, A')" "r = Some (opened_as fs flags j)"
        using op Some by (auto simp: spec_open_def)
      then show ?thesis
        using find Some True clear [OF _ _ _ x(1)] unfolding fs_open_def rw Let_def
        by (auto simp: opened_as_def rw elim!: runs_bind)
    next
      case False
      then have "r = Some (opened_as fs flags j)" "A' = A" using op Some by (simp_all add: spec_open_def)
      then show ?thesis
        using find Some False unfolding fs_open_def rw Let_def
        by (auto simp: opened_as_def rw intro!: runs_return elim!: runs_bind)
    qed
  qed
qed

end


section \<open>Calls of a process\<close>

lemma set_fds_simps [simp]:
  "fds_of (set_fds fds p) = fds" "set_fds fds (set_fds fds' p) = set_fds fds p"
  "k_translate env flags addr (set_fds fds p) = k_translate env flags addr p"
  "proc_ok b i (set_fds fds p) = proc_ok b i p"
  by (simp_all add: set_fds_def k_translate_def)

text \<open>The cache of the kernel implements the file system \<open>A\<close>, and no block is taken.\<close>

definition fs_state :: "easy_fs \<Rightarrow> ('f, 'h, cache_manager) kernel6 \<Rightarrow> abstract_fs \<Rightarrow> bool" where
  "fs_state fs k A \<longleftrightarrow> cache_ok (fs_store k) \<and> held (fs_store k) = [] \<and> abstracts fs (cache_view (fs_store k)) A"

text \<open>Writing the table of the current process back.\<close>

lemma write_fds:
  assumes S: "serving b i k" and p: "k_current k = Inr p"
  obtains k' where "k_write_current (set_fds fds p) (k\<lparr>fs_store := s\<rparr>) = Inr k'" "serving b i k'"
    "k_current k' = Inr (set_fds fds p)" "kmachine k' = kmachine k" "fs_store k' = s"
proof -
  have "serving b i (k\<lparr>fs_store := s\<rparr>)" using S by (simp add: serving_def k_inv_def)
  moreover have "proc_ok b i (set_fds fds p)" using k_current_ok [OF S p] by simp
  ultimately obtain pm where "k_write_current (set_fds fds p) (k\<lparr>fs_store := s\<rparr>) = Inr (k\<lparr>fs_store := s\<rparr>\<lparr>processor := pm\<rparr>)"
    "serving b i (k\<lparr>fs_store := s\<rparr>\<lparr>processor := pm\<rparr>)" "k_current (k\<lparr>fs_store := s\<rparr>\<lparr>processor := pm\<rparr>) = Inr (set_fds fds p)"
    using serving_write by blast
  then show ?thesis by (rule that) simp_all
qed

lemma sys6_open_ok:
  assumes S: "serving b i k" and p: "k_current k = Inr p" and A: "fs_state fs k A"
    and path: "k_translate env ''RV'' path p = Inr (Some pa)" "get_str (frames (kmachine k)) pa [] = Some name"
    and f: "open_flags_of flags = Some f" "spec_open fs name f A = Some (Some fh, A')" and n: "length (fds_of p) < 2 ^ 63"
  obtains k' where "sys6_open env (manager_of cache_ops fs) path flags k = Some (Inr (int (length (fds_of p)), k'))" "serving b i k'"
    "k_current k' = Inr (set_fds (fds_of p @ [Some fh]) p)" "kmachine k' = kmachine k" "fs_state fs k' A'"
proof -
  have s: "cache_ok (fs_store k)" "held (fs_store k) = []" "abstracts fs (cache_view (fs_store k)) A" using A by (simp_all add: fs_state_def)
  obtain s' where s': "fs_open (manager_of cache_ops fs) name f (fs_store k) = Inr (Some fh, s')" "cache_ok s'" "held s' = []"
    "abstracts fs (cache_view s') A'"
    by (rule abstracts_runs [OF s(1,2) cache_store.runs_fs_open [OF s f(2)]])
  obtain k' where k': "k_write_current (set_fds (fds_of p @ [Some fh]) p) (k\<lparr>fs_store := s'\<rparr>) = Inr k'" "serving b i k'"
    "k_current k' = Inr (set_fds (fds_of p @ [Some fh]) p)" "kmachine k' = kmachine k" "fs_store k' = s'"
    by (rule write_fds [OF S p])
  have "sys6_open env (manager_of cache_ops fs) path flags k = Some (Inr (int (length (fds_of p)), k'))"
    using p path f(1) s'(1) k'(1) n by (simp add: sys6_open_def user_path_def with_store_def usize_as_isize_def)
  then show ?thesis by (rule that) (use k'(2-5) s'(2-4) in \<open>simp_all add: fs_state_def\<close>)
qed

lemma sys6_write_ok:
  assumes S: "serving b i k" and p: "k_current k = Inr p" and A: "fs_state fs k A"
    and buf: "k_translate env ''RV'' buf p = Inr (Some pa)" and fd: "3 \<le> fd" "fd < length (fds_of p)" "fds_of p ! fd = Some fh"
    and fh: "writable fh" "fh_inode fh = Some (ino fs j)" and nd: "nodes A j = Some (l, bs)"
    and g: "0 < cnt" "grows A (length bs) (max (length bs) (fh_offset fh + cnt))"
  defines "bytes \<equiv> read_phys pa cnt (frames (kmachine k))"
  obtains k' where "sys6_write env (manager_of cache_ops fs) fd buf cnt k = Some (Inr (int cnt, k'))" "serving b i k'"
    "k_current k' = Inr (set_fds ((fds_of p)[fd := Some (fh\<lparr>fh_offset := fh_offset fh + cnt\<rparr>)]) p)" "kmachine k' = kmachine k"
    "fs_state fs k' (A\<lparr>nodes := (nodes A)(j \<mapsto> (l, write_bytes (fh_offset fh) bytes bs)),
      free := free A + total_blocks (length bs) - total_blocks (max (length bs) (fh_offset fh + cnt))\<rparr>)"
proof -
  let ?off = "fh_offset fh" and ?fh = "fh\<lparr>fh_offset := fh_offset fh + cnt\<rparr>"
  let ?A = "A\<lparr>nodes := (nodes A)(j \<mapsto> (l, write_bytes ?off bytes bs)), free := free A + total_blocks (length bs) - total_blocks (max (length bs) (?off + cnt))\<rparr>"
  have s: "cache_ok (fs_store k)" "held (fs_store k) = []" "abstracts fs (cache_view (fs_store k)) A" using A by (simp_all add: fs_state_def)
  have len: "length bytes = cnt" by (simp add: bytes_def read_phys_def)
  then have ne: "\<forall>sl \<in> set [bytes]. sl \<noteq> []" using g(1) by auto
  have g': "grows A (length bs) (max (length bs) (?off + length (concat [bytes])))" using g(2) len by simp
  have "max (length bs) (?off + cnt) < u32_bound" using g(2) by (intro cache_store.size_bound) (simp add: grows_def)
  then have i: "usize_as_isize cnt = int cnt" by (simp add: usize_as_isize_def)
  obtain s' where s': "write_slices cache_ops fs (ino fs j) [bytes] ?off 0 (fs_store k) = Inr ((cnt, ?off + cnt), s')" "cache_ok s'" "held s' = []"
    "abstracts fs (cache_view s') ?A"
    by (rule abstracts_runs [OF s(1,2) cache_store.runs_write_slices [OF s nd ne _ g', of 0, unfolded concat.simps append_Nil2 len add_0]]) auto
  obtain k' where k': "k_write_current (set_fds ((fds_of p)[fd := Some ?fh]) p) (k\<lparr>fs_store := s'\<rparr>) = Inr k'" "serving b i k'"
    "k_current k' = Inr (set_fds ((fds_of p)[fd := Some ?fh]) p)" "kmachine k' = kmachine k" "fs_store k' = s'"
    by (rule write_fds [OF S p])
  have "fh_write_buf cache_ops fs fh [bytes] (fs_store k) = Inr ((int cnt, ?fh), s')"
    using s'(1) fh(2) i by (simp add: fh_write_buf_def bind_io_def return_io_def)
  then have "sys6_write env (manager_of cache_ops fs) fd buf cnt k = Some (Inr (int cnt, k'))"
    using p buf fd fh(1) k'(1) by (simp add: sys6_write_def with_store_def bytes_def [symmetric] index_res_def)
  then show ?thesis by (rule that) (use k'(2-5) s'(2-4) in \<open>simp_all add: fs_state_def\<close>)
qed

lemma read_phys_write_phys: "read_phys pa (length bs) (write_phys pa bs fr) = bs"
  by (rule nth_equalityI) (auto simp: read_phys_def write_phys_def Let_def)

lemma sys6_read_ok:
  assumes S: "serving b i k" and p: "k_current k = Inr p" and A: "fs_state fs k A"
    and buf: "k_translate env ''W_V'' buf p = Inr (Some pa)" and fd: "3 \<le> fd" "fd < length (fds_of p)" "fds_of p ! fd = Some fh"
    and fh: "readable fh" "fh_inode fh = Some (ino fs j)" and nd: "nodes A j = Some (l, bs)"
    and n: "0 < cnt" "fh_offset fh + cnt < usize_bound"
  defines "m \<equiv> min cnt (length bs - fh_offset fh)"
  obtains k' where "sys6_read env (manager_of cache_ops fs) fd buf cnt k = Some (Inr (int m, k'))" "serving b i k'"
    "k_current k' = Inr (set_fds ((fds_of p)[fd := Some (fh\<lparr>fh_offset := fh_offset fh + m\<rparr>)]) p)"
    "frames (kmachine k') = write_phys pa (slice_of (fh_offset fh) m bs @ drop m (read_phys pa cnt (frames (kmachine k)))) (frames (kmachine k))"
    "fs_state fs k' A"
proof -
  let ?off = "fh_offset fh" and ?fh = "fh\<lparr>fh_offset := fh_offset fh + m\<rparr>"
  let ?old = "read_phys pa cnt (frames (kmachine k))"
  have s: "cache_ok (fs_store k)" "held (fs_store k) = []" "abstracts fs (cache_view (fs_store k)) A" using A by (simp_all add: fs_state_def)
  have fs: "fs_ok fs (cache_view (fs_store k))" using s(3) by (simp add: abstracts_def)
  have len: "length ?old = cnt" by (simp add: read_phys_def)
  then have ne: "\<forall>sl \<in> set [?old]. sl \<noteq> []" using n(1) by auto
  note f = nodes_files(1) [OF s(3) nd]
  obtain di where di: "di_size di = length bs" "di_ok di" by (rule files_inode [OF fs f])
  then have "length bs < u32_bound" by (simp add: di_ok_def di_wf_def)
  then have i: "usize_as_isize m = int m" by (simp add: usize_as_isize_def m_def)
  obtain s' sl where s': "read_slices cache_ops (ino fs j) [?old] ?off 0 (fs_store k) = Inr ((m, ?off + m, sl), s')" "cache_ok s'" "held s' = []"
    "concat sl = slice_of ?off m bs @ drop m ?old" "cache_view s' = cache_view (fs_store k)"
    using cache_store.runs_read_slices [OF s(1,2) fs f ne, of ?off 0] s(2) n(2) len by (auto simp: store_runs_def m_def)
  obtain k' where k': "k_write_current (set_fds ((fds_of p)[fd := Some ?fh]) p) (k\<lparr>fs_store := s'\<rparr>) = Inr k'" "serving b i k'"
    "k_current k' = Inr (set_fds ((fds_of p)[fd := Some ?fh]) p)" "kmachine k' = kmachine k" "fs_store k' = s'"
    by (rule write_fds [OF S p])
  have "fh_read_buf cache_ops fh [?old] (fs_store k) = Inr ((int m, ?fh, sl), s')"
    using s'(1) fh(2) i by (simp add: fh_read_buf_def bind_io_def return_io_def)
  then have "sys6_read env (manager_of cache_ops fs) fd buf cnt k = Some (Inr (int m, put_user pa (concat sl) k'))"
    using p buf fd fh(1) k'(1) by (simp add: sys6_read_def with_store_def index_res_def)
  then show ?thesis
    by (rule that) (use k'(2-5) s'(2-5) s(3) in \<open>simp_all add: fs_state_def put_user_def k_current_def\<close>)
qed


section \<open>Properties\<close>

text \<open>
  C37. Reading a whole file ends and returns its contents: for every handle of a file of the file system the loop of \<^verbatim>\<open>read_all\<close>
  reaches the end of the file, whatever its length, returns exactly its bytes and leaves the file system as it is.
\<close>

theorem read_all_returns_contents:
  assumes "cache_ok s" "held s = []" "abstracts fs (cache_view s) A" "nodes A i = Some (l, bs)" "fh_inode fd = Some (ino fs i)"
  shows "\<exists>s'. read_all cache_ops fd s = Some (Inr (bs, s')) \<and> cache_ok s' \<and> held s' = [] \<and> abstracts fs (cache_view s') A"
proof -
  have fs: "fs_ok fs (cache_view s)" using assms(3) by (simp add: abstracts_def)
  note f = nodes_files(1) [OF assms(3,4)]
  obtain s' where "read_all_loop cache_ops (ino fs i) 0 (replicate 512 0) [] s = Some (Inr ([] @ drop 0 bs, s'))" "cache_ok s'"
    "cache_view s' = cache_view s" "held s' = []"
    using cache_store.read_all_loop_returns [OF assms(1,2) fs f, of "replicate 512 0" 0 "[]"] by auto
  then show ?thesis using assms(3,5) by (auto simp: read_all_def)
qed

lemma one_file_contents:
  obtains s A where "cache_ok s" "held s = []" "abstracts (formatted 6000 1) (cache_view s) A" "nodes A 1 = Some (1, [0, 0, 7])"
    "entries A = [([97], 1)]"
proof -
  obtain s A where s: "cache_ok s" "held s = []" "abstracts (formatted 6000 1) (cache_view s) A" "nodes A 1 = Some (1, [])" "free A = 8191"
    "entries A = [([97], 1)]" by (rule one_file)
  have w: "write_bytes 2 [7] [] = [0, 0, 7]" by code_simp
  have "grows A 0 3" using s(5) by (simp add: grows_def total_blocks_def data_blocks_of_def div_ceil_def)
  then have op: "spec_op (formatted 6000 1) (WriteFile 1 2 [7]) A = Some (RNum 1, A\<lparr>nodes := (nodes A)(1 \<mapsto> (1, [0, 0, 7])),
      free := free A + total_blocks 0 - total_blocks 3\<rparr>)"
    using s(4) w by (simp add: Let_def)
  obtain s' where "cache_ok s'" "held s' = []" "abstracts (formatted 6000 1) (cache_view s') (A\<lparr>nodes := (nodes A)(1 \<mapsto> (1, [0, 0, 7])),
      free := free A + total_blocks 0 - total_blocks 3\<rparr>)"
    by (rule abstracts_runs [OF s(1,2) cache_store.runs_serve_op [OF s(1-3) op]])
  then show ?thesis by (rule that) (simp_all add: s(6))
qed

theorem read_all_returns_contents_witness:
  "\<exists>s s'. read_all cache_ops (fh_new True False (ino (formatted 6000 1) 1)) s = Some (Inr ([0, 0, 7], s'))"
proof -
  obtain s A where s: "cache_ok s" "held s = []" "abstracts (formatted 6000 1) (cache_view s) A" "nodes A 1 = Some (1, [0, 0, 7])"
    by (rule one_file_contents)
  from read_all_returns_contents [OF s, of "fh_new True False (ino (formatted 6000 1) 1)"] show ?thesis by (auto simp: fh_new_def)
qed

text \<open>
  C38. Opening follows the flags: with \<^verbatim>\<open>CREATE\<close> or \<^verbatim>\<open>TRUNC\<close> a file that exists is emptied and its blocks are free again, with \<^verbatim>\<open>CREATE\<close> a
  name that does not exist gets a new empty file with one link, without \<^verbatim>\<open>CREATE\<close> it is not found, and no other file changes. The
  handle starts at offset 0 and may read unless \<^verbatim>\<open>WRONLY\<close> is set and write unless no flag is set.
\<close>

theorem fs_open_follows_flags:
  assumes "cache_ok s" "held s = []" "abstracts fs (cache_view s) A" "spec_open fs path flags A = Some (r, A')"
  shows "(\<exists>s'. fs_open (manager_of cache_ops fs) path flags s = Inr (r, s') \<and> cache_ok s' \<and> held s' = [] \<and> abstracts fs (cache_view s') A') \<and>
    (\<forall>fh. r = Some fh \<longrightarrow> fh_offset fh = 0 \<and> (readable fh \<longleftrightarrow> \<not> bit flags 0) \<and> (writable fh \<longleftrightarrow> flags \<noteq> 0))"
proof (intro conjI allI impI)
  show "\<exists>s'. fs_open (manager_of cache_ops fs) path flags s = Inr (r, s') \<and> cache_ok s' \<and> held s' = [] \<and> abstracts fs (cache_view s') A'"
    by (rule abstracts_runs [OF assms(1,2) cache_store.runs_fs_open [OF assms]]) blast
  fix fh assume "r = Some fh"
  then obtain j where "fh = opened_as fs flags j"
    using assms(4) by (auto simp: spec_open_def split: option.split_asm if_split_asm)
  then show "fh_offset fh = 0" "readable fh \<longleftrightarrow> \<not> bit flags 0" "writable fh \<longleftrightarrow> flags \<noteq> 0"
    by (auto simp: opened_as_def fh_new_def read_write_def readable_def writable_def)
qed

theorem fs_open_follows_flags_witness:
  "\<exists>s s' A'. fs_open (manager_of cache_ops (formatted 6000 1)) [97] 1025 s = Inr (Some (fh_new False True (ino (formatted 6000 1) 1)), s') \<and>
    abstracts (formatted 6000 1) (cache_view s') A' \<and> nodes A' 1 = Some (1, [])"
proof -
  obtain s A where s: "cache_ok s" "held s = []" "abstracts (formatted 6000 1) (cache_view s) A" "nodes A 1 = Some (1, [0, 0, 7])"
    "entries A = [([97], 1)]" by (rule one_file_contents)
  have f: "bit (1025 :: open_flags) 0" "bit (1025 :: open_flags) O_TRUNC" "1025 \<noteq> (0 :: open_flags)" by simp_all
  then have "spec_open (formatted 6000 1) [97] 1025 A = Some (Some (fh_new False True (ino (formatted 6000 1) 1)),
      A\<lparr>nodes := (nodes A)(1 \<mapsto> (1, [])), free := free A + total_blocks 3\<rparr>)"
    using s(4,5) by (simp add: spec_open_def opened_as_def read_write_def numeral_3_eq_3)
  from fs_open_follows_flags [OF s(1-3) this] obtain s' A' where
    "fs_open (manager_of cache_ops (formatted 6000 1)) [97] 1025 s = Inr (Some (fh_new False True (ino (formatted 6000 1) 1)), s')"
    "abstracts (formatted 6000 1) (cache_view s') A'" "nodes A' 1 = Some (1, [])" by fastforce
  then show ?thesis by blast
qed


text \<open>A file opened for creation is empty and found under its name.\<close>

lemma spec_open_create:
  assumes "bit flags O_CREATE" "spec_open fs name flags A = Some (Some fh, A')"
  obtains j l where "fh = opened_as fs flags j" "map_of (entries A') name = Some j" "nodes A' j = Some (l, [])"
proof (cases "map_of (entries A) name")
  case None
  then show ?thesis
    using assms that by (auto simp: spec_open_def add_entry_def map_add_def split: option.split_asm if_split_asm)
next
  case (Some j)
  then show ?thesis using assms that by (auto simp: spec_open_def split: option.split_asm prod.split_asm)
qed

text \<open>A process with the sample space and the standard descriptors; the path "a" is in page 11 of the memory.\<close>

definition files_proc :: "(string, fd_table) proc" where
  "files_proc = \<lparr>proc_pid = 0, proc_context = \<lparr>fc_context = lc_user 4096, fc_satp = satp_of 1\<rparr>,
     process.address_space = \<lparr>us_space = sample_space, us_root = 1, us_files = fds_new\<rparr>, heap_bottom = 0, program_brk = 0,
     proc_stride = stride_new\<rparr>"

definition files_kernel :: "'s \<Rightarrow> (string, nat, 's) kernel6" where
  "files_kernel s = \<lparr>processor = \<lparr>rel_map = [0 \<mapsto> proc_rel_new pid_any],
     manager = Some \<lparr>tasks = [0 \<mapsto> files_proc], ready_queue = []\<rparr>, current = Some 0\<rparr>, next_pid = 1,
     kmachine = sample_machine\<lparr>frames := (frames sample_machine)(11 := 97 # replicate 4095 0)\<rparr>, console_out = [], console_in = [], time_now = 0,
     fs_store = s\<rparr>"

lemma files_kernel_facts:
  "serving 0 0 (files_kernel s)" "k_current (files_kernel s) = Inr files_proc" "length (fds_of files_proc) = 3" "fs_store (files_kernel s) = s"
  "fl \<in> {''RV'', ''W_V''} \<Longrightarrow> pg < 3 \<Longrightarrow> k_translate (files_env sample_env) fl ((5 + pg) * 4096) files_proc = Inr (Some ((10 + pg) * 4096))"
  "get_str (frames (kmachine (files_kernel s))) (11 * 4096) [] = Some [97]"
proof -
  have "tree_wf 1 [0 \<mapsto> proc_rel_new pid_any]" by (rule tree_wf_init) (simp_all add: proc_rel_new_def)
  then show "serving 0 0 (files_kernel s)"
    by (auto simp: serving_def k_inv_def files_kernel_def pm_inv_def stride_wf_def stride_ready_def is_heap_def procs_ok_def
        proc_ok_def prio_ok_def files_proc_def stride_new_def split: if_splits)
  show "k_current (files_kernel s) = Inr files_proc"
    by (simp add: k_current_def pm_current_def files_kernel_def stride_ops_def manage_get_def)
  show "fl \<in> {''RV'', ''W_V''} \<Longrightarrow> pg < 3 \<Longrightarrow> k_translate (files_env sample_env) fl ((5 + pg) * 4096) files_proc = Inr (Some ((10 + pg) * 4096))"
    by (auto simp: k_translate_def files_env_def sample_env_def flat_env_def files_proc_def sample_space_def translate_def add_entries_def)
  show "get_str (frames (kmachine (files_kernel s))) (11 * 4096) [] = Some [97]"
    by (subst get_str.simps, subst get_str.simps) (simp add: files_kernel_def push_char_def)
qed (simp_all add: files_proc_def fds_new_def files_kernel_def)

text \<open>
  C6. What a process writes to a file it reads back. A process opens a name with \<^verbatim>\<open>CREATE\<close> and \<^verbatim>\<open>WRONLY\<close>, writes a buffer through the
  new descriptor, opens the name again for reading and reads as many bytes through the second descriptor. When the device has the room the
  descriptors are the next two numbers of its table, both transfers return the number of bytes, and
  the memory behind the second buffer holds the bytes that were behind the first.
\<close>

theorem descriptor_round_trip:
  assumes S: "serving b i k" and p: "k_current k = Inr p" "length (fds_of p) = n" "3 \<le> n" "n + 1 < 2 ^ 63" and A: "fs_state fs k A"
    and path: "k_translate env ''RV'' path p = Inr (Some pa)" "get_str (frames (kmachine k)) pa [] = Some name"
    and wbuf: "k_translate env ''RV'' buf p = Inr (Some pa1)" and rbuf: "k_translate env ''W_V'' buf2 p = Inr (Some pa2)"
    and op: "spec_open fs name 513 A = Some (Some fh, A')" and g: "0 < cnt" "grows A' 0 cnt"
  shows "\<exists>k1 k2 k3 k4. sys6_open env (manager_of cache_ops fs) path 513 k = Some (Inr (int n, k1)) \<and>
    sys6_write env (manager_of cache_ops fs) n buf cnt k1 = Some (Inr (int cnt, k2)) \<and>
    sys6_open env (manager_of cache_ops fs) path 0 k2 = Some (Inr (int (n + 1), k3)) \<and>
    sys6_read env (manager_of cache_ops fs) (n + 1) buf2 cnt k3 = Some (Inr (int cnt, k4)) \<and>
    read_phys pa2 cnt (frames (kmachine k4)) = read_phys pa1 cnt (frames (kmachine k))"
proof -
  define bytes where "bytes = read_phys pa1 cnt (frames (kmachine k))"
  have len: "length bytes = cnt" by (simp add: bytes_def read_phys_def)
  have f: "open_flags_of 513 = Some 513" "open_flags_of 0 = Some 0" by (simp_all add: open_flags_of_def)
  have cr: "bit (513 :: open_flags) O_CREATE" "bit (513 :: open_flags) 0" "(513 :: open_flags) \<noteq> 0" by simp_all
  obtain j l where j: "fh = opened_as fs 513 j" "map_of (entries A') name = Some j" "nodes A' j = Some (l, [])"
    by (rule spec_open_create [OF cr(1) op])
  have fh: "writable fh" "fh_inode fh = Some (ino fs j)" "fh_offset fh = 0"
    using cr by (simp_all add: j(1) opened_as_def fh_new_def writable_def read_write_def)
  have "data_blocks_of cnt \<le> INDIRECT2_BOUND" using g(2) by (simp add: grows_def)
  then have small: "cnt < u32_bound" by (rule cache_store.size_bound)
  obtain k1 where k1: "sys6_open env (manager_of cache_ops fs) path 513 k = Some (Inr (int n, k1))" "serving b i k1"
    "k_current k1 = Inr (set_fds (fds_of p @ [Some fh]) p)" "kmachine k1 = kmachine k" "fs_state fs k1 A'"
    using sys6_open_ok [OF S p(1) A path f(1) op] p(2,4) by auto
  let ?A2 = "A'\<lparr>nodes := (nodes A')(j \<mapsto> (l, bytes)), free := free A' + total_blocks 0 - total_blocks cnt\<rparr>"
  let ?fh = "fh\<lparr>fh_offset := cnt\<rparr>"
  have g0: "grows A' (length ([] :: byte list)) (max (length ([] :: byte list)) (fh_offset fh + cnt))" using g(2) fh(3) by simp
  have wb: "write_bytes 0 bytes [] = bytes" by (simp add: write_bytes_def copy_into_def)
  obtain k2 where k2: "sys6_write env (manager_of cache_ops fs) n buf cnt k1 = Some (Inr (int cnt, k2))" "serving b i k2"
    "k_current k2 = Inr (set_fds (fds_of p @ [Some ?fh]) p)" "kmachine k2 = kmachine k" "fs_state fs k2 ?A2"
  proof (rule sys6_write_ok [OF k1(2,3,5) _ p(3) _ _ fh(1,2) j(3) g(1) g0])
    fix k2
    assume "sys6_write env (manager_of cache_ops fs) n buf cnt k1 = Some (Inr (int cnt, k2))" "serving b i k2"
      "k_current k2 = Inr (set_fds ((fds_of (set_fds (fds_of p @ [Some fh]) p))[n := Some (fh\<lparr>fh_offset := fh_offset fh + cnt\<rparr>)]) (set_fds (fds_of p @ [Some fh]) p))"
      "kmachine k2 = kmachine k1" "fs_state fs k2 (A'\<lparr>nodes := (nodes A')(j \<mapsto> (l, write_bytes (fh_offset fh) (read_phys pa1 cnt (frames (kmachine k1))) [])),
        free := free A' + total_blocks (length ([] :: byte list)) - total_blocks (max (length ([] :: byte list)) (fh_offset fh + cnt))\<rparr>)"
    then show thesis using that p(2) k1(4) fh(3) wb by (simp add: list_update_append bytes_def)
  qed (use wbuf p(2) in \<open>simp_all add: nth_append\<close>)
  have op0: "spec_open fs name 0 ?A2 = Some (Some (opened_as fs 0 j), ?A2)" using j(2) by (simp add: spec_open_def)
  let ?fds = "fds_of p @ [Some ?fh, Some (opened_as fs 0 j)]"
  obtain k3 where k3: "sys6_open env (manager_of cache_ops fs) path 0 k2 = Some (Inr (int (n + 1), k3))" "serving b i k3"
    "k_current k3 = Inr (set_fds ?fds p)" "kmachine k3 = kmachine k" "fs_state fs k3 ?A2"
    using sys6_open_ok [OF k2(2,3,5) _ _ f(2) op0, of env path pa] path p(2,4) k2(4) by auto
  have fh0: "readable (opened_as fs 0 j)" "fh_inode (opened_as fs 0 j) = Some (ino fs j)" "fh_offset (opened_as fs 0 j) = 0"
    by (simp_all add: opened_as_def fh_new_def readable_def read_write_def)
  have nd: "nodes ?A2 j = Some (l, bytes)" by simp
  have "n + 1 < length ?fds" "?fds ! (n + 1) = Some (opened_as fs 0 j)" using p(2) by (simp_all add: nth_append)
  then obtain k4 where k4: "sys6_read env (manager_of cache_ops fs) (n + 1) buf2 cnt k3 = Some (Inr (int cnt, k4))"
    "frames (kmachine k4) = write_phys pa2 (slice_of 0 cnt bytes @ drop cnt (read_phys pa2 cnt (frames (kmachine k)))) (frames (kmachine k))"
    using sys6_read_ok [OF k3(2,3,5) _ _ _ _ fh0(1,2) nd g(1), of env buf2 pa2 "n + 1"] rbuf p(3) fh0(3) small k3(4) len by auto
  have "slice_of 0 cnt bytes @ drop cnt (read_phys pa2 cnt (frames (kmachine k))) = bytes" using len by (simp add: slice_of_def read_phys_def)
  then have "read_phys pa2 cnt (frames (kmachine k4)) = bytes"
    unfolding k4(2) using read_phys_write_phys [of pa2 bytes] len by simp
  then show ?thesis using k1(1) k2(1) k3(1) k4(1) by (auto simp: bytes_def)
qed

theorem descriptor_round_trip_witness:
  "\<exists>s k1 k2 k3 k4. let F = manager_of cache_ops (formatted 6000 1); env = files_env sample_env in
    sys6_open env F (6 * 4096) 513 (files_kernel s) = Some (Inr (3, k1)) \<and> sys6_write env F 3 (5 * 4096) 3 k1 = Some (Inr (3, k2)) \<and>
    sys6_open env F (6 * 4096) 0 k2 = Some (Inr (4, k3)) \<and> sys6_read env F 4 (7 * 4096) 3 k3 = Some (Inr (3, k4)) \<and>
    read_phys (12 * 4096) 3 (frames (kmachine k4)) = [10, 10, 10]"
proof -
  obtain s A where s: "cache_ok s" "held s = []" "abstracts (formatted 6000 1) (cache_view s) A" "nodes A 1 = Some (1, [0, 0, 7])"
    "entries A = [([97], 1)]" by (rule one_file_contents)
  let ?fs = "formatted 6000 1" and ?env = "files_env sample_env"
  let ?A = "A\<lparr>nodes := (nodes A)(1 \<mapsto> (1, [])), free := free A + total_blocks 3\<rparr>"
  note k = files_kernel_facts(1,2) [of s] files_kernel_facts(3) files_kernel_facts(4) [of s] files_kernel_facts(5) files_kernel_facts(6) [of s]
  have f: "bit (513 :: open_flags) O_CREATE" by simp
  then have op: "spec_open ?fs [97] 513 A = Some (Some (opened_as ?fs 513 1), ?A)"
    using s(4,5) by (simp add: spec_open_def numeral_3_eq_3)
  have g: "grows ?A 0 3" by (simp add: grows_def total_blocks_def data_blocks_of_def div_ceil_def)
  have st: "fs_state ?fs (files_kernel s) A" using s(1-3) k(4) by (simp add: fs_state_def)
  have t: "k_translate ?env ''RV'' (6 * 4096) files_proc = Inr (Some (11 * 4096))" "k_translate ?env ''RV'' (5 * 4096) files_proc = Inr (Some (10 * 4096))"
    "k_translate ?env ''W_V'' (7 * 4096) files_proc = Inr (Some (12 * 4096))"
    using k(5) [of "''RV''" 1] k(5) [of "''RV''" 0] k(5) [of "''W_V''" 2] by simp_all
  have r: "read_phys (10 * 4096) 3 (frames (kmachine (files_kernel s))) = [10, 10, 10]"
    by (simp add: read_phys_def files_kernel_def sample_machine_def numeral_3_eq_3)
  obtain k1 k2 k3 k4 where "sys6_open ?env (manager_of cache_ops ?fs) (6 * 4096) 513 (files_kernel s) = Some (Inr (int 3, k1))"
    "sys6_write ?env (manager_of cache_ops ?fs) 3 (5 * 4096) 3 k1 = Some (Inr (int 3, k2))"
    "sys6_open ?env (manager_of cache_ops ?fs) (6 * 4096) 0 k2 = Some (Inr (int (3 + 1), k3))"
    "sys6_read ?env (manager_of cache_ops ?fs) (3 + 1) (7 * 4096) 3 k3 = Some (Inr (int 3, k4))"
    "read_phys (12 * 4096) 3 (frames (kmachine k4)) = [10, 10, 10]"
    using descriptor_round_trip [OF k(1-3) _ _ st t(1) k(6) t(2,3) op _ g] r by auto
  then show ?thesis by (intro exI [of _ s] exI [of _ k1] exI [of _ k2] exI [of _ k3] exI [of _ k4]) (simp add: Let_def)
qed

text \<open>
  C39. Descriptors behind the table: \<^verbatim>\<open>close\<close> and \<^verbatim>\<open>fstat\<close> refuse them, but \<^verbatim>\<open>read\<close> and \<^verbatim>\<open>write\<close> index the table without a check, so
  any process can bring the kernel down with one call.
\<close>

theorem bad_descriptor_panics:
  assumes "k_current k = Inr p" "3 \<le> fd" "length (fds_of p) \<le> fd"
    and "k_translate env ''RV'' buf p = Inr (Some pa)" "k_translate env ''W_V'' buf p = Inr (Some pa)"
  shows "sys6_write env F fd buf cnt k = Some (Inl IndexOutOfBounds) \<and> sys6_read env F fd buf cnt k = Some (Inl IndexOutOfBounds) \<and>
    sys6_close fd k = Some (Inr (- 1, k)) \<and> sys6_fstat env F fd buf k = Some (Inr (- 1, k))"
  using assms by (simp add: sys6_write_def sys6_read_def sys6_close_def sys6_fstat_def index_res_def)


theorem bad_descriptor_panics_witness:
  "let F = manager_of cache_ops (formatted 6000 1); k = files_kernel (cache_manager_new (\<lambda>_. replicate 512 0)) in
    sys6_write (files_env sample_env) F 3 (5 * 4096) 1 k = Some (Inl IndexOutOfBounds) \<and>
    sys6_read (files_env sample_env) F 3 (5 * 4096) 1 k = Some (Inl IndexOutOfBounds) \<and>
    sys6_close 3 k = Some (Inr (- 1, k)) \<and> sys6_fstat (files_env sample_env) F 3 (5 * 4096) k = Some (Inr (- 1, k))"
proof -
  have t: "k_translate (files_env sample_env) fl (5 * 4096) files_proc = Inr (Some (10 * 4096))" if "fl \<in> {''RV'', ''W_V''}" for fl
    using files_kernel_facts(5) [OF that, of 0] by simp
  show ?thesis
    unfolding Let_def by (rule bad_descriptor_panics [OF files_kernel_facts(2)]) (use t in \<open>simp_all add: files_kernel_facts(3)\<close>)
qed

end
