(* ===== verification/Fs_Discipline.thy ===== *)
theory Fs_Discipline
  imports Fs_Properties
begin

text \<open>
  What holds for every operation of the file system on every device, whatever its blocks contain: an operation that returns
  leaves the block cache consistent and has released every block it took. The operations are sequences of reads and
  changes of blocks, so a rule for each construct carries the whole of \<^verbatim>\<open>vfs.rs\<close>.
\<close>

section \<open>The rules\<close>

text \<open>A store that refuses to take more blocks than it can hold, and to write back while a block is taken.\<close>

locale strict_block_store = block_store ops ok view locked device
  for ops :: "'s block_ops" and ok view locked device +
  assumes lock_full: "ok s \<Longrightarrow> BLOCK_CACHE_SIZE \<le> length (locked s) \<Longrightarrow> b \<notin> set (locked s) \<Longrightarrow> bs_lock ops b s = Inl OutOfBlockCache"
    and sync_held: "ok s \<Longrightarrow> locked s \<noteq> [] \<Longrightarrow> bs_sync ops s = Inl SelfDeadlock"

text \<open>If \<open>m\<close> returns, then with a value in \<open>Q\<close>, and it has released what it took.\<close>

definition store_leaves :: "('s \<Rightarrow> bool) \<Rightarrow> ('s \<Rightarrow> nat list) \<Rightarrow> ('s, 'a) io \<Rightarrow> ('a \<Rightarrow> bool) \<Rightarrow> bool" where
  "store_leaves ok locked m Q \<longleftrightarrow> (\<forall>s a s'. ok s \<longrightarrow> m s = Inr (a, s') \<longrightarrow> ok s' \<and> locked s' = locked s \<and> Q a)"

text \<open>Disk inodes whose encoding fits their slot.\<close>

definition di_sized :: "disk_inode \<Rightarrow> bool" where
  "di_sized di \<longleftrightarrow> length (direct di) = INODE_DIRECT_COUNT \<and> length (di_padding di) = 3"

lemma di_sized_upd [simp]:
  "di_sized (di\<lparr>di_size := n\<rparr>) = di_sized di" "di_sized (di\<lparr>indirect1 := n\<rparr>) = di_sized di"
  "di_sized (di\<lparr>indirect2 := n\<rparr>) = di_sized di" "di_sized (di\<lparr>link_num := n\<rparr>) = di_sized di"
  "di_sized (di\<lparr>direct := ds\<rparr>) \<longleftrightarrow> length ds = INODE_DIRECT_COUNT \<and> length (di_padding di) = 3"
  "di_sized di \<Longrightarrow> di_sized (di_initialize t di)"
  by (simp_all add: di_sized_def di_initialize_def)

lemma length_update_res: "update_res xs i x = Inr ys \<Longrightarrow> length ys = length xs"
  by (auto simp: update_res_def split: if_splits)

lemma length_fill_slots: "fill_slots c l slots new = Inr (c', slots', rest) \<Longrightarrow> length slots' = length slots"
proof (induction c l slots new rule: fill_slots.induct)
  case (1 c l slots new)
  from 1(2) [unfolded fill_slots.simps [of c l slots new]] show ?case
    using 1(1) by (auto simp: length_update_res split: if_splits prod.splits)
qed

lemma length_clear_direct: "clear_direct c l slots v = Inr (slots', v') \<Longrightarrow> length slots' = length slots"
proof (induction c l slots v rule: clear_direct.induct)
  case (1 c l slots v)
  from 1(2) [unfolded clear_direct.simps [of c l slots v]] show ?case
    using 1(1) by (auto simp: length_update_res split: if_splits prod.splits)
qed

lemma sized_codec:
  "di_sized di \<Longrightarrow> length (disk_inode_bytes di) = DISK_INODE_SZ"
  "length bytes = DISK_INODE_SZ \<Longrightarrow> disk_inode_of bytes = Inr di \<Longrightarrow> di_sized di"
  using disk_inode_of_wf [of bytes di] by (simp_all add: di_sized_def disk_inode_bytes_def di_wf_def)

context strict_block_store
begin

abbreviation leaves :: "('s, 'a) io \<Rightarrow> ('a \<Rightarrow> bool) \<Rightarrow> bool" where
  "leaves \<equiv> store_leaves ok locked"

lemma leavesD: "leaves m Q \<Longrightarrow> ok s \<Longrightarrow> m s = Inr (a, s') \<Longrightarrow> ok s' \<and> locked s' = locked s \<and> Q a"
  by (simp add: store_leaves_def)

lemma leaves_mono: "leaves m Q \<Longrightarrow> (\<And>a. Q a \<Longrightarrow> R a) \<Longrightarrow> leaves m R"
  by (simp add: store_leaves_def)

lemma leaves_return: "Q a \<Longrightarrow> leaves (return_io a) Q"
  by (simp add: store_leaves_def return_io_def)

lemma leaves_lift: "(\<And>a. r = Inr a \<Longrightarrow> Q a) \<Longrightarrow> leaves (lift_io r) Q"
  by (auto simp: store_leaves_def lift_io_def)

lemma leaves_bindR:
  assumes m: "leaves m R" and f: "\<And>a. R a \<Longrightarrow> leaves (f a) Q"
  shows "leaves (bind_io m f) Q"
  unfolding store_leaves_def
proof (intro allI impI)
  fix s b s' assume s: "ok s" "bind_io m f s = Inr (b, s')"
  then obtain a s1 where a: "m s = Inr (a, s1)" "f a s1 = Inr (b, s')" by (auto simp: bind_io_def)
  note l = leavesD [OF m s(1) a(1)]
  show "ok s' \<and> locked s' = locked s \<and> Q b" using leavesD [OF f _ a(2)] l by simp
qed

lemma leaves_bind: "leaves m (\<lambda>_. True) \<Longrightarrow> (\<And>a. leaves (f a) Q) \<Longrightarrow> leaves (bind_io m f) Q"
  by (rule leaves_bindR)

lemma leaves_if: "(c \<Longrightarrow> leaves m Q) \<Longrightarrow> (\<not> c \<Longrightarrow> leaves m' Q) \<Longrightarrow> leaves (if c then m else m') Q"
  by simp

lemma leaves_prod: "(\<And>x y. p = (x, y) \<Longrightarrow> leaves (f x y) Q) \<Longrightarrow> leaves (case p of (x, y) \<Rightarrow> f x y) Q"
  by (cases p) simp

lemma leaves_option: "(r = None \<Longrightarrow> leaves m Q) \<Longrightarrow> (\<And>x. r = Some x \<Longrightarrow> leaves (f x) Q) \<Longrightarrow> leaves (case r of None \<Rightarrow> m | Some x \<Rightarrow> f x) Q"
  by (cases r) simp_all

lemma leaves_sync: "leaves (sync_all ops) (\<lambda>_. True)"
proof -
  have "ok s' \<and> locked s' = locked s" if "ok s" "bs_sync ops s = Inr s'" for s s'
    using that sync [of s] sync_held [of s] by (cases "locked s = []") auto
  then show ?thesis by (auto simp: store_leaves_def sync_all_def)
qed

lemma lock_only:
  assumes "ok s" "bs_lock ops b s = Inr s'"
  shows "ok s' \<and> view s' = view s \<and> locked s' = b # locked s"
  using assms lock [of s b] lock_full [of s b] lock_twice [of s b] by (cases "b \<in> set (locked s)"; cases "length (locked s) < BLOCK_CACHE_SIZE") auto

lemma leaves_read:
  assumes "\<And>bytes. length bytes = n \<Longrightarrow> leaves (f bytes) Q"
  shows "leaves (bc_read ops b off n f) Q"
  unfolding store_leaves_def
proof (intro allI impI)
  fix s a s' assume s: "ok s" "bc_read ops b off n f s = Inr (a, s')"
  then obtain s1 s2 where s1: "bs_lock ops b s = Inr s1" "off + n \<le> BLOCK_SZ" "f (slice_of off n (bs_get ops b s1)) s1 = Inr (a, s2)"
    "s' = bs_unlock ops b s2"
    by (auto simp: bc_read_def assert_res_def split: if_splits)
  note l = lock_only [OF s(1) s1(1)]
  have "length (slice_of off n (bs_get ops b s1)) = n" using get [of s1 b] l block_length [of s1 b] s1(2) by (simp add: slice_of_def)
  from leavesD [OF assms [OF this] _ s1(3)] l show "ok s' \<and> locked s' = locked s \<and> Q a" using unlock [of s2 b] s1(4) by simp
qed

lemma leaves_modify:
  assumes "\<And>bytes. length bytes = n \<Longrightarrow> leaves (f bytes) (\<lambda>r. length (snd r) = n \<and> Q (fst r))"
  shows "leaves (bc_modify ops b off n f) Q"
  unfolding store_leaves_def
proof (intro allI impI)
  fix s a s' assume s: "ok s" "bc_modify ops b off n f s = Inr (a, s')"
  then obtain s1 s2 bytes where s1: "bs_lock ops b s = Inr s1" "off + n \<le> BLOCK_SZ"
    "f (slice_of off n (bs_get ops b s1)) s1 = Inr ((a, bytes), s2)"
    "s' = bs_unlock ops b (bs_put ops b (copy_into off bytes (bs_get ops b s2)) s2)"
    by (auto simp: bc_modify_def assert_res_def split: if_splits)
  note l = lock_only [OF s(1) s1(1)]
  have "length (slice_of off n (bs_get ops b s1)) = n" using get [of s1 b] l block_length [of s1 b] s1(2) by (simp add: slice_of_def)
  from leavesD [OF assms [OF this] _ s1(3)] l have s2: "ok s2" "locked s2 = b # locked s" "length bytes = n" "Q a" by simp_all
  have "length (copy_into off bytes (bs_get ops b s2)) = BLOCK_SZ" using get [of s2 b] block_length [of s2 b] s2 s1(2) by simp
  then have "ok (bs_put ops b (copy_into off bytes (bs_get ops b s2)) s2) \<and>
      locked (bs_put ops b (copy_into off bytes (bs_get ops b s2)) s2) = b # locked s"
    using put [of s2 b] s2(1,2) by simp
  then show "ok s' \<and> locked s' = locked s \<and> Q a" using unlock s2(4) by (simp add: s1(4))
qed

lemmas leaves_rules = leaves_return leaves_if leaves_prod leaves_option leaves_sync

lemma leaves_pure_read: "(\<And>bytes a. length bytes = n \<Longrightarrow> f bytes = Inr a \<Longrightarrow> Q a) \<Longrightarrow> leaves (bc_read ops b off n (pure_read f)) Q"
  unfolding pure_read_def by (rule leaves_read) (rule leaves_lift)

lemma leaves_pure_modify:
  "(\<And>bytes a bs. length bytes = n \<Longrightarrow> f bytes = Inr (a, bs) \<Longrightarrow> length bs = n \<and> Q a) \<Longrightarrow> leaves (bc_modify ops b off n (pure_modify f)) Q"
  unfolding pure_modify_def by (rule leaves_modify, rule leaves_lift) (metis prod.collapse)

lemma leaves_on_disk_inode:
  assumes "\<And>di. di_sized di \<Longrightarrow> leaves (f di) (\<lambda>r. di_sized (snd r) \<and> Q (fst r))"
  shows "leaves (bc_modify ops b off DISK_INODE_SZ (on_disk_inode f)) Q"
proof (rule leaves_modify, unfold on_disk_inode_def)
  fix bytes :: "byte list" assume len: "length bytes = DISK_INODE_SZ"
  have "leaves (lift_io (disk_inode_of bytes)) di_sized" by (rule leaves_lift) (rule sized_codec(2) [OF len])
  then show "leaves (bind_io (lift_io (disk_inode_of bytes)) (\<lambda>di. bind_io (f di) (\<lambda>(a, di'). return_io (a, disk_inode_bytes di'))))
      (\<lambda>r. length (snd r) = DISK_INODE_SZ \<and> Q (fst r))"
    by (rule leaves_bindR) (auto intro!: leaves_bindR [OF assms] leaves_return simp: sized_codec(1))
qed

section \<open>The operations\<close>

lemma leaves_get_block_id: "leaves (get_block_id ops di n) (\<lambda>_. True)"
  unfolding get_block_id_def Let_def by (intro leaves_if leaves_bind leaves_lift leaves_pure_read) simp_all

lemma leaves_bitmap_alloc: "leaves (bitmap_alloc ops bm) (\<lambda>_. True)"
proof -
  have "leaves (bitmap_alloc_loop ops bm ids) (\<lambda>_. True)" for ids
  proof (induction ids)
    case (Cons i ids)
    have "length bs = BLOCK_SZ" if "length bytes = BLOCK_SZ" "alloc_in_block i bytes = Inr (a, bs)" for bytes bs :: "byte list" and a
      using that by (auto simp: alloc_in_block_def Let_def split: option.splits)
    then show ?case unfolding bitmap_alloc_loop.simps
      by (intro leaves_bind leaves_pure_modify leaves_rules Cons.IH) simp_all
  qed (simp add: leaves_return)
  then show ?thesis by (simp add: bitmap_alloc_def)
qed

lemma leaves_bitmap_dealloc: "leaves (bitmap_dealloc ops bm n) (\<lambda>_. True)"
proof -
  have "length bs = BLOCK_SZ" if "length bytes = BLOCK_SZ" "dealloc_in_block p q bytes = Inr (a, bs)" for bytes bs :: "byte list" and a p q
    using that by (auto simp: dealloc_in_block_def Let_def)
  then show ?thesis unfolding bitmap_dealloc_def Let_def by (intro leaves_prod leaves_pure_modify) auto
qed

lemma leaves_alloc: "leaves (alloc_inode ops fs) (\<lambda>_. True)" "leaves (alloc_data ops fs) (\<lambda>_. True)"
  unfolding alloc_inode_def alloc_data_def by (intro leaves_bind leaves_bitmap_alloc leaves_lift leaves_return; simp)+

lemma leaves_zero_block: "leaves (zero_block ops b) (\<lambda>_. True)"
  unfolding zero_block_def by (rule leaves_pure_modify) auto

lemma leaves_dealloc_data: "leaves (dealloc_data ops fs b) (\<lambda>_. True)"
  unfolding dealloc_data_def by (intro leaves_bind leaves_zero_block leaves_lift leaves_bitmap_dealloc) simp

lemma leaves_init_inode: "leaves (init_inode_at ops fs i t) (\<lambda>_. True)"
  unfolding init_inode_at_def by (intro leaves_bind leaves_lift leaves_prod leaves_on_disk_inode leaves_return) simp_all

text \<open>Growing and truncating keep the shape of the inode.\<close>

lemma leaves_fill_indirect2_slot: "leaves (fill_indirect2_slot ops a0 b0 slots new) (\<lambda>r. length (fst r) = length slots)"
proof -
  have "leaves (lift_io (if b0 = 0 then bind_res (next_res new) (\<lambda>(b, rest). bind_res (update_res slots a0 b) (\<lambda>slots'. Inr (slots', rest)))
      else Inr (slots, new))) (\<lambda>r. length (fst r) = length slots)"
    by (rule leaves_lift) (auto simp: length_update_res split: if_splits)
  then show ?thesis unfolding fill_indirect2_slot_def
    by (rule leaves_bindR)
      (auto intro!: leaves_prod leaves_bind leaves_lift leaves_pure_modify leaves_return dest!: length_update_res)
qed

lemma leaves_fill_indirect2: "leaves (fill_indirect2 ops ab1 ab0 slots new) (\<lambda>slots'. length slots' = length slots)"
proof -
  have "ok s' \<and> locked s' = locked s \<and> length slots' = length slots"
    if "ok s" "fill_indirect2 ops ab1 ab0 slots new s = Inr (slots', s')" for s slots' s'
    using that
  proof (induction "length new" arbitrary: ab0 slots new s rule: less_induct)
    case less
    obtain a1 b1 a0 b0 where ab: "ab1 = (a1, b1)" "ab0 = (a0, b0)" by fastforce
    note r = less(3) [unfolded ab fill_indirect2.simps [of ops a1 b1 a0 b0 slots new s]]
    show ?case
    proof (cases "a0 < a1 \<or> a0 = a1 \<and> b0 < b1")
      case True
      then obtain slots1 rest s1 where c: "fill_indirect2_slot ops a0 b0 slots new s = Inr ((slots1, rest), s1)"
        "fill_indirect2 ops ab1 (next_slot a0 b0) slots1 rest s1 = Inr (slots', s')"
        using r ab by (auto split: sum.splits)
      have "ok s1" "locked s1 = locked s" "length slots1 = length slots"
        using leavesD [OF leaves_fill_indirect2_slot less(2) c(1)] by simp_all
      then show ?thesis using less(1) [OF fill_indirect2_slot_consumes [OF c(1)] _ c(2)] by simp
    qed (use r less(2) in \<open>auto split: if_splits\<close>)
  qed
  then show ?thesis by (simp add: store_leaves_def)
qed

lemma leaves_increase_phase3: "di_sized di \<Longrightarrow> leaves (increase_phase3 ops c n new di) di_sized"
proof (unfold increase_phase3_def Let_def, intro leaves_if leaves_return)
  assume di: "di_sized di"
  have "leaves (lift_io (if c = INODE_INDIRECT1_COUNT then bind_res (next_res new) (\<lambda>(b, rest). Inr (di\<lparr>indirect2 := b\<rparr>, rest)) else Inr (di, new)))
      (\<lambda>r. di_sized (fst r))"
    by (rule leaves_lift) (use di in \<open>auto split: if_splits\<close>)
  then show "leaves (bind_io (lift_io (if c = INODE_INDIRECT1_COUNT then bind_res (next_res new) (\<lambda>(b, rest). Inr (di\<lparr>indirect2 := b\<rparr>, rest)) else Inr (di, new)))
     (\<lambda>(di, new_blocks). bind_io (lift_io (sub_res c INODE_INDIRECT1_COUNT)) (\<lambda>current_blocks.
        bind_io (bc_modify ops (indirect2 di) 0 BLOCK_SZ (\<lambda>bytes.
            bind_io (fill_indirect2 ops ((n - INODE_INDIRECT1_COUNT) div INODE_INDIRECT1_COUNT, (n - INODE_INDIRECT1_COUNT) mod INODE_INDIRECT1_COUNT)
               (current_blocks div INODE_INDIRECT1_COUNT, current_blocks mod INODE_INDIRECT1_COUNT) (u32s bytes) new_blocks) (\<lambda>slots.
              return_io ((), u32_bytes slots)))) (\<lambda>_. return_io di)))) di_sized"
    by (rule leaves_bindR) (auto intro!: leaves_prod leaves_bind leaves_lift leaves_modify leaves_bindR [OF leaves_fill_indirect2] leaves_return)
qed

lemma leaves_increase_phase2: "di_sized di \<Longrightarrow> leaves (increase_phase2 ops c n new di) di_sized"
proof (unfold increase_phase2_def Let_def, intro leaves_if leaves_return)
  assume di: "di_sized di"
  let ?first = "if c = INODE_DIRECT_COUNT then bind_res (next_res new) (\<lambda>(b, rest). Inr (di\<lparr>indirect1 := b\<rparr>, rest)) else Inr (di, new)"
  have "leaves (lift_io ?first) (\<lambda>r. di_sized (fst r))"
    by (rule leaves_lift) (use di in \<open>auto split: if_splits\<close>)
  then show "leaves (bind_io (lift_io ?first) (\<lambda>(di, new_blocks).
        bind_io (lift_io (sub_res c INODE_DIRECT_COUNT)) (\<lambda>current_blocks.
        bind_io (bc_modify ops (indirect1 di) 0 BLOCK_SZ (pure_modify (\<lambda>bytes.
            bind_res (fill_slots current_blocks (min (n - INODE_DIRECT_COUNT) INODE_INDIRECT1_COUNT) (u32s bytes) new_blocks)
              (\<lambda>(current, slots, rest). Inr ((current, rest), u32_bytes slots))))) (\<lambda>(current_blocks, new_blocks).
          increase_phase3 ops current_blocks (n - INODE_DIRECT_COUNT) new_blocks di)))) di_sized"
    by (rule leaves_bindR)
      (auto intro!: leaves_prod leaves_bind leaves_lift leaves_pure_modify leaves_increase_phase3 dest!: length_fill_slots)
qed

lemma leaves_di_increase_size: "di_sized di \<Longrightarrow> leaves (di_increase_size ops n new di) di_sized"
proof (unfold di_increase_size_def Let_def)
  assume di: "di_sized di"
  let ?fill = "fill_slots (data_blocks di) (min (data_blocks (di\<lparr>di_size := n\<rparr>)) INODE_DIRECT_COUNT) (direct (di\<lparr>di_size := n\<rparr>)) new"
  have "leaves (lift_io ?fill) (\<lambda>(c, slots, rest). length slots = INODE_DIRECT_COUNT)"
    by (rule leaves_lift) (use di in \<open>auto simp: di_sized_def dest!: length_fill_slots\<close>)
  then show "leaves (bind_io (lift_io ?fill) (\<lambda>(c, slots, rest). increase_phase2 ops c (data_blocks (di\<lparr>di_size := n\<rparr>)) rest
      (di\<lparr>di_size := n, direct := slots\<rparr>))) di_sized"
    by (rule leaves_bindR) (use di in \<open>auto intro!: leaves_prod leaves_increase_phase2 simp: di_sized_def\<close>)
qed

lemma leaves_alloc_data_blocks: "leaves (alloc_data_blocks ops fs n v) (\<lambda>_. True)"
  by (induction n arbitrary: v) (auto intro!: leaves_return leaves_bind leaves_alloc)

lemma leaves_increase_size: "di_sized di \<Longrightarrow> leaves (inode_increase_size ops fs n di) di_sized"
  unfolding inode_increase_size_def
  by (intro leaves_if leaves_return leaves_bind leaves_lift leaves_alloc_data_blocks leaves_di_increase_size) simp_all

lemma leaves_push_full_blocks: "leaves (push_full_blocks ops es v) (\<lambda>_. True)"
  by (induction es arbitrary: v) (auto intro!: leaves_return leaves_bind leaves_pure_modify)

lemma leaves_clear_indirect2: "leaves (clear_indirect2 ops a1 b1 slots v) (\<lambda>_. True)"
  unfolding clear_indirect2_def
  by (intro leaves_bind leaves_push_full_blocks leaves_if leaves_lift leaves_pure_modify leaves_return) auto

lemma leaves_di_clear_size: "di_sized di \<Longrightarrow> leaves (di_clear_size ops di) (\<lambda>r. di_sized (snd r))"
proof (unfold di_clear_size_def Let_def)
  assume di: "di_sized di"
  let ?clear = "clear_direct 0 (min (data_blocks di) INODE_DIRECT_COUNT) (direct di) []"
  have "leaves (lift_io ?clear) (\<lambda>r. length (fst r) = INODE_DIRECT_COUNT)"
    by (rule leaves_lift) (use di in \<open>auto simp: di_sized_def dest!: length_clear_direct\<close>)
  moreover have "length (di_padding di) = 3" using di by (simp add: di_sized_def)
  ultimately show "leaves (bind_io (lift_io ?clear) (\<lambda>(slots, v).
      if data_blocks di > INODE_DIRECT_COUNT then
        bind_io (bc_modify ops (indirect1 (di\<lparr>di_size := 0, direct := slots\<rparr>)) 0 BLOCK_SZ (pure_modify (\<lambda>bytes.
            bind_res (push_entries 0 (min (data_blocks di - INODE_DIRECT_COUNT) INODE_INDIRECT1_COUNT) (u32s bytes) (v @ [indirect1 (di\<lparr>di_size := 0, direct := slots\<rparr>)]))
              (\<lambda>v. Inr (v, bytes))))) (\<lambda>v.
        if data_blocks di - INODE_DIRECT_COUNT > INODE_INDIRECT1_COUNT then
          bind_io (lift_io (assert_res (data_blocks di - INODE_DIRECT_COUNT - INODE_INDIRECT1_COUNT \<le> INODE_INDIRECT2_COUNT))) (\<lambda>_.
          bind_io (bc_modify ops (indirect2 (di\<lparr>di_size := 0, direct := slots, indirect1 := 0\<rparr>)) 0 BLOCK_SZ (\<lambda>bytes.
              bind_io (clear_indirect2 ops ((data_blocks di - INODE_DIRECT_COUNT - INODE_INDIRECT1_COUNT) div INODE_INDIRECT1_COUNT)
                ((data_blocks di - INODE_DIRECT_COUNT - INODE_INDIRECT1_COUNT) mod INODE_INDIRECT1_COUNT)
                (u32s bytes) (v @ [indirect2 (di\<lparr>di_size := 0, direct := slots, indirect1 := 0\<rparr>)])) (\<lambda>v. return_io (v, bytes)))) (\<lambda>v.
            return_io (v, di\<lparr>di_size := 0, direct := slots, indirect1 := 0, indirect2 := 0\<rparr>)))
        else return_io (v, di\<lparr>di_size := 0, direct := slots, indirect1 := 0\<rparr>))
      else return_io (v, di\<lparr>di_size := 0, direct := slots\<rparr>))) (\<lambda>r. di_sized (snd r))"
    by (elim leaves_bindR)
      (auto intro!: leaves_prod leaves_if leaves_bind leaves_lift leaves_modify leaves_pure_modify leaves_clear_indirect2 leaves_return)
qed

text \<open>The loops over the blocks of a range.\<close>

lemma leaves_di_read_loop: "leaves (di_read_loop ops di stop start b n buf) (\<lambda>_. True)"
proof -
  have "ok s' \<and> locked s' = locked s" if "ok s" "di_read_loop ops di stop start b n buf s = Inr (a, s')" for s a s'
    using that
  proof (induction "stop - start" arbitrary: start b n buf s rule: less_induct)
    case less
    let ?step = "bind_io (lift_io (slice_res n (block_end start stop - start) buf)) (\<lambda>_.
           bind_io (get_block_id ops di (as_u32 b)) (\<lambda>block.
           bc_read ops block 0 BLOCK_SZ (pure_read (slice_res (start mod BLOCK_SZ) (block_end start stop - start)))))"
    note r = less(3) [unfolded di_read_loop.simps [of ops di stop start b n buf s] Let_def]
    obtain src s1 where c: "?step s = Inr (src, s1)" using r by (auto split: sum.splits)
    have "leaves ?step (\<lambda>_. True)" by (intro leaves_bind leaves_lift leaves_get_block_id leaves_pure_read) simp_all
    from leavesD [OF this less(2) c] have s1: "ok s1" "locked s1 = locked s" by simp_all
    show ?case
    proof (cases "block_end start stop = stop")
      case False
      have "stop - block_end start stop < stop - start" using block_end_progress [OF False] by linarith
      from less(1) [OF this s1(1)] show ?thesis using r c False s1(2) by (auto simp: Let_def)
    qed (use r c s1 in \<open>simp add: Let_def\<close>)
  qed
  then show ?thesis by (simp add: store_leaves_def)
qed

lemma leaves_di_read_at: "leaves (di_read_at ops di off buf) (\<lambda>_. True)"
  unfolding di_read_at_def Let_def by (intro leaves_bind leaves_lift leaves_if leaves_return leaves_di_read_loop) simp_all

lemma leaves_di_write_loop: "leaves (di_write_loop ops di stop start b n buf) (\<lambda>_. True)"
proof -
  have "ok s' \<and> locked s' = locked s" if "ok s" "di_write_loop ops di stop start b n buf s = Inr (a, s')" for s a s'
    using that
  proof (induction "stop - start" arbitrary: start b n s rule: less_induct)
    case less
    let ?step = "bind_io (get_block_id ops di (as_u32 b)) (\<lambda>block.
           bc_modify ops block 0 BLOCK_SZ (pure_modify (\<lambda>bytes.
             bind_res (slice_res n (block_end start stop - start) buf) (\<lambda>src.
             bind_res (slice_res (start mod BLOCK_SZ) (block_end start stop - start) bytes) (\<lambda>_.
               Inr ((), copy_into (start mod BLOCK_SZ) src bytes))))))"
    note r = less(3) [unfolded di_write_loop.simps [of ops di stop start b n buf s] Let_def]
    obtain src s1 where c: "?step s = Inr (src, s1)" using r by (auto split: sum.splits)
    have "leaves ?step (\<lambda>_. True)"
      by (intro leaves_bind leaves_get_block_id leaves_pure_modify) (auto simp: slice_res_def slice_of_def split: if_splits)
    from leavesD [OF this less(2) c] have s1: "ok s1" "locked s1 = locked s" by simp_all
    show ?case
    proof (cases "block_end start stop = stop")
      case False
      have "stop - block_end start stop < stop - start" using block_end_progress [OF False] by linarith
      from less(1) [OF this s1(1)] show ?thesis using r c False s1(2) by auto
    qed (use r c s1 in simp)
  qed
  then show ?thesis by (simp add: store_leaves_def)
qed

lemma leaves_di_write_at: "leaves (di_write_at ops di off buf) (\<lambda>_. True)"
  unfolding di_write_at_def Let_def by (intro leaves_bind leaves_lift leaves_di_write_loop) simp_all

text \<open>The operations of inodes.\<close>

lemma leaves_read_disk_inode: "(\<And>di. leaves (f di) Q) \<Longrightarrow> leaves (read_disk_inode ops nd f) Q"
  unfolding read_disk_inode_def by (intro leaves_read leaves_bind leaves_lift) simp_all

lemma leaves_modify_disk_inode:
  "(\<And>di. di_sized di \<Longrightarrow> leaves (f di) (\<lambda>r. di_sized (snd r) \<and> Q (fst r))) \<Longrightarrow> leaves (modify_disk_inode ops nd f) Q"
  unfolding modify_disk_inode_def by (rule leaves_on_disk_inode)

lemma leaves_find_dirent: "leaves (find_dirent ops di name buf is) (\<lambda>_. True)"
  by (induction "is" arbitrary: buf) (auto intro!: leaves_return leaves_bind leaves_di_read_at leaves_prod leaves_lift leaves_if)

lemma leaves_find_inode_id: "leaves (find_inode_id ops name di) (\<lambda>_. True)"
  unfolding find_inode_id_def by (intro leaves_bind leaves_lift leaves_find_dirent leaves_return) simp_all

lemma leaves_inode_find: "leaves (inode_find ops fs nd name) (\<lambda>_. True)"
  unfolding inode_find_def
  by (intro leaves_read_disk_inode leaves_bind leaves_find_inode_id leaves_option leaves_lift leaves_prod leaves_return) simp_all

lemma leaves_append_dirent: "di_sized di \<Longrightarrow> leaves (append_dirent ops fs name i di) (\<lambda>r. di_sized (snd r))"
  unfolding append_dirent_def Let_def
  by (rule leaves_bindR [OF leaves_increase_size], assumption)
    (auto intro!: leaves_bind leaves_lift leaves_di_write_at leaves_return)

lemma leaves_inode_create: "leaves (inode_create ops fs nd name) (\<lambda>_. True)"
  unfolding inode_create_def
  by (intro leaves_bind leaves_alloc leaves_init_inode leaves_modify_disk_inode leaves_lift leaves_prod leaves_sync leaves_return)
    (simp_all add: leaves_append_dirent)

lemma leaves_inode_link: "leaves (inode_link ops fs nd name new) (\<lambda>_. True)"
  unfolding inode_link_def
  by (intro leaves_bind leaves_read_disk_inode leaves_find_inode_id leaves_option leaves_modify_disk_inode leaves_lift leaves_prod
      leaves_on_disk_inode leaves_sync leaves_return)
    (simp_all add: leaves_append_dirent)

lemma leaves_clear_dirent: "di_sized di \<Longrightarrow> leaves (clear_dirent ops name di) (\<lambda>r. di_sized (snd r))"
  unfolding clear_dirent_def
  by (intro leaves_bind leaves_find_dirent leaves_lift leaves_prod leaves_di_write_at leaves_return) simp_all

lemma leaves_dealloc_all: "leaves (dealloc_all ops fs bs) (\<lambda>_. True)"
  by (induction bs) (auto intro!: leaves_return leaves_bind leaves_dealloc_data)

lemma leaves_inode_clear: "leaves (inode_clear ops fs nd) (\<lambda>_. True)"
  unfolding inode_clear_def
proof (rule leaves_bind [OF leaves_modify_disk_inode leaves_sync])
  fix di assume "di_sized di"
  from leaves_di_clear_size [OF this]
  show "leaves (bind_io (di_clear_size ops di) (\<lambda>(data_blocks_dealloc, di').
       bind_io (lift_io (assert_res (length data_blocks_dealloc = total_blocks (di_size di)))) (\<lambda>_.
       bind_io (dealloc_all ops fs data_blocks_dealloc) (\<lambda>_. return_io ((), di'))))) (\<lambda>r. di_sized (snd r) \<and> True)"
    by (rule leaves_bindR) (auto intro!: leaves_bind leaves_lift leaves_dealloc_all leaves_return)
qed

lemma leaves_inode_unlink: "leaves (inode_unlink ops fs nd name) (\<lambda>_. True)"
  unfolding inode_unlink_def
  by (intro leaves_bind leaves_inode_find leaves_option leaves_modify_disk_inode leaves_lift leaves_if leaves_inode_clear
      leaves_sync leaves_return)
    (simp_all add: leaves_clear_dirent)

lemma leaves_readdir: "leaves (readdir ops nd) (\<lambda>_. True)"
proof -
  have "leaves (read_names ops di is v) (\<lambda>_. True)" for di "is" v
    by (induction "is" arbitrary: v) (auto intro!: leaves_return leaves_bind leaves_di_read_at leaves_prod leaves_lift)
  then show ?thesis unfolding readdir_def by (intro leaves_read_disk_inode)
qed

lemma leaves_inode_read_at: "leaves (inode_read_at ops nd off buf) (\<lambda>_. True)"
  unfolding inode_read_at_def by (intro leaves_read_disk_inode leaves_di_read_at)

lemma leaves_inode_write_at: "leaves (inode_write_at ops fs nd off buf) (\<lambda>_. True)"
  unfolding inode_write_at_def
proof (rule leaves_bind [OF leaves_modify_disk_inode leaves_bind [OF leaves_sync leaves_return]])
  fix di assume di: "di_sized di"
  show "leaves (bind_io (lift_io (add_res usize_bound off (length buf))) (\<lambda>e. bind_io (inode_increase_size ops fs (as_u32 e) di) (\<lambda>di'.
       bind_io (di_write_at ops di' off buf) (\<lambda>n. return_io (n, di'))))) (\<lambda>r. di_sized (snd r) \<and> True)"
    by (intro leaves_bind leaves_lift leaves_bindR [OF leaves_increase_size [OF di]] leaves_di_write_at leaves_return) simp_all
qed simp

lemma leaves_inode_stat: "leaves (inode_is_dir ops nd) (\<lambda>_. True)" "leaves (get_link_num ops nd) (\<lambda>_. True)"
  unfolding inode_is_dir_def get_link_num_def by (intro leaves_read_disk_inode leaves_return; simp)+

text \<open>Open files.\<close>

lemma leaves_fh_read_buf: "leaves (fh_read_buf ops fh buf) (\<lambda>_. True)"
proof -
  have "leaves (read_slices ops nd buf off n) (\<lambda>_. True)" for nd off n
    by (induction buf arbitrary: off n) (auto intro!: leaves_return leaves_bind leaves_inode_read_at leaves_prod)
  then show ?thesis unfolding fh_read_buf_def by (intro leaves_option leaves_bind leaves_prod leaves_return) simp_all
qed

lemma leaves_fh_write_buf: "leaves (fh_write_buf ops fs fh buf) (\<lambda>_. True)"
proof -
  have "leaves (write_slices ops fs nd buf off n) (\<lambda>_. True)" for nd off n
    by (induction buf arbitrary: off n) (auto intro!: leaves_return leaves_bind leaves_inode_write_at leaves_lift)
  then show ?thesis unfolding fh_write_buf_def by (intro leaves_option leaves_bind leaves_prod leaves_return) simp_all
qed

end

interpretation strict_cache: strict_block_store cache_ops cache_ok cache_view held disk
proof
  fix s :: cache_manager and b :: nat
  assume s: "cache_ok s"
  show "bs_lock cache_ops b s = Inl OutOfBlockCache" if h: "BLOCK_CACHE_SIZE \<le> length (held s)" "b \<notin> set (held s)"
  proof -
    let ?keys = "fst ` set (queue s)"
    have "length (held s) = card (set (held s))" "set (held s) \<subseteq> ?keys" using s by (simp_all add: cache_ok_def distinct_card)
    moreover have "card ?keys = length (queue s)" using s by (metis cache_ok_def distinct_card length_map list.set_map)
    moreover have q: "length (queue s) \<le> BLOCK_CACHE_SIZE" using s by (simp add: cache_ok_def)
    ultimately have c: "card (set (held s)) = card ?keys" "set (held s) \<subseteq> ?keys" "length (queue s) = BLOCK_CACHE_SIZE"
      using h(1) card_mono [of ?keys "set (held s)"] by simp_all
    then have "set (held s) = ?keys" by (intro card_subset_eq) simp_all
    then have "map_of (queue s) b = None" "find_index (\<lambda>pair. fst pair \<notin> set (held s)) (queue s) = None"
      using h(2) by (auto simp: map_of_eq_None_iff find_index_None)
    then show ?thesis using c(3) by (simp add: cache_ops_def cache_lock_def get_block_cache_def replace_one_def del: find_index_None)
  qed
  show "bs_sync cache_ops s = Inl SelfDeadlock" if "held s \<noteq> []"
    using that by (simp add: cache_ops_def block_cache_sync_all_def)
qed

end
