(* ===== verification/File_Invariant.thy ===== *)
theory File_Invariant
  imports File_Calls Fs_Discipline
begin

text \<open>
  What the main loop of chapter 6 keeps: the invariant of the processes of chapter 5, and a block cache that is consistent and of
  which no block is taken between two system calls, whatever the processes do and whatever the device contains.
\<close>

section \<open>The processes\<close>

text \<open>A call that leaves the processes alone or changes the descriptors of the current process.\<close>

definition files_step :: "('f, 'h, 's) kernel6 \<Rightarrow> ('f, 'h, 's) kernel6 \<Rightarrow> bool" where
  "files_step k k' \<longleftrightarrow> processor k' = processor k \<and> next_pid k' = next_pid k \<or>
     (\<exists>p fds s k1. k_current k = Inr p \<and> k_write_current (set_fds fds p) (k\<lparr>fs_store := s\<rparr>) = Inr k1 \<and>
       processor k' = processor k1 \<and> next_pid k' = next_pid k1)"

lemma files_step_same: "processor k' = processor k \<Longrightarrow> next_pid k' = next_pid k \<Longrightarrow> files_step k k'"
  by (simp add: files_step_def)

lemma files_step_write:
  "k_write_current (set_fds fds p) (k\<lparr>fs_store := s\<rparr>) = Inr k1 \<Longrightarrow> k_current k = Inr p \<Longrightarrow>
   processor k' = processor k1 \<Longrightarrow> next_pid k' = next_pid k1 \<Longrightarrow> files_step k k'"
  unfolding files_step_def by blast

lemma files_step_close: "k_write_current (set_fds fds p) k = Inr k' \<Longrightarrow> k_current k = Inr p \<Longrightarrow> files_step k k'"
  by (rule files_step_write [where s = "fs_store k"]) simp_all

lemma keeps_files:
  assumes "\<And>k r k'. f k = Some (Inr (r, k')) \<Longrightarrow> files_step k k'"
  shows "keeps f"
proof (rule keepsI)
  fix b i k r k'
  assume S: "serving b i k" and r: "f k = Some (Inr (r, k'))"
  have same: "serving b i k' \<longleftrightarrow> serving b i k1" if "processor k' = processor k1" "next_pid k' = next_pid k1" for k1
    using that by (simp add: serving_def k_inv_def)
  show "serving b i k' \<and> next_pid k \<le> next_pid k' \<and> next_pid k' \<le> next_pid k + 1"
    using assms [OF r, unfolded files_step_def]
  proof (elim disjE exE conjE)
    fix p fds s k1
    assume w: "k_current k = Inr p" "k_write_current (set_fds fds p) (k\<lparr>fs_store := s\<rparr>) = Inr k1"
      "processor k' = processor k1" "next_pid k' = next_pid k1"
    have "serving b i (k\<lparr>fs_store := s\<rparr>)" using S by (simp add: serving_def k_inv_def)
    moreover have "proc_ok b i (set_fds fds p)" using k_current_ok [OF S w(1)] by simp
    ultimately have "serving b i k1" "next_pid k1 = next_pid k" using k_write_ok [OF _ _ w(2)] by auto
    then show ?thesis using same [OF w(3,4)] w(4) by simp
  qed (use S same [of k] in simp)
qed

lemma with_store_Inr:
  assumes "with_store m f k = Some (Inr r)"
  obtains a s where "m (fs_store k) = Inr (a, s)" "f a (k\<lparr>fs_store := s\<rparr>) = Some (Inr r)"
  using assms by (auto simp: with_store_def)

lemma keeps_sys6_write: "keeps (sys6_write env F fd buf cnt)"
proof (rule keeps_files)
  fix k r k' assume "sys6_write env F fd buf cnt k = Some (Inr (r, k'))"
  then show "files_step k k'"
    by (auto simp: sys6_write_def Let_def files_step_same split: option.split_asm if_split_asm elim!: with_store_Inr)
      (erule (1) files_step_write; simp)
qed

lemma keeps_sys6_read: "keeps (sys6_read env F fd buf cnt)"
proof (rule keeps_files)
  fix k r k' assume "sys6_read env F fd buf cnt k = Some (Inr (r, k'))"
  then show "files_step k k'"
    by (auto simp: sys6_read_def put_user_def files_step_same split: option.split_asm if_split_asm elim!: with_store_Inr)
      (erule (1) files_step_write; simp)
qed

lemma keeps_sys6_open: "keeps (sys6_open env F path flags)"
proof (rule keeps_files)
  fix k r k' assume "sys6_open env F path flags k = Some (Inr (r, k'))"
  then show "files_step k k'"
    by (auto simp: sys6_open_def user_path_def Let_def files_step_same split: option.split_asm if_split_asm elim!: with_store_Inr)
      (erule (1) files_step_write; simp)
qed

lemma keeps_sys6_close: "keeps (sys6_close fd)"
  by (rule keeps_files) (auto simp: sys6_close_def files_step_same split: if_split_asm elim: files_step_close)

lemma keeps_sys6_linkat: "keeps (sys6_linkat env F oldpath newpath)"
  by (rule keeps_files)
    (auto simp: sys6_linkat_def user_path_def files_step_same split: option.split_asm elim!: with_store_Inr)

lemma keeps_sys6_unlinkat: "keeps (sys6_unlinkat env F path)"
  by (rule keeps_files)
    (auto simp: sys6_unlinkat_def user_path_def files_step_same split: option.split_asm elim!: with_store_Inr)

lemma keeps_sys6_fstat: "keeps (sys6_fstat env F fd st)"
  by (rule keeps_files)
    (auto simp: sys6_fstat_def put_user_def Let_def files_step_same split: option.split_asm if_split_asm elim!: with_store_Inr)

lemmas keeps_sys6_io = keeps_sys6_write keeps_sys6_read keeps_sys6_open keeps_sys6_close keeps_sys6_linkat keeps_sys6_unlinkat keeps_sys6_fstat

lemma load_app_cases:
  assumes "load_app env F path cnt go k = Some (Inr (r, k'))"
  obtains (unknown) m s1 names s where "m = return_io None \<or> (\<exists>path. m = fs_open F path 0)" "m (fs_store k) = Inr (None, s1)"
      "fs_readdir F s1 = Inr (Some names, s)" "k' = print_apps names (k\<lparr>fs_store := s\<rparr>)"
    | (known) path fd s1 bytes s elf where "fs_open F path 0 (fs_store k) = Inr (Some fd, s1)" "read_all (fm_ops F) fd s1 = Some (Inr (bytes, s))"
      "go elf (k\<lparr>fs_store := s\<rparr>) = Some (Inr (r, k'))"
proof -
  obtain p ptr where p: "k_current k = Inr p" "k_translate env ''RV'' path p = Inr ptr" using assms by (auto simp: load_app_def)
  define m where "m = (case ptr of None \<Rightarrow> return_io None | Some pa \<Rightarrow> fs_open F (read_phys pa cnt (frames (kmachine k))) 0)"
  obtain opened s1 where m: "m (fs_store k) = Inr (opened, s1)" using assms p by (auto simp: load_app_def m_def elim!: with_store_Inr)
  have cm: "m = return_io None \<or> (\<exists>path. m = fs_open F path 0)" by (auto simp: m_def split: option.split)
  show ?thesis
  proof (cases opened)
    case None
    then show ?thesis
      using assms p m that(1) [OF cm] by (auto simp: load_app_def m_def [symmetric] with_store_def)
  next
    case (Some fd)
    then have "m \<noteq> return_io None" using m by (auto simp: return_io_def)
    then show ?thesis
      using assms p m Some cm that(2) by (auto simp: load_app_def m_def [symmetric] with_store_def)
  qed
qed

lemma keeps_load_app:
  assumes "\<And>elf. keeps (go elf)"
  shows "keeps (load_app env F path cnt go)"
proof (rule keepsI)
  fix b i k r k'
  assume S: "serving b i k" "next_pid k < pid_any" and r: "load_app env F path cnt go k = Some (Inr (r, k'))"
  have S': "serving b i (k\<lparr>fs_store := s\<rparr>)" for s using S by (simp add: serving_def k_inv_def)
  from r show "serving b i k' \<and> next_pid k \<le> next_pid k' \<and> next_pid k' \<le> next_pid k + 1"
  proof (cases rule: load_app_cases)
    case unknown
    then show ?thesis using S' by (simp add: print_apps_def)
  next
    case (known path fd s1 bytes s elf)
    then show ?thesis using assms [of elf] S' [of s] S(2) unfolding keeps_def by fastforce
  qed
qed

lemma keeps_syscall6: "keeps_calls (syscall6 env F)"
proof -
  have g: "keeps (syscall5 env c)" if "decode j args = Some c" for j args c
    using keeps_syscall5 that by (auto simp: keeps_calls_def)
  have "keeps (sys6_exec env F path cnt)" "keeps (sys6_spawn env F path cnt)" for path cnt
    unfolding sys6_exec_def sys6_spawn_def by (intro keeps_load_app keeps_exec_elf keeps_spawn_elf)+
  note k6 = this keeps_sys6_io
  have "keeps (syscall6 env F c) \<or> syscall6 env F c = syscall5 env c" for c
  proof (cases c)
  qed (simp_all add: k6 syscall6.simps [abs_def] syscall5.simps [abs_def] fun_eq_iff)
  then show ?thesis unfolding keeps_calls_def using g by metis
qed

section \<open>The block cache\<close>

text \<open>Between two calls the cache is consistent and no block is taken.\<close>

definition store_ok :: "('f, 'h, cache_manager) kernel6 \<Rightarrow> bool" where
  "store_ok k \<longleftrightarrow> cache_ok (fs_store k) \<and> held (fs_store k) = []"

definition keeps_store :: "(('f, 'h, cache_manager) kernel6 \<Rightarrow> (int \<times> ('f, 'h, cache_manager) kernel6) run) \<Rightarrow> bool" where
  "keeps_store f \<longleftrightarrow> (\<forall>k r k'. store_ok k \<longrightarrow> f k = Some (Inr (r, k')) \<longrightarrow> store_ok k')"

text \<open>The calls of chapter 5 do not touch it.\<close>

lemma k_write_current_store [simp]: "k_write_current p k = Inr k' \<Longrightarrow> fs_store k' = fs_store k"
  by (auto simp: k_write_current_def)

lemma store_ok_upd [simp]:
  "store_ok (k\<lparr>processor := pm\<rparr>) = store_ok k" "store_ok (k\<lparr>next_pid := n\<rparr>) = store_ok k" "store_ok (k\<lparr>kmachine := mc\<rparr>) = store_ok k"
  "store_ok (k\<lparr>console_out := out\<rparr>) = store_ok k" "store_ok (k\<lparr>console_in := inp\<rparr>) = store_ok k" "store_ok (k\<lparr>time_now := t\<rparr>) = store_ok k"
  "store_ok (print_apps names k) = store_ok k" "store_ok (put_user pa bytes k) = store_ok k"
  by (simp_all add: store_ok_def print_apps_def put_user_def)

lemma store_ok_write: "k_write_current p k = Inr k' \<Longrightarrow> store_ok k' = store_ok k"
  by (simp add: store_ok_def)

lemmas store_calls = sys_fork_def sys_wait_def sys_getpid_def sys_sbrk5_def clock_gettime_def sched_yield_def sys_set_priority_def
  sys_munmap5_def sys_mmap5_def exec_elf_def spawn_elf_def

lemma keeps_store_elf: "keeps_store (exec_elf env elf)" "keeps_store (spawn_elf env elf)"
  by (auto simp: keeps_store_def exec_elf_def spawn_elf_def store_ok_write split: option.split_asm)

lemma keeps_store_generic:
  "keeps_store (sys_fork env)" "keeps_store (sys_wait env pid ptr)" "keeps_store sys_getpid" "keeps_store (sys_sbrk5 env sz)"
  "keeps_store (clock_gettime env cid tp)" "keeps_store sched_yield" "keeps_store (sys_set_priority prio)"
  "keeps_store (sys_munmap5 env addr len)" "keeps_store (sys_mmap5 env addr len prot)"
  by (auto simp: keeps_store_def store_calls store_ok_write Let_def split: option.splits if_split_asm prod.split_asm)


text \<open>The calls on files.\<close>

lemma leaves_fs_open: "strict_cache.leaves (fs_open (manager_of cache_ops fs) path flags) (\<lambda>_. True)"
  unfolding fs_open_def fs_find_def Let_def manager_of_simps
  by (intro strict_cache.leaves_prod strict_cache.leaves_if strict_cache.leaves_bind strict_cache.leaves_option strict_cache.leaves_inode_find
      strict_cache.leaves_inode_clear strict_cache.leaves_inode_create strict_cache.leaves_return) simp_all

lemma leaves_fs_dir:
  "strict_cache.leaves (fs_readdir (manager_of cache_ops fs)) (\<lambda>_. True)"
  "strict_cache.leaves (fs_link (manager_of cache_ops fs) src dst) (\<lambda>_. True)"
  "strict_cache.leaves (fs_unlink (manager_of cache_ops fs) path) (\<lambda>_. True)"
  unfolding fs_readdir_def fs_link_def fs_unlink_def manager_of_simps
  by (intro strict_cache.leaves_bind strict_cache.leaves_readdir strict_cache.leaves_inode_link strict_cache.leaves_inode_unlink
      strict_cache.leaves_return; simp)+

lemma store_ok_after:
  "strict_cache.leaves m (\<lambda>_. True) \<Longrightarrow> m (fs_store k) = Inr (a, s) \<Longrightarrow> store_ok k \<Longrightarrow> store_ok (k\<lparr>fs_store := s\<rparr>)"
  using strict_cache.leavesD [of m "\<lambda>_. True" "fs_store k" a s] by (simp add: store_ok_def)

lemma read_all_store:
  assumes "read_all cache_ops fd s = Some (Inr (bytes, s'))" "cache_ok s" "held s = []"
  shows "cache_ok s' \<and> held s' = []"
proof -
  have "cache_ok s' \<and> held s' = held s"
    if "read_all_loop cache_ops nd off buf v s = Some (Inr (bytes, s'))" "cache_ok s" for nd off buf v s
  proof -
    have "cache_ok s \<longrightarrow> (\<forall>bytes s'. r = Inr (bytes, s') \<longrightarrow> cache_ok s' \<and> held s' = held s)"
      if "read_all_loop ops nd off buf v s = Some r" "ops = cache_ops" for r ops
      using that
    proof (induction rule: read_all_loop.raw_induct [rotated 1, consumes 1, case_names step])
      case (step loop ops nd off buf v s r)
      show ?case
      proof (cases "inode_read_at ops nd off buf s")
        case (Inr x)
        obtain len buf' s1 where x: "x = ((len, buf'), s1)" by (metis prod.exhaust)
        have l: "cache_ok s \<Longrightarrow> cache_ok s1 \<and> held s1 = held s"
          using strict_cache.leavesD [OF strict_cache.leaves_inode_read_at] Inr x step(3) by blast
        show ?thesis
        proof (cases "len = 0")
          case True
          then show ?thesis using step(2) Inr x l by auto
        next
          case False
          then have "loop ops nd (off + len) buf' (v @ take len buf') s1 = Some r" using step(2) Inr x by simp
          from step(1) [OF this step(3)] l show ?thesis by metis
        qed
      qed (use step(2) in auto)
    qed
    then show ?thesis using that by blast
  qed
  then show ?thesis using assms by (auto simp: read_all_def split: option.splits)
qed

lemma keeps_store_transfer:
  "keeps_store (sys6_write env (manager_of cache_ops fs) fd buf cnt)" "keeps_store (sys6_read env (manager_of cache_ops fs) fd buf cnt)"
  by (auto simp: keeps_store_def sys6_write_def sys6_read_def Let_def store_ok_write split: option.split_asm if_split_asm elim!: with_store_Inr
      dest!: store_ok_after [OF strict_cache.leaves_fh_write_buf] store_ok_after [OF strict_cache.leaves_fh_read_buf])

lemma keeps_store_open: "keeps_store (sys6_open env (manager_of cache_ops fs) path flags)" "keeps_store (sys6_close fd)"
  by (auto simp: keeps_store_def sys6_open_def sys6_close_def Let_def store_ok_write split: option.split_asm if_split_asm elim!: with_store_Inr
      dest!: store_ok_after [OF leaves_fs_open])

lemma keeps_store_link:
  "keeps_store (sys6_linkat env (manager_of cache_ops fs) oldpath newpath)" "keeps_store (sys6_unlinkat env (manager_of cache_ops fs) path)"
  by (auto simp: keeps_store_def sys6_linkat_def sys6_unlinkat_def split: option.split_asm elim!: with_store_Inr
      dest!: store_ok_after [OF leaves_fs_dir(2)] store_ok_after [OF leaves_fs_dir(3)])

lemma keeps_store_fstat: "keeps_store (sys6_fstat env (manager_of cache_ops fs) fd st)"
  by (auto simp: keeps_store_def sys6_fstat_def Let_def split: option.split_asm if_split_asm elim!: with_store_Inr
      dest!: store_ok_after [OF strict_cache.leaves_inode_stat(1)] store_ok_after [OF strict_cache.leaves_inode_stat(2)])

lemma keeps_store_load_app:
  assumes go: "\<And>elf. keeps_store (go elf)"
  shows "keeps_store (load_app env (manager_of cache_ops fs) path cnt go)"
  unfolding keeps_store_def
proof (intro allI impI)
  fix k r k' assume k: "store_ok k" and "load_app env (manager_of cache_ops fs) path cnt go k = Some (Inr (r, k'))"
  from this(2) show "store_ok k'"
  proof (cases rule: load_app_cases)
    case (unknown m s1 names s)
    have "strict_cache.leaves m (\<lambda>_. True)" using unknown(1) by (auto simp: leaves_fs_open strict_cache.leaves_return)
    from store_ok_after [OF this unknown(2) k] store_ok_after [OF leaves_fs_dir(1), of fs "k\<lparr>fs_store := s1\<rparr>"] unknown(3,4)
    show ?thesis by simp
  next
    case (known path fd s1 bytes s elf)
    from store_ok_after [OF leaves_fs_open known(1) k] read_all_store [of fd s1 bytes s] known(2)
    have "store_ok (k\<lparr>fs_store := s\<rparr>)" by (simp add: store_ok_def)
    then show ?thesis using go [of elf] known(3) unfolding keeps_store_def by blast
  qed
qed

lemma keeps_store_syscall6: "keeps_store (syscall6 env (manager_of cache_ops fs) c)"
proof -
  have k: "keeps_store (sys6_exec env (manager_of cache_ops fs) path cnt)" "keeps_store (sys6_spawn env (manager_of cache_ops fs) path cnt)" for path cnt
    unfolding sys6_exec_def sys6_spawn_def by (intro keeps_store_load_app keeps_store_elf)+
  have u: "keeps_store (\<lambda>k. Some (Inl Unimplemented))" "keeps_store (\<lambda>k. Some (Inr (v, k)))" for v by (simp_all add: keeps_store_def)
  show ?thesis
  proof (cases c)
  qed (simp_all add: k u keeps_store_transfer keeps_store_open keeps_store_link keeps_store_fstat keeps_store_generic
      syscall6.simps [abs_def] syscall5.simps [abs_def])
qed

lemma k_exited_store: "k_exited code k = Inr k' \<Longrightarrow> store_ok k' = store_ok k"
  by (auto simp: k_exited_def)

lemma finish_syscall_store: "finish_syscall i r k = Some (Inr k') \<Longrightarrow> store_ok k' = store_ok k"
  by (auto simp: finish_syscall_def k_exited_store store_ok_write split: syscall_result.split_asm if_split_asm)

lemma serve_with_store:
  assumes "\<And>c. keeps_store (calls c)" "serve_with calls k = Some (Inr k')" "store_ok k"
  shows "store_ok k'"
proof -
  obtain p k1 i args r k2 where h: "k_write_current p k = Inr k1" "handle subsystems5 calls i args k1 = Some (Inr (r, k2))" "finish_syscall i r k2 = Some (Inr k')"
    using assms(2,3) by (auto simp: serve_with_def Let_def)
  have "store_ok k1" using store_ok_write [OF h(1)] assms(3) by simp
  then have "store_ok k2"
    using h(2) assms(1) unfolding keeps_store_def handle_def by (auto split: option.split_asm if_split_asm)
  then show ?thesis using finish_syscall_store [OF h(3)] by simp
qed

lemma turn_with_store:
  assumes "\<And>c. keeps_store (calls c)" "turn_with calls user k = Some (Inr (go, k'))" "store_ok k"
  shows "store_ok k'"
proof -
  obtain next_task pm where pm: "pm_find_next stride_ops (processor k) = Inr (next_task, pm)" using assms(2) by (auto simp: turn_with_def)
  show ?thesis
  proof (cases next_task)
    case None
    then show ?thesis using assms(2,3) pm by (auto simp: turn_with_def)
  next
    case (Some task)
    obtain fc fr ecall where u: "user (proc_context task) (frames (kmachine k)) = (fc, fr, ecall)" by (metis prod.exhaust)
    obtain p k1 k2 where k1: "k_write_current p k1 = Inr k2" "store_ok k1" and k2: "(if ecall then serve_with calls k2 else Some (k_exited (- 3) k2)) = Some (Inr k')"
      using assms(2,3) pm Some u by (auto simp: turn_with_def Let_def)
    have "store_ok k2" using store_ok_write [OF k1(1)] k1(2) by simp
    then show ?thesis using serve_with_store [of calls k2 k', OF assms(1)] k_exited_store [of "- 3" k2 k'] k2 by (cases ecall) simp_all
  qed
qed

section \<open>Properties\<close>

text \<open>
  The kernels that the loop of chapter 6 reaches in \<open>n\<close> turns, after it has loaded the first process from a file. The device
  may hold anything; the programs, the console and the clock are free as in chapter 5.
\<close>

inductive k6_reach ::
  "('f, unit, 'h) kernel_env \<Rightarrow> cache_manager file_system \<Rightarrow> nat \<Rightarrow> ('f, 'h, cache_manager) kernel6 \<Rightarrow> bool" for env F where
  k6_boot: "boot6 env F (cache_manager_new d) mc = Some (Inr k) \<Longrightarrow> \<forall>b. length (d b) = BLOCK_SZ \<Longrightarrow> rel_map (processor k) 0 \<noteq> None \<Longrightarrow>
     k6_reach env F 0 k"
| k6_turn: "k6_reach env F n k \<Longrightarrow> user_wf user \<Longrightarrow>
     kernel6_turn env F user (k\<lparr>console_in := inp, time_now := now\<rparr>) = Some (Inr (True, k')) \<Longrightarrow> k6_reach env F (Suc n) k'"

lemma boot6_ok:
  assumes b: "boot6 env (manager_of cache_ops fs) (cache_manager_new d) mc = Some (Inr k)" and d: "\<forall>b. length (d b) = BLOCK_SZ"
    and r: "rel_map (processor k) 0 \<noteq> None"
  shows "k_inv 0 k \<and> current (processor k) = None \<and> next_pid k = 1 \<and> store_ok k"
proof -
  obtain fd s1 bytes s2 elf where o: "fs_open (manager_of cache_ops fs) (map (of_nat \<circ> of_char) ''initproc'') 0 (cache_manager_new d) = Inr (Some fd, s1)"
    "read_all cache_ops fd s1 = Some (Inr (bytes, s2))" "boot_with \<lparr>fs_store = s2\<rparr> (files_env env) elf mc = Some (Inr k)"
    using b by (auto simp: boot6_def)
  note c = cache_manager_new_ok [OF d]
  have "cache_ok s1 \<and> held s1 = held (cache_manager_new d)" using strict_cache.leavesD [OF leaves_fs_open c(1) o(1)] by simp
  then have s2: "cache_ok s2" "held s2 = []" using read_all_store [OF o(2)] c(2) by auto
  have ex: "elf_header64 elf \<and> elf_executable elf \<and> elf_riscv elf"
  proof (rule ccontr)
    assume "\<not> ?thesis"
    then have "from_elf (files_env env) elf (0, mc) = Some (Inr (None, 0, mc))" by (simp add: from_elf_def)
    then show False using o(3) r by (auto simp: boot_with_def pm_new_def)
  qed
  have "fs_store k = s2" using o(3) by (auto simp: boot_with_def Let_def split: option.split_asm)
  then show ?thesis using boot_with_ok [OF o(3) ex] s2 by (simp add: store_ok_def)
qed

text \<open>
  C3. The invariant of the kernel of chapter 6: in every state that the loop reaches in \<open>n\<close> turns, on any device, the processes satisfy the
  invariant of chapter 5 (tree, table and ready queue agree, every process object is well formed, strides are at most
  \<open>100 * n\<close>), the block cache holds at most 16 distinct blocks, every cached block that is not marked as modified agrees with
  the device, and no block is still taken: every call that opens, reads, writes, links or unlinks files has released what it took.
\<close>

theorem kernel6_invariant:
  assumes "k6_reach env (manager_of cache_ops fs) n k" "100 * n + 100 < usize_bound"
  shows "k_inv (100 * n) k \<and> current (processor k) = None \<and> next_pid k \<le> n + 1 \<and> cache_ok (fs_store k) \<and> held (fs_store k) = []"
  using assms
proof (induction rule: k6_reach.induct)
  case (k6_boot d mc k)
  then show ?case using boot6_ok [of env fs d mc k] by (simp add: store_ok_def)
next
  case (k6_turn n k user inp now k')
  then have I: "k_inv (100 * n) k" "current (processor k) = None" "next_pid k \<le> n + 1" "store_ok k" by (simp_all add: store_ok_def)
  note t = k6_turn.hyps(3) [unfolded kernel6_turn_def]
  have "k_inv (100 * n + 100) k' \<and> current (processor k') = None \<and> next_pid k' \<le> next_pid k + 1"
    using turn_with_ok [OF keeps_syscall6 _ _ _ k6_turn.hyps(2) _ t, of "100 * n"] I(1-3) k6_turn.prems by simp
  moreover have "store_ok k'" using turn_with_store [OF keeps_store_syscall6 t] I(4) by simp
  ultimately show ?case using I(3) by (simp add: add.commute store_ok_def)
qed

text \<open>A device with an empty file \<^verbatim>\<open>initproc\<close>, which is taken for the sample program.\<close>

lemma initproc_device:
  obtains d A where "\<forall>b. length (d b) = BLOCK_SZ" "abstracts (formatted 6000 1) (cache_view (cache_manager_new d)) A"
    "map_of (entries A) (map (of_nat \<circ> of_char) ''initproc'') = Some 1" "nodes A 1 = Some (1, [])"
proof -
  have nm: "name_ok (map (of_nat \<circ> of_char) ''initproc'')" by code_simp
  obtain s A where s: "cache_ok s" "held s = []" "abstracts (formatted 6000 1) (cache_view s) A" "nodes A 1 = Some (1, [])"
    "entries A = [(map (of_nat \<circ> of_char) ''initproc'', 1)]" by (rule one_named_file [OF nm])
  have l: "\<forall>b. length (cache_view s b) = BLOCK_SZ" using block_lengths [OF s(1)] by simp
  show ?thesis by (rule that [OF l, of A]) (use s cache_manager_new_ok(3) [OF l] in simp_all)
qed

text \<open>Such a device is opened and read when the kernel starts.\<close>

lemma initproc_loaded:
  obtains d fd s1 s2 where "\<forall>b. length (d b) = BLOCK_SZ"
    "fs_open (manager_of cache_ops (formatted 6000 1)) (map (of_nat \<circ> of_char) ''initproc'') 0 (cache_manager_new d) = Inr (Some fd, s1)"
    "read_all cache_ops fd s1 = Some (Inr ([], s2))"
proof -
  let ?fs = "formatted 6000 1" and ?name = "map (of_nat \<circ> of_char) ''initproc''"
  obtain d A where d: "\<forall>b. length (d b) = BLOCK_SZ" "abstracts ?fs (cache_view (cache_manager_new d)) A"
    "map_of (entries A) ?name = Some 1" "nodes A 1 = Some (1, [])" by (rule initproc_device)
  note c = cache_manager_new_ok [OF d(1)]
  have op: "spec_open ?fs ?name 0 A = Some (Some (opened_as ?fs 0 1), A)" using d(3) by (simp add: spec_open_def)
  obtain s1 where s1: "fs_open (manager_of cache_ops ?fs) ?name 0 (cache_manager_new d) = Inr (Some (opened_as ?fs 0 1), s1)" "cache_ok s1" "held s1 = []"
    "abstracts ?fs (cache_view s1) A"
    by (rule abstracts_runs [OF c(1,2) cache_store.runs_fs_open [OF c(1,2) d(2) op]])
  have fs: "fs_ok ?fs (cache_view s1)" using s1(4) by (simp add: abstracts_def)
  obtain s2 where s2: "read_all cache_ops (opened_as ?fs 0 1) s1 = Some (Inr ([], s2))"
    using cache_store.read_all_loop_returns [OF s1(2,3) fs nodes_files(1) [OF s1(4) d(4)], of "replicate 512 0" 0 "[]"]
    by (auto simp: read_all_def opened_as_def fh_new_def)
  show ?thesis by (rule that [OF d(1) s1(1) s2])
qed

theorem kernel6_invariant_witness:
  "\<exists>k. k6_reach (sample_env\<lparr>ke_elf := \<lambda>_. Some sample_elf\<rparr>) (manager_of cache_ops (formatted 6000 1)) 0 k \<and> k_inv 0 k \<and>
    cache_ok (fs_store k) \<and> held (fs_store k) = []"
proof -
  let ?fs = "formatted 6000 1" and ?name = "map (of_nat \<circ> of_char) ''initproc''" and ?env = "sample_env\<lparr>ke_elf := \<lambda>_. Some sample_elf\<rparr>"
  obtain d fd s1 s2 where d: "\<forall>b. length (d b) = BLOCK_SZ"
    and l: "fs_open (manager_of cache_ops ?fs) ?name 0 (cache_manager_new d) = Inr (Some fd, s1)" "read_all cache_ops fd s1 = Some (Inr ([], s2))"
    by (rule initproc_loaded)
  have "\<exists>k. boot_with \<lparr>fs_store = s2\<rparr> (files_env ?env) sample_elf sample_machine = Some (Inr k) \<and> rel_map (processor k) 0 \<noteq> None"
    by (simp add: boot_with_def from_elf_def user_space_new_def files_env_def sample_env_def sample_elf_def flat_env_def sample_machine_def
        map_extern_def flat_walk.simps mapper_arrive_def mapper_new_def mapper_ans_def space_new_def Let_def
        lc_set_sp_def lc_set_x_def lc_user_def proc_id_new_def pm_add_def pm_set_manager_def pm_new_def
        stride_ops_def manage_insert_def schedule_add_def)
  then obtain k where k: "boot6 ?env (manager_of cache_ops ?fs) (cache_manager_new d) sample_machine = Some (Inr k)" "rel_map (processor k) 0 \<noteq> None"
    using l by (auto simp: boot6_def)
  then have "k6_reach ?env (manager_of cache_ops ?fs) 0 k" using k6_boot [OF k(1) d k(2)] by simp
  from this kernel6_invariant [OF this] show ?thesis by auto
qed

end
