(* ===== verification/Pipe_Invariant.thy ===== *)
theory Pipe_Invariant
  imports Pipe_Kernel File_Invariant
begin

text \<open>
  What the kernel of chapter 7 keeps: the process tables agree, every pipe is a well-formed ring, and the strong references to the write end
  of a pipe are exactly the descriptors for it in the tables of the live processes, over \<^verbatim>\<open>pipe\<close>, \<^verbatim>\<open>fork\<close>, \<^verbatim>\<open>close\<close> and the end of processes.
  So a reader sees the end of the file exactly when nobody can write any more.
\<close>

section \<open>Rings and their write ends\<close>

lemma write_byte_writers [simp]: "write_end (write_byte c r) = write_end r"
  by (simp add: write_byte_def Let_def)

lemma read_byte_writers: "read_byte r = (c, r') \<Longrightarrow> write_end r' = write_end r"
  by (auto simp: read_byte_def Let_def split: if_split_asm)

lemma pipe_write_loop_ring:
  "pipe_write_loop n want already it r = Inr (v, r') \<Longrightarrow> prb_inv r \<Longrightarrow> n \<le> available_write r \<Longrightarrow> prb_inv r' \<and> write_end r' = write_end r"
proof (induction n arbitrary: already it r)
  case (Suc n)
  then obtain p it1 where n: "it_next it = Inr (p, it1)" by auto
  show ?case
  proof (cases p)
    case (Some b)
    let ?r = "write_byte (ptr_load b it1) r"
    have "prb_inv ?r" "n \<le> available_write ?r" using Suc.prems by (simp_all add: write_byte_inv ring_room)
    then show ?thesis using Suc.prems Suc.IH [of "already + 1" it1 ?r] n Some by (auto simp: Let_def split: if_split_asm)
  qed (use Suc.prems n in auto)
qed simp

lemma pipe_read_loop_ring:
  "pipe_read_loop n want already it r = Inr (v, it', r') \<Longrightarrow> prb_inv r \<Longrightarrow> n \<le> available_read r \<Longrightarrow> prb_inv r' \<and> write_end r' = write_end r"
proof (induction n arbitrary: already it r)
  case (Suc n)
  then obtain p it1 where n: "it_next it = Inr (p, it1)" by auto
  show ?case
  proof (cases p)
    case (Some b)
    obtain c r1 where r1: "read_byte r = (c, r1)" by fastforce
    have "prb_inv r1" "n \<le> available_read r1"
      using Suc.prems read_byte_inv [of r] read_byte_available [of r] by (simp_all add: r1)
    then show ?thesis
      using Suc.prems Suc.IH [of "already + 1" "ptr_store b c it1" r1] n Some r1 read_byte_writers [OF r1]
      by (auto simp: Let_def split: if_split_asm)
  qed (use Suc.prems n in auto)
qed simp

lemma pipe_write_ring: "pipe_write buf r = Inr (v, r') \<Longrightarrow> prb_inv r \<Longrightarrow> prb_inv r' \<and> write_end r' = write_end r"
  by (auto simp: pipe_write_def Let_def dest: pipe_write_loop_ring split: if_split_asm)

lemma pipe_read_ring: "pipe_read buf r = Inr (v, buf', r') \<Longrightarrow> prb_inv r \<Longrightarrow> prb_inv r' \<and> write_end r' = write_end r"
  by (auto simp: pipe_read_def Let_def dest: pipe_read_loop_ring split: if_split_asm)

text \<open>The write ends among the descriptors, and what cloning and dropping does to the rings.\<close>

definition writers :: "nat \<Rightarrow> fd option list \<Rightarrow> nat" where
  "writers j fds = count_list fds (Some (FdPipeWrite j))"

lemma writers_simps [simp]:
  "writers j [] = 0" "writers j (x # fds) = (if x = Some (FdPipeWrite j) then writers j fds + 1 else writers j fds)"
  "writers j (fds @ fds') = writers j fds + writers j fds'" "writers j (replicate n x) = (if x = Some (FdPipeWrite j) then n else 0)"
proof -
  show "writers j (replicate n x) = (if x = Some (FdPipeWrite j) then n else 0)" by (induction n) (auto simp: writers_def)
qed (simp_all add: writers_def)

lemma writers_update:
  "i < length fds \<Longrightarrow> writers j (fds[i := x]) + writers j [fds ! i] = writers j fds + writers j [x]"
proof (induction fds arbitrary: i)
  case (Cons y fds)
  show ?case
  proof (cases i)
    case (Suc i')
    then show ?thesis using Cons.IH [of i'] Cons.prems by (cases "x = Some (FdPipeWrite j)") simp_all
  qed (use Cons.prems in simp)
qed simp

lemma length_count_writers [simp]: "length (count_writers f fds rings) = length rings"
  by (induction f fds rings rule: count_writers.induct) simp_all

lemma count_writers_nth:
  "j < length rings \<Longrightarrow> count_writers f fds rings ! j =
    (rings ! j)\<lparr>write_end := map_option (f ^^ writers j fds) (write_end (rings ! j))\<rparr>"
proof (induction f fds rings rule: count_writers.induct)
  case (2 f i fds rings)
  have "map_option (f ^^ n) (map_option f w) = map_option (f ^^ Suc n) w" for n w
    by (cases w) (simp_all add: funpow_swap1)
  then show ?case using 2 by (cases "i = j") (simp_all add: comp_def)
qed (simp_all add: option.map_id)

lemma prb_inv_write_end [simp]: "prb_inv (r\<lparr>write_end := w\<rparr>) = prb_inv r"
  by (simp add: prb_inv_def)

lemma funpow_Suc: "Suc ^^ n = (\<lambda>w. n + w)"
  by (induction n) (simp_all add: fun_eq_iff)

lemma funpow_pred: "(\<lambda>n. n - Suc 0) ^^ n = (\<lambda>w. w - n)"
  by (induction n) (simp_all add: fun_eq_iff)

lemma clone_fds_nth: "j < length rings \<Longrightarrow> write_end (clone_fds fds rings ! j) = map_option ((+) (writers j fds)) (write_end (rings ! j))"
  "j < length rings \<Longrightarrow> prb_inv (clone_fds fds rings ! j) = prb_inv (rings ! j)" "length (clone_fds fds rings) = length rings"
  by (simp_all add: clone_fds_def count_writers_nth funpow_Suc)

lemma drop_fds_nth: "j < length rings \<Longrightarrow> write_end (drop_fds fds rings ! j) = map_option (\<lambda>w. w - writers j fds) (write_end (rings ! j))"
  "j < length rings \<Longrightarrow> prb_inv (drop_fds fds rings ! j) = prb_inv (rings ! j)" "length (drop_fds fds rings) = length rings"
  by (simp_all add: drop_fds_def count_writers_nth funpow_pred)

section \<open>Pipes and processes\<close>

definition pipe_refs :: "fd option \<Rightarrow> nat set" where
  "pipe_refs x = (case x of Some (FdPipeRead j) \<Rightarrow> {j} | Some (FdPipeWrite j) \<Rightarrow> {j} | _ \<Rightarrow> {})"

definition fds_ok :: "nat \<Rightarrow> fd option list \<Rightarrow> bool" where
  "fds_ok n fds \<longleftrightarrow> (\<forall>x\<in>set fds. pipe_refs x \<subseteq> {..<n})"

definition total_writers :: "nat \<Rightarrow> (nat \<rightharpoonup> 'f process7) \<Rightarrow> nat" where
  "total_writers j ts = (\<Sum>i\<in>dom ts. writers j (p7_fds (the (ts i))))"

definition pipes_ok :: "(nat \<rightharpoonup> 'f process7) \<Rightarrow> pipe_ring_buffer list \<Rightarrow> bool" where
  "pipes_ok ts rings \<longleftrightarrow> (\<forall>p\<in>ran ts. fds_ok (length rings) (p7_fds p)) \<and>
     (\<forall>j<length rings. prb_inv (rings ! j) \<and> write_end (rings ! j) = Some (total_writers j ts))"

lemma pipe_refs_simps [simp]:
  "pipe_refs None = {}" "pipe_refs (Some (FdFile f)) = {}" "pipe_refs (Some (FdEmpty b c)) = {}" "pipe_refs (Some (FdPipeRead j)) = {j}"
  "pipe_refs (Some (FdPipeWrite j)) = {j}"
  by (simp_all add: pipe_refs_def)

lemma fds_ok_append [simp]: "fds_ok n (fds @ fds') \<longleftrightarrow> fds_ok n fds \<and> fds_ok n fds'"
  by (auto simp: fds_ok_def)

lemma fds_ok_writers: "fds_ok n fds \<Longrightarrow> n \<le> j \<Longrightarrow> writers j fds = 0"
  by (fastforce simp: fds_ok_def pipe_refs_def writers_def count_list_0_iff)

lemma fds_ok_mono: "fds_ok n fds \<Longrightarrow> n \<le> n' \<Longrightarrow> fds_ok n' fds"
  by (fastforce simp: fds_ok_def)

lemma total_writers_upd:
  "finite (dom ts) \<Longrightarrow> ts i = Some p \<Longrightarrow> total_writers j (ts(i \<mapsto> p')) + writers j (p7_fds p) = total_writers j ts + writers j (p7_fds p')"
  "finite (dom ts) \<Longrightarrow> ts i = Some p \<Longrightarrow> total_writers j (ts(i := None)) + writers j (p7_fds p) = total_writers j ts"
  "finite (dom ts) \<Longrightarrow> ts i = None \<Longrightarrow> total_writers j (ts(i \<mapsto> p')) = total_writers j ts + writers j (p7_fds p')"
proof -
  let ?f = "\<lambda>ts i. writers j (p7_fds (the (ts i)))"
  have eq: "(\<Sum>x\<in>dom ts - {i}. ?f (ts(i := y)) x) = (\<Sum>x\<in>dom ts - {i}. ?f ts x)" for y by (rule sum.cong) auto
  assume fin: "finite (dom ts)"
  { assume i: "ts i = Some p"
    then have d: "dom (ts(i \<mapsto> p')) = dom ts" "i \<in> dom ts" by auto
    have r: "sum (?f g) (dom ts) = ?f g i + sum (?f g) (dom ts - {i})" for g using fin d(2) by (simp add: sum.remove)
    show "total_writers j (ts(i \<mapsto> p')) + writers j (p7_fds p) = total_writers j ts + writers j (p7_fds p')"
      unfolding total_writers_def d(1) r [of "ts(i \<mapsto> p')"] r [of ts] eq using i by simp
    have "dom (ts(i := None)) = dom ts - {i}" by auto
    then show "total_writers j (ts(i := None)) + writers j (p7_fds p) = total_writers j ts"
      unfolding total_writers_def r [of ts] using eq [of None] i by simp }
  assume i: "ts i = None"
  then have "dom (ts(i \<mapsto> p')) = insert i (dom ts)" "i \<notin> dom ts" "dom ts - {i} = dom ts" by auto
  then show "total_writers j (ts(i \<mapsto> p')) = total_writers j ts + writers j (p7_fds p')"
    unfolding total_writers_def using fin eq [of "Some p'"] by simp
qed

lemma writers_le_total: "finite (dom ts) \<Longrightarrow> ts i = Some p \<Longrightarrow> writers j (p7_fds p) \<le> total_writers j ts"
  by (metis le_add2 total_writers_upd(2))

text \<open>A change of one table of descriptors from \<open>fds\<close> to \<open>fds'\<close>, with the rings that go with it.\<close>

definition pipe_change :: "fd option list \<Rightarrow> fd option list \<Rightarrow> pipe_ring_buffer list \<Rightarrow> pipe_ring_buffer list \<Rightarrow> bool" where
  "pipe_change fds fds' rings rings' \<longleftrightarrow> fds_ok (length rings) fds \<longrightarrow> (\<forall>j<length rings. prb_inv (rings ! j)) \<longrightarrow>
     length rings \<le> length rings' \<and> fds_ok (length rings') fds' \<and> (\<forall>j<length rings'. prb_inv (rings' ! j)) \<and>
     (\<forall>j<length rings. write_end (rings' ! j) = map_option (\<lambda>w. w + writers j fds' - writers j fds) (write_end (rings ! j))) \<and>
     (\<forall>j. length rings \<le> j \<longrightarrow> j < length rings' \<longrightarrow> write_end (rings' ! j) = Some (writers j fds'))"

lemma pipes_ok_change:
  assumes ok: "pipes_ok ts rings" and fin: "finite (dom ts)" and i: "ts i = Some p"
    and c: "pipe_change (p7_fds p) (p7_fds p') rings rings'"
  shows "pipes_ok (ts(i \<mapsto> p')) rings'"
proof -
  have fd: "\<forall>q\<in>ran ts. fds_ok (length rings) (p7_fds q)" using ok by (simp add: pipes_ok_def)
  then have "fds_ok (length rings) (p7_fds p)" using i by (simp add: ranI)
  then have c: "length rings \<le> length rings'" "fds_ok (length rings') (p7_fds p')" "\<forall>j<length rings'. prb_inv (rings' ! j)"
    "\<forall>j<length rings. write_end (rings' ! j) = map_option (\<lambda>w. w + writers j (p7_fds p') - writers j (p7_fds p)) (write_end (rings ! j))"
    "\<forall>j. length rings \<le> j \<longrightarrow> j < length rings' \<longrightarrow> write_end (rings' ! j) = Some (writers j (p7_fds p'))"
    using c ok by (simp_all add: pipe_change_def pipes_ok_def)
  have "fds_ok (length rings') (p7_fds q)" if "q \<in> ran (ts(i \<mapsto> p'))" for q
    using that c(2) fd fds_ok_mono [OF _ c(1)] by (auto simp: ran_def split: if_split_asm)
  moreover have "write_end (rings' ! j) = Some (total_writers j (ts(i \<mapsto> p')))" if j: "j < length rings'" for j
  proof (cases "j < length rings")
    case True
    then show ?thesis using c(4) ok total_writers_upd(1) [OF fin i, of j p'] writers_le_total [OF fin i, of j] by (simp add: pipes_ok_def)
  next
    case False
    then have "writers j (p7_fds q) = 0" if "q \<in> ran ts" for q using fds_ok_writers [of "length rings" _ j] fd that by simp
    then have "total_writers j ts = 0" "writers j (p7_fds p) = 0" using i by (auto simp: total_writers_def ranI intro!: sum.neutral)
    then show ?thesis using c(5) j False total_writers_upd(1) [OF fin i, of j p'] by simp
  qed
  ultimately show ?thesis using c(3) by (simp add: pipes_ok_def)
qed

lemma pipes_ok_clone:
  assumes ok: "pipes_ok ts rings" and fin: "finite (dom ts)" and p: "ts i = Some p" and n: "ts n = None" and q: "p7_fds q = p7_fds p"
  shows "pipes_ok (ts(n \<mapsto> q)) (clone_fds (p7_fds p) rings)"
proof -
  have "fds_ok (length rings) (p7_fds p)" using ok p by (auto simp: pipes_ok_def ranI)
  then show ?thesis using ok n q total_writers_upd(3) [OF fin n] by (auto simp: pipes_ok_def clone_fds_nth ran_def split: if_split_asm)
qed

lemma pipes_ok_exit:
  assumes ok: "pipes_ok ts rings" and fin: "finite (dom ts)" and p: "ts i = Some p"
  shows "pipes_ok (ts(i := None)) (drop_fds (p7_fds p) rings)"
proof -
  have "total_writers j ts - writers j (p7_fds p) = total_writers j (ts(i := None))" for j using total_writers_upd(2) [OF fin p, of j] by simp
  then show ?thesis using ok by (auto simp: pipes_ok_def drop_fds_nth ran_def split: if_split_asm)
qed


section \<open>Changes of one table\<close>

lemma pipe_change_refl [simp]: "pipe_change fds fds rings rings"
  by (simp add: pipe_change_def option.map_ident)

text \<open>A descriptor is replaced by one for the same pipe, and a ring by one with the same write end.\<close>

lemma pipe_change_entry:
  assumes i: "i < length fds" and x: "pipe_refs x = pipe_refs (fds ! i)" "\<And>j. writers j [x] = writers j [fds ! i]"
    and r: "l < length rings \<Longrightarrow> prb_inv (rings ! l) \<Longrightarrow> prb_inv r \<and> write_end r = write_end (rings ! l)"
  shows "pipe_change fds (fds[i := x]) rings (rings[l := r])"
proof -
  have w: "writers j (fds[i := x]) = writers j fds" for j using writers_update [OF i, of j x] x(2) [of j] by simp
  have "fds_ok n (fds[i := x])" if "fds_ok n fds" for n
    using that i x(1) set_update_subset_insert [of fds i x] by (fastforce simp: fds_ok_def)
  moreover have "prb_inv (rings[l := r] ! j) \<and> write_end (rings[l := r] ! j) = write_end (rings ! j)"
    if "j < length rings" "prb_inv (rings ! j)" for j using r that by (cases "j = l") simp_all
  ultimately show ?thesis using w by (simp add: pipe_change_def option.map_ident)
qed

lemma pipe_change_same:
  assumes "i < length fds" "pipe_refs x = pipe_refs (fds ! i)" "\<And>j. writers j [x] = writers j [fds ! i]"
  shows "pipe_change fds (fds[i := x]) rings rings"
  using pipe_change_entry [OF assms, of "length rings" rings make_pipe] by (simp add: list_update_beyond)

lemma pipe_change_read [simp]:
  assumes "fd_read L fd buf rings s = Inr ((n, fd', buf', rings'), s')" "i < length fds" "fds ! i = Some fd"
  shows "pipe_change fds (fds[i := Some fd']) rings rings'"
  using assms
  by (cases fd) (auto simp: bind_io_def lift_io_def index_res_def return_io_def split: if_split_asm
      intro!: pipe_change_entry pipe_change_same dest: pipe_read_ring)

lemma pipe_change_write [simp]:
  assumes "fd_write L fd buf rings s = Inr ((n, fd', rings'), s')" "i < length fds" "fds ! i = Some fd"
  shows "pipe_change fds (fds[i := Some fd']) rings rings'"
  using assms
  by (cases fd) (auto simp: bind_io_def lift_io_def index_res_def return_io_def split: if_split_asm
      intro!: pipe_change_entry pipe_change_same dest: pipe_write_ring)

lemma pipe_change_open [simp]: "pipe_change fds (fds @ [Some (FdFile f)]) rings rings"
  by (simp add: pipe_change_def option.map_ident) (simp add: fds_ok_def)

lemma pipe_change_pipe [simp]:
  "pipe_change fds (fds @ [Some (FdPipeRead (length rings)), Some (FdPipeWrite (length rings))]) rings (rings @ [make_pipe])"
  using fds_ok_writers [of "length rings" fds "length rings"] fds_ok_mono [of "length rings" fds "Suc (length rings)"]
  by (auto simp: pipe_change_def option.map_ident nth_append less_Suc_eq) (simp add: fds_ok_def)

lemma pipe_change_close [simp]:
  assumes i: "i < length fds" and x: "fds ! i = x"
  shows "pipe_change fds (fds[i := None]) rings (drop_fds [x] rings)"
proof -
  have w: "w + writers j (fds[i := None]) - writers j fds = w - writers j [fds ! i]" for w j
    using writers_update [OF i, of j None] by simp
  have "fds_ok n (fds[i := None])" if "fds_ok n fds" for n
    using that i set_update_subset_insert [of fds i None] by (fastforce simp: fds_ok_def pipe_refs_def)
  then show ?thesis using x by (auto simp: pipe_change_def drop_fds_nth w)
qed

section \<open>The invariant of the kernel\<close>

abbreviation pm7_inv :: "nat \<Rightarrow> 'f process7 thread_manager pmanager \<Rightarrow> bool" where
  "pm7_inv \<equiv> pm_inv (\<lambda>_. True) tm_tasks tm_ready"

definition k7_inv :: "('f, 'h, 's) kernel7 \<Rightarrow> bool" where
  "k7_inv k \<longleftrightarrow> pm7_inv (next_pid7 k) (processor7 k) \<and> (\<exists>m. manager (processor7 k) = Some m \<and>
     (\<forall>i p. tm_tasks m i = Some p \<longrightarrow> p7_pid p = i) \<and> pipes_ok (tm_tasks m) (pipes7 k))"

definition serving7 :: "nat \<Rightarrow> ('f, 'h, 's) kernel7 \<Rightarrow> bool" where
  "serving7 i k \<longleftrightarrow> k7_inv k \<and> current (processor7 k) = Some i"

definition idle7 :: "('f, 'h, 's) kernel7 \<Rightarrow> bool" where
  "idle7 k \<longleftrightarrow> k7_inv k \<and> current (processor7 k) = None"

lemma k7_invE:
  assumes "k7_inv k"
  obtains m where "manager (processor7 k) = Some m" "pm7_inv (next_pid7 k) (processor7 k)" "\<forall>i p. tm_tasks m i = Some p \<longrightarrow> p7_pid p = i"
    "pipes_ok (tm_tasks m) (pipes7 k)" "finite (dom (tm_tasks m))" "dom (tm_tasks m) = dom (rel_map (processor7 k))"
proof -
  obtain m where m: "manager (processor7 k) = Some m" "\<forall>i p. tm_tasks m i = Some p \<longrightarrow> p7_pid p = i" "pipes_ok (tm_tasks m) (pipes7 k)"
    and I: "pm7_inv (next_pid7 k) (processor7 k)" using assms by (auto simp: k7_inv_def)
  moreover have "dom (tm_tasks m) = dom (rel_map (processor7 k))" "finite (dom (rel_map (processor7 k)))" using I m(1) by (auto simp: pm_inv_def)
  ultimately show ?thesis by (intro that) simp_all
qed

lemma serving7_current:
  assumes S: "serving7 i k"
  obtains m p where "manager (processor7 k) = Some m" "tm_tasks m i = Some p" "k7_current k = Inr p" "p7_pid p = i"
proof -
  obtain m where m: "manager (processor7 k) = Some m" "\<forall>i p. tm_tasks m i = Some p \<longrightarrow> p7_pid p = i"
    "dom (tm_tasks m) = dom (rel_map (processor7 k))"
    by (rule k7_invE [OF S [unfolded serving7_def, THEN conjunct1]])
  have "pm7_inv (next_pid7 k) (processor7 k)" "current (processor7 k) = Some i" using S by (simp_all add: serving7_def k7_inv_def)
  then have "i \<in> dom (rel_map (processor7 k))" by (auto simp: pm_inv_def)
  then obtain p where "tm_tasks m i = Some p" using m(3) by blast
  then show ?thesis using that m S by (simp add: serving7_def k7_current_def pm_current_def fifo_ops_def tm_get_def)
qed

text \<open>The object of a process is replaced, with the rings that go with its descriptors.\<close>

lemma put_task7_ok:
  assumes I: "k7_inv k" and m: "manager (processor7 k) = Some m" and p: "tm_tasks m i = Some p" and p': "p7_pid p' = p7_pid p"
    and c: "pipe_change (p7_fds p) (p7_fds p') (pipes7 k) (pipes7 k1)" and k1: "processor7 k1 = processor7 k" "next_pid7 k1 = next_pid7 k"
    and put: "put_task7 i p' k1 = Inr k'"
  shows "k7_inv k' \<and> current (processor7 k') = current (processor7 k) \<and> next_pid7 k' = next_pid7 k"
proof -
  obtain m0 where m0: "manager (processor7 k) = Some m0" "pm7_inv (next_pid7 k) (processor7 k)" "\<forall>i p. tm_tasks m0 i = Some p \<longrightarrow> p7_pid p = i"
    "pipes_ok (tm_tasks m0) (pipes7 k)" "finite (dom (tm_tasks m0))" by (rule k7_invE [OF I])
  have e: "m0 = m" using m0(1) m by simp
  have k': "k' = k1\<lparr>processor7 := (processor7 k)\<lparr>manager := Some (m\<lparr>tm_tasks := (tm_tasks m)(i \<mapsto> p')\<rparr>)\<rparr>\<rparr>"
    using put m k1(1) by (simp add: put_task7_def tm_defs)
  have "dom ((tm_tasks m)(i \<mapsto> p')) = dom (tm_tasks m)" using p by auto
  then have "pm7_inv (next_pid7 k) (processor7 k')" using m0(2) m by (simp add: k' pm_inv_def tm_ready_def)
  moreover have "pipes_ok ((tm_tasks m)(i \<mapsto> p')) (pipes7 k1)"
    by (rule pipes_ok_change [OF m0(4,5) [unfolded e] p c])
  moreover have "p7_pid p' = i" using p' p m0(3) e by simp
  ultimately show ?thesis using m0(3) e k1 by (simp add: k7_inv_def k')
qed

lemma put_current7_ok:
  assumes S: "serving7 i k" and p: "k7_current k = Inr p" and p': "p7_pid p' = p7_pid p"
    and c: "pipe_change (p7_fds p) (p7_fds p') (pipes7 k) (pipes7 k1)" and k1: "processor7 k1 = processor7 k" "next_pid7 k1 = next_pid7 k"
    and put: "put_current7 p' k1 = Inr k'"
  shows "serving7 i k' \<and> next_pid7 k' = next_pid7 k"
proof -
  obtain m where m: "manager (processor7 k) = Some m" "tm_tasks m i = Some p"
    by (rule serving7_current [OF S]) (use p in simp)
  have "put_task7 i p' k1 = Inr k'" using put S m(1) k1(1) by (simp add: put_current7_def pm_write_current_def put_task7_def serving7_def)
  from put_task7_ok [OF _ m p' c k1 this] show ?thesis using S by (simp add: serving7_def)
qed

section \<open>System calls keep the invariant\<close>

definition grows7 :: "('f, 'h, 's) kernel7 \<Rightarrow> ('f, 'h, 's) kernel7 \<Rightarrow> bool" where
  "grows7 k k' \<longleftrightarrow> next_pid7 k \<le> next_pid7 k' \<and> next_pid7 k' \<le> next_pid7 k + 1"

definition keeps7 :: "('f, 'h, 's) call7 \<Rightarrow> bool" where
  "keeps7 f \<longleftrightarrow> (\<forall>i k r k'. serving7 i k \<longrightarrow> next_pid7 k < pid_any \<longrightarrow> f k = Some (Inr (r, k')) \<longrightarrow> serving7 i k' \<and> grows7 k k')"

lemma keeps7I:
  "(\<And>i k r k'. serving7 i k \<Longrightarrow> next_pid7 k < pid_any \<Longrightarrow> f k = Some (Inr (r, k')) \<Longrightarrow> serving7 i k' \<and> grows7 k k') \<Longrightarrow> keeps7 f"
  by (simp add: keeps7_def)

definition same7 :: "('f, 'h, 's) kernel7 \<Rightarrow> ('f, 'h, 's) kernel7 \<Rightarrow> bool" where
  "same7 k k' \<longleftrightarrow> processor7 k' = processor7 k \<and> next_pid7 k' = next_pid7 k \<and> pipes7 k' = pipes7 k"

lemma put_user7_simps [simp]:
  "processor7 (put_user7 pa bs k) = processor7 k" "next_pid7 (put_user7 pa bs k) = next_pid7 k" "pipes7 (put_user7 pa bs k) = pipes7 k"
  by (simp_all add: put_user7_def)

lemma same7_upd [simp]:
  "same7 k (k'\<lparr>machine7 := mc\<rparr>) = same7 k k'" "same7 k (k'\<lparr>out7 := bs\<rparr>) = same7 k k'" "same7 k (k'\<lparr>in7 := bs\<rparr>) = same7 k k'"
  "same7 k (k'\<lparr>store7 := s\<rparr>) = same7 k k'" "same7 k (put_user7 pa bs k') = same7 k k'" "same7 k k" "same7 k (print_apps7 names k') = same7 k k'"
  by (simp_all add: same7_def put_user7_def print_apps7_def)

lemma same7_serving: "same7 k k' \<Longrightarrow> serving7 i k' = serving7 i k"
  by (simp add: same7_def serving7_def k7_inv_def)

text \<open>Calls that at most replace the object of the current process.\<close>

definition plain7 :: "('f, 'h, 's) kernel7 \<Rightarrow> ('f, 'h, 's) kernel7 \<Rightarrow> bool" where
  "plain7 k k' \<longleftrightarrow> same7 k k' \<or> (\<exists>p p' k1 k2. k7_current k = Inr p \<and> put_current7 p' k1 = Inr k2 \<and> same7 k2 k' \<and> processor7 k1 = processor7 k \<and>
     next_pid7 k1 = next_pid7 k \<and> p7_pid p' = p7_pid p \<and> pipe_change (p7_fds p) (p7_fds p') (pipes7 k) (pipes7 k1))"

lemma plain7_upd [simp]:
  "plain7 k k" "same7 k k' \<Longrightarrow> plain7 k k'" "plain7 k k' \<Longrightarrow> plain7 k (put_user7 pa bs k')"
  unfolding plain7_def by (auto simp: same7_upd)

lemma plain7_put [simp]:
  "put_current7 p' k1 = Inr k' \<Longrightarrow> k7_current k = Inr p \<Longrightarrow> processor7 k1 = processor7 k \<Longrightarrow> next_pid7 k1 = next_pid7 k \<Longrightarrow> p7_pid p' = p7_pid p \<Longrightarrow>
   pipe_change (p7_fds p) (p7_fds p') (pipes7 k) (pipes7 k1) \<Longrightarrow> plain7 k k'"
  unfolding plain7_def using same7_upd(6) by blast

lemma keeps7_plain:
  assumes f: "\<And>k r k'. f k = Some (Inr (r, k')) \<Longrightarrow> plain7 k k'"
  shows "keeps7 f"
proof (rule keeps7I)
  fix i k r k'
  assume S: "serving7 i k" and r: "f k = Some (Inr (r, k'))"
  from f [OF r] show "serving7 i k' \<and> grows7 k k'" unfolding plain7_def
  proof (elim disjE exE conjE)
    assume "same7 k k'"
    then show ?thesis using S same7_serving [of k k' i] by (simp add: same7_def grows7_def)
  next
    fix p p' k1 k2
    assume "k7_current k = Inr p" "put_current7 p' k1 = Inr k2" "same7 k2 k'" "processor7 k1 = processor7 k" "next_pid7 k1 = next_pid7 k"
      "p7_pid p' = p7_pid p" "pipe_change (p7_fds p) (p7_fds p') (pipes7 k) (pipes7 k1)"
    then have "serving7 i k2 \<and> next_pid7 k2 = next_pid7 k" "same7 k2 k'" using put_current7_ok [OF S] by blast+
    then show ?thesis using same7_serving [of k2 k' i] by (simp add: same7_def grows7_def)
  qed
qed

lemmas call7_splits = option.split_asm if_split_asm prod.split_asm

lemma keeps7_write: "keeps7 (sys7_write env L fd buf cnt)"
  by (rule keeps7_plain) (auto simp: sys7_write_def with_store7_def index_res_def split: call7_splits)

lemma keeps7_read: "keeps7 (sys7_read env L fd buf cnt)"
  by (rule keeps7_plain) (auto simp: sys7_read_def with_store7_def index_res_def split: call7_splits)

lemma keeps7_open: "keeps7 (sys7_open env L path flags)"
  by (rule keeps7_plain) (auto simp: sys7_open_def with_store7_def Let_def split: call7_splits)

lemma keeps7_close: "keeps7 (sys7_close fd)"
  by (rule keeps7_plain) (auto simp: sys7_close_def split: call7_splits)

lemma keeps7_pipe: "keeps7 (sys7_pipe env pipe)"
  by (rule keeps7_plain) (auto simp: sys7_pipe_def Let_def split: call7_splits)

lemma keeps7_getpid: "keeps7 sys7_getpid"
  by (rule keeps7_plain) (auto simp: sys7_getpid_def)

lemma keeps7_sbrk: "keeps7 (sys7_sbrk env sz)"
  by (rule keeps7_plain) (auto simp: sys7_sbrk_def)

lemma keeps7_clock: "keeps7 (clock_gettime7 env clock_id tp)"
  by (rule keeps7_plain) (auto simp: clock_gettime7_def Let_def split: call7_splits)

lemma keeps7_sigaction: "keeps7 (sys7_sigaction env signum action old_action)"
  by (rule keeps7_plain) (auto simp: sys7_sigaction_def give_old_action7_def take_new_action7_def split: call7_splits)

lemma keeps7_sigprocmask: "keeps7 (sys7_sigprocmask msk)"
  by (rule keeps7_plain) (auto simp: sys7_sigprocmask_def split: call7_splits)

lemma keeps7_sigreturn: "keeps7 sys7_sigreturn"
  by (rule keeps7_plain) (auto simp: sys7_sigreturn_def split: call7_splits)

lemma keeps7_kill: "keeps7 (sys7_kill pid signum)"
proof (rule keeps7I)
  fix i k r k'
  assume S: "serving7 i k" and r: "sys7_kill pid signum k = Some (Inr (r, k'))"
  consider "k' = k" | m p sg where "manager (processor7 k) = Some m" "tm_tasks m (isize_as_usize pid) = Some p"
      "put_task7 (isize_as_usize pid) (p\<lparr>p7_signal := sg\<rparr>) k = Inr k'"
    using r by (auto simp: sys7_kill_def pm_get_task_def fifo_ops_def tm_get_def split: call7_splits)
  then show "serving7 i k' \<and> grows7 k k'"
  proof cases
    case 2
    then show ?thesis using put_task7_ok [OF _ 2(1,2) _ _ refl refl 2(3)] S by (simp add: serving7_def grows7_def)
  qed (use S in \<open>simp add: grows7_def\<close>)
qed

lemma keeps7_fork: "keeps7 (sys7_fork env)"
proof (rule keeps7I)
  fix i k r k'
  assume S: "serving7 i k" and n: "next_pid7 k < pid_any" and r: "sys7_fork env k = Some (Inr (r, k'))"
  obtain m p where m: "manager (processor7 k) = Some m" "tm_tasks m i = Some p" "k7_current k = Inr p" "p7_pid p = i"
    by (rule serving7_current [OF S])
  obtain m0 where m0: "manager (processor7 k) = Some m0" "pm7_inv (next_pid7 k) (processor7 k)" "\<forall>i p. tm_tasks m0 i = Some p \<longrightarrow> p7_pid p = i"
    "pipes_ok (tm_tasks m0) (pipes7 k)" "finite (dom (tm_tasks m0))" "dom (tm_tasks m0) = dom (rel_map (processor7 k))"
    by (rule k7_invE [OF S [unfolded serving7_def, THEN conjunct1]])
  have e: "m0 = m" using m0(1) m(1) by simp
  obtain child mc pm where c: "pm_add fifo_ops (next_pid7 k) child i (processor7 k) = Inr pm" "p7_pid child = next_pid7 k"
    "p7_fds child = p7_fds p" "processor7 k' = pm" "next_pid7 k' = next_pid7 k + 1" "pipes7 k' = clone_fds (p7_fds p) (pipes7 k)"
    using r m(3,4) n by (auto simp: sys7_fork_def fork7_def proc_id_new_def Let_def)
  have d: "i \<in> dom (rel_map (processor7 k))" using m(2) m0(6) e by blast
  from fifo.add_inv [OF m0(2) d _ n, of child] obtain pm' where "pm_add fifo_ops (next_pid7 k) child i (processor7 k) = Inr pm'"
    "pm7_inv (next_pid7 k + 1) pm'" "current pm' = current (processor7 k)" by auto
  with c(1) have pm: "pm7_inv (next_pid7 k + 1) pm" "current pm = current (processor7 k)" by simp_all
  have t: "manager pm = Some (m\<lparr>tm_tasks := (tm_tasks m)(next_pid7 k \<mapsto> child), tm_ready_queue := tm_ready_queue m @ [next_pid7 k]\<rparr>)"
    using c(1) m(1) by (auto simp: pm_add_def tm_defs split: if_split_asm)
  have "tree_wf (next_pid7 k) (rel_map (processor7 k))" using m0(2) by (simp add: pm_inv_def)
  then have "next_pid7 k \<notin> dom (rel_map (processor7 k))" using tree_wf_node by (fastforce simp: node_wf_def)
  then have f: "tm_tasks m (next_pid7 k) = None" using m0(6) e by blast
  have "pipes_ok ((tm_tasks m)(next_pid7 k \<mapsto> child)) (clone_fds (p7_fds p) (pipes7 k))"
    by (rule pipes_ok_clone [OF _ _ m(2) f c(3)]) (use m0 e in simp_all)
  then show "serving7 i k' \<and> grows7 k k'"
    using S pm t c m0(3) e by (simp add: serving7_def k7_inv_def grows7_def)
qed

lemma serving7_mono:
  assumes "serving7 i k" "processor7 k' = processor7 k" "pipes7 k' = pipes7 k" "next_pid7 k \<le> next_pid7 k'" "next_pid7 k' \<le> pid_any"
  shows "serving7 i k'"
  using assms fifo.inv_mono [of "next_pid7 k" "processor7 k" "next_pid7 k'"] by (simp add: serving7_def k7_inv_def)

lemma from_elf7_ok:
  "from_elf7 env elf k = Some (Inr (Some p, k')) \<Longrightarrow> next_pid7 k < pid_any \<Longrightarrow>
    processor7 k' = processor7 k \<and> pipes7 k' = pipes7 k \<and> next_pid7 k' = next_pid7 k + 1 \<and> p7_pid p = next_pid7 k \<and> p7_fds p = std_fds"
  by (auto simp: from_elf7_def proc_id_new_def Let_def split: call7_splits)

lemma keeps7_exec: "keeps7 (sys7_exec env L path cnt)"
proof (rule keeps7I)
  fix i k r k'
  assume S: "serving7 i k" and n: "next_pid7 k < pid_any" and r: "sys7_exec env L path cnt k = Some (Inr (r, k'))"
  obtain p where p: "k7_current k = Inr p" using r by (auto simp: sys7_exec_def)
  consider "same7 k k'" | elf s p' k2 where "exec7 env elf p (k\<lparr>store7 := s\<rparr>) = Some (Inr (p', k2))" "put_current7 p' k2 = Inr k'"
    using r p by (auto simp: sys7_exec_def with_store7_def split: option.split_asm)
  then show "serving7 i k' \<and> grows7 k k'"
  proof cases
    case 1
    then show ?thesis using S same7_serving [of k k' i] by (simp add: same7_def grows7_def)
  next
    case 2
    obtain q where q: "from_elf7 env elf (k\<lparr>store7 := s\<rparr>) = Some (Inr (Some q, k2))" "p7_pid p' = p7_pid p" "p7_fds p' = p7_fds p"
      using 2(1) by (auto simp: exec7_def)
    have k2: "processor7 k2 = processor7 k" "pipes7 k2 = pipes7 k" "next_pid7 k2 = next_pid7 k + 1" using from_elf7_ok [OF q(1)] n by simp_all
    have S2: "serving7 i k2" by (rule serving7_mono [OF S]) (use k2 n in simp_all)
    have "k7_current k2 = Inr p" using p k2(1) by (simp add: k7_current_def)
    from put_current7_ok [OF S2 this q(2) _ refl refl 2(2)] show ?thesis using q(3) k2(3) by (simp add: grows7_def)
  qed
qed

lemma keeps7_wait: "keeps7 (sys7_wait env pid ptr)"
proof (rule keeps7I)
  fix i k r k'
  assume S: "serving7 i k" and r: "sys7_wait env pid ptr k = Some (Inr (r, k'))"
  have I: "pm7_inv (next_pid7 k) (processor7 k)" "current (processor7 k) = Some i" using S by (simp_all add: serving7_def k7_inv_def)
  from fifo.wait_inv [OF this, of "isize_as_usize pid"] obtain w pm where w: "pm_wait (isize_as_usize pid) (processor7 k) = Inr (w, pm)"
    "pm7_inv (next_pid7 k) pm" "current pm = Some i" by blast
  have "manager pm = manager (processor7 k)" using w(1) by (auto simp: pm_wait_def Let_def split: prod.split_asm)
  then have S1: "serving7 i (k\<lparr>processor7 := pm\<rparr>)" using S w(2,3) by (simp add: serving7_def k7_inv_def)
  have "same7 (k\<lparr>processor7 := pm\<rparr>) k'" using r w(1) by (auto simp: sys7_wait_def Let_def split: option.split_asm option.split)
  then show "serving7 i k' \<and> grows7 k k'" using S1 same7_serving [of "k\<lparr>processor7 := pm\<rparr>" k' i] by (simp add: same7_def grows7_def)
qed

lemmas keeps7_calls = keeps7_write keeps7_read keeps7_open keeps7_close keeps7_pipe keeps7_fork keeps7_exec keeps7_wait keeps7_getpid keeps7_sbrk
  keeps7_clock keeps7_kill keeps7_sigaction keeps7_sigprocmask keeps7_sigreturn

lemma keeps7_syscall: "keeps7 (syscall7 env L c)"
proof -
  have "keeps7 (\<lambda>k. Some (Inr (v, k)))" "keeps7 (\<lambda>k. Some (Inl Unimplemented))" for v by (rule keeps7_plain, simp)+
  then show ?thesis using keeps7_calls by (cases c) (simp_all add: syscall7.simps [abs_def])
qed

lemma handle7_ok:
  assumes "serving7 i k" "next_pid7 k < pid_any" "handle subsystems7 (syscall7 env L) j args k = Some (Inr (r, k'))"
  shows "serving7 i k' \<and> grows7 k k'"
proof -
  consider "k' = k" | c v where "syscall7 env L c k = Some (Inr (v, k'))"
    using assms(3) by (auto simp: handle_def split: option.split_asm if_split_asm)
  then show ?thesis
  proof cases
    case 2
    then show ?thesis using keeps7_syscall [of env L c] assms(1,2) unfolding keeps7_def by blast
  qed (use assms(1) in \<open>simp add: grows7_def\<close>)
qed

section \<open>A turn of the main loop\<close>

lemma k7_exited_ok:
  assumes S: "serving7 i k" and e: "k7_exited code k = Inr k'"
  shows "idle7 k' \<and> next_pid7 k' = next_pid7 k"
proof -
  obtain m p where m: "manager (processor7 k) = Some m" "tm_tasks m i = Some p" "k7_current k = Inr p" "p7_pid p = i"
    by (rule serving7_current [OF S])
  have I: "k7_inv k" "current (processor7 k) = Some i" using S by (simp_all add: serving7_def)
  obtain m0 where m0: "manager (processor7 k) = Some m0" "pm7_inv (next_pid7 k) (processor7 k)" "\<forall>i p. tm_tasks m0 i = Some p \<longrightarrow> p7_pid p = i"
    "pipes_ok (tm_tasks m0) (pipes7 k)" "finite (dom (tm_tasks m0))" by (rule k7_invE [OF I(1)])
  have e0: "m0 = m" using m0(1) m(1) by simp
  obtain pm where pm: "pm_make_current_exited fifo_ops code (processor7 k) = Inr pm" "k' = k\<lparr>processor7 := pm, pipes7 := drop_fds (p7_fds p) (pipes7 k)\<rparr>"
    using e m(3) by (auto simp: k7_exited_def)
  have p: "pm7_inv (next_pid7 k) pm" "current pm = None" using fifo.exited_cases [OF m0(2) I(2), of code] pm(1) by auto
  have t: "manager pm = Some (m\<lparr>tm_tasks := (tm_tasks m)(i := None)\<rparr>)"
    using pm(1) m(1) I(2) by (auto simp: pm_make_current_exited_def tm_defs)
  have "pipes_ok ((tm_tasks m)(i := None)) (drop_fds (p7_fds p) (pipes7 k))" by (rule pipes_ok_exit [OF m0(4,5) [unfolded e0] m(2)])
  then show ?thesis using p t m0(3) e0 by (simp add: pm(2) idle7_def k7_inv_def)
qed

lemma k7_suspend_ok:
  assumes S: "serving7 i k" and e: "k7_suspend k = Inr k'"
  shows "idle7 k' \<and> next_pid7 k' = next_pid7 k"
proof -
  have I: "pm7_inv (next_pid7 k) (processor7 k)" "current (processor7 k) = Some i" using S by (simp_all add: serving7_def k7_inv_def)
  obtain pm where pm: "pm_make_current_suspend fifo_ops (processor7 k) = Inr pm" "pm7_inv (next_pid7 k) pm" "current pm = None"
    using fifo.suspend_inv [OF I] by blast
  obtain m where m: "manager (processor7 k) = Some m" "\<forall>i p. tm_tasks m i = Some p \<longrightarrow> p7_pid p = i" "pipes_ok (tm_tasks m) (pipes7 k)"
    using S by (auto simp: serving7_def k7_inv_def)
  have "manager pm = Some (m\<lparr>tm_ready_queue := tm_ready_queue m @ [i]\<rparr>)"
    using pm(1) m(1) I(2) by (auto simp: pm_make_current_suspend_def tm_defs)
  then show ?thesis using e pm m by (simp add: k7_suspend_def idle7_def k7_inv_def) (auto simp: k7_inv_def)
qed

lemma put_context7_ok:
  assumes "serving7 i k" "k7_current k = Inr p" "put_current7 (p\<lparr>p7_context := fc\<rparr>) k = Inr k'"
  shows "serving7 i k' \<and> next_pid7 k' = next_pid7 k"
  using put_current7_ok [OF assms(1,2) _ _ refl refl assms(3)] by simp

lemma signal_step7_ok:
  assumes S: "serving7 i k" and s: "signal_step7 k = Inr (r, k')"
  shows "serving7 i k' \<and> next_pid7 k' = next_pid7 k"
proof -
  obtain p sg ctx where "k7_current k = Inr p" "put_current7 (p\<lparr>p7_signal := sg, p7_context := (p7_context p)\<lparr>fc_context := ctx\<rparr>\<rparr>) k = Inr k'"
    using s by (auto simp: signal_step7_def)
  from put_current7_ok [OF S this(1) _ _ refl refl this(2)] show ?thesis by simp
qed

lemma finish7_ok:
  assumes S: "serving7 i k" and f: "finish7 j r k = Inr k'"
  shows "idle7 k' \<and> next_pid7 k' = next_pid7 k"
proof -
  consider c where "k7_exited c k = Inr k'" | p fc k1 where "k7_current k = Inr p" "put_current7 (p\<lparr>p7_context := fc\<rparr>) k = Inr k1" "k7_suspend k1 = Inr k'"
    using f by (auto simp: finish7_def split: syscall_result.split_asm if_split_asm)
  then show ?thesis
  proof cases
    case 2
    then show ?thesis using put_context7_ok [OF S 2(1,2)] k7_suspend_ok [OF _ 2(3), of i] by simp
  qed (rule k7_exited_ok [OF S])
qed

lemma serve7_ok:
  assumes S: "serving7 i k" and n: "next_pid7 k < pid_any" and s: "serve7 env L k = Some (Inr k')"
  shows "idle7 k' \<and> grows7 k k'"
proof -
  obtain p fc k1 j args r k2 sr k3 where c: "k7_current k = Inr p" "put_current7 (p\<lparr>p7_context := fc\<rparr>) k = Inr k1"
    "handle subsystems7 (syscall7 env L) j args k1 = Some (Inr (r, k2))" "signal_step7 k2 = Inr (sr, k3)"
    "(case sr of ProcessKilled e \<Rightarrow> Some (k7_exited e k3) | _ \<Rightarrow> Some (finish7 j r k3)) = Some (Inr k')"
    using s by (auto simp: serve7_def Let_def)
  have 1: "serving7 i k1" "next_pid7 k1 = next_pid7 k" using put_context7_ok [OF S c(1,2)] by simp_all
  have 2: "serving7 i k2" "grows7 k k2" using handle7_ok [OF 1(1) _ c(3)] n 1(2) by (simp_all add: grows7_def)
  have 3: "serving7 i k3" "next_pid7 k3 = next_pid7 k2" using signal_step7_ok [OF 2(1) c(4)] by simp_all
  show ?thesis using c(5) finish7_ok [OF 3(1), of j r k'] k7_exited_ok [OF 3(1), of _ k'] 2(2) 3(2)
    by (cases sr) (auto simp: grows7_def)
qed

lemma find_next7:
  assumes K: "idle7 k"
  shows "pm_find_next fifo_ops (processor7 k) = Inr (None, processor7 k) \<or>
    (\<exists>i p pm. pm_find_next fifo_ops (processor7 k) = Inr (Some p, pm) \<and> serving7 i (k\<lparr>processor7 := pm\<rparr>) \<and>
       k7_current (k\<lparr>processor7 := pm\<rparr>) = Inr p)"
proof -
  have I: "pm7_inv (next_pid7 k) (processor7 k)" "current (processor7 k) = None" using K by (simp_all add: idle7_def k7_inv_def)
  obtain m where m: "manager (processor7 k) = Some m" "\<forall>i p. tm_tasks m i = Some p \<longrightarrow> p7_pid p = i" "pipes_ok (tm_tasks m) (pipes7 k)"
    using K by (auto simp: idle7_def k7_inv_def)
  show ?thesis
  proof (cases "dom (rel_map (processor7 k)) = {}")
    case False
    from fifo.find_next_inv [OF I] False obtain i p pm where n: "pm_find_next fifo_ops (processor7 k) = Inr (Some p, pm)"
      "pm7_inv (next_pid7 k) pm" "current pm = Some i" by auto
    obtain m' where m': "manager pm = Some m'" "tm_tasks m' = tm_tasks m" "tm_tasks m i = Some p"
      using n(1,3) m(1) by (auto simp: pm_find_next_def tm_defs Let_def split: list.split_asm option.split_asm)
    have "serving7 i (k\<lparr>processor7 := pm\<rparr>)" "k7_current (k\<lparr>processor7 := pm\<rparr>) = Inr p"
      using n m m' by (simp_all add: serving7_def k7_inv_def k7_current_def pm_current_def fifo_ops_def tm_get_def)
    then show ?thesis using n(1) by blast
  qed (use fifo.find_next_inv [OF I] in simp)
qed

lemma kernel7_turn_ok:
  assumes K: "idle7 k" and n: "next_pid7 k < pid_any" and t: "kernel7_turn env L user k = Some (Inr (go, k'))"
  shows "idle7 k' \<and> grows7 k k'"
  using find_next7 [OF K]
proof (elim disjE exE conjE)
  assume "pm_find_next fifo_ops (processor7 k) = Inr (None, processor7 k)"
  then show ?thesis using t K by (simp add: kernel7_turn_def grows7_def)
next
  fix i p pm
  assume f: "pm_find_next fifo_ops (processor7 k) = Inr (Some p, pm)" "serving7 i (k\<lparr>processor7 := pm\<rparr>)" "k7_current (k\<lparr>processor7 := pm\<rparr>) = Inr p"
  obtain fc fr ecall where u: "user (p7_context p) (frames (machine7 k)) = (fc, fr, ecall)" by (metis prod.exhaust)
  let ?k1 = "k\<lparr>processor7 := pm, machine7 := (machine7 k)\<lparr>frames := fr\<rparr>\<rparr>"
  obtain k2 where k2: "put_current7 (p\<lparr>p7_context := fc\<rparr>) ?k1 = Inr k2" "(if ecall then serve7 env L k2 else Some (k7_exited (- 3) k2)) = Some (Inr k')"
    using t f(1) u by (auto simp: kernel7_turn_def)
  have S1: "serving7 i ?k1" "k7_current ?k1 = Inr p" using f(2,3) by (simp_all add: serving7_def k7_inv_def k7_current_def)
  have S2: "serving7 i k2" "next_pid7 k2 = next_pid7 k" using put_context7_ok [OF S1 k2(1)] by simp_all
  show ?thesis using k2(2) serve7_ok [OF S2(1)] k7_exited_ok [OF S2(1), of "- 3" k'] S2(2) n by (cases ecall) (auto simp: grows7_def)
qed

section \<open>Reachable kernels\<close>

lemma std_fds_ok: "fds_ok n std_fds" "writers j std_fds = 0"
  by (simp_all add: std_fds_def fds_ok_def)

lemma boot7_ok:
  assumes b: "boot7 env L s mc = Some (Inr k)" and r: "rel_map (processor7 k) 0 \<noteq> None"
  shows "idle7 k \<and> next_pid7 k = 1"
proof -
  obtain s2 elf res k0 where e: "from_elf7 env elf (kernel7_init s2 mc) = Some (Inr (res, k0))"
    and c: "(case res of None \<Rightarrow> Some (Inr k0)
       | Some process \<Rightarrow> run_res (pm_add fifo_ops (p7_pid process) process pid_any (pm_set_manager thread_manager_new (processor7 k0))) (\<lambda>pm.
             Some (Inr (k0\<lparr>processor7 := pm\<rparr>)))) = Some (Inr k)"
    using b unfolding boot7_def by auto
  have p0: "processor7 (kernel7_init s2 mc) = pm_new" "next_pid7 (kernel7_init s2 mc) = 0" "pipes7 (kernel7_init s2 mc) = []"
    by (simp_all add: kernel7_init_def)
  obtain p where res: "res = Some p"
  proof (cases res)
    case None
    then have "k0 = k" using c by simp
    moreover have "processor7 k0 = pm_new" using e p0(1) None by (auto simp: from_elf7_def Let_def split: call7_splits)
    ultimately show ?thesis using r by (simp add: pm_new_def)
  qed auto
  have f: "processor7 k0 = pm_new" "pipes7 k0 = []" "next_pid7 k0 = 1" "p7_pid p = 0" "p7_fds p = std_fds"
    using from_elf7_ok [of env elf "kernel7_init s2 mc" p k0, unfolded p0] e res by simp_all
  obtain pm where pm: "pm_add fifo_ops 0 p pid_any (pm_set_manager thread_manager_new pm_new) = Inr pm" "pm7_inv 1 pm" "current pm = None"
    using fifo.first_inv [of thread_manager_new p] by (auto simp: thread_manager_new_def tm_ready_def)
  have k: "k = k0\<lparr>processor7 := pm\<rparr>" using c pm(1) f(1,4) res by simp
  have "manager pm = Some \<lparr>tm_tasks = [0 \<mapsto> p], tm_ready_queue = [0]\<rparr>"
    using pm(1) by (auto simp: pm_add_def pm_set_manager_def tm_defs thread_manager_new_def)
  moreover have "pipes_ok [0 \<mapsto> p] []" using f(5) std_fds_ok by (simp add: pipes_ok_def)
  ultimately show ?thesis using pm(2,3) f(2-4) by (simp add: k idle7_def k7_inv_def)
qed

text \<open>The kernels that the loop reaches in \<open>n\<close> turns after the first process is loaded.\<close>

inductive k7_reach :: "('f, unit, 'h) kernel_env \<Rightarrow> 's file_layer \<Rightarrow> nat \<Rightarrow> ('f, 'h, 's) kernel7 \<Rightarrow> bool" for env L where
  k7_boot: "boot7 env L s mc = Some (Inr k) \<Longrightarrow> rel_map (processor7 k) 0 \<noteq> None \<Longrightarrow> k7_reach env L 0 k"
| k7_turn: "k7_reach env L n k \<Longrightarrow> kernel7_turn env L user (k\<lparr>in7 := inp, time7 := now\<rparr>) = Some (Inr (True, k')) \<Longrightarrow>
     k7_reach env L (Suc n) k'"

lemma k7_reach_ok: "k7_reach env L n k \<Longrightarrow> n < pid_any \<Longrightarrow> idle7 k \<and> next_pid7 k \<le> n + 1"
proof (induction rule: k7_reach.induct)
  case (k7_boot s mc k)
  then show ?case using boot7_ok [of env L s mc k] by simp
next
  case (k7_turn n k user now inp k')
  then have I: "idle7 k" "next_pid7 k \<le> n + 1" by simp_all
  have "idle7 k' \<and> grows7 (k\<lparr>in7 := inp, time7 := now\<rparr>) k'"
    by (rule kernel7_turn_ok [OF _ _ k7_turn.hyps(2)]) (use I k7_turn.prems in \<open>simp_all add: idle7_def k7_inv_def\<close>)
  then show ?case using I by (simp add: grows7_def)
qed

text \<open>
  C4. The invariant of the kernel of chapter 7: in every state that the main loop reaches in \<open>n\<close> turns, whatever the user programs, the file system,
  the console and the clock do, the process tree, the table of processes and the ready queue agree (\<open>idle7\<close>), every live process is in the ready
  queue exactly once, every pipe is a well-formed ring, and the number of strong references to its write end is the number of descriptors for it in
  the tables of all live processes.
\<close>

theorem kernel7_invariant:
  assumes "k7_reach env L n k" "n < pid_any"
  shows "idle7 k \<and> next_pid7 k \<le> n + 1 \<and>
    (\<exists>m. manager (processor7 k) = Some m \<and> mset (tm_ready_queue m) = mset_set (dom (tm_tasks m)) \<and>
       (\<forall>j<length (pipes7 k). prb_inv (pipes7 k ! j) \<and>
          write_end (pipes7 k ! j) = Some (\<Sum>i\<in>dom (tm_tasks m). count_list (p7_fds (the (tm_tasks m i))) (Some (FdPipeWrite j)))))"
proof -
  have I: "idle7 k" "next_pid7 k \<le> n + 1" using k7_reach_ok [OF assms] by simp_all
  then have K: "k7_inv k" "current (processor7 k) = None" by (simp_all add: idle7_def)
  obtain m where m: "manager (processor7 k) = Some m" "pm7_inv (next_pid7 k) (processor7 k)" "pipes_ok (tm_tasks m) (pipes7 k)"
    "dom (tm_tasks m) = dom (rel_map (processor7 k))" by (rule k7_invE [OF K(1)])
  have "mset (tm_ready_queue m) = mset_set (dom (tm_tasks m))" using m(1,2,4) K(2) by (simp add: pm_inv_def tm_ready_def)
  then show ?thesis using I m(1,3) by (simp add: pipes_ok_def total_writers_def writers_def)
qed

theorem kernel7_invariant_witness:
  "\<exists>k. k7_reach (sample_env\<lparr>ke_elf := \<lambda>_. Some sample_elf\<rparr>) (efs_layer (manager_of cache_ops (formatted 6000 1))) 0 k \<and> idle7 k \<and>
    next_pid7 k \<le> 1"
proof -
  let ?F = "manager_of cache_ops (formatted 6000 1)" and ?env = "sample_env\<lparr>ke_elf := \<lambda>_. Some sample_elf\<rparr>"
  obtain d fd s1 s2 where l: "fs_open ?F (map (of_nat \<circ> of_char) ''initproc'') 0 (cache_manager_new d) = Inr (Some fd, s1)"
    "read_all cache_ops fd s1 = Some (Inr ([], s2))"
    by (rule initproc_loaded)
  have "\<exists>k. boot7 ?env (efs_layer ?F) (cache_manager_new d) sample_machine = Some (Inr k) \<and> rel_map (processor7 k) 0 \<noteq> None"
    using l by (simp add: boot7_def efs_layer_def manager_of_def from_elf7_def user_space_new_def sample_env_def sample_elf_def flat_env_def
        sample_machine_def map_extern_def flat_walk.simps mapper_arrive_def mapper_new_def mapper_ans_def space_new_def Let_def
        lc_set_sp_def lc_set_x_def lc_user_def proc_id_new_def kernel7_init_def pm_add_def pm_set_manager_def pm_new_def tm_defs
        thread_manager_new_def)
  then obtain k where "boot7 ?env (efs_layer ?F) (cache_manager_new d) sample_machine = Some (Inr k)" "rel_map (processor7 k) 0 \<noteq> None"
    by blast
  then have "k7_reach ?env (efs_layer ?F) 0 k" by (rule k7_boot)
  from this kernel7_invariant [OF this] show ?thesis by auto
qed

section \<open>The end of a pipe\<close>

lemma total_writers_zero: "finite (dom ts) \<Longrightarrow> total_writers j ts = 0 \<longleftrightarrow> (\<forall>q\<in>ran ts. Some (FdPipeWrite j) \<notin> set (p7_fds q))"
  by (simp add: total_writers_def writers_def count_list_0_iff) (force simp: ran_def)

text \<open>
  C11. A process that reads from a pipe without data learns whether more can come: the call returns 0, the end of the file, when no live process has a
  descriptor for the write end, its own table included, and -2 as long as one has. The state is one in which the kernel serves a call, which
  satisfies the invariant; the call changes nothing else that the processes see.
\<close>

theorem pipe_end_of_file:
  assumes S: "serving7 i k" and p: "k7_current k = Inr p" and m: "manager (processor7 k) = Some m"
    and fd: "fd \<noteq> 0" "fd < length (p7_fds p)" "p7_fds p ! fd = Some (FdPipeRead j)"
    and buf: "translate7 env ''W_V'' buf p = Inr (Some pa)" and e: "available_read (pipes7 k ! j) = 0"
  shows "\<exists>k'. sys7_read env L fd buf cnt k =
      Some (Inr (if \<exists>q\<in>ran (tm_tasks m). Some (FdPipeWrite j) \<in> set (p7_fds q) then - 2 else 0, k')) \<and>
    pipes7 k' = pipes7 k \<and> k7_current k' = Inr p"
proof -
  obtain m0 where m0: "manager (processor7 k) = Some m0" "pipes_ok (tm_tasks m0) (pipes7 k)" "finite (dom (tm_tasks m0))"
    by (rule k7_invE [OF S [unfolded serving7_def, THEN conjunct1]])
  have e0: "m0 = m" using m0(1) m by simp
  have t: "tm_tasks m i = Some p" by (rule serving7_current [OF S]) (use p m in simp)
  have "fds_ok (length (pipes7 k)) (p7_fds p)" using m0(2) e0 t by (auto simp: pipes_ok_def ranI)
  then have j: "j < length (pipes7 k)" using fd(2,3) nth_mem [OF fd(2)] by (fastforce simp: fds_ok_def)
  have w: "write_end (pipes7 k ! j) = Some (total_writers j (tm_tasks m))" using m0(2) e0 j by (simp add: pipes_ok_def)
  define v :: int where "v = (if total_writers j (tm_tasks m) = 0 then 0 else - 2)"
  have r: "pipe_read b (pipes7 k ! j) = Inr (v, b, pipes7 k ! j)" for b
    using e w by (simp add: pipe_read_def all_write_ends_closed_def v_def)
  have u: "put_current7 p k = Inr (k\<lparr>processor7 := (processor7 k)\<lparr>manager := Some m\<rparr>\<rparr>)"
    using S m t by (simp add: put_current7_def pm_write_current_def serving7_def tm_defs fun_upd_idem)
  have "p\<lparr>p7_fds := (p7_fds p)[fd := Some (FdPipeRead j)]\<rparr> = p" using list_update_id [of "p7_fds p" fd] fd(3) by simp
  then obtain k' where "sys7_read env L fd buf cnt k = Some (Inr (v, k'))" "processor7 k' = (processor7 k)\<lparr>manager := Some m\<rparr>" "pipes7 k' = pipes7 k"
    using fd p buf j r by (simp add: sys7_read_def with_store7_def index_res_def lift_io_def list_update_id u)
  moreover from this have "k7_current k' = Inr p" using p m by (simp add: k7_current_def pm_current_def)
  moreover have "v = (if \<exists>q\<in>ran (tm_tasks m). Some (FdPipeWrite j) \<in> set (p7_fds q) then - 2 else 0)"
    using total_writers_zero [of "tm_tasks m" j] m0(3) e0 by (auto simp: v_def)
  ultimately show ?thesis by auto
qed

text \<open>A process that reads from a pipe whose writer is gone, and one that still has the write end itself.\<close>

definition reader_process :: "nat \<Rightarrow> string process7" where
  "reader_process w = \<lparr>p7_pid = 0, p7_context = \<lparr>fc_context = lc_user 4096, fc_satp = satp_of 1\<rparr>,
     p7_space = \<lparr>us_space = sample_space, us_root = 1, us_files = ()\<rparr>, p7_fds = std_fds @ Some (FdPipeRead 0) # replicate w (Some (FdPipeWrite 0)),
     p7_signal = signal_impl_new, p7_heap_bottom = 0, p7_program_brk = 0\<rparr>"

definition pipe_reader :: "nat \<Rightarrow> (string, nat, unit) kernel7" where
  "pipe_reader w = (kernel7_init () sample_machine)\<lparr>processor7 := \<lparr>rel_map = [0 \<mapsto> proc_rel_new pid_any],
     manager = Some \<lparr>tm_tasks = [0 \<mapsto> reader_process w], tm_ready_queue = []\<rparr>, current = Some 0\<rparr>,
     next_pid7 := 1, pipes7 := [set_write_end w prb_new]\<rparr>"

theorem pipe_end_of_file_witness:
  "\<forall>L. \<exists>k1 k2. serving7 0 (pipe_reader 0) \<and> sys7_read sample_env L 3 (5 * 4096) 1 (pipe_reader 0) = Some (Inr (0, k1)) \<and>
    serving7 0 (pipe_reader 1) \<and> sys7_read sample_env L 3 (5 * 4096) 1 (pipe_reader 1) = Some (Inr (- 2, k2))"
proof -
  have t: "tree_wf 1 [0 \<mapsto> proc_rel_new pid_any]" by (rule tree_wf_init) (simp_all add: proc_rel_new_def)
  have S: "serving7 0 (pipe_reader w)" for w
    using t by (auto simp: serving7_def k7_inv_def pipe_reader_def reader_process_def pm_inv_def tm_ready_def pipes_ok_def total_writers_def std_fds_def fds_ok_def
        set_write_end_def prb_new_def prb_inv_def split: if_split_asm)
  have m: "manager (processor7 (pipe_reader w)) = Some \<lparr>tm_tasks = [0 \<mapsto> reader_process w], tm_ready_queue = []\<rparr>" for w by (simp add: pipe_reader_def)
  have c: "k7_current (pipe_reader w) = Inr (reader_process w)" for w by (simp add: k7_current_def pm_current_def pipe_reader_def tm_defs)
  have b: "translate7 sample_env ''W_V'' (5 * 4096) (reader_process w) = Inr (Some (10 * 4096))" for w
    by (simp add: translate7_def sample_env_def flat_env_def reader_process_def sample_space_def translate_def add_entries_def)
  have f: "3 < length (p7_fds (reader_process w))" "p7_fds (reader_process w) ! 3 = Some (FdPipeRead 0)" "available_read (pipes7 (pipe_reader w) ! 0) = 0" for w
    by (simp_all add: reader_process_def pipe_reader_def std_fds_def set_write_end_def prb_new_def available_read_def)
  have "(\<exists>q\<in>ran [0 \<mapsto> reader_process w]. Some (FdPipeWrite 0) \<in> set (p7_fds q)) = (w \<noteq> 0)" for w
    by (simp add: reader_process_def std_fds_def)
  then have r: "\<exists>k'. sys7_read sample_env L 3 (5 * 4096) 1 (pipe_reader w) = Some (Inr (if w \<noteq> 0 then - 2 else 0, k'))" for L w
    using pipe_end_of_file [OF S [of w] c [of w] m [of w] _ f(1,2) [of w] b [of w] f(3) [of w], of L 1] by auto
  show ?thesis using r [of _ 0] r [of _ 1] S by simp
qed

end
