(* ===== verification/Thread_Manager.thy ===== *)
theory Thread_Manager
  imports Fifo_Scheduler
begin

text \<open>
  \<^verbatim>\<open>PThreadManager\<close> of tg-task-manage (\<^verbatim>\<open>thread_manager.rs\<close>): processes with their threads. Threads are
  the scheduled objects, processes are kept in a plain table, and the process of a thread is in
  \<^verbatim>\<open>tid2pid\<close>. The two type parameters are the operation records of \<^verbatim>\<open>Proc_Manager\<close>.

  The locale \<open>pthread_scheduler\<close> joins the interface of the scheduler with that of the table. The
  invariant \<open>ptm_inv\<close> says that thread objects, \<^verbatim>\<open>tid2pid\<close> and the thread lists of the processes
  agree, that process objects and relations agree, that the tree is well formed, and that a thread
  is queued at most once and not while it runs. A thread that is neither queued nor running is
  blocked. The queue may also hold ids of threads that are gone: nothing in \<^verbatim>\<open>re_enque\<close> excludes them, and
  \<^verbatim>\<open>find_next\<close> then returns nothing although other threads are ready.
\<close>

section \<open>Operations\<close>

record ('mt, 'mp) pthread_manager =
  pt_rel_map :: "nat \<rightharpoonup> proc_thread_rel"
  proc_manager :: "'mp option"
  tid2pid :: "nat \<rightharpoonup> nat"
  pt_manager :: "'mt option"
  pt_current :: "nat option"

definition ptm_new :: "('mt, 'mp) pthread_manager" where
  "ptm_new = \<lparr>pt_rel_map = Map.empty, proc_manager = None, tid2pid = Map.empty, pt_manager = None,
     pt_current = None\<rparr>"

definition ptm_find_next ::
  "('mt, 't) sched_ops \<Rightarrow> ('mt, 'mp) pthread_manager \<Rightarrow> ('t option \<times> ('mt, 'mp) pthread_manager) res" where
  "ptm_find_next ops pm =
     bind_res (unwrap (pt_manager pm)) (\<lambda>m.
     bind_res (op_fetch ops m) (\<lambda>(r, m').
       let pm' = pm\<lparr>pt_manager := Some m'\<rparr>
       in case r of
            Some i \<Rightarrow>
              (case op_get ops i m' of
                 Some task \<Rightarrow> Inr (Some task, pm'\<lparr>pt_current := Some i\<rparr>)
               | None \<Rightarrow> Inr (None, pm'))
          | None \<Rightarrow> Inr (None, pm')))"

definition ptm_set_manager :: "'mt \<Rightarrow> ('mt, 'mp) pthread_manager \<Rightarrow> ('mt, 'mp) pthread_manager" where
  "ptm_set_manager m pm = pm\<lparr>pt_manager := Some m\<rparr>"

definition ptm_set_proc_manager :: "'mp \<Rightarrow> ('mt, 'mp) pthread_manager \<Rightarrow> ('mt, 'mp) pthread_manager" where
  "ptm_set_proc_manager m pm = pm\<lparr>proc_manager := Some m\<rparr>"

definition ptm_make_current_suspend ::
  "('mt, 't) sched_ops \<Rightarrow> ('mt, 'mp) pthread_manager \<Rightarrow> ('mt, 'mp) pthread_manager res" where
  "ptm_make_current_suspend ops pm =
     (case pt_current pm of
        Some i \<Rightarrow>
          bind_res (unwrap (pt_manager pm)) (\<lambda>m.
          bind_res (op_add ops i m) (\<lambda>m'.
            Inr (pm\<lparr>pt_manager := Some m', pt_current := None\<rparr>)))
      | None \<Rightarrow> Inr pm)"

definition ptm_del_proc ::
  "('mp, 'p) manage_ops \<Rightarrow> nat \<Rightarrow> int \<Rightarrow> ('mt, 'mp) pthread_manager \<Rightarrow> ('mt, 'mp) pthread_manager res" where
  "ptm_del_proc pops pid exit_code pm =
     bind_res (unwrap (proc_manager pm)) (\<lambda>mp.
     bind_res (end_relations pid exit_code (pt_rel_map pm)) (\<lambda>rm'.
       Inr (pm\<lparr>proc_manager := Some (op_delete pops pid mp), pt_rel_map := rm'\<rparr>)))"

definition ptm_make_current_exited ::
  "('mt, 't) sched_ops \<Rightarrow> ('mp, 'p) manage_ops \<Rightarrow> int \<Rightarrow> ('mt, 'mp) pthread_manager \<Rightarrow>
   ('mt, 'mp) pthread_manager res" where
  "ptm_make_current_exited ops pops exit_code pm =
     (case pt_current pm of
        Some i \<Rightarrow>
          bind_res (unwrap (pt_manager pm)) (\<lambda>m.
          bind_res (unwrap (tid2pid pm i)) (\<lambda>pid.
            let pm1 = pm\<lparr>pt_manager := Some (op_delete ops i m), tid2pid := (tid2pid pm)(i := None)\<rparr>;
                (flag, pm2) =
                  (case pt_rel_map pm1 pid of
                     Some current_rel \<Rightarrow>
                       let rel' = del_thread i exit_code current_rel
                       in (threads rel' = [], pm1\<lparr>pt_rel_map := (pt_rel_map pm1)(pid \<mapsto> rel')\<rparr>)
                   | None \<Rightarrow> (False, pm1))
            in bind_res (if flag then ptm_del_proc pops pid exit_code pm2 else Inr pm2) (\<lambda>pm3.
                 Inr (pm3\<lparr>pt_current := None\<rparr>))))
      | None \<Rightarrow> Inr pm)"

definition ptm_make_current_blocked :: "('mt, 'mp) pthread_manager \<Rightarrow> ('mt, 'mp) pthread_manager" where
  "ptm_make_current_blocked pm =
     (case pt_current pm of Some _ \<Rightarrow> pm\<lparr>pt_current := None\<rparr> | None \<Rightarrow> pm)"

definition ptm_re_enque ::
  "('mt, 't) sched_ops \<Rightarrow> nat \<Rightarrow> ('mt, 'mp) pthread_manager \<Rightarrow> ('mt, 'mp) pthread_manager res" where
  "ptm_re_enque ops i pm =
     bind_res (unwrap (pt_manager pm)) (\<lambda>m.
     bind_res (op_add ops i m) (\<lambda>m'. Inr (pm\<lparr>pt_manager := Some m'\<rparr>)))"

definition ptm_add ::
  "('mt, 't) sched_ops \<Rightarrow> nat \<Rightarrow> 't \<Rightarrow> nat \<Rightarrow> ('mt, 'mp) pthread_manager \<Rightarrow> ('mt, 'mp) pthread_manager res" where
  "ptm_add ops i task pid pm =
     bind_res (unwrap (pt_manager pm)) (\<lambda>m.
     bind_res (op_add ops i (op_insert ops i task m)) (\<lambda>m'.
       let pm1 = pm\<lparr>pt_manager := Some m'\<rparr>
       in Inr (case pt_rel_map pm1 pid of
                 Some parent_rel \<Rightarrow>
                   pm1\<lparr>pt_rel_map := (pt_rel_map pm1)(pid \<mapsto> add_thread i parent_rel),
                       tid2pid := (tid2pid pm1)(i \<mapsto> pid)\<rparr>
               | None \<Rightarrow> pm1)))"

definition ptm_current :: "('mt, 't) sched_ops \<Rightarrow> ('mt, 'mp) pthread_manager \<Rightarrow> 't option res" where
  "ptm_current ops pm =
     bind_res (unwrap (pt_current pm)) (\<lambda>i.
     bind_res (unwrap (pt_manager pm)) (\<lambda>m. Inr (op_get ops i m)))"

definition ptm_get_task :: "('mt, 't) sched_ops \<Rightarrow> nat \<Rightarrow> ('mt, 'mp) pthread_manager \<Rightarrow> 't option res" where
  "ptm_get_task ops i pm = bind_res (unwrap (pt_manager pm)) (\<lambda>m. Inr (op_get ops i m))"

definition ptm_add_proc ::
  "('mp, 'p) manage_ops \<Rightarrow> nat \<Rightarrow> 'p \<Rightarrow> nat \<Rightarrow> ('mt, 'mp) pthread_manager \<Rightarrow> ('mt, 'mp) pthread_manager res" where
  "ptm_add_proc pops i proc parent_pid pm =
     bind_res (unwrap (proc_manager pm)) (\<lambda>mp.
       let rm1 = (case pt_rel_map pm parent_pid of
                    Some parent_rel \<Rightarrow> (pt_rel_map pm)(parent_pid \<mapsto> add_child i parent_rel)
                  | None \<Rightarrow> pt_rel_map pm)
       in Inr (pm\<lparr>proc_manager := Some (op_insert pops i proc mp),
                  pt_rel_map := rm1(i \<mapsto> proc_thread_rel_new parent_pid)\<rparr>))"

definition ptm_get_proc :: "('mp, 'p) manage_ops \<Rightarrow> nat \<Rightarrow> ('mt, 'mp) pthread_manager \<Rightarrow> 'p option res" where
  "ptm_get_proc pops pid pm = bind_res (unwrap (proc_manager pm)) (\<lambda>mp. Inr (op_get pops pid mp))"

text \<open>The relations of the process of the current thread, as the two wait operations look them up.\<close>

definition ptm_current_rel :: "('mt, 'mp) pthread_manager \<Rightarrow> (nat \<times> proc_thread_rel) res" where
  "ptm_current_rel pm =
     bind_res (unwrap (pt_current pm)) (\<lambda>i.
     bind_res (unwrap (tid2pid pm i)) (\<lambda>pid.
     bind_res (unwrap (pt_rel_map pm pid)) (\<lambda>current_rel. Inr (pid, current_rel))))"

definition ptm_wait ::
  "nat \<Rightarrow> ('mt, 'mp) pthread_manager \<Rightarrow> ((nat \<times> int) option \<times> ('mt, 'mp) pthread_manager) res" where
  "ptm_wait child_pid pm =
     bind_res (ptm_current_rel pm) (\<lambda>(pid, current_rel).
       let (r, rel') = (if child_pid = pid_any then wait_any_child current_rel
                        else wait_child child_pid current_rel)
       in Inr (r, pm\<lparr>pt_rel_map := (pt_rel_map pm)(pid \<mapsto> rel')\<rparr>))"

definition ptm_waittid ::
  "nat \<Rightarrow> ('mt, 'mp) pthread_manager \<Rightarrow> (int option \<times> ('mt, 'mp) pthread_manager) res" where
  "ptm_waittid thread_tid pm =
     bind_res (ptm_current_rel pm) (\<lambda>(pid, current_rel).
       let (r, rel') = wait_thread thread_tid current_rel
       in Inr (r, pm\<lparr>pt_rel_map := (pt_rel_map pm)(pid \<mapsto> rel')\<rparr>))"

definition ptm_thread_count :: "nat \<Rightarrow> ('mt, 'mp) pthread_manager \<Rightarrow> nat res" where
  "ptm_thread_count pid pm = bind_res (unwrap (pt_rel_map pm pid)) (\<lambda>r. Inr (length (threads r)))"

definition ptm_get_thread :: "nat \<Rightarrow> ('mt, 'mp) pthread_manager \<Rightarrow> nat list option" where
  "ptm_get_thread pid pm = map_option threads (pt_rel_map pm pid)"

definition ptm_get_current_proc :: "('mp, 'p) manage_ops \<Rightarrow> ('mt, 'mp) pthread_manager \<Rightarrow> 'p option res" where
  "ptm_get_current_proc pops pm =
     (case pt_current pm of
        Some i \<Rightarrow>
          bind_res (unwrap (tid2pid pm i)) (\<lambda>pid.
          bind_res (unwrap (proc_manager pm)) (\<lambda>mp. Inr (op_get pops pid mp)))
      | None \<Rightarrow> Inr None)"

section \<open>Threads of one process\<close>

lemma del_thread_member:
  assumes "t \<in> set (threads r)" "distinct (threads r)"
  shows "set (threads (del_thread t e r)) = set (threads r) - {t}"
    and "distinct (threads (del_thread t e r))"
    and "dead_threads (del_thread t e r) = dead_threads r @ [(t, e)]"
    and "threads (del_thread t e r) = [] \<longleftrightarrow> threads r = [t]"
proof -
  obtain i where i: "find_index (\<lambda>i. i = t) (threads r) = Some i"
    using assms(1) by (metis (mono_tags) find_index_None option.exhaust)
  then have l: "i < length (threads r)" "threads r ! i = t" by (simp_all add: find_index_Some_iff)
  with i show s: "set (threads (del_thread t e r)) = set (threads r) - {t}"
    "distinct (threads (del_thread t e r))" "dead_threads (del_thread t e r) = dead_threads r @ [(t, e)]"
    using assms(2) by (auto simp: del_thread_def set_remove_nth_distinct)
  show "threads (del_thread t e r) = [] \<longleftrightarrow> threads r = [t]"
  proof
    assume "threads (del_thread t e r) = []"
    then have "set (threads r) \<subseteq> {t}" using s(1) by auto
    then have "set (threads r) = {t}" using assms(1) by auto
    then show "threads r = [t]" using assms(2)
      by (metis card.empty card_insert_disjoint distinct_card empty_iff finite.emptyI length_0_conv length_Suc_conv list.set_intros(1) singletonD)
  qed (use s(1) in auto)
qed

lemma del_thread_simps [simp]:
  "parent (del_thread t e r) = parent r" "children (del_thread t e r) = children r"
  "dead_children (del_thread t e r) = dead_children r"
  by (simp_all add: del_thread_def split: option.split)

lemma wait_thread_simps [simp]:
  "parent (snd (wait_thread t r)) = parent r" "children (snd (wait_thread t r)) = children r"
  "dead_children (snd (wait_thread t r)) = dead_children r" "threads (snd (wait_thread t r)) = threads r"
  by (simp_all add: wait_thread_def split: option.split)

lemma more_wait_child [simp]:
  "proc_rel.more (snd (wait_child c r)) = proc_rel.more r"
  "proc_rel.more (snd (wait_any_child r)) = proc_rel.more r"
  by (simp_all add: wait_child_def wait_any_child_def split: option.split)

lemma wait_thread_dead:
  assumes "(t, e) \<in> set (dead_threads r)" "distinct (map fst (dead_threads r))"
  shows "\<exists>r'. wait_thread t r = (Some e, r') \<and> set (dead_threads r') = set (dead_threads r) - {(t, e)}"
proof -
  obtain i where i: "find_index (\<lambda>(i, _). i = t) (dead_threads r) = Some i"
    using assms(1) by (metis (mono_tags, lifting) case_prod_conv find_index_None option.exhaust)
  then have len: "i < length (dead_threads r)" and "fst (dead_threads r ! i) = t"
    by (auto simp: find_index_Some_iff split: prod.splits)
  then have "dead_threads r ! i = (t, e)"
    using assms by (metis eq_key_imp_eq_value nth_mem prod.collapse)
  with i len show ?thesis
    using assms(2) by (simp add: wait_thread_def set_remove_nth_distinct distinct_map)
qed

lemma add_thread_simps [simp]:
  "parent (add_thread t r) = parent r" "children (add_thread t r) = children r"
  "dead_children (add_thread t r) = dead_children r" "threads (add_thread t r) = threads r @ [t]"
  "dead_threads (add_thread t r) = dead_threads r"
  by (simp_all add: add_thread_def)

text \<open>Only the parent and the two child lists matter for the tree.\<close>

lemma tree_wf_same_tree:
  assumes wf: "tree_wf n rm" and r: "rm p = Some r"
    and same: "parent r' = parent r" "children r' = children r" "dead_children r' = dead_children r"
  shows "tree_wf n (rm(p \<mapsto> r'))"
proof -
  have "par (rm(p \<mapsto> r')) = par rm" "dom (rm(p \<mapsto> r')) = dom rm" using r same by (auto simp: par_def)
  then show ?thesis
    using assms tree_wf_node [OF wf] by (fastforce simp: tree_wf_def node_wf_def)
qed

text \<open>Ending a process changes only those three fields of the relations that stay.\<close>

lemma more_del_child [simp]: "proc_rel.more (del_child c e r) = proc_rel.more r"
  by (simp add: del_child_def split: option.split)

lemma reparent_more:
  "reparent is rm = Inr rm' \<Longrightarrow> rm' x = Some r' \<Longrightarrow> \<exists>r. rm x = Some r \<and> proc_rel.more r' = proc_rel.more r"
proof (induction "is" arbitrary: rm)
  case (Cons i "is")
  then obtain r r0 where "rm i = Some r" "(rm(i \<mapsto> r\<lparr>parent := 0\<rparr>)) 0 = Some r0"
    "reparent is (rm(i \<mapsto> r\<lparr>parent := 0\<rparr>, 0 \<mapsto> add_child i r0)) = Inr rm'" by auto
  with Cons.IH [OF this(3) Cons.prems(2)] show ?case
    by (auto simp: add_child_def split: if_splits)
qed simp

lemma end_relations_more:
  assumes "end_relations pid e rm = Inr rm'" "rm' x = Some r'"
  obtains r where "rm x = Some r" "proc_rel.more r' = proc_rel.more r"
  using assms by (auto simp: end_relations_def Let_def dest!: reparent_more split: option.splits if_splits)

lemma threads_more: "proc_rel.more r' = proc_rel.more r \<Longrightarrow> threads r' = threads r \<and> dead_threads r' = dead_threads r"
  by (cases r; cases r') simp

section \<open>The invariant\<close>

definition threads_node :: "nat \<Rightarrow> (nat \<rightharpoonup> nat) \<Rightarrow> nat \<Rightarrow> proc_thread_rel \<Rightarrow> bool" where
  "threads_node k t2p p r \<longleftrightarrow> distinct (threads r) \<and> (\<forall>t. t \<in> set (threads r) \<longleftrightarrow> t2p t = Some p) \<and>
     distinct (map fst (dead_threads r)) \<and> (\<forall>d\<in>set (dead_threads r). fst d \<notin> dom t2p \<and> fst d < k)"

definition threads_wf :: "nat \<Rightarrow> (nat \<rightharpoonup> nat) \<Rightarrow> (nat \<rightharpoonup> proc_thread_rel) \<Rightarrow> bool" where
  "threads_wf k t2p rm \<longleftrightarrow> (\<forall>t p. t2p t = Some p \<longrightarrow> p \<in> dom rm \<and> t < k) \<and>
     (\<forall>p r. rm p = Some r \<longrightarrow> threads_node k t2p p r)"

lemma threads_wf_node: "threads_wf k t2p rm \<Longrightarrow> rm p = Some r \<Longrightarrow> threads_node k t2p p r"
  by (simp add: threads_wf_def)

lemma threads_wf_fresh: "threads_wf k t2p rm \<Longrightarrow> k \<notin> dom t2p"
  by (auto simp: threads_wf_def)

lemma threads_wf_add:
  assumes wf: "threads_wf k t2p rm" and r: "rm p = Some r"
  shows "threads_wf (k + 1) (t2p(k \<mapsto> p)) (rm(p \<mapsto> add_thread k r))"
proof -
  have k: "t2p k = None" using threads_wf_fresh [OF wf] by (simp add: domIff)
  have "threads_node (k + 1) (t2p(k \<mapsto> p)) q (if q = p then add_thread k r else rq)"
    if "rm q = Some rq" for q rq
    using threads_wf_node [OF wf that] that r k by (fastforce simp: threads_node_def)
  then show ?thesis
    using wf r by (fastforce simp: threads_wf_def split: if_splits)
qed

text \<open>The thread \<open>t\<close> of process \<open>p\<close> ends.\<close>

lemma threads_wf_del:
  assumes wf: "threads_wf k t2p rm" and r: "rm p = Some r" and t: "t2p t = Some p"
  shows "threads_wf k (t2p(t := None)) (rm(p \<mapsto> del_thread t e r))"
proof -
  have n: "threads_node k t2p p r" using threads_wf_node [OF wf r] .
  then have tr: "t \<in> set (threads r)" "distinct (threads r)" using t by (auto simp: threads_node_def)
  have "t < k" using wf t by (auto simp: threads_wf_def)
  then have "threads_node k (t2p(t := None)) p (del_thread t e r)"
    using n del_thread_member(1-3) [OF tr, where e = e] t by (auto simp: threads_node_def)
  moreover have "threads_node k (t2p(t := None)) q rq" if "rm q = Some rq" "q \<noteq> p" for q rq
    using threads_wf_node [OF wf that(1)] that t by (auto simp: threads_node_def)
  ultimately show ?thesis
    using wf r by (auto simp: threads_wf_def)
qed

lemma threads_wf_wait:
  assumes wf: "threads_wf k t2p rm" and r: "rm p = Some r"
  shows "threads_wf k t2p (rm(p \<mapsto> snd (wait_thread t r)))"
proof -
  have "set (dead_threads (snd (wait_thread t r))) \<subseteq> set (dead_threads r)"
    "distinct (map fst (dead_threads r)) \<Longrightarrow> distinct (map fst (dead_threads (snd (wait_thread t r))))"
    by (auto simp: wait_thread_def map_remove_nth find_index_Some_iff distinct_remove_nth
        split: option.splits dest: set_remove_nth_subset [THEN subsetD])
  then have "threads_node k t2p p (snd (wait_thread t r))"
    using threads_wf_node [OF wf r] by (auto simp: threads_node_def)
  then show ?thesis using wf by (auto simp: threads_wf_def)
qed

text \<open>Changes of the map that keep the threads of every process that stays.\<close>

lemma threads_wf_same:
  assumes wf: "threads_wf k t2p rm" and "\<And>t p. t2p t = Some p \<Longrightarrow> p \<in> dom rm'"
    and "\<And>p r'. rm' p = Some r' \<Longrightarrow> \<exists>r. rm p = Some r \<and> threads r' = threads r \<and> dead_threads r' = dead_threads r"
  shows "threads_wf k t2p rm'"
proof -
  have "threads_node k t2p p r'" if r': "rm' p = Some r'" for p r'
  proof -
    obtain r where "rm p = Some r" "threads r' = threads r" "dead_threads r' = dead_threads r"
      using assms(3) [OF r'] by blast
    then show ?thesis using threads_wf_node [OF wf] by (simp add: threads_node_def)
  qed
  then show ?thesis using assms(1,2) by (simp add: threads_wf_def)
qed

text \<open>
  \<open>n\<close> bounds the process ids and \<open>k\<close> the thread ids given so far; \<open>q\<close> is the multiset of queued threads.
\<close>

definition ptm_inv :: "('mt \<Rightarrow> bool) \<Rightarrow> ('mt \<Rightarrow> nat \<rightharpoonup> 't) \<Rightarrow> ('mt \<Rightarrow> nat multiset) \<Rightarrow> ('mp \<Rightarrow> nat \<rightharpoonup> 'p) \<Rightarrow>
    nat \<Rightarrow> nat \<Rightarrow> nat multiset \<Rightarrow> ('mt, 'mp) pthread_manager \<Rightarrow> bool" where
  "ptm_inv swf tasks_of ready table n k q pm \<longleftrightarrow>
     tree_wf n (pt_rel_map pm) \<and> threads_wf k (tid2pid pm) (pt_rel_map pm) \<and>
     (\<exists>m. pt_manager pm = Some m \<and> swf m \<and> ready m = q \<and> dom (tasks_of m) = dom (tid2pid pm)) \<and>
     (\<exists>mp. proc_manager pm = Some mp \<and> dom (table mp) = dom (pt_rel_map pm)) \<and>
     (\<forall>i. count q i \<le> 1) \<and> (\<forall>i\<in>#q. i < k) \<and>
     (\<forall>i. pt_current pm = Some i \<longrightarrow> i \<in> dom (tid2pid pm) \<and> i \<notin># q)"

text \<open>
  The scheduler of threads also takes and returns ids for which it has no object.
\<close>

locale pthread_scheduler =
  process_scheduler ops swf task_ok fetchable tasks_of ready + task_table pops table
  for ops :: "('mt, 't) sched_ops" and swf task_ok fetchable tasks_of ready
    and pops :: "('mp, 'p) manage_ops" and table +
  assumes add_any: "swf m \<Longrightarrow> i \<notin># ready m \<Longrightarrow>
      \<exists>m'. op_add ops i m = Inr m' \<and> swf m' \<and> tasks_of m' = tasks_of m \<and> ready m' = add_mset i (ready m)"
    and fetch_any: "swf m \<Longrightarrow> ready m \<noteq> {#} \<Longrightarrow> fetchable m \<Longrightarrow>
      \<exists>i m'. op_fetch ops m = Inr (Some i, m') \<and> i \<in># ready m \<and> swf m' \<and> tasks_of m' = tasks_of m \<and>
        ready m' = ready m - {#i#}"
begin

abbreviation tinv :: "nat \<Rightarrow> nat \<Rightarrow> nat multiset \<Rightarrow> ('mt, 'mp) pthread_manager \<Rightarrow> bool" where
  "tinv \<equiv> ptm_inv swf tasks_of ready table"

lemma tinvE:
  assumes "tinv n k q pm"
  obtains m mp where "pt_manager pm = Some m" "swf m" "ready m = q" "dom (tasks_of m) = dom (tid2pid pm)"
    "proc_manager pm = Some mp" "dom (table mp) = dom (pt_rel_map pm)"
    "tree_wf n (pt_rel_map pm)" "threads_wf k (tid2pid pm) (pt_rel_map pm)"
    "\<forall>i. count q i \<le> 1" "\<forall>i\<in>#q. i < k"
    "\<forall>i. pt_current pm = Some i \<longrightarrow> i \<in> dom (tid2pid pm) \<and> i \<notin># q"
  using assms by (auto simp: ptm_inv_def)

lemma count_minus_member: "(\<forall>i. count q i \<le> 1) \<Longrightarrow> i \<notin># q - {#i#}"
  by (metis count_diff count_single diff_is_0_eq not_in_iff)

text \<open>Fetching the next thread; nothing is returned when the id belongs to no thread any more.\<close>

lemma thread_find_next_inv:
  assumes I: "tinv n k q pm" and c: "pt_current pm = None" and f: "\<And>m. pt_manager pm = Some m \<Longrightarrow> fetchable m"
  shows "if q = {#} then ptm_find_next ops pm = Inr (None, pm)
    else \<exists>i m m'. i \<in># q \<and> pt_manager pm = Some m \<and> op_fetch ops m = Inr (Some i, m') \<and> tasks_of m' = tasks_of m \<and>
      (case tasks_of m i of
         None \<Rightarrow> ptm_find_next ops pm = Inr (None, pm\<lparr>pt_manager := Some m'\<rparr>) \<and>
           tinv n k (q - {#i#}) (pm\<lparr>pt_manager := Some m'\<rparr>)
       | Some task \<Rightarrow> ptm_find_next ops pm = Inr (Some task, pm\<lparr>pt_manager := Some m', pt_current := Some i\<rparr>) \<and>
           tinv n k (q - {#i#}) (pm\<lparr>pt_manager := Some m', pt_current := Some i\<rparr>))"
proof -
  obtain m mp where m: "pt_manager pm = Some m" "swf m" "ready m = q" "dom (tasks_of m) = dom (tid2pid pm)"
    "\<forall>i. count q i \<le> 1" "\<forall>i\<in>#q. i < k"
    using tinvE [OF I] by metis
  show ?thesis
  proof (cases "q = {#}")
    case True
    then show ?thesis using fetch_empty [OF m(2)] m by (simp add: ptm_find_next_def)
  next
    case False
    then obtain i m' where i: "op_fetch ops m = Inr (Some i, m')" "i \<in># q" "swf m'"
      "tasks_of m' = tasks_of m" "ready m' = q - {#i#}"
      using fetch_any [OF m(2) _ f [OF m(1)]] m by auto
    have dead: "tinv n k (q - {#i#}) (pm\<lparr>pt_manager := Some m'\<rparr>)"
      using I i m c by (auto simp: ptm_inv_def dest: in_diffD intro: le_trans [OF diff_le_self])
    have "ptm_find_next ops pm = Inr (case tasks_of m i of None \<Rightarrow> (None, pm\<lparr>pt_manager := Some m'\<rparr>)
        | Some task \<Rightarrow> (Some task, pm\<lparr>pt_manager := Some m', pt_current := Some i\<rparr>))"
      using i m by (simp add: ptm_find_next_def get split: option.split)
    moreover have "tinv n k (q - {#i#}) (pm\<lparr>pt_manager := Some m', pt_current := Some i\<rparr>)" if "tasks_of m i = Some task" for task
      using dead that m count_minus_member [OF m(5), of i] by (auto simp: ptm_inv_def)
    ultimately show ?thesis
      using False i m(1) dead by (intro if_not_P [THEN iffD2, OF False] exI [of _ i] exI [of _ m] exI [of _ m'] conjI) (auto split: option.split)
  qed
qed

lemma thread_suspend_inv:
  assumes I: "tinv n k q pm" and c: "pt_current pm = Some i"
  shows "\<exists>pm'. ptm_make_current_suspend ops pm = Inr pm' \<and> tinv n k (add_mset i q) pm' \<and>
    pt_current pm' = None \<and> pt_rel_map pm' = pt_rel_map pm \<and> tid2pid pm' = tid2pid pm"
proof -
  obtain m mp where m: "pt_manager pm = Some m" "swf m" "ready m = q" "dom (tasks_of m) = dom (tid2pid pm)"
    "i \<in> dom (tid2pid pm)" "i \<notin># q"
    using tinvE [OF I] c by metis
  then obtain m' where m': "op_add ops i m = Inr m'" "swf m'" "tasks_of m' = tasks_of m" "ready m' = add_mset i q"
    using add [of m i] by auto
  then show ?thesis
    using I m c by (auto simp: ptm_make_current_suspend_def ptm_inv_def not_in_iff threads_wf_def)
qed

lemma thread_blocked_inv:
  assumes "tinv n k q pm"
  shows "tinv n k q (ptm_make_current_blocked pm)" and "pt_current (ptm_make_current_blocked pm) = None"
  using assms by (auto simp: ptm_make_current_blocked_def ptm_inv_def split: option.splits)

lemma thread_re_enque_inv:
  assumes I: "tinv n k q pm" and ib: "i < k" "i \<notin># q" "pt_current pm \<noteq> Some i"
  shows "\<exists>pm'. ptm_re_enque ops i pm = Inr pm' \<and> tinv n k (add_mset i q) pm' \<and>
    pt_current pm' = pt_current pm \<and> pt_rel_map pm' = pt_rel_map pm \<and> tid2pid pm' = tid2pid pm \<and>
    proc_manager pm' = proc_manager pm"
proof -
  obtain m mp where m: "pt_manager pm = Some m" "swf m" "ready m = q" "dom (tasks_of m) = dom (tid2pid pm)"
    using tinvE [OF I] by metis
  then obtain m' where m': "op_add ops i m = Inr m'" "swf m'" "tasks_of m' = tasks_of m" "ready m' = add_mset i q"
    using add_any [of m i] ib by auto
  then show ?thesis
    using I m ib by (auto simp: ptm_re_enque_def ptm_inv_def not_in_iff)
qed

text \<open>A new thread of a live process, with the next thread id.\<close>

lemma thread_add_inv:
  assumes I: "tinv n k q pm" and p: "p \<in> dom (pt_rel_map pm)" and t: "task_ok t"
  shows "\<exists>pm'. ptm_add ops k t p pm = Inr pm' \<and> tinv n (k + 1) (add_mset k q) pm' \<and>
    pt_current pm' = pt_current pm \<and> tid2pid pm' = (tid2pid pm)(k \<mapsto> p)"
proof -
  obtain m mp where m: "pt_manager pm = Some m" "swf m" "ready m = q" "dom (tasks_of m) = dom (tid2pid pm)"
    "tree_wf n (pt_rel_map pm)" "threads_wf k (tid2pid pm) (pt_rel_map pm)" "\<forall>i\<in>#q. i < k"
    using tinvE [OF I] by metis
  obtain r where r: "pt_rel_map pm p = Some r" using p by blast
  have kn: "k \<notin> dom (tid2pid pm)" using m(6) by (auto simp: threads_wf_def)
  have kq: "k \<notin># q" using m(7) by blast
  then obtain m' where m': "op_add ops k (op_insert ops k t m) = Inr m'" "swf m'"
    "tasks_of m' = (tasks_of m)(k \<mapsto> t)" "ready m' = add_mset k q"
    using insert [OF m(2) _ t, of k] add [of "op_insert ops k t m" k] m(3) by auto
  let ?rm = "(pt_rel_map pm)(p \<mapsto> add_thread k r)"
  let ?pm = "pm\<lparr>pt_manager := Some m', pt_rel_map := ?rm, tid2pid := (tid2pid pm)(k \<mapsto> p)\<rparr>"
  have "ptm_add ops k t p pm = Inr ?pm" using m(1) m'(1) r by (simp add: ptm_add_def)
  moreover have "tree_wf n ?rm" using tree_wf_same_tree [OF m(5) r] by simp
  moreover have "threads_wf (k + 1) ((tid2pid pm)(k \<mapsto> p)) ?rm" by (rule threads_wf_add [OF m(6) r])
  moreover have "dom ?rm = dom (pt_rel_map pm)" using r by auto
  ultimately show ?thesis
    using I m m' kn kq by (intro exI [of _ ?pm]) (auto simp: ptm_inv_def not_in_iff)
qed

text \<open>A new process with the next process id, still without threads.\<close>

lemma thread_add_proc_inv:
  assumes I: "tinv n k q pm" and p: "p \<in> dom (pt_rel_map pm)" and n: "n < pid_any"
  shows "\<exists>pm'. ptm_add_proc pops n proc p pm = Inr pm' \<and> tinv (n + 1) k q pm' \<and>
    pt_current pm' = pt_current pm \<and> tid2pid pm' = tid2pid pm \<and>
    dom (pt_rel_map pm') = Set.insert n (dom (pt_rel_map pm))"
proof -
  obtain m mp where m: "proc_manager pm = Some mp" "dom (table mp) = dom (pt_rel_map pm)"
    "tree_wf n (pt_rel_map pm)" "threads_wf k (tid2pid pm) (pt_rel_map pm)"
    using tinvE [OF I] by metis
  obtain r where r: "pt_rel_map pm p = Some r" using p by blast
  have pn: "p < n" "n \<notin> dom (pt_rel_map pm)"
    using tree_wf_node [OF m(3) r] tree_wf_node [OF m(3)] by (auto simp: node_wf_def)
  let ?rm = "(pt_rel_map pm)(p \<mapsto> add_child n r, n \<mapsto> proc_thread_rel_new p)"
  let ?pm = "pm\<lparr>proc_manager := Some (op_insert pops n proc mp), pt_rel_map := ?rm\<rparr>"
  have "ptm_add_proc pops n proc p pm = Inr ?pm" using m(1) r by (simp add: ptm_add_proc_def)
  moreover have "tree_wf (n + 1) ?rm"
    using tree_wf_add [OF m(3) n r, of "proc_thread_rel_new p"] by (simp add: proc_thread_rel_new_def)
  moreover have dom: "dom ?rm = Set.insert n (dom (pt_rel_map pm))" using r by auto
  moreover have "threads_wf k (tid2pid pm) ?rm"
  proof -
    have nt: "tid2pid pm t \<noteq> Some n" for t using m(4) pn by (auto simp: threads_wf_def)
    have "threads_wf k (tid2pid pm) ((pt_rel_map pm)(p \<mapsto> add_child n r))"
      using m(4) r by (intro threads_wf_same [OF m(4)]) (auto simp: threads_wf_def add_child_def split: if_splits)
    moreover have "threads_node k (tid2pid pm) n (proc_thread_rel_new p)"
      using nt by (simp add: threads_node_def proc_thread_rel_new_def)
    ultimately show ?thesis by (auto simp: threads_wf_def)
  qed
  ultimately show ?thesis
    using I m by (intro exI [of _ ?pm]) (auto simp: ptm_inv_def tinsert)
qed

text \<open>The objects of the ended thread \<open>i\<close>, and of its process \<open>p\<close> with the last of its threads, are deleted.\<close>

definition exit_tables :: "nat \<Rightarrow> nat \<Rightarrow> proc_thread_rel \<Rightarrow> ('mt, 'mp) pthread_manager \<Rightarrow> ('mt, 'mp) pthread_manager \<Rightarrow> bool" where
  "exit_tables i p r pm pm' \<longleftrightarrow> pt_manager pm' = map_option (op_delete ops i) (pt_manager pm) \<and>
     proc_manager pm' = (if threads r = [i] then map_option (op_delete pops p) (proc_manager pm) else proc_manager pm)"

text \<open>
  The current thread ends. When other threads of the process remain, the process stays; the last
  thread takes the process with it, and its parent gets the exit code. Process 0 must have no children
  in that case.
\<close>

lemma thread_exited_inv:
  assumes I: "tinv n k q pm" and c: "pt_current pm = Some i" and p: "tid2pid pm i = Some p"
    and r: "pt_rel_map pm p = Some r" and ok: "p \<noteq> 0 \<or> threads r \<noteq> [i]"
  shows "\<exists>pm'. ptm_make_current_exited ops pops e pm = Inr pm' \<and> tinv n k q pm' \<and> pt_current pm' = None \<and>
    tid2pid pm' = (tid2pid pm)(i := None) \<and> exit_tables i p r pm pm' \<and>
    (if threads r = [i]
     then dom (pt_rel_map pm') = dom (pt_rel_map pm) - {p} \<and>
       (\<exists>rp rp'. pt_rel_map pm (parent r) = Some rp \<and> pt_rel_map pm' (parent r) = Some rp' \<and>
          dead_children rp' = dead_children rp @ [(p, e)])
     else dom (pt_rel_map pm') = dom (pt_rel_map pm) \<and>
       (\<exists>r'. pt_rel_map pm' p = Some r' \<and> dead_threads r' = dead_threads r @ [(i, e)]))"
proof -
  obtain m mp where m: "pt_manager pm = Some m" "swf m" "ready m = q" "dom (tasks_of m) = dom (tid2pid pm)"
    "proc_manager pm = Some mp" "dom (table mp) = dom (pt_rel_map pm)"
    "tree_wf n (pt_rel_map pm)" "threads_wf k (tid2pid pm) (pt_rel_map pm)" "\<forall>i\<in>#q. i < k"
    "i \<notin># q" "\<forall>i. count q i \<le> 1"
    using tinvE [OF I] c by metis
  have tr: "i \<in> set (threads r)" "distinct (threads r)"
    using threads_wf_node [OF m(8) r] p by (auto simp: threads_node_def)
  note dt = del_thread_member [OF tr, where e = e]
  have d: "swf (op_delete ops i m)" "tasks_of (op_delete ops i m) = (tasks_of m)(i := None)"
    "ready (op_delete ops i m) = q"
    using delete [OF m(2), of i] m by simp_all
  let ?r = "del_thread i e r"
  let ?rm = "(pt_rel_map pm)(p \<mapsto> ?r)" and ?t2p = "(tid2pid pm)(i := None)"
  have wf1: "tree_wf n ?rm" by (rule tree_wf_same_tree [OF m(7) r]) simp_all
  have th1: "threads_wf k ?t2p ?rm" by (rule threads_wf_del [OF m(8) r p])
  have dom1: "dom ?rm = dom (pt_rel_map pm)" using r by auto
  show ?thesis
  proof (cases "threads r = [i]")
    case False
    let ?pm = "pm\<lparr>pt_manager := Some (op_delete ops i m), tid2pid := ?t2p, pt_rel_map := ?rm, pt_current := None\<rparr>"
    have "ptm_make_current_exited ops pops e pm = Inr ?pm"
      using c m(1) p r False dt(4) by (simp add: ptm_make_current_exited_def Let_def)
    moreover have "tinv n k q ?pm" using m d wf1 th1 dom1 by (simp add: ptm_inv_def)
    ultimately show ?thesis using False dom1 dt(3) m(1) by (auto simp: exit_tables_def)
  next
    case True
    have pr: "?rm p = Some ?r" and p0: "p \<noteq> 0" using ok True by simp_all
    obtain rm' rp rp' where e: "end_relations p e ?rm = Inr rm'" "tree_wf n rm'"
      "dom rm' = dom ?rm - {p}" "?rm (parent ?r) = Some rp" "rm' (parent ?r) = Some rp'"
      "dead_children rp' = dead_children rp @ [(p, e)]"
      using end_relations_ok [OF wf1 pr p0] by blast
    have "parent r \<noteq> p" using node_wf_parent [OF tree_wf_node [OF m(7) r] p0] by simp
    then have rp: "pt_rel_map pm (parent r) = Some rp" using e(4) by simp
    have nop: "?t2p t \<noteq> Some p" for t
      using threads_wf_node [OF m(8) r] True by (auto simp: threads_node_def)
    have th2: "threads_wf k ?t2p rm'"
    proof (rule threads_wf_same [OF th1])
      show "x \<in> dom rm'" if "?t2p t = Some x" for t x
      proof -
        have "x \<in> dom ?rm" using that th1 unfolding threads_wf_def by blast
        moreover have "x \<noteq> p" using nop that by blast
        ultimately show ?thesis using e(3) by blast
      qed
      show "\<exists>r. ?rm x = Some r \<and> threads r' = threads r \<and> dead_threads r' = dead_threads r"
        if "rm' x = Some r'" for x r'
        using end_relations_more [OF e(1) that] threads_more by metis
    qed
    let ?pm = "pm\<lparr>pt_manager := Some (op_delete ops i m), tid2pid := ?t2p, pt_rel_map := rm',
      proc_manager := Some (op_delete pops p mp), pt_current := None\<rparr>"
    have "ptm_make_current_exited ops pops e pm = Inr ?pm"
      using c m(1,5) p r True dt(4) e(1) by (simp add: ptm_make_current_exited_def ptm_del_proc_def Let_def)
    moreover have "tinv n k q ?pm" using m d e(2,3) th2 dom1 by (simp add: ptm_inv_def tdelete)
    ultimately show ?thesis using True e dom1 rp m(1,5) by (auto simp: exit_tables_def)
  qed
qed

text \<open>In general, the end of the current thread either works or is the panic of process 0 with children.\<close>

lemma thread_exited_root:
  assumes I: "tinv n k q pm" and c: "pt_current pm = Some i" and p: "tid2pid pm i = Some 0"
    and r: "pt_rel_map pm 0 = Some r" "threads r = [i]"
  shows "ptm_make_current_exited ops pops e pm = Inl UnwrapNone \<or>
    (\<exists>pm'. ptm_make_current_exited ops pops e pm = Inr pm' \<and> tinv n k q pm' \<and> pt_current pm' = None \<and>
       tid2pid pm' = (tid2pid pm)(i := None) \<and> exit_tables i 0 r pm pm')"
proof -
  obtain m mp where m: "pt_manager pm = Some m" "swf m" "ready m = q" "dom (tasks_of m) = dom (tid2pid pm)"
    "proc_manager pm = Some mp" "dom (table mp) = dom (pt_rel_map pm)"
    "tree_wf n (pt_rel_map pm)" "threads_wf k (tid2pid pm) (pt_rel_map pm)" "i \<notin># q" "\<forall>i\<in>#q. i < k" "\<forall>i. count q i \<le> 1"
    using tinvE [OF I] c by metis
  have tr: "i \<in> set (threads r)" "distinct (threads r)" using r(2) by simp_all
  note dt = del_thread_member [OF tr, where e = e]
  let ?r = "del_thread i e r"
  let ?rm = "(pt_rel_map pm)(0 \<mapsto> ?r)" and ?t2p = "(tid2pid pm)(i := None)"
  have wf1: "tree_wf n ?rm" by (rule tree_wf_same_tree [OF m(7) r(1)]) simp_all
  have d: "swf (op_delete ops i m)" "tasks_of (op_delete ops i m) = (tasks_of m)(i := None)"
    "ready (op_delete ops i m) = q"
    using delete [OF m(2), of i] m by simp_all
  have eq: "ptm_make_current_exited ops pops e pm = bind_res (end_relations 0 e ?rm) (\<lambda>rm'.
      Inr (pm\<lparr>pt_manager := Some (op_delete ops i m), tid2pid := ?t2p, proc_manager := Some (op_delete pops 0 mp),
        pt_rel_map := rm', pt_current := None\<rparr>))"
    using c m(1,5) p r dt(4) by (cases "end_relations 0 e ?rm") (simp_all add: ptm_make_current_exited_def ptm_del_proc_def Let_def)
  show ?thesis
  proof (cases "children r = []")
    case False
    then have "end_relations 0 e ?rm = Inl UnwrapNone" 
      by (intro end_relations_root_panics [OF wf1, of ?r]) simp_all
    then show ?thesis using eq by simp
  next
    case True
    then have e: "end_relations 0 e ?rm = Inr Map.empty" by (intro end_relations_root [OF wf1, of ?r]) simp_all
    have lone: "dom (pt_rel_map pm) = {0}" by (rule tree_wf_lone_root [OF m(7) r(1) True])
    have "?t2p = Map.empty"
    proof
      fix t
      show "?t2p t = None"
      proof (cases "tid2pid pm t")
        case (Some x)
        then have "x = 0" using m(8) lone unfolding threads_wf_def by blast
        then have "t \<in> set (threads r)" using threads_wf_node [OF m(8) r(1)] Some by (simp add: threads_node_def)
        then show ?thesis using r(2) by simp
      qed simp
    qed
    moreover from this have "(tasks_of m)(i := None) = Map.empty" using m(4) by (metis dom_eq_empty_conv dom_fun_upd)
    moreover have "(table mp)(0 := None) = Map.empty" using m(6) lone by (metis Diff_cancel dom_eq_empty_conv dom_fun_upd)
    ultimately show ?thesis
      using eq e d m by (auto simp: ptm_inv_def tdelete tree_wf_def threads_wf_def exit_tables_def r(2))
  qed
qed

lemma thread_exited_cases:
  assumes I: "tinv n k q pm" and c: "pt_current pm = Some i"
  obtains p r where "tid2pid pm i = Some p" "pt_rel_map pm p = Some r"
    "ptm_make_current_exited ops pops e pm = Inl UnwrapNone \<or>
     (\<exists>pm'. ptm_make_current_exited ops pops e pm = Inr pm' \<and> tinv n k q pm' \<and> pt_current pm' = None \<and>
       tid2pid pm' = (tid2pid pm)(i := None) \<and> exit_tables i p r pm pm')"
proof -
  obtain p where p: "tid2pid pm i = Some p" using I c by (auto simp: ptm_inv_def)
  then have "p \<in> dom (pt_rel_map pm)" using I unfolding ptm_inv_def threads_wf_def by blast
  then obtain r where r: "pt_rel_map pm p = Some r" by blast
  show ?thesis
  proof (cases "p = 0 \<and> threads r = [i]")
    case True
    then show ?thesis using that [OF p r] thread_exited_root [OF I c, of r e] p r by simp
  next
    case False
    then show ?thesis using that [OF p r] thread_exited_inv [OF I c p r, of e] by blast
  qed
qed

text \<open>The two wait operations always return.\<close>

lemma thread_current_rel:
  assumes I: "tinv n k q pm" and c: "pt_current pm = Some i"
  obtains p r where "tid2pid pm i = Some p" "pt_rel_map pm p = Some r" "ptm_current_rel pm = Inr (p, r)"
proof -
  obtain p where p: "tid2pid pm i = Some p" using I c by (auto simp: ptm_inv_def)
  then have "p \<in> dom (pt_rel_map pm)" using I unfolding ptm_inv_def threads_wf_def by blast
  then obtain r where r: "pt_rel_map pm p = Some r" by blast
  show ?thesis using that [OF p r] c p r by (simp add: ptm_current_rel_def)
qed

lemma thread_wait_inv:
  assumes I: "tinv n k q pm" and c: "pt_current pm = Some i"
  shows "\<exists>w pm'. ptm_wait ch pm = Inr (w, pm') \<and> tinv n k q pm' \<and> pt_current pm' = Some i \<and>
    tid2pid pm' = tid2pid pm \<and> dom (pt_rel_map pm') = dom (pt_rel_map pm)"
proof -
  obtain p r where p: "tid2pid pm i = Some p" and r: "pt_rel_map pm p = Some r"
    and cr: "ptm_current_rel pm = Inr (p, r)" by (rule thread_current_rel [OF I c])
  define w where "w = (if ch = pid_any then wait_any_child r else wait_child ch r)"
  let ?rm = "(pt_rel_map pm)(p \<mapsto> snd w)"
  have "ptm_wait ch pm = Inr (fst w, pm\<lparr>pt_rel_map := ?rm\<rparr>)"
    using cr by (simp add: ptm_wait_def w_def split: prod.split)
  moreover have "tree_wf n ?rm"
    using I r tree_wf_wait_any_child tree_wf_wait_child by (auto simp: w_def ptm_inv_def)
  moreover have "threads_wf k (tid2pid pm) ?rm"
  proof -
    have th: "threads_wf k (tid2pid pm) (pt_rel_map pm)" using I by (simp add: ptm_inv_def)
    have "threads (snd w) = threads r \<and> dead_threads (snd w) = dead_threads r"
      by (rule threads_more) (simp add: w_def)
    with th r show ?thesis by (intro threads_wf_same [OF th]) (auto simp: threads_wf_def split: if_splits)
  qed
  moreover have "dom ?rm = dom (pt_rel_map pm)" using r by auto
  ultimately show ?thesis using I c by (auto simp: ptm_inv_def)
qed

lemma thread_waittid_inv:
  assumes I: "tinv n k q pm" and c: "pt_current pm = Some i"
  shows "\<exists>w pm'. ptm_waittid t pm = Inr (w, pm') \<and> tinv n k q pm' \<and> pt_current pm' = Some i \<and>
    tid2pid pm' = tid2pid pm \<and> dom (pt_rel_map pm') = dom (pt_rel_map pm)"
proof -
  obtain p r where p: "tid2pid pm i = Some p" and r: "pt_rel_map pm p = Some r"
    and cr: "ptm_current_rel pm = Inr (p, r)" by (rule thread_current_rel [OF I c])
  let ?rm = "(pt_rel_map pm)(p \<mapsto> snd (wait_thread t r))"
  have "ptm_waittid t pm = Inr (fst (wait_thread t r), pm\<lparr>pt_rel_map := ?rm\<rparr>)"
    using cr by (simp add: ptm_waittid_def split: prod.split)
  moreover have "tree_wf n ?rm" using I r by (intro tree_wf_same_tree [where r = r]) (simp_all add: ptm_inv_def)
  moreover have "threads_wf k (tid2pid pm) ?rm" using I r by (intro threads_wf_wait) (simp_all add: ptm_inv_def)
  moreover have "dom ?rm = dom (pt_rel_map pm)" using r by auto
  ultimately show ?thesis using I c by (auto simp: ptm_inv_def)
qed

end

section \<open>Chapter 8: FIFO threads over a table of processes\<close>

interpretation ch8: pthread_scheduler fifo_ops "\<lambda>_. True" "\<lambda>_. True" "\<lambda>_. True" tm_tasks tm_ready
  proc_table_ops procs
  by unfold_locales (auto simp: tm_defs split: list.splits)

type_synonym ('t, 'p) processor = "('t thread_manager, 'p proc_table) pthread_manager"

definition ch8_inv :: "nat \<Rightarrow> nat \<Rightarrow> nat multiset \<Rightarrow> ('t, 'p) processor \<Rightarrow> bool" where
  "ch8_inv = ptm_inv (\<lambda>_. True) tm_tasks tm_ready procs"

lemmas ch8_inv_lemmas =
  ch8.thread_find_next_inv [folded ch8_inv_def, simplified]
  ch8.thread_suspend_inv [folded ch8_inv_def]
  ch8.thread_blocked_inv [folded ch8_inv_def]
  ch8.thread_re_enque_inv [folded ch8_inv_def]
  ch8.thread_add_inv [folded ch8_inv_def, simplified]
  ch8.thread_add_proc_inv [folded ch8_inv_def]
  ch8.thread_exited_inv [folded ch8_inv_def]
  ch8.thread_wait_inv [folded ch8_inv_def]
  ch8.thread_waittid_inv [folded ch8_inv_def]

end
