(* ===== verification/Sync_Primitives.thy ===== *)
theory Sync_Primitives
  imports Rcore_Prelude
begin

text \<open>
  tg-sync: the blocking mutex, the semaphore, the condition variable (\<^verbatim>\<open>mutex.rs\<close>, \<^verbatim>\<open>semaphore.rs\<close>,
  \<^verbatim>\<open>condvar.rs\<close>) and the interrupt masking of the cells they live in (\<^verbatim>\<open>up.rs\<close>).

  Every operation of a primitive is one \<^verbatim>\<open>exclusive_access\<close> session on its cell; a session on a cell that is
  not borrowed gives the result of the operation on the inner value and leaves the interrupt state as it
  was (\<open>exclusive_session_transparent\<close>), so the operations are stated on the inner values.

  Mutex and semaphore meet one interface, the locale \<open>wait_queue\<close>: permits and a FIFO queue of waiting
  threads. From it follow conservation of permits, mutual exclusion and the order of the wake-ups.
\<close>

section \<open>Interrupt masking\<close>

text \<open>\<^verbatim>\<open>IntrMaskingInfo\<close> together with the \<^verbatim>\<open>sie\<close> bit of the \<^verbatim>\<open>sstatus\<close> register it saves and restores.\<close>

record intr_masking_info =
  sie :: bool
  nested_level :: nat
  sie_before_masking :: bool

definition intr_enter :: "intr_masking_info \<Rightarrow> intr_masking_info res" where
  "intr_enter s =
     (let sie_now = sie s;
          s1 = s\<lparr>sie := False\<rparr>;
          s2 = (if nested_level s1 = 0 then s1\<lparr>sie_before_masking := sie_now\<rparr> else s1)
      in if nested_level s2 + 1 < usize_bound then Inr (s2\<lparr>nested_level := nested_level s2 + 1\<rparr>)
         else Inl ArithOverflow)"

definition intr_exit :: "intr_masking_info \<Rightarrow> intr_masking_info res" where
  "intr_exit s =
     (if nested_level s = 0 then Inl ArithOverflow
      else let s1 = s\<lparr>nested_level := nested_level s - 1\<rparr>
           in Inr (if nested_level s1 = 0 \<and> sie_before_masking s1 then s1\<lparr>sie := True\<rparr> else s1))"

text \<open>\<^verbatim>\<open>UPIntrFreeCell\<close>: a value and the borrow flag of its \<^verbatim>\<open>RefCell\<close>.\<close>

record 'a up_intr_free_cell =
  cell_value :: 'a
  cell_borrowed :: bool

definition up_cell_new :: "'a \<Rightarrow> 'a up_intr_free_cell" where
  "up_cell_new v = \<lparr>cell_value = v, cell_borrowed = False\<rparr>"

definition exclusive_access ::
  "'a up_intr_free_cell \<Rightarrow> intr_masking_info \<Rightarrow> ('a up_intr_free_cell \<times> intr_masking_info) res" where
  "exclusive_access c s =
     bind_res (intr_enter s) (\<lambda>s1.
       if cell_borrowed c then Inl InvalidValue else Inr (c\<lparr>cell_borrowed := True\<rparr>, s1))"

text \<open>\<^verbatim>\<open>Drop for UPIntrRefMut\<close>.\<close>

definition drop_ref_mut ::
  "'a up_intr_free_cell \<Rightarrow> intr_masking_info \<Rightarrow> ('a up_intr_free_cell \<times> intr_masking_info) res" where
  "drop_ref_mut c s = bind_res (intr_exit s) (\<lambda>s1. Inr (c\<lparr>cell_borrowed := False\<rparr>, s1))"

definition exclusive_session ::
  "('a \<Rightarrow> ('v \<times> 'a) res) \<Rightarrow> 'a up_intr_free_cell \<Rightarrow> intr_masking_info \<Rightarrow>
   ('v \<times> 'a up_intr_free_cell \<times> intr_masking_info) res" where
  "exclusive_session f c s =
     bind_res (exclusive_access c s) (\<lambda>(c1, s1).
     bind_res (f (cell_value c1)) (\<lambda>(v, x).
     bind_res (drop_ref_mut (c1\<lparr>cell_value := x\<rparr>) s1) (\<lambda>(c2, s2). Inr (v, c2, s2))))"

section \<open>Mutex, semaphore, condition variable\<close>

record mutex_blocking =
  locked :: bool
  mutex_wait_queue :: "nat list"

definition mutex_new :: mutex_blocking where
  "mutex_new = \<lparr>locked = False, mutex_wait_queue = []\<rparr>"

definition mutex_lock :: "nat \<Rightarrow> mutex_blocking \<Rightarrow> (bool \<times> mutex_blocking) res" where
  "mutex_lock tid m =
     Inr (if locked m then (False, m\<lparr>mutex_wait_queue := mutex_wait_queue m @ [tid]\<rparr>)
          else (True, m\<lparr>locked := True\<rparr>))"

definition mutex_unlock :: "mutex_blocking \<Rightarrow> (nat option \<times> mutex_blocking) res" where
  "mutex_unlock m =
     bind_res (assert_res (locked m)) (\<lambda>_.
       Inr (case mutex_wait_queue m of
              waking_task # q \<Rightarrow> (Some waking_task, m\<lparr>mutex_wait_queue := q\<rparr>)
            | [] \<Rightarrow> (None, m\<lparr>locked := False\<rparr>)))"

record semaphore =
  sem_count :: int
  sem_wait_queue :: "nat list"

definition semaphore_new :: "nat \<Rightarrow> semaphore" where
  "semaphore_new res_count = \<lparr>sem_count = usize_as_isize res_count, sem_wait_queue = []\<rparr>"

definition pop_front :: "'a list \<Rightarrow> 'a option \<times> 'a list" where
  "pop_front q = (case q of [] \<Rightarrow> (None, []) | x # xs \<Rightarrow> (Some x, xs))"

definition semaphore_up :: "semaphore \<Rightarrow> (nat option \<times> semaphore) res" where
  "semaphore_up s =
     (if in_isize (sem_count s + 1)
      then let (r, q) = pop_front (sem_wait_queue s)
           in Inr (r, s\<lparr>sem_count := sem_count s + 1, sem_wait_queue := q\<rparr>)
      else Inl ArithOverflow)"

definition semaphore_down :: "nat \<Rightarrow> semaphore \<Rightarrow> (bool \<times> semaphore) res" where
  "semaphore_down tid s =
     (if in_isize (sem_count s - 1)
      then let s1 = s\<lparr>sem_count := sem_count s - 1\<rparr>
           in if sem_count s1 < 0 then Inr (False, s1\<lparr>sem_wait_queue := sem_wait_queue s1 @ [tid]\<rparr>)
              else Inr (True, s1)
      else Inl ArithOverflow)"

record condvar =
  cond_wait_queue :: "nat list"

definition condvar_new :: condvar where
  "condvar_new = \<lparr>cond_wait_queue = []\<rparr>"

definition condvar_signal :: "condvar \<Rightarrow> nat option \<times> condvar" where
  "condvar_signal c = (let (r, q) = pop_front (cond_wait_queue c) in (r, c\<lparr>cond_wait_queue := q\<rparr>))"

definition condvar_wait_no_sched :: "nat \<Rightarrow> condvar \<Rightarrow> bool \<times> condvar" where
  "condvar_wait_no_sched tid c = (False, c\<lparr>cond_wait_queue := cond_wait_queue c @ [tid]\<rparr>)"

text \<open>\<^verbatim>\<open>wait_with_mutex\<close> uses the mutex only; the condition variable itself is not touched.\<close>

definition condvar_wait_with_mutex ::
  "nat \<Rightarrow> mutex_blocking \<Rightarrow> ((bool \<times> nat option) \<times> mutex_blocking) res" where
  "condvar_wait_with_mutex tid m =
     bind_res (mutex_unlock m) (\<lambda>(w, m1).
     bind_res (unwrap w) (\<lambda>waking_tid.
     bind_res (mutex_lock tid m1) (\<lambda>(b, m2). Inr ((b, Some waking_tid), m2))))"

section \<open>The interface of the blocking primitives\<close>

locale wait_queue =
  fixes acquire :: "nat \<Rightarrow> 's \<Rightarrow> (bool \<times> 's) res"
    and release :: "'s \<Rightarrow> (nat option \<times> 's) res"
    and wf :: "'s \<Rightarrow> bool"
    and room :: "nat \<Rightarrow> 's \<Rightarrow> bool"
    and permits :: "'s \<Rightarrow> nat"
    and waiting :: "'s \<Rightarrow> nat list"
  assumes waiting_no_permit: "wf s \<Longrightarrow> waiting s \<noteq> [] \<Longrightarrow> permits s = 0"
    and acquire_free: "wf s \<Longrightarrow> room (Suc n) s \<Longrightarrow> 0 < permits s \<Longrightarrow>
      \<exists>s'. acquire t s = Inr (True, s') \<and> wf s' \<and> room n s' \<and> permits s' = permits s - 1 \<and> waiting s' = waiting s"
    and acquire_busy: "wf s \<Longrightarrow> room (Suc n) s \<Longrightarrow> permits s = 0 \<Longrightarrow>
      \<exists>s'. acquire t s = Inr (False, s') \<and> wf s' \<and> room n s' \<and> permits s' = 0 \<and> waiting s' = waiting s @ [t]"
    and release_wake: "wf s \<Longrightarrow> room (Suc n) s \<Longrightarrow> waiting s = w # ws \<Longrightarrow>
      \<exists>s'. release s = Inr (Some w, s') \<and> wf s' \<and> room n s' \<and> permits s' = 0 \<and> waiting s' = ws"
    and release_free: "wf s \<Longrightarrow> room (Suc n) s \<Longrightarrow> waiting s = [] \<Longrightarrow> release s = Inr (r, s') \<Longrightarrow>
      r = None \<and> wf s' \<and> room n s' \<and> permits s' = permits s + 1 \<and> waiting s' = []"

text \<open>
  Runs of threads that acquire once before they release: \<open>H\<close> is the set of threads that hold a permit.
  A thread that got \<^verbatim>\<open>false\<close> from the acquire waits until a release wakes it, and holds the permit then.
\<close>

inductive wq_run :: "(nat \<Rightarrow> 's \<Rightarrow> (bool \<times> 's) res) \<Rightarrow> ('s \<Rightarrow> (nat option \<times> 's) res) \<Rightarrow> ('s \<Rightarrow> nat list) \<Rightarrow>
    (nat \<Rightarrow> 's \<Rightarrow> bool) \<Rightarrow> 's \<Rightarrow> 's \<Rightarrow> nat set \<Rightarrow> bool"
  for acquire release waiting room s0 where
  wq_init: "wq_run acquire release waiting room s0 s0 {}"
| wq_acquire: "wq_run acquire release waiting room s0 s H \<Longrightarrow> room 1 s \<Longrightarrow> t \<notin> H \<Longrightarrow> t \<notin> set (waiting s) \<Longrightarrow>
    acquire t s = Inr (b, s') \<Longrightarrow>
    wq_run acquire release waiting room s0 s' (if b then insert t H else H)"
| wq_release: "wq_run acquire release waiting room s0 s H \<Longrightarrow> room 1 s \<Longrightarrow> t \<in> H \<Longrightarrow>
    release s = Inr (w, s') \<Longrightarrow>
    wq_run acquire release waiting room s0 s' (H - {t} \<union> set_option w)"

fun acquire_all :: "(nat \<Rightarrow> 's \<Rightarrow> (bool \<times> 's) res) \<Rightarrow> nat list \<Rightarrow> 's \<Rightarrow> 's res" where
  "acquire_all acq [] s = Inr s"
| "acquire_all acq (t # ts) s = bind_res (acq t s) (\<lambda>(_, s'). acquire_all acq ts s')"

fun release_times :: "('s \<Rightarrow> (nat option \<times> 's) res) \<Rightarrow> nat \<Rightarrow> 's \<Rightarrow> (nat option list \<times> 's) res" where
  "release_times rel 0 s = Inr ([], s)"
| "release_times rel (Suc n) s =
     bind_res (rel s) (\<lambda>(w, s1). bind_res (release_times rel n s1) (\<lambda>(ws, s2). Inr (w # ws, s2)))"

context wait_queue
begin

lemma wq_run_invariant:
  assumes "wq_run acquire release waiting room s0 s H" "wf s0" "waiting s0 = []"
  shows "wf s \<and> finite H \<and> card H + permits s = permits s0 \<and> distinct (waiting s) \<and> H \<inter> set (waiting s) = {}"
  using assms
proof induction
  case (wq_acquire s H t b s')
  then have I: "wf s" "finite H" "card H + permits s = permits s0" "distinct (waiting s)" "H \<inter> set (waiting s) = {}"
    by auto
  then show ?case
    using acquire_free [of s 0 t] acquire_busy [of s 0 t] wq_acquire.hyps by (cases "permits s") auto
next
  case (wq_release s H t w s')
  then have I: "wf s" "finite H" "card H + permits s = permits s0" "distinct (waiting s)" "H \<inter> set (waiting s) = {}"
    by auto
  have "0 < card H" using I(2) wq_release.hyps(3) card_gt_0_iff by blast
  then have cd: "card (H - {t}) + 1 = card H" using I(2) wq_release.hyps(3) by simp
  show ?case
  proof (cases "waiting s")
    case Nil
    then show ?thesis using release_free [OF I(1) _ Nil wq_release.hyps(4), of 0] wq_release.hyps(2) I cd by auto
  next
    case (Cons x xs)
    then obtain s1 where s1: "release s = Inr (Some x, s1)" "wf s1" "permits s1 = 0" "waiting s1 = xs"
      using release_wake [OF I(1) _ Cons, of 0] wq_release.hyps(2) by auto
    then have "w = Some x" "s' = s1" using wq_release.hyps(4) by simp_all
    moreover have "permits s = 0" using waiting_no_permit [OF I(1)] Cons by simp
    moreover have "x \<notin> H" "x \<notin> set xs" using I(4,5) Cons by auto
    ultimately show ?thesis using I cd s1 Cons by auto
  qed
qed auto

text \<open>Threads that queue up on a busy primitive are woken in the order in which they came.\<close>

lemma acquire_all_busy:
  "wf s \<Longrightarrow> permits s = 0 \<Longrightarrow> room (length ts + n) s \<Longrightarrow>
   \<exists>s'. acquire_all acquire ts s = Inr s' \<and> wf s' \<and> room n s' \<and> permits s' = 0 \<and> waiting s' = waiting s @ ts"
proof (induction ts arbitrary: s)
  case (Cons t ts)
  then obtain s1 where "acquire t s = Inr (False, s1)" "wf s1" "room (length ts + n) s1" "permits s1 = 0"
    "waiting s1 = waiting s @ [t]"
    using acquire_busy [of s "length ts + n" t] by auto
  with Cons.IH [of s1] show ?case by auto
qed auto

lemma release_times_wake:
  "wf s \<Longrightarrow> waiting s = ts @ us \<Longrightarrow> room (length ts) s \<Longrightarrow>
   \<exists>s'. release_times release (length ts) s = Inr (map Some ts, s') \<and> wf s' \<and> waiting s' = us"
proof (induction ts arbitrary: s)
  case (Cons t ts)
  then obtain s1 where "release s = Inr (Some t, s1)" "wf s1" "room (length ts) s1" "waiting s1 = ts @ us"
    using release_wake [of s "length ts" t "ts @ us"] by auto
  with Cons.IH [of s1] show ?case by auto
qed auto

lemma fifo_wake_order:
  assumes "wf s" "permits s = 0" "waiting s = []" "room (2 * length ts) s"
  shows "\<exists>s1 s2. acquire_all acquire ts s = Inr s1 \<and> waiting s1 = ts \<and>
    release_times release (length ts) s1 = Inr (map Some ts, s2) \<and> waiting s2 = []"
proof -
  obtain s1 where "acquire_all acquire ts s = Inr s1" "wf s1" "room (length ts) s1" "waiting s1 = ts"
    using acquire_all_busy [of s ts "length ts"] assms by (auto simp: mult_2)
  with release_times_wake [of s1 ts "[]"] show ?thesis by auto
qed

end

section \<open>Mutex and semaphore implement the interface\<close>

definition mutex_wf :: "mutex_blocking \<Rightarrow> bool" where
  "mutex_wf m \<longleftrightarrow> (mutex_wait_queue m \<noteq> [] \<longrightarrow> locked m)"

definition mutex_permits :: "mutex_blocking \<Rightarrow> nat" where
  "mutex_permits m = (if locked m then 0 else 1)"

text \<open>The comment of \<^verbatim>\<open>semaphore.rs\<close>: a negative count is the number of waiting threads.\<close>

definition sem_wf :: "semaphore \<Rightarrow> bool" where
  "sem_wf s \<longleftrightarrow> int (length (sem_wait_queue s)) = max 0 (- sem_count s)"

definition sem_room :: "nat \<Rightarrow> semaphore \<Rightarrow> bool" where
  "sem_room n s \<longleftrightarrow> - (2 ^ 63) + int n \<le> sem_count s \<and> sem_count s + int n < 2 ^ 63"

definition sem_permits :: "semaphore \<Rightarrow> nat" where
  "sem_permits s = nat (sem_count s)"

interpretation mutex: wait_queue mutex_lock mutex_unlock mutex_wf "\<lambda>_ _. True" mutex_permits mutex_wait_queue
  by unfold_locales (auto simp: mutex_lock_def mutex_unlock_def mutex_wf_def mutex_permits_def)

interpretation sem: wait_queue semaphore_down semaphore_up sem_wf sem_room sem_permits sem_wait_queue
  by unfold_locales
    (auto simp: semaphore_down_def semaphore_up_def sem_wf_def sem_room_def sem_permits_def in_isize_def pop_front_def
      max_def split: if_splits)

section \<open>Properties\<close>

text \<open>
  C13. Mutual exclusion of the blocking mutex: in every run in which threads unlock only what they hold,
  at most one thread holds the mutex, it is locked exactly while one does, threads wait only while
  it is locked, and no thread waits twice or while it holds the mutex.
\<close>

theorem mutex_mutual_exclusion:
  assumes "wq_run mutex_lock mutex_unlock mutex_wait_queue (\<lambda>_ _. True) mutex_new m H"
  shows "card H \<le> 1 \<and> (locked m \<longleftrightarrow> H \<noteq> {}) \<and> (mutex_wait_queue m \<noteq> [] \<longrightarrow> locked m) \<and>
    distinct (mutex_wait_queue m) \<and> H \<inter> set (mutex_wait_queue m) = {}"
proof -
  have "mutex_wf m \<and> finite H \<and> card H + mutex_permits m = mutex_permits mutex_new \<and>
      distinct (mutex_wait_queue m) \<and> H \<inter> set (mutex_wait_queue m) = {}"
    using mutex.wq_run_invariant [OF assms] by (simp add: mutex_new_def mutex_wf_def)
  then show ?thesis
    by (auto simp: mutex_wf_def mutex_permits_def mutex_new_def split: if_splits)
qed

lemma mutex_sample_run:
  "wq_run mutex_lock mutex_unlock mutex_wait_queue (\<lambda>_ _. True) mutex_new
     \<lparr>locked = True, mutex_wait_queue = []\<rparr> {2}"
proof -
  let ?run = "wq_run mutex_lock mutex_unlock mutex_wait_queue (\<lambda>_ _. True) mutex_new"
  have r0: "?run mutex_new {}" by (rule wq_init)
  have "mutex_lock 1 mutex_new = Inr (True, \<lparr>locked = True, mutex_wait_queue = []\<rparr>)"
    by (simp add: mutex_lock_def mutex_new_def)
  from wq_acquire [OF r0 _ _ _ this] have r1: "?run \<lparr>locked = True, mutex_wait_queue = []\<rparr> {1}"
    by (simp add: mutex_new_def)
  have "mutex_lock 2 \<lparr>locked = True, mutex_wait_queue = []\<rparr> = Inr (False, \<lparr>locked = True, mutex_wait_queue = [2]\<rparr>)"
    by (simp add: mutex_lock_def)
  from wq_acquire [OF r1 _ _ _ this] have r2: "?run \<lparr>locked = True, mutex_wait_queue = [2]\<rparr> {1}" by simp
  have "mutex_unlock \<lparr>locked = True, mutex_wait_queue = [2]\<rparr> = Inr (Some 2, \<lparr>locked = True, mutex_wait_queue = []\<rparr>)"
    by (simp add: mutex_unlock_def)
  from wq_release [OF r2 _ _ this, of 1] show ?thesis by simp
qed

theorem mutex_mutual_exclusion_witness:
  "card {2 :: nat} \<le> 1 \<and> locked \<lparr>locked = True, mutex_wait_queue = []\<rparr>"
  using mutex_mutual_exclusion [OF mutex_sample_run] by simp

text \<open>
  C15. Conservation of the permits of a semaphore created with \<open>c\<close> permits and used as a counted resource:
  the threads that hold a permit and the positive part of the count always add up to \<open>c\<close>, and a
  negative count is the number of waiting threads.
\<close>

theorem semaphore_capacity:
  assumes "c < 2 ^ 63" "wq_run semaphore_down semaphore_up sem_wait_queue sem_room (semaphore_new c) s H"
  shows "card H + nat (sem_count s) = c \<and> int (length (sem_wait_queue s)) = max 0 (- sem_count s) \<and>
    distinct (sem_wait_queue s) \<and> H \<inter> set (sem_wait_queue s) = {}"
  using sem.wq_run_invariant [OF assms(2)] assms(1)
  by (simp add: sem_wf_def sem_permits_def semaphore_new_def)

lemma semaphore_sample_run:
  "wq_run semaphore_down semaphore_up sem_wait_queue sem_room (semaphore_new 3)
     \<lparr>sem_count = 2, sem_wait_queue = []\<rparr> {7}"
proof -
  have r0: "wq_run semaphore_down semaphore_up sem_wait_queue sem_room (semaphore_new 3) (semaphore_new 3) {}"
    by (rule wq_init)
  have "semaphore_down 7 (semaphore_new 3) = Inr (True, \<lparr>sem_count = 2, sem_wait_queue = []\<rparr>)"
    by (simp add: semaphore_down_def semaphore_new_def in_isize_def)
  from wq_acquire [OF r0 _ _ _ this] show ?thesis
    by (simp add: sem_room_def semaphore_new_def)
qed

theorem semaphore_capacity_witness:
  "card {7 :: nat} + nat (sem_count \<lparr>sem_count = 2, sem_wait_queue = []\<rparr>) = 3"
  using semaphore_capacity [OF _ semaphore_sample_run] by simp

text \<open>
  C16. First come, first served: threads that find a mutex locked, or a semaphore without permits, are
  woken by the following unlocks (ups) in the order of their calls, and each of them is woken.
\<close>

theorem wake_order_fifo:
  "(\<exists>m1 m2. acquire_all mutex_lock ts \<lparr>locked = True, mutex_wait_queue = []\<rparr> = Inr m1 \<and>
      release_times mutex_unlock (length ts) m1 = Inr (map Some ts, m2) \<and> mutex_wait_queue m2 = []) \<and>
   (if int (length ts) < 2 ^ 62
    then \<exists>s1 s2. acquire_all semaphore_down ts (semaphore_new 0) = Inr s1 \<and>
      release_times semaphore_up (length ts) s1 = Inr (map Some ts, s2) \<and> sem_wait_queue s2 = []
    else True)"
proof -
  have "\<exists>m1 m2. acquire_all mutex_lock ts \<lparr>locked = True, mutex_wait_queue = []\<rparr> = Inr m1 \<and>
      mutex_wait_queue m1 = ts \<and>
      release_times mutex_unlock (length ts) m1 = Inr (map Some ts, m2) \<and> mutex_wait_queue m2 = []"
    by (rule mutex.fifo_wake_order) (simp_all add: mutex_wf_def mutex_permits_def)
  moreover have "\<exists>s1 s2. acquire_all semaphore_down ts (semaphore_new 0) = Inr s1 \<and> sem_wait_queue s1 = ts \<and>
      release_times semaphore_up (length ts) s1 = Inr (map Some ts, s2) \<and> sem_wait_queue s2 = []"
    if "int (length ts) < 2 ^ 62"
    using that by (intro sem.fifo_wake_order)
      (simp_all add: sem_wf_def sem_permits_def sem_room_def semaphore_new_def usize_as_isize_def)
  ultimately show ?thesis by auto
qed


text \<open>
  The count of a new semaphore fits its queue exactly for counts below \<open>2 ^ 63\<close>; a larger count
  becomes negative, so that the semaphore starts without permits and with nobody waiting.
\<close>

theorem semaphore_new_count:
  assumes "c < usize_bound"
  shows "(sem_wf (semaphore_new c) \<longleftrightarrow> c < 2 ^ 63) \<and> (sem_count (semaphore_new c) < 0 \<longleftrightarrow> 2 ^ 63 \<le> c)"
  using assms by (auto simp: sem_wf_def semaphore_new_def usize_as_isize_def)

theorem semaphore_new_count_witness:
  "sem_count (semaphore_new (2 ^ 63)) < 0 \<and> \<not> sem_wf (semaphore_new (2 ^ 63))"
  using semaphore_new_count [of "2 ^ 63"] by simp

text \<open>
  A session on a cell that nobody borrows runs its function on the value with interrupts off, and
  leaves the cell free, the nesting level as it was and the interrupt enable as it was, provided
  interrupts are off inside a session.
\<close>

lemma exclusive_session_transparent:
  assumes "\<not> cell_borrowed c" "nested_level s + 1 < usize_bound" "0 < nested_level s \<longrightarrow> \<not> sie s"
  shows "\<exists>s'. exclusive_session f c s =
      bind_res (f (cell_value c)) (\<lambda>(v, x). Inr (v, c\<lparr>cell_value := x\<rparr>, s')) \<and>
    sie s' = sie s \<and> nested_level s' = nested_level s \<and>
    (\<forall>s1. intr_enter s = Inr s1 \<longrightarrow> \<not> sie s1)"
  using assms
  by (auto simp: exclusive_session_def exclusive_access_def drop_ref_mut_def intr_enter_def intr_exit_def
      bind_res_def Let_def split: sum.split prod.split)

lemma exclusive_session_transparent_witness:
  "\<exists>s'. exclusive_session (mutex_lock 7) (up_cell_new mutex_new)
      \<lparr>sie = True, nested_level = 0, sie_before_masking = False\<rparr> =
    Inr (True, up_cell_new \<lparr>locked = True, mutex_wait_queue = []\<rparr>, s') \<and> sie s' \<and> nested_level s' = 0"
  using exclusive_session_transparent [of "up_cell_new mutex_new"
      "\<lparr>sie = True, nested_level = 0, sie_before_masking = False\<rparr>" "mutex_lock 7"]
  by (auto simp: up_cell_new_def mutex_lock_def mutex_new_def)

end
