(* ===== verification/Thread_Kernel.thy ===== *)
theory Thread_Kernel
  imports Thread_Manager Sync_Primitives Descriptors
begin

text \<open>
  The kernel of chapter 8: threads and processes (\<^verbatim>\<open>ch8/src/process.rs\<close>), the system calls for threads, synchronisation, signals and pipes and the main loop with blocking
  (\<^verbatim>\<open>ch8/src/main.rs\<close>).

  The file system is the argument \<open>file_layer\<close> of \<open>Descriptors\<close>. A reference into a table of the processor is the entry of its key.
\<close>

section \<open>State\<close>

record thread =
  thread_tid :: nat
  thread_context :: foreign_context

record 'f process8 =
  p8_pid :: nat
  p8_space :: "('f, unit) user_space"
  p8_fds :: "fd option list"
  p8_signal :: signal_impl
  semaphore_list :: "semaphore option list"
  mutex_list :: "mutex_blocking option list"
  condvar_list :: "condvar option list"

record ('f, 'h, 's) kernel8 =
  processor8 :: "(thread, 'f process8) processor"
  next_pid8 :: nat
  next_tid8 :: nat
  machine8 :: "'h machine"
  out8 :: "byte list"
  in8 :: "byte list"
  time8 :: nat
  pipes8 :: "pipe_ring_buffer list"
  store8 :: 's

type_synonym ('f, 'h, 's) call8 = "('f, 'h, 's) kernel8 \<Rightarrow> (int \<times> ('f, 'h, 's) kernel8) run"

text \<open>The current thread and its process, and writing back what the code changes through a reference to them.\<close>

definition k8_thread :: "('f, 'h, 's) kernel8 \<Rightarrow> thread res" where
  "k8_thread k = bind_res (ptm_current fifo_ops (processor8 k)) unwrap"

definition k8_proc :: "('f, 'h, 's) kernel8 \<Rightarrow> 'f process8 res" where
  "k8_proc k = bind_res (ptm_get_current_proc proc_table_ops (processor8 k)) unwrap"

definition put_task :: "nat \<Rightarrow> thread \<Rightarrow> ('f, 'h, 's) kernel8 \<Rightarrow> ('f, 'h, 's) kernel8 res" where
  "put_task i t k =
     bind_res (unwrap (pt_manager (processor8 k))) (\<lambda>m.
       Inr (k\<lparr>processor8 := (processor8 k)\<lparr>pt_manager := Some (op_set fifo_ops i t m)\<rparr>\<rparr>))"

definition put_proc_at :: "nat \<Rightarrow> 'f process8 \<Rightarrow> ('f, 'h, 's) kernel8 \<Rightarrow> ('f, 'h, 's) kernel8 res" where
  "put_proc_at pid p k =
     bind_res (unwrap (proc_manager (processor8 k))) (\<lambda>m.
       Inr (k\<lparr>processor8 := (processor8 k)\<lparr>proc_manager := Some (op_set proc_table_ops pid p m)\<rparr>\<rparr>))"

definition put_thread :: "thread \<Rightarrow> ('f, 'h, 's) kernel8 \<Rightarrow> ('f, 'h, 's) kernel8 res" where
  "put_thread t k = bind_res (unwrap (pt_current (processor8 k))) (\<lambda>i. put_task i t k)"

definition put_proc :: "'f process8 \<Rightarrow> ('f, 'h, 's) kernel8 \<Rightarrow> ('f, 'h, 's) kernel8 res" where
  "put_proc p k =
     bind_res (unwrap (pt_current (processor8 k))) (\<lambda>i.
     bind_res (unwrap (tid2pid (processor8 k) i)) (\<lambda>pid. put_proc_at pid p k))"

definition translate8 :: "('f, unit, 'h) kernel_env \<Rightarrow> string \<Rightarrow> nat \<Rightarrow> 'f process8 \<Rightarrow> nat option res" where
  "translate8 env flags addr p =
     bind_res (unwrap (env_parse_flags (ke_vm env) flags)) (\<lambda>f.
       Inr (translate (ke_vm env) addr f (us_space (p8_space p))))"

definition put_user8 :: "nat \<Rightarrow> byte list \<Rightarrow> ('f, 'h, 's) kernel8 \<Rightarrow> ('f, 'h, 's) kernel8" where
  "put_user8 pa bytes k = k\<lparr>machine8 := (machine8 k)\<lparr>frames := write_phys pa bytes (frames (machine8 k))\<rparr>\<rparr>"

definition get_user8 :: "nat \<Rightarrow> nat \<Rightarrow> ('f, 'h, 's) kernel8 \<Rightarrow> byte list" where
  "get_user8 pa cnt k = read_phys pa cnt (frames (machine8 k))"

definition with_store8 :: "('s, 'a) io \<Rightarrow> ('a \<Rightarrow> ('f, 'h, 's) kernel8 \<Rightarrow> 'b run) \<Rightarrow> ('f, 'h, 's) kernel8 \<Rightarrow> 'b run" where
  "with_store8 m f k = bind_run (Some (m (store8 k))) (\<lambda>(a, s). f a (k\<lparr>store8 := s\<rparr>))"

section \<open>Processes and threads\<close>

definition thread_new :: "nat \<Rightarrow> local_context \<Rightarrow> ('f, 'h, 's) kernel8 \<Rightarrow> thread \<times> ('f, 'h, 's) kernel8" where
  "thread_new satp ctx k =
     (let (t, tid') = thread_id_new (next_tid8 k)
      in (\<lparr>thread_tid = t, thread_context = \<lparr>fc_context = ctx, fc_satp = satp\<rparr>\<rparr>, k\<lparr>next_tid8 := tid'\<rparr>))"

definition from_elf8 ::
  "('f, unit, 'h) kernel_env \<Rightarrow> elf_file \<Rightarrow> ('f, 'h, 's) kernel8 \<Rightarrow> (('f process8 \<times> thread) option \<times> ('f, 'h, 's) kernel8) run" where
  "from_elf8 env elf k =
     (if \<not> (elf_header64 elf \<and> elf_executable elf \<and> elf_riscv elf) then Some (Inr (None, k))
      else
        bind_run (user_space_new env () (machine8 k)) (\<lambda>(us, mc1).
        bind_run (load_segments (ke_vm env) (elf_input elf) (elf_segments elf) 0 (us_space us, mc1)) (\<lambda>(_, sp, mc2).
          case env_alloc (ke_vm env) 2 (heap mc2) of
            None \<Rightarrow> Some (Inl OutOfMemory)
          | Some (stack, h) \<Rightarrow>
              run_res (unwrap (env_parse_flags (ke_vm env) ''U_WRV'')) (\<lambda>flags.
              bind_run (map_extern (ke_vm env) (2 ^ 26 - 2, 2 ^ 26) stack flags
                  (sp, mc2\<lparr>heap := h, frames := write_pages stack (replicate (2 * PAGE_SIZE) 0) (frames mc2)\<rparr>)) (\<lambda>(sp', mc3).
              run_res (lc_set_sp (2 ^ 38) (lc_user (elf_entry elf))) (\<lambda>ctx.
                let (thread, k1) = thread_new (satp_of (us_root us)) ctx (k\<lparr>machine8 := mc3\<rparr>);
                    (i, pid') = proc_id_new (next_pid8 k1)
                in Some (Inr (Some (\<lparr>p8_pid = i, p8_space = map_portal env (us\<lparr>us_space := sp'\<rparr>), p8_fds = std_fds,
                     p8_signal = signal_impl_new, semaphore_list = [], mutex_list = [], condvar_list = []\<rparr>, thread),
                     k1\<lparr>next_pid8 := pid'\<rparr>))))))))"

text \<open>The first thread of a process, whose context \<^verbatim>\<open>exec\<close> replaces and \<^verbatim>\<open>fork\<close> copies.\<close>

definition main_thread :: "nat \<Rightarrow> ('f, 'h, 's) kernel8 \<Rightarrow> (nat \<times> thread) res" where
  "main_thread pid k =
     bind_res (unwrap (ptm_get_thread pid (processor8 k))) (\<lambda>pthreads.
     bind_res (index_res pthreads 0) (\<lambda>t.
     bind_res (ptm_get_task fifo_ops t (processor8 k)) (\<lambda>r.
     bind_res (unwrap r) (\<lambda>thread. Inr (t, thread)))))"

definition exec8 :: "('f, unit, 'h) kernel_env \<Rightarrow> elf_file \<Rightarrow> 'f process8 \<Rightarrow> ('f, 'h, 's) kernel8 \<Rightarrow> ('f, 'h, 's) kernel8 run" where
  "exec8 env elf p k =
     bind_run (from_elf8 env elf k) (\<lambda>(r, k1).
     run_res (unwrap r) (\<lambda>(proc, thread).
     run_res (put_proc (p\<lparr>p8_space := p8_space proc\<rparr>) k1) (\<lambda>k2.
     run_res (main_thread (p8_pid p) k2) (\<lambda>(t, main).
       Some (put_task t (main\<lparr>thread_context := thread_context thread\<rparr>) k2)))))"

definition fork8 ::
  "('f, unit, 'h) kernel_env \<Rightarrow> 'f process8 \<Rightarrow> ('f, 'h, 's) kernel8 \<Rightarrow> (('f process8 \<times> thread) \<times> ('f, 'h, 's) kernel8) run" where
  "fork8 env p k =
     (let (i, pid') = proc_id_new (next_pid8 k); k1 = k\<lparr>next_pid8 := pid'\<rparr>
      in bind_run (user_space_new env () (machine8 k1)) (\<lambda>(us, mc1).
         bind_run (cloneself (ke_vm env) (us_space (p8_space p)) (us_space us, mc1)) (\<lambda>(sp, mc2).
         run_res (main_thread (p8_pid p) k1) (\<lambda>(_, main).
           let (thread, k2) = thread_new (satp_of (us_root us)) (fc_context (thread_context main)) (k1\<lparr>machine8 := mc2\<rparr>)
           in Some (Inr ((\<lparr>p8_pid = i, p8_space = map_portal env (us\<lparr>us_space := sp\<rparr>), p8_fds = p8_fds p,
                p8_signal = from_fork (p8_signal p), semaphore_list = [], mutex_list = [], condvar_list = []\<rparr>, thread),
                k2\<lparr>pipes8 := clone_fds (p8_fds p) (pipes8 k2)\<rparr>))))))"

section \<open>File system calls\<close>

definition sys8_write :: "('f, unit, 'h) kernel_env \<Rightarrow> 's file_layer \<Rightarrow> nat \<Rightarrow> nat \<Rightarrow> nat \<Rightarrow> ('f, 'h, 's) call8" where
  "sys8_write env L fd buf cnt k =
     run_res (k8_proc k) (\<lambda>current.
     run_res (translate8 env ''RV'' buf current) (\<lambda>ptr.
       case ptr of
         None \<Rightarrow> Some (Inr (- 1, k))
       | Some pa \<Rightarrow>
           if fd = 1 \<or> fd = 2 then Some (Inr (usize_as_isize cnt, k\<lparr>out8 := out8 k @ get_user8 pa cnt k\<rparr>))
           else run_res (index_res (p8_fds current) fd) (\<lambda>entry.
             case entry of
               None \<Rightarrow> Some (Inr (- 1, k))
             | Some file \<Rightarrow>
                 if fd_writable file
                 then with_store8 (fd_write L file [get_user8 pa cnt k] (pipes8 k)) (\<lambda>(n, file', rings) k1.
                      run_res (put_proc (current\<lparr>p8_fds := (p8_fds current)[fd := Some file']\<rparr>) (k1\<lparr>pipes8 := rings\<rparr>)) (\<lambda>k2.
                        Some (Inr (n, k2)))) k
                 else Some (Inr (- 1, k)))))"

definition sys8_read :: "('f, unit, 'h) kernel_env \<Rightarrow> 's file_layer \<Rightarrow> nat \<Rightarrow> nat \<Rightarrow> nat \<Rightarrow> ('f, 'h, 's) call8" where
  "sys8_read env L fd buf cnt k =
     run_res (k8_proc k) (\<lambda>current.
     run_res (translate8 env ''W_V'' buf current) (\<lambda>ptr.
       case ptr of
         None \<Rightarrow> Some (Inr (- 1, k))
       | Some pa \<Rightarrow>
           if fd = 0 then
             if length (in8 k) < cnt then None
             else Some (Inr (usize_as_isize cnt, put_user8 pa (take cnt (in8 k)) (k\<lparr>in8 := drop cnt (in8 k)\<rparr>)))
           else run_res (index_res (p8_fds current) fd) (\<lambda>entry.
             case entry of
               None \<Rightarrow> Some (Inr (- 1, k))
             | Some file \<Rightarrow>
                 if fd_readable file
                 then with_store8 (fd_read L file [get_user8 pa cnt k] (pipes8 k)) (\<lambda>(n, file', slices, rings) k1.
                      run_res (put_proc (current\<lparr>p8_fds := (p8_fds current)[fd := Some file']\<rparr>) (k1\<lparr>pipes8 := rings\<rparr>)) (\<lambda>k2.
                        Some (Inr (n, put_user8 pa (concat slices) k2)))) k
                 else Some (Inr (- 1, k)))))"

definition sys8_open :: "('f, unit, 'h) kernel_env \<Rightarrow> 's file_layer \<Rightarrow> nat \<Rightarrow> nat \<Rightarrow> ('f, 'h, 's) call8" where
  "sys8_open env L path flags k =
     run_res (k8_proc k) (\<lambda>current.
     run_res (translate8 env ''RV'' path current) (\<lambda>ptr.
       case ptr of
         None \<Rightarrow> Some (Inr (- 1, k))
       | Some pa \<Rightarrow>
           bind_run (map_option Inr (get_str (frames (machine8 k)) pa [])) (\<lambda>string.
           run_res (unwrap (open_flags_of flags)) (\<lambda>f.
           with_store8 (fl_open L string f) (\<lambda>r k1.
             case r of
               None \<Rightarrow> Some (Inr (- 1, k1))
             | Some file_handle \<Rightarrow>
                 let new_fd = length (p8_fds current) in
                 run_res (put_proc (current\<lparr>p8_fds := p8_fds current @ [Some (FdFile file_handle)]\<rparr>) k1) (\<lambda>k2.
                   Some (Inr (usize_as_isize new_fd, k2)))) k))))"

definition sys8_close :: "nat \<Rightarrow> ('f, 'h, 's) call8" where
  "sys8_close fd k =
     run_res (k8_proc k) (\<lambda>current.
       if length (p8_fds current) \<le> fd \<or> p8_fds current ! fd = None then Some (Inr (- 1, k))
       else run_res (put_proc (current\<lparr>p8_fds := (p8_fds current)[fd := None]\<rparr>)
              (k\<lparr>pipes8 := drop_fds [p8_fds current ! fd] (pipes8 k)\<rparr>)) (\<lambda>k1. Some (Inr (0, k1))))"

text \<open>The two numbers are stored before the descriptors are pushed; a pipe that cannot be handed out is dropped.\<close>

definition sys8_pipe :: "('f, unit, 'h) kernel_env \<Rightarrow> nat \<Rightarrow> ('f, 'h, 's) call8" where
  "sys8_pipe env pipe k =
     run_res (k8_proc k) (\<lambda>current.
     let i = length (pipes8 k); read_fd = length (p8_fds current); write_fd = read_fd + 1 in
     run_res (translate8 env ''W_V'' pipe current) (\<lambda>ptr.
       case ptr of
         None \<Rightarrow> Some (Inr (- 1, k))
       | Some pa \<Rightarrow>
           let k1 = put_user8 pa (le_bytes 8 read_fd) k in
           run_res (add_res usize_bound pipe 8) (\<lambda>addr.
           run_res (translate8 env ''W_V'' addr current) (\<lambda>ptr'.
             case ptr' of
               None \<Rightarrow> Some (Inr (- 1, k1))
             | Some pa' \<Rightarrow>
                 run_res (put_proc (current\<lparr>p8_fds := p8_fds current @ [Some (FdPipeRead i), Some (FdPipeWrite i)]\<rparr>)
                     ((put_user8 pa' (le_bytes 8 write_fd) k1)\<lparr>pipes8 := pipes8 k @ [make_pipe]\<rparr>)) (\<lambda>k2.
                   Some (Inr (0, k2)))))))"

section \<open>Process calls\<close>

definition sys8_fork :: "('f, unit, 'h) kernel_env \<Rightarrow> ('f, 'h, 's) call8" where
  "sys8_fork env k =
     run_res (k8_proc k) (\<lambda>current_proc.
     bind_run (fork8 env current_proc k) (\<lambda>((proc, thread), k1).
     run_res (lc_set_a 0 0 (fc_context (thread_context thread))) (\<lambda>ctx.
     run_res (ptm_add_proc proc_table_ops (p8_pid proc) proc (p8_pid current_proc) (processor8 k1)) (\<lambda>pm1.
     run_res (ptm_add fifo_ops (thread_tid thread)
         (thread\<lparr>thread_context := (thread_context thread)\<lparr>fc_context := ctx\<rparr>\<rparr>) (p8_pid proc) pm1) (\<lambda>pm2.
       Some (Inr (usize_as_isize (p8_pid proc), k1\<lparr>processor8 := pm2\<rparr>)))))))"

definition print_apps8 :: "byte list list \<Rightarrow> ('f, 'h, 's) kernel8 \<Rightarrow> ('f, 'h, 's) kernel8" where
  "print_apps8 names k = k\<lparr>out8 := out8 k @ concat (map (\<lambda>app. app @ [10]) names) @ [10]\<rparr>"

definition sys8_exec :: "('f, unit, 'h) kernel_env \<Rightarrow> 's file_layer \<Rightarrow> nat \<Rightarrow> nat \<Rightarrow> ('f, 'h, 's) call8" where
  "sys8_exec env L path cnt k =
     run_res (k8_proc k) (\<lambda>current.
     run_res (translate8 env ''RV'' path current) (\<lambda>ptr.
     with_store8 (case ptr of None \<Rightarrow> return_io None | Some pa \<Rightarrow> fl_open L (get_user8 pa cnt k) 0) (\<lambda>opened k1.
       case opened of
         None \<Rightarrow>
           with_store8 (fl_readdir L) (\<lambda>names k2.
           run_res (unwrap names) (\<lambda>apps. Some (Inr (- 1, print_apps8 apps k2)))) k1
       | Some fd \<Rightarrow>
           bind_run (fl_read_all L fd (store8 k1)) (\<lambda>(elf_data, s).
           run_res (unwrap (ke_elf env elf_data)) (\<lambda>elf.
           bind_run (exec8 env elf current (k1\<lparr>store8 := s\<rparr>)) (\<lambda>k2. Some (Inr (0, k2)))))) k))"

definition sys8_wait :: "('f, unit, 'h) kernel_env \<Rightarrow> int \<Rightarrow> nat \<Rightarrow> ('f, 'h, 's) call8" where
  "sys8_wait env pid exit_code_ptr k =
     run_res (k8_proc k) (\<lambda>current.
     run_res (ptm_wait (isize_as_usize pid) (processor8 k)) (\<lambda>(r, pm).
       let k1 = k\<lparr>processor8 := pm\<rparr>
       in case r of
            None \<Rightarrow> Some (Inr (- 1, k1))
          | Some (dead_pid, exit_code) \<Rightarrow>
              run_res (translate8 env ''W_V'' exit_code_ptr current) (\<lambda>ptr.
                Some (Inr (usize_as_isize dead_pid,
                  case ptr of None \<Rightarrow> k1 | Some pa \<Rightarrow> put_user8 pa (le_bytes 4 (i32_bits (int_as_i32 exit_code))) k1)))))"

definition sys8_getpid :: "('f, 'h, 's) call8" where
  "sys8_getpid k = run_res (k8_proc k) (\<lambda>p. Some (Inr (usize_as_isize (p8_pid p), k)))"

definition clock_gettime8 :: "('f, unit, 'h) kernel_env \<Rightarrow> nat \<Rightarrow> nat \<Rightarrow> ('f, 'h, 's) call8" where
  "clock_gettime8 env clock_id tp k =
     (if clock_id = 1 then
        run_res (k8_proc k) (\<lambda>p.
        run_res (translate8 env ''W_V'' tp p) (\<lambda>ptr.
          case ptr of
            None \<Rightarrow> Some (Inr (- 1, k))
          | Some pa \<Rightarrow>
              if usize_bound \<le> time8 k * 10000 then Some (Inl ArithOverflow)
              else let time = time8 k * 10000 div 125
                   in Some (Inr (0, put_user8 pa (le_bytes 8 (time div 1000000000) @ le_bytes 8 (time mod 1000000000)) k))))
      else Some (Inr (- 1, k)))"

section \<open>Signal calls\<close>

definition sys8_kill :: "int \<Rightarrow> nat \<Rightarrow> ('f, 'h, 's) call8" where
  "sys8_kill pid signum k =
     run_res (ptm_get_proc proc_table_ops (isize_as_usize pid) (processor8 k)) (\<lambda>target.
       case target of
         None \<Rightarrow> Some (Inr (- 1, k))
       | Some target_task \<Rightarrow>
           (case signal_no_try_from signum of
              None \<Rightarrow> Some (Inr (- 1, k))
            | Some signal_no \<Rightarrow>
                if signal_no \<noteq> SIG_ERR
                then run_res (put_proc_at (isize_as_usize pid)
                       (target_task\<lparr>p8_signal := add_signal signal_no (p8_signal target_task)\<rparr>) k) (\<lambda>k1. Some (Inr (0, k1)))
                else Some (Inr (- 1, k))))"

text \<open>The two halves of \<^verbatim>\<open>sigaction\<close>: handing out the old action and setting the new one; \<^verbatim>\<open>None\<close> is the early return of -1.\<close>

definition give_old_action ::
  "('f, unit, 'h) kernel_env \<Rightarrow> nat \<Rightarrow> nat \<Rightarrow> 'f process8 \<Rightarrow> ('f, 'h, 's) kernel8 \<Rightarrow> ('f, 'h, 's) kernel8 option res" where
  "give_old_action env signal_no old_action p k =
     (if old_action = 0 then Inr (Some k)
      else bind_res (translate8 env ''W_V'' old_action p) (\<lambda>ptr.
        case ptr of
          None \<Rightarrow> Inr None
        | Some pa \<Rightarrow>
            bind_res (get_action_ref signal_no (p8_signal p)) (\<lambda>r.
              Inr (map_option (\<lambda>a. put_user8 pa (action_bytes a) k) r))))"

definition take_new_action ::
  "('f, unit, 'h) kernel_env \<Rightarrow> nat \<Rightarrow> nat \<Rightarrow> 'f process8 \<Rightarrow> ('f, 'h, 's) kernel8 \<Rightarrow> ('f, 'h, 's) kernel8 option res" where
  "take_new_action env signal_no action p k =
     (if action = 0 then Inr (Some k)
      else bind_res (translate8 env ''RV'' action p) (\<lambda>ptr.
        case ptr of
          None \<Rightarrow> Inr None
        | Some pa \<Rightarrow>
            bind_res (set_action signal_no (action_of (get_user8 pa 16 k)) (p8_signal p)) (\<lambda>(b, sg).
            bind_res (put_proc (p\<lparr>p8_signal := sg\<rparr>) k) (\<lambda>k1. Inr (if b then Some k1 else None)))))"

definition sys8_sigaction :: "('f, unit, 'h) kernel_env \<Rightarrow> nat \<Rightarrow> nat \<Rightarrow> nat \<Rightarrow> ('f, 'h, 's) call8" where
  "sys8_sigaction env signum action old_action k =
     (if MAX_SIG < signum then Some (Inr (- 1, k))
      else
        run_res (k8_proc k) (\<lambda>current.
          case signal_no_try_from signum of
            None \<Rightarrow> Some (Inr (- 1, k))
          | Some signal_no \<Rightarrow>
              if signal_no = SIG_ERR then Some (Inr (- 1, k))
              else run_res (give_old_action env signal_no old_action current k) (\<lambda>r.
                case r of
                  None \<Rightarrow> Some (Inr (- 1, k))
                | Some k1 \<Rightarrow>
                    run_res (take_new_action env signal_no action current k1) (\<lambda>r'.
                      case r' of None \<Rightarrow> Some (Inr (- 1, k1)) | Some k2 \<Rightarrow> Some (Inr (0, k2))))))"

definition sys8_sigprocmask :: "nat \<Rightarrow> ('f, 'h, 's) call8" where
  "sys8_sigprocmask msk k =
     run_res (k8_proc k) (\<lambda>current.
       let (old, sg) = update_mask msk (p8_signal current)
       in run_res (put_proc (current\<lparr>p8_signal := sg\<rparr>) k) (\<lambda>k1. Some (Inr (usize_as_isize old, k1))))"

definition sys8_sigreturn :: "('f, 'h, 's) call8" where
  "sys8_sigreturn k =
     run_res (k8_proc k) (\<lambda>current.
     run_res (k8_thread k) (\<lambda>current_thread.
       let (b, sg, ctx) = sig_return (p8_signal current) (fc_context (thread_context current_thread))
       in run_res (put_proc (current\<lparr>p8_signal := sg\<rparr>) k) (\<lambda>k1.
          run_res (put_thread (current_thread\<lparr>thread_context := (thread_context current_thread)\<lparr>fc_context := ctx\<rparr>\<rparr>) k1) (\<lambda>k2.
            Some (Inr (if b then 0 else - 1, k2))))))"

section \<open>Thread calls\<close>

text \<open>
  The root entry of an index is valid when its table holds a page. The search for the stack of a new thread goes down from the top in
  steps of three pages until it finds an invalid root entry.
\<close>

definition root_valid :: "nat \<Rightarrow> 'f Vm_Space.address_space \<Rightarrow> bool" where
  "root_valid idx sp \<longleftrightarrow> (\<exists>v\<in>set [idx * 2 ^ 18..<(idx + 1) * 2 ^ 18]. ptable sp v \<noteq> None)"

function find_stack :: "'f Vm_Space.address_space \<Rightarrow> nat \<Rightarrow> nat res" where
  "find_stack sp vpn =
     (if \<not> root_valid (vpn div 2 ^ 18 mod 512) sp then Inr vpn
      else if vpn < 3 then Inl ArithOverflow
      else find_stack sp (vpn - 3))"
  by pat_completeness auto
termination by (relation "measure snd") auto

declare find_stack.simps [simp del]

definition sys8_thread_create :: "('f, unit, 'h) kernel_env \<Rightarrow> nat \<Rightarrow> nat \<Rightarrow> ('f, 'h, 's) call8" where
  "sys8_thread_create env entry arg k =
     run_res (k8_proc k) (\<lambda>current_proc.
     let us = p8_space current_proc in
     run_res (find_stack (us_space us) (2 ^ 26 - 2)) (\<lambda>vpn.
       case env_alloc (ke_vm env) 2 (heap (machine8 k)) of
         None \<Rightarrow> Some (Inl OutOfMemory)
       | Some (stack, h) \<Rightarrow>
           run_res (unwrap (env_parse_flags (ke_vm env) ''U_WRV'')) (\<lambda>flags.
           bind_run (map_extern (ke_vm env) (vpn, vpn + 2) stack flags
               (us_space us, (machine8 k)\<lparr>heap := h,
                 frames := write_pages stack (replicate (2 * PAGE_SIZE) 0) (frames (machine8 k))\<rparr>)) (\<lambda>(sp, mc).
           run_res (put_proc (current_proc\<lparr>p8_space := us\<lparr>us_space := sp\<rparr>\<rparr>) (k\<lparr>machine8 := mc\<rparr>)) (\<lambda>k1.
           run_res (lc_set_sp ((vpn + 2) * PAGE_SIZE) (lc_user entry)) (\<lambda>ctx1.
           run_res (lc_set_a 0 arg ctx1) (\<lambda>ctx.
             let (thread, k2) = thread_new (satp_of (us_root us)) ctx k1
             in run_res (ptm_add fifo_ops (thread_tid thread) thread (p8_pid current_proc) (processor8 k2)) (\<lambda>pm.
                  Some (Inr (usize_as_isize (thread_tid thread), k2\<lparr>processor8 := pm\<rparr>)))))))))) "

definition sys8_gettid :: "('f, 'h, 's) call8" where
  "sys8_gettid k = run_res (k8_thread k) (\<lambda>t. Some (Inr (usize_as_isize (thread_tid t), k)))"

definition sys8_waittid :: "nat \<Rightarrow> ('f, 'h, 's) call8" where
  "sys8_waittid tid k =
     run_res (k8_thread k) (\<lambda>current_thread.
       if tid = thread_tid current_thread then Some (Inr (- 1, k))
       else run_res (ptm_waittid tid (processor8 k)) (\<lambda>(r, pm).
              Some (Inr (case r of Some exit_code \<Rightarrow> exit_code | None \<Rightarrow> - 1, k\<lparr>processor8 := pm\<rparr>))))"

section \<open>Synchronisation calls\<close>

text \<open>A new object goes into the first free slot of its list, and is found through its number.\<close>

definition place :: "'a option \<Rightarrow> 'a option list \<Rightarrow> nat \<times> 'a option list" where
  "place x xs = (case find_index (\<lambda>item. item = None) xs of Some i \<Rightarrow> (i, xs[i := x]) | None \<Rightarrow> (length xs, xs @ [x]))"

definition slot :: "nat \<Rightarrow> 'a option list \<Rightarrow> 'a res" where
  "slot i xs = bind_res (index_res xs i) unwrap"

text \<open>\<^verbatim>\<open>re_enque\<close> of the thread that an operation has woken, if any.\<close>

definition wake :: "nat option \<Rightarrow> ('f, 'h, 's) kernel8 \<Rightarrow> ('f, 'h, 's) kernel8 res" where
  "wake w k =
     (case w of
        None \<Rightarrow> Inr k
      | Some tid \<Rightarrow> bind_res (ptm_re_enque fifo_ops tid (processor8 k)) (\<lambda>pm. Inr (k\<lparr>processor8 := pm\<rparr>)))"

definition sys8_semaphore_create :: "nat \<Rightarrow> ('f, 'h, 's) call8" where
  "sys8_semaphore_create res_count k =
     run_res (k8_proc k) (\<lambda>p.
       let (i, xs) = place (Some (semaphore_new res_count)) (semaphore_list p)
       in run_res (put_proc (p\<lparr>semaphore_list := xs\<rparr>) k) (\<lambda>k1. Some (Inr (usize_as_isize i, k1))))"

definition sys8_semaphore_up :: "nat \<Rightarrow> ('f, 'h, 's) call8" where
  "sys8_semaphore_up sem_id k =
     run_res (k8_proc k) (\<lambda>p.
     run_res (slot sem_id (semaphore_list p)) (\<lambda>sem.
     run_res (semaphore_up sem) (\<lambda>(w, sem').
     run_res (put_proc (p\<lparr>semaphore_list := (semaphore_list p)[sem_id := Some sem']\<rparr>) k) (\<lambda>k1.
     run_res (wake w k1) (\<lambda>k2. Some (Inr (0, k2)))))))"

definition sys8_semaphore_down :: "nat \<Rightarrow> ('f, 'h, 's) call8" where
  "sys8_semaphore_down sem_id k =
     run_res (k8_thread k) (\<lambda>t.
     run_res (k8_proc k) (\<lambda>p.
     run_res (slot sem_id (semaphore_list p)) (\<lambda>sem.
     run_res (semaphore_down (thread_tid t) sem) (\<lambda>(b, sem').
     run_res (put_proc (p\<lparr>semaphore_list := (semaphore_list p)[sem_id := Some sem']\<rparr>) k) (\<lambda>k1.
       Some (Inr (if b then 0 else - 1, k1)))))))"

definition sys8_mutex_create :: "bool \<Rightarrow> ('f, 'h, 's) call8" where
  "sys8_mutex_create blocking k =
     run_res (k8_proc k) (\<lambda>p.
       let (i, xs) = place (if blocking then Some mutex_new else None) (mutex_list p)
       in run_res (put_proc (p\<lparr>mutex_list := xs\<rparr>) k) (\<lambda>k1. Some (Inr (usize_as_isize i, k1))))"

definition sys8_mutex_unlock :: "nat \<Rightarrow> ('f, 'h, 's) call8" where
  "sys8_mutex_unlock mutex_id k =
     run_res (k8_proc k) (\<lambda>p.
     run_res (slot mutex_id (mutex_list p)) (\<lambda>mutex.
     run_res (mutex_unlock mutex) (\<lambda>(w, mutex').
     run_res (put_proc (p\<lparr>mutex_list := (mutex_list p)[mutex_id := Some mutex']\<rparr>) k) (\<lambda>k1.
     run_res (wake w k1) (\<lambda>k2. Some (Inr (0, k2)))))))"

definition sys8_mutex_lock :: "nat \<Rightarrow> ('f, 'h, 's) call8" where
  "sys8_mutex_lock mutex_id k =
     run_res (k8_thread k) (\<lambda>t.
     run_res (k8_proc k) (\<lambda>p.
     run_res (slot mutex_id (mutex_list p)) (\<lambda>mutex.
     run_res (mutex_lock (thread_tid t) mutex) (\<lambda>(b, mutex').
     run_res (put_proc (p\<lparr>mutex_list := (mutex_list p)[mutex_id := Some mutex']\<rparr>) k) (\<lambda>k1.
       Some (Inr (if b then 0 else - 1, k1)))))))"

definition sys8_condvar_create :: "nat \<Rightarrow> ('f, 'h, 's) call8" where
  "sys8_condvar_create _ k =
     run_res (k8_proc k) (\<lambda>p.
       let (i, xs) = place (Some condvar_new) (condvar_list p)
       in run_res (put_proc (p\<lparr>condvar_list := xs\<rparr>) k) (\<lambda>k1. Some (Inr (usize_as_isize i, k1))))"

definition sys8_condvar_signal :: "nat \<Rightarrow> ('f, 'h, 's) call8" where
  "sys8_condvar_signal condvar_id k =
     run_res (k8_proc k) (\<lambda>p.
     run_res (slot condvar_id (condvar_list p)) (\<lambda>condvar.
       let (w, condvar') = condvar_signal condvar
       in run_res (put_proc (p\<lparr>condvar_list := (condvar_list p)[condvar_id := Some condvar']\<rparr>) k) (\<lambda>k1.
          run_res (wake w k1) (\<lambda>k2. Some (Inr (0, k2))))))"

definition sys8_condvar_wait :: "nat \<Rightarrow> nat \<Rightarrow> ('f, 'h, 's) call8" where
  "sys8_condvar_wait condvar_id mutex_id k =
     run_res (k8_thread k) (\<lambda>t.
     run_res (k8_proc k) (\<lambda>p.
     run_res (slot condvar_id (condvar_list p)) (\<lambda>_.
     run_res (slot mutex_id (mutex_list p)) (\<lambda>mutex.
     run_res (condvar_wait_with_mutex (thread_tid t) mutex) (\<lambda>((flag, waking_tid), mutex').
     run_res (put_proc (p\<lparr>mutex_list := (mutex_list p)[mutex_id := Some mutex']\<rparr>) k) (\<lambda>k1.
     run_res (wake waking_tid k1) (\<lambda>k2.
       Some (Inr (if flag then 0 else - 1, k2)))))))))"

section \<open>The main loop\<close>

text \<open>The implementations that \<^verbatim>\<open>rust_main\<close> registers; what \<^verbatim>\<open>SyscallContext\<close> does not define is the default method of the trait.\<close>

definition subsystems8 :: "subsystem set" where
  "subsystems8 = {IO, PROCESS, SCHEDULING, CLOCK, SIGNAL, THREAD, SYNC_MUTEX}"

fun syscall8 :: "('f, unit, 'h) kernel_env \<Rightarrow> 's file_layer \<Rightarrow> syscall \<Rightarrow> ('f, 'h, 's) call8" where
  "syscall8 env L (SysWrite fd buf cnt) k = sys8_write env L fd buf cnt k"
| "syscall8 env L (SysRead fd buf cnt) k = sys8_read env L fd buf cnt k"
| "syscall8 env L (SysOpen path flags) k = sys8_open env L path flags k"
| "syscall8 env L (SysClose fd) k = sys8_close fd k"
| "syscall8 env L (SysPipe pipe) k = sys8_pipe env pipe k"
| "syscall8 env L (SysExit exit_code) k = Some (Inr (sys_exit exit_code, k))"
| "syscall8 env L SysFork k = sys8_fork env k"
| "syscall8 env L (SysExec path cnt) k = sys8_exec env L path cnt k"
| "syscall8 env L (SysWait pid exit_code_ptr) k = sys8_wait env pid exit_code_ptr k"
| "syscall8 env L SysGetpid k = sys8_getpid k"
| "syscall8 env L SysSchedYield k = Some (Inr (0, k))"
| "syscall8 env L (SysClockGettime clock_id tp) k = clock_gettime8 env clock_id tp k"
| "syscall8 env L (SysKill pid signum) k = sys8_kill pid signum k"
| "syscall8 env L (SysSigaction signum action old_action) k = sys8_sigaction env signum action old_action k"
| "syscall8 env L (SysSigprocmask msk) k = sys8_sigprocmask msk k"
| "syscall8 env L SysSigreturn k = sys8_sigreturn k"
| "syscall8 env L (SysThreadCreate entry arg) k = sys8_thread_create env entry arg k"
| "syscall8 env L SysGettid k = sys8_gettid k"
| "syscall8 env L (SysWaittid tid) k = sys8_waittid tid k"
| "syscall8 env L (SysSemaphoreCreate res_count) k = sys8_semaphore_create res_count k"
| "syscall8 env L (SysSemaphoreUp sem_id) k = sys8_semaphore_up sem_id k"
| "syscall8 env L (SysSemaphoreDown sem_id) k = sys8_semaphore_down sem_id k"
| "syscall8 env L (SysMutexCreate blocking) k = sys8_mutex_create blocking k"
| "syscall8 env L (SysMutexUnlock mutex_id) k = sys8_mutex_unlock mutex_id k"
| "syscall8 env L (SysMutexLock mutex_id) k = sys8_mutex_lock mutex_id k"
| "syscall8 env L (SysCondvarCreate arg) k = sys8_condvar_create arg k"
| "syscall8 env L (SysCondvarSignal condvar_id) k = sys8_condvar_signal condvar_id k"
| "syscall8 env L (SysCondvarWait condvar_id mutex_id) k = sys8_condvar_wait condvar_id mutex_id k"
| "syscall8 env L (SysEnableDeadlockDetect _) k = Some (Inr (- 1, k))"
| "syscall8 env L _ k = Some (Inl Unimplemented)"

text \<open>A process that is deleted with its last thread drops its descriptors.\<close>

definition k8_exited :: "int \<Rightarrow> ('f, 'h, 's) kernel8 \<Rightarrow> ('f, 'h, 's) kernel8 res" where
  "k8_exited exit_code k =
     bind_res (ptm_get_current_proc proc_table_ops (processor8 k)) (\<lambda>p.
     bind_res (ptm_make_current_exited fifo_ops proc_table_ops exit_code (processor8 k)) (\<lambda>pm.
     bind_res (case p of Some proc \<Rightarrow> ptm_get_proc proc_table_ops (p8_pid proc) pm | None \<Rightarrow> Inr None) (\<lambda>left.
       Inr (k\<lparr>processor8 := pm,
         pipes8 := (case (p, left) of (Some proc, None) \<Rightarrow> drop_fds (p8_fds proc) (pipes8 k) | _ \<Rightarrow> pipes8 k)\<rparr>))))"

definition k8_suspend :: "('f, 'h, 's) kernel8 \<Rightarrow> ('f, 'h, 's) kernel8 res" where
  "k8_suspend k = bind_res (ptm_make_current_suspend fifo_ops (processor8 k)) (\<lambda>pm. Inr (k\<lparr>processor8 := pm\<rparr>))"

definition k8_block :: "('f, 'h, 's) kernel8 \<Rightarrow> ('f, 'h, 's) kernel8" where
  "k8_block k = k\<lparr>processor8 := ptm_make_current_blocked (processor8 k)\<rparr>"

text \<open>The numbers of \<^verbatim>\<open>SEMAPHORE_DOWN\<close>, \<^verbatim>\<open>MUTEX_LOCK\<close> and \<^verbatim>\<open>CONDVAR_WAIT\<close>.\<close>

definition blocking_ids :: "nat list" where
  "blocking_ids = [1022, 1011, 1032]"

definition finish8 :: "nat \<Rightarrow> syscall_result \<Rightarrow> ('f, 'h, 's) kernel8 \<Rightarrow> ('f, 'h, 's) kernel8 res" where
  "finish8 i r k =
     (case r of
        Done ret \<Rightarrow>
          if i = 93 then k8_exited ret k
          else bind_res (k8_thread k) (\<lambda>task.
               bind_res (lc_set_a 0 (isize_as_usize ret) (fc_context (thread_context task))) (\<lambda>ctx.
               bind_res (put_thread (task\<lparr>thread_context := (thread_context task)\<lparr>fc_context := ctx\<rparr>\<rparr>) k) (\<lambda>k1.
                 if i \<in> set blocking_ids \<and> ret = - 1 then Inr (k8_block k1) else k8_suspend k1)))
      | Unsupported _ \<Rightarrow> k8_exited (- 2) k)"

text \<open>Signals are handled between the call and what becomes of the thread.\<close>

definition signal_step :: "('f, 'h, 's) kernel8 \<Rightarrow> (signal_result \<times> ('f, 'h, 's) kernel8) res" where
  "signal_step k =
     bind_res (k8_proc k) (\<lambda>p.
     bind_res (k8_thread k) (\<lambda>task.
     bind_res (handle_signals (p8_signal p) (fc_context (thread_context task))) (\<lambda>(r, sg, ctx).
     bind_res (put_proc (p\<lparr>p8_signal := sg\<rparr>) k) (\<lambda>k1.
     bind_res (put_thread (task\<lparr>thread_context := (thread_context task)\<lparr>fc_context := ctx\<rparr>\<rparr>) k1) (\<lambda>k2.
       Inr (r, k2))))))"

definition serve8 :: "('f, unit, 'h) kernel_env \<Rightarrow> 's file_layer \<Rightarrow> ('f, 'h, 's) kernel8 \<Rightarrow> ('f, 'h, 's) kernel8 run" where
  "serve8 env L k =
     run_res (k8_thread k) (\<lambda>task.
     let ctx = lc_move_next (fc_context (thread_context task)) in
     run_res (put_thread (task\<lparr>thread_context := (thread_context task)\<lparr>fc_context := ctx\<rparr>\<rparr>) k) (\<lambda>k1.
     run_res (lc_a 7 ctx) (\<lambda>i.
     run_res (lc_a 0 ctx) (\<lambda>a0. run_res (lc_a 1 ctx) (\<lambda>a1. run_res (lc_a 2 ctx) (\<lambda>a2.
     run_res (lc_a 3 ctx) (\<lambda>a3. run_res (lc_a 4 ctx) (\<lambda>a4. run_res (lc_a 5 ctx) (\<lambda>a5.
     bind_run (handle subsystems8 (syscall8 env L) i [a0, a1, a2, a3, a4, a5] k1) (\<lambda>(r, k2).
     run_res (signal_step k2) (\<lambda>(sr, k3).
       case sr of
         ProcessKilled exit_code \<Rightarrow> Some (k8_exited exit_code k3)
       | _ \<Rightarrow> Some (finish8 i r k3))))))))))))"

text \<open>One turn; the loop ends when no thread is returned.\<close>

definition kernel8_turn ::
  "('f, unit, 'h) kernel_env \<Rightarrow> 's file_layer \<Rightarrow> user_program \<Rightarrow> ('f, 'h, 's) kernel8 \<Rightarrow> (bool \<times> ('f, 'h, 's) kernel8) run" where
  "kernel8_turn env L user k =
     run_res (ptm_find_next fifo_ops (processor8 k)) (\<lambda>(next_task, pm).
       case next_task of
         None \<Rightarrow> Some (Inr (False, k\<lparr>processor8 := pm\<rparr>))
       | Some task \<Rightarrow>
           let (fc, fr, ecall) = user (thread_context task) (frames (machine8 k));
               k1 = k\<lparr>processor8 := pm, machine8 := (machine8 k)\<lparr>frames := fr\<rparr>\<rparr>
           in run_res (put_thread (task\<lparr>thread_context := fc\<rparr>) k1) (\<lambda>k2.
              bind_run (if ecall then serve8 env L k2 else Some (k8_exited (- 3) k2)) (\<lambda>k3.
                Some (Inr (True, k3)))))"

definition kernel8_init :: "'s \<Rightarrow> 'h machine \<Rightarrow> ('f, 'h, 's) kernel8" where
  "kernel8_init s mc = \<lparr>processor8 = ptm_new, next_pid8 = 0, next_tid8 = 0, machine8 = mc, out8 = [], in8 = [], time8 = 0,
     pipes8 = [], store8 = s\<rparr>"

definition boot8 :: "('f, unit, 'h) kernel_env \<Rightarrow> 's file_layer \<Rightarrow> 's \<Rightarrow> 'h machine \<Rightarrow> ('f, 'h, 's) kernel8 run" where
  "boot8 env L s mc =
     run_res (fl_open L (map (of_nat \<circ> of_char) ''initproc'') 0 s) (\<lambda>(opened, s1).
     run_res (unwrap opened) (\<lambda>fd.
     bind_run (fl_read_all L fd s1) (\<lambda>(initproc, s2).
     run_res (unwrap (ke_elf env initproc)) (\<lambda>elf.
     bind_run (from_elf8 env elf (kernel8_init s2 mc)) (\<lambda>(r, k).
       case r of
         None \<Rightarrow> Some (Inr k)
       | Some (process, thread) \<Rightarrow>
           let pm = ptm_set_manager thread_manager_new (ptm_set_proc_manager proc_table_new (processor8 k)) in
           run_res (ptm_add_proc proc_table_ops (p8_pid process) process pid_any pm) (\<lambda>pm1.
           run_res (ptm_add fifo_ops (thread_tid thread) thread (p8_pid process) pm1) (\<lambda>pm2.
             Some (Inr (k\<lparr>processor8 := pm2\<rparr>)))))))))"

end
