(* ===== verification/Thread_Invariant.thy ===== *)
theory Thread_Invariant
  imports Thread_Kernel
begin

text \<open>
  What the main loop of chapter 8 keeps: no thread is lost and none is scheduled twice. Every thread that does not run is either in the
  ready queue or in exactly one wait queue of its process, so that a later wake-up will find it. Wait queues and the ready
  queue may also name threads that are gone.
\<close>

section \<open>Wait queues\<close>

definition queues :: "('a \<Rightarrow> nat list) \<Rightarrow> 'a option list \<Rightarrow> nat list" where
  "queues f xs = concat (map (case_option [] f) xs)"

definition waits :: "'f process8 \<Rightarrow> nat list" where
  "waits p = queues mutex_wait_queue (mutex_list p) @ queues sem_wait_queue (semaphore_list p) @
     queues cond_wait_queue (condvar_list p)"

lemma queues_update:
  "i < length xs \<Longrightarrow> xs ! i = Some a \<Longrightarrow> mset (queues f (xs[i := Some b])) + mset (f a) = mset (queues f xs) + mset (f b)"
proof (induction xs arbitrary: i)
  case (Cons x xs)
  show ?case
  proof (cases i)
    case (Suc j)
    then show ?thesis using Cons.IH [of j] Cons.prems by (simp add: queues_def)
  qed (use Cons.prems in \<open>simp add: queues_def\<close>)
qed simp

lemma queues_empty_slot: "i < length xs \<Longrightarrow> xs ! i = None \<Longrightarrow> case_option [] f x = [] \<Longrightarrow> queues f (xs[i := x]) = queues f xs"
proof (induction xs arbitrary: i)
  case (Cons y xs)
  show ?case
  proof (cases i)
    case (Suc j)
    then show ?thesis using Cons.IH [of j] Cons.prems by (simp add: queues_def)
  qed (use Cons.prems in \<open>simp add: queues_def\<close>)
qed simp

lemma queues_place: "place x xs = (i, ys) \<Longrightarrow> case_option [] f x = [] \<Longrightarrow> queues f ys = queues f xs"
  using queues_empty_slot [of _ xs f x]
  by (auto simp: place_def queues_def find_index_Some_iff split: option.split_asm)

lemma slot_Inr: "slot i xs = Inr a \<longleftrightarrow> i < length xs \<and> xs ! i = Some a"
  by (auto simp: slot_def index_res_def split: if_split_asm)

text \<open>What an operation does to the wait queue of its primitive: threads it wakes leave it, a thread that must wait joins it.\<close>

definition woken :: "nat option \<Rightarrow> nat multiset" where
  "woken w = (case w of None \<Rightarrow> {#} | Some t \<Rightarrow> {#t#})"

lemma release_queue:
  "semaphore_up s = Inr (w, s') \<Longrightarrow> mset (sem_wait_queue s') + woken w = mset (sem_wait_queue s)"
  "mutex_unlock m = Inr (w, m') \<Longrightarrow> mset (mutex_wait_queue m') + woken w = mset (mutex_wait_queue m)"
  "condvar_signal c = (w, c') \<Longrightarrow> mset (cond_wait_queue c') + woken w = mset (cond_wait_queue c)"
  by (auto simp: semaphore_up_def mutex_unlock_def condvar_signal_def pop_front_def woken_def split: if_split_asm list.splits)

lemma acquire_queue:
  "semaphore_down t s = Inr (b, s') \<Longrightarrow> mset (sem_wait_queue s') = mset (sem_wait_queue s) + (if b then {#} else {#t#})"
  "mutex_lock t m = Inr (b, m') \<Longrightarrow> mset (mutex_wait_queue m') = mset (mutex_wait_queue m) + (if b then {#} else {#t#})"
  by (auto simp: semaphore_down_def mutex_lock_def Let_def split: if_split_asm)

lemma condvar_wait_queue:
  assumes "condvar_wait_with_mutex t m = Inr ((b, w), m')"
  shows "mset (mutex_wait_queue m') + woken w = mset (mutex_wait_queue m) + (if b then {#} else {#t#})"
    and "set_option w \<subseteq> set (mutex_wait_queue m)"
proof -
  obtain w1 m1 where u: "mutex_unlock m = Inr (w1, m1)" "w1 = w" "mutex_lock t m1 = Inr (b, m')"
    using assms by (auto simp: condvar_wait_with_mutex_def)
  show "mset (mutex_wait_queue m') + woken w = mset (mutex_wait_queue m) + (if b then {#} else {#t#})"
    using release_queue(2) [OF u(1)] acquire_queue(2) [OF u(3)] u(2) by simp
  have "woken w \<subseteq># mset (mutex_wait_queue m)"
    using release_queue(2) [OF u(1)] u(2) by (metis mset_subset_eq_add_right)
  then show "set_option w \<subseteq> set (mutex_wait_queue m)" by (cases w) (auto simp: woken_def)
qed

section \<open>Every thread has its place\<close>

text \<open>
  \<open>w\<close> says whether the running thread \<open>c\<close> has already put itself into a wait queue; \<open>q\<close> is the ready queue, \<open>W\<close> gives the wait
  queues of every process, \<open>k\<close> bounds the thread ids given so far.
\<close>

definition accounted :: "bool \<Rightarrow> nat \<Rightarrow> nat set \<Rightarrow> nat option \<Rightarrow> (nat \<rightharpoonup> nat) \<Rightarrow> (nat \<Rightarrow> nat list) \<Rightarrow> bool" where
  "accounted w k q c t2p W \<longleftrightarrow>
     (\<forall>p. distinct (W p)) \<and>
     (\<forall>p. \<forall>t\<in>set (W p). t < k \<and> t \<notin> q \<and> (t2p t = Some p \<or> t2p t = None) \<and> (c = Some t \<longrightarrow> w)) \<and>
     (\<forall>p p'. p \<noteq> p' \<longrightarrow> set (W p) \<inter> set (W p') = {}) \<and>
     (\<forall>t p. t2p t = Some p \<longrightarrow> t \<in> q \<or> c = Some t \<or> t \<in> set (W p)) \<and>
     (\<forall>t p. c = Some t \<longrightarrow> w \<longrightarrow> t2p t = Some p \<longrightarrow> t \<in> set (W p))"

lemma accountedD:
  assumes "accounted w k q c t2p W"
  shows "distinct (W p)" "t \<in> set (W p) \<Longrightarrow> t < k" "t \<in> set (W p) \<Longrightarrow> t \<notin> q"
    "t \<in> set (W p) \<Longrightarrow> t2p t = Some p \<or> t2p t = None" "t \<in> set (W p) \<Longrightarrow> c = Some t \<Longrightarrow> w"
    "p \<noteq> p' \<Longrightarrow> set (W p) \<inter> set (W p') = {}" "t2p t = Some p \<Longrightarrow> t \<in> q \<or> c = Some t \<or> t \<in> set (W p)"
    "c = Some t \<Longrightarrow> w \<Longrightarrow> t2p t = Some p \<Longrightarrow> t \<in> set (W p)"
  using assms by (auto simp: accounted_def)

lemma accounted_mono: "accounted w k q c t2p W \<Longrightarrow> k \<le> k' \<Longrightarrow> accounted w k' q c t2p W"
  by (fastforce simp: accounted_def)

text \<open>A thread starts to run, goes back to the queue, or stays away from it because it waits.\<close>

lemma accounted_fetch:
  "accounted False k q None t2p W \<Longrightarrow> i \<in> q \<Longrightarrow> accounted False k (q - {i}) (Some i) t2p W"
  by (auto simp: accounted_def)

lemma accounted_fetch_gone:
  "accounted False k q None t2p W \<Longrightarrow> t2p i = None \<Longrightarrow> accounted False k (q - {i}) None t2p W"
  by (fastforce simp: accounted_def)

lemma accounted_suspend: "accounted False k q (Some i) t2p W \<Longrightarrow> accounted False k (insert i q) None t2p W"
  by (auto simp: accounted_def)

lemma accounted_block: "accounted True k q (Some i) t2p W \<Longrightarrow> accounted False k q None t2p W"
  by (auto simp: accounted_def) metis

lemma accounted_exit:
  "accounted w k q (Some i) t2p W \<Longrightarrow> accounted False k q None (t2p(i := None)) W"
  by (auto simp: accounted_def)

lemma accounted_drop:
  "accounted False k q None t2p W \<Longrightarrow> (\<And>t. t2p t \<noteq> Some p) \<Longrightarrow> accounted False k q None t2p (W(p := []))"
  by (auto simp: accounted_def)

lemma accounted_new_thread:
  "accounted False k q c t2p W \<Longrightarrow> t2p k = None \<Longrightarrow> c \<noteq> Some k \<Longrightarrow> accounted False (k + 1) (insert k q) c (t2p(k \<mapsto> p)) W"
  by (fastforce simp: accounted_def)

text \<open>
  An operation on a primitive of process \<open>p\<close>: it wakes at most one thread, which goes to the ready queue, and the running thread
  \<open>i\<close> may join a wait queue.
\<close>

lemma accounted_sync:
  assumes A: "accounted False k q (Some i) t2p W" and i: "t2p i = Some p" "i < k" "i \<notin> q"
    and ws: "mset ws + woken v = mset (W p) + (if b then {#} else {#i#})" and v: "set_option v \<subseteq> set (W p)"
  shows "accounted (\<not> b) k (q \<union> set_option v) (Some i) t2p (W(p := ws))"
proof -
  note d = accountedD [OF A]
  have iw: "i \<notin> set (W p')" for p' using d(5) by blast
  have sub: "set ws \<subseteq> insert i (set (W p))"
    using arg_cong [OF ws, of set_mset] by (auto split: if_splits)
  have one: "count (mset (W p)) t \<le> 1" for t using d(1) [of p] by (simp add: distinct_count_atmost_1)
  have "count (mset (W p)) i = 0" using iw by (simp add: count_mset_0_iff)
  then have cnt: "count (mset ws) t + count (woken v) t \<le> 1" for t
    using arg_cong [OF ws, of "\<lambda>m. count m t"] one [of t] by (auto split: if_splits)
  then have dist: "distinct ws" unfolding distinct_count_atmost_1
    using one by (metis add_leD1 count_mset_0_iff le_antisym less_one not_le set_mset_mset)
  have vn: "t \<notin> set ws" if "v = Some t" for t
    using cnt [of t] that by (simp add: woken_def count_mset_0_iff [symmetric] del: count_mset_0_iff)
  have keep: "t \<in> set ws \<or> v = Some t" if "t \<in> set (W p)" for t
  proof -
    have "t \<in># mset ws + woken v" unfolding ws using that by simp
    then show ?thesis by (cases v) (auto simp: woken_def)
  qed
  have ib: "i \<in> set ws \<longleftrightarrow> \<not> b"
  proof
    assume "i \<in> set ws"
    then have "i \<in># mset (W p) + (if b then {#} else {#i#})" unfolding ws [symmetric] by simp
    then show "\<not> b" using iw by (auto split: if_splits)
  next
    assume "\<not> b"
    then have "i \<in># mset ws + woken v" unfolding ws by simp
    then show "i \<in> set ws" using v iw by (cases v) (auto simp: woken_def)
  qed
  have oth: "t \<notin> set (W p')" if "p' \<noteq> p" "t \<in> insert i (set (W p))" for p' t
    using that d(6) [of p' p] iw by blast
  have vp: "t \<in> set (W p)" if "v = Some t" for t using that v by simp
  show ?thesis
    unfolding accounted_def
  proof (intro conjI allI ballI impI)
    show "distinct ((W(p := ws)) p')" for p' using dist d(1) by simp
    fix p' t
    assume t: "t \<in> set ((W(p := ws)) p')"
    have "t = i \<and> p' = p \<or> t \<in> set (W p')" using t sub by (auto split: if_splits)
    then show "t < k" "t2p t = Some p' \<or> t2p t = None" using d(2,4) [of t p'] i by auto
    show "Some i = Some t \<Longrightarrow> \<not> b" using t ib iw by (auto split: if_splits)
    show "t \<notin> q \<union> set_option v"
      using t sub d(3) i vn oth vp by (auto split: if_splits)
  next
    fix p1 p2 :: nat
    assume "p1 \<noteq> p2"
    then show "set ((W(p := ws)) p1) \<inter> set ((W(p := ws)) p2) = {}"
      using d(6) sub oth by (auto split: if_splits)
  next
    fix t p'
    assume "t2p t = Some p'"
    then show "t \<in> q \<union> set_option v \<or> Some i = Some t \<or> t \<in> set ((W(p := ws)) p')"
      using d(7) [of t p'] keep by auto
  next
    fix t p'
    assume "Some i = Some t" "\<not> b" "t2p t = Some p'"
    then show "t \<in> set ((W(p := ws)) p')" using i ib by simp
  qed
qed

section \<open>The invariant of the kernel\<close>

definition waits_at :: "'f process8 proc_table \<Rightarrow> nat \<Rightarrow> nat list" where
  "waits_at mp p = (case procs mp p of None \<Rightarrow> [] | Some pr \<Rightarrow> waits pr)"

definition objects_ok :: "thread thread_manager \<Rightarrow> 'f process8 proc_table \<Rightarrow> bool" where
  "objects_ok m mp \<longleftrightarrow> (\<forall>t th. tm_tasks m t = Some th \<longrightarrow> thread_tid th = t) \<and> (\<forall>p pr. procs mp p = Some pr \<longrightarrow> p8_pid pr = p)"

definition pr8_inv :: "bool \<Rightarrow> nat \<Rightarrow> nat \<Rightarrow> (thread, 'f process8) processor \<Rightarrow> bool" where
  "pr8_inv w n k pm \<longleftrightarrow> (\<exists>m mp. pt_manager pm = Some m \<and> proc_manager pm = Some mp \<and>
     ch8_inv n k (mset (tm_ready_queue m)) pm \<and> objects_ok m mp \<and>
     accounted w k (set (tm_ready_queue m)) (pt_current pm) (tid2pid pm) (waits_at mp))"

definition k8_inv :: "bool \<Rightarrow> ('f, 'h, 's) kernel8 \<Rightarrow> bool" where
  "k8_inv w k \<longleftrightarrow> pr8_inv w (next_pid8 k) (next_tid8 k) (processor8 k)"

text \<open>A kernel that serves a call of thread \<open>i\<close>.\<close>

definition serving8 :: "bool \<Rightarrow> nat \<Rightarrow> ('f, 'h, 's) kernel8 \<Rightarrow> bool" where
  "serving8 w i k \<longleftrightarrow> k8_inv w k \<and> pt_current (processor8 k) = Some i"

lemma serving8_simps [simp]:
  "serving8 w i (k\<lparr>machine8 := mc\<rparr>) = serving8 w i k" "serving8 w i (k\<lparr>out8 := bs\<rparr>) = serving8 w i k"
  "serving8 w i (k\<lparr>in8 := bs\<rparr>) = serving8 w i k" "serving8 w i (k\<lparr>pipes8 := rs\<rparr>) = serving8 w i k"
  "serving8 w i (k\<lparr>store8 := s\<rparr>) = serving8 w i k" "serving8 w i (put_user8 pa bs k) = serving8 w i k"
  "next_pid8 (put_user8 pa bs k) = next_pid8 k" "next_tid8 (put_user8 pa bs k) = next_tid8 k"
  "processor8 (put_user8 pa bs k) = processor8 k"
  by (simp_all add: serving8_def k8_inv_def put_user8_def)

lemma pr8_invE:
  assumes "pr8_inv w n k pm"
  obtains m mp where "pt_manager pm = Some m" "proc_manager pm = Some mp" "ch8_inv n k (mset (tm_ready_queue m)) pm"
    "objects_ok m mp" "accounted w k (set (tm_ready_queue m)) (pt_current pm) (tid2pid pm) (waits_at mp)"
    "dom (tm_tasks m) = dom (tid2pid pm)" "dom (procs mp) = dom (pt_rel_map pm)"
  using assms by (fastforce simp: pr8_inv_def ch8_inv_def ptm_inv_def)

lemma ch8_inv_tables:
  assumes "ch8_inv n k q pm" "pt_manager pm = Some m" "proc_manager pm = Some mp"
    "dom (tm_tasks m') = dom (tm_tasks m)" "tm_ready_queue m' = tm_ready_queue m" "dom (procs mp') = dom (procs mp)"
  shows "ch8_inv n k q (pm\<lparr>pt_manager := Some m', proc_manager := Some mp'\<rparr>)"
  using assms by (simp add: ch8_inv_def ptm_inv_def tm_ready_def)

lemma ch8_inv_mono:
  assumes "ch8_inv n k q pm" "n \<le> n'" "n' \<le> pid_any" "k \<le> k'"
  shows "ch8_inv n' k' q pm"
proof -
  have "threads_wf k' t2p rm" if "threads_wf k t2p rm" for t2p rm
    using that assms(4) by (fastforce simp: threads_wf_def threads_node_def)
  then show ?thesis using assms tree_wf_mono [of n _ n'] by (fastforce simp: ch8_inv_def ptm_inv_def)
qed

lemma pr8_inv_mono: "pr8_inv w n k pm \<Longrightarrow> n \<le> n' \<Longrightarrow> n' \<le> pid_any \<Longrightarrow> k \<le> k' \<Longrightarrow> pr8_inv w n' k' pm"
  unfolding pr8_inv_def using ch8_inv_mono accounted_mono by blast

text \<open>The running thread and its process.\<close>

lemma serving8_current:
  assumes S: "serving8 w i k"
  obtains th p pr mp where "k8_thread k = Inr th" "thread_tid th = i" "k8_proc k = Inr pr" "p8_pid pr = p"
    "tid2pid (processor8 k) i = Some p" "proc_manager (processor8 k) = Some mp" "procs mp p = Some pr" "i < next_tid8 k"
proof -
  let ?pm = "processor8 k"
  have I: "pr8_inv w (next_pid8 k) (next_tid8 k) ?pm" and c: "pt_current ?pm = Some i"
    using S by (simp_all add: serving8_def k8_inv_def)
  obtain m mp where m: "pt_manager ?pm = Some m" "proc_manager ?pm = Some mp"
    "ch8_inv (next_pid8 k) (next_tid8 k) (mset (tm_ready_queue m)) ?pm"
    "objects_ok m mp" "dom (tm_tasks m) = dom (tid2pid ?pm)" "dom (procs mp) = dom (pt_rel_map ?pm)"
    by (rule pr8_invE [OF I])
  obtain p where p: "tid2pid ?pm i = Some p" using m(3) c by (auto simp: ch8_inv_def ptm_inv_def)
  then have "p \<in> dom (pt_rel_map ?pm)" and ik: "i < next_tid8 k"
    using m(3) unfolding ch8_inv_def ptm_inv_def threads_wf_def by blast+
  then obtain pr where pr: "procs mp p = Some pr" using m(6) by blast
  obtain th where th: "tm_tasks m i = Some th" using p m(5) by auto
  show ?thesis
    using that [of th pr p mp] th pr p m(1,2,4) c ik
    by (simp add: k8_thread_def k8_proc_def ptm_current_def ptm_get_current_proc_def fifo_ops_def tm_get_def
        proc_table_ops_def pt_get_def objects_ok_def)
qed

lemma k8_thread_tid: "serving8 w i k \<Longrightarrow> k8_thread k = Inr th \<Longrightarrow> thread_tid th = i"
  by (rule serving8_current [of w i k]) simp_all

section \<open>Writing back\<close>

lemma put_task_ok:
  assumes S: "serving8 w i k" and p: "put_task t th k = Inr k'" and t: "thread_tid th = t"
    and d: "tid2pid (processor8 k) t \<noteq> None"
  shows "serving8 w i k' \<and> next_pid8 k' = next_pid8 k \<and> next_tid8 k' = next_tid8 k \<and> k8_proc k' = k8_proc k"
proof -
  let ?pm = "processor8 k"
  have I: "pr8_inv w (next_pid8 k) (next_tid8 k) ?pm" and c: "pt_current ?pm = Some i"
    using S by (simp_all add: serving8_def k8_inv_def)
  obtain m mp where m: "pt_manager ?pm = Some m" "proc_manager ?pm = Some mp"
    "ch8_inv (next_pid8 k) (next_tid8 k) (mset (tm_ready_queue m)) ?pm" "objects_ok m mp"
    "accounted w (next_tid8 k) (set (tm_ready_queue m)) (pt_current ?pm) (tid2pid ?pm) (waits_at mp)"
    "dom (tm_tasks m) = dom (tid2pid ?pm)"
    by (rule pr8_invE [OF I])
  let ?m = "m\<lparr>tm_tasks := (tm_tasks m)(t \<mapsto> th)\<rparr>"
  have k': "k' = k\<lparr>processor8 := ?pm\<lparr>pt_manager := Some ?m\<rparr>\<rparr>"
    using p m(1) by (simp add: put_task_def fifo_ops_def tm_insert_def)
  have "t \<in> dom (tm_tasks m)" using d m(6) by auto
  then have "ch8_inv (next_pid8 k) (next_tid8 k) (mset (tm_ready_queue m)) (?pm\<lparr>pt_manager := Some ?m, proc_manager := Some mp\<rparr>)"
    by (intro ch8_inv_tables [OF m(3,1,2)]) auto
  moreover have "?pm\<lparr>pt_manager := Some ?m, proc_manager := Some mp\<rparr> = ?pm\<lparr>pt_manager := Some ?m\<rparr>" using m(2) by simp
  moreover have "objects_ok ?m mp" using m(4) t by (simp add: objects_ok_def)
  ultimately show ?thesis
    using m c by (simp add: k' serving8_def k8_inv_def pr8_inv_def k8_proc_def ptm_get_current_proc_def)
qed

lemma put_thread_ok:
  assumes S: "serving8 w i k" and p: "put_thread th k = Inr k'" and t: "thread_tid th = i"
  shows "serving8 w i k' \<and> next_pid8 k' = next_pid8 k \<and> next_tid8 k' = next_tid8 k \<and> k8_proc k' = k8_proc k"
proof -
  have "put_task i th k = Inr k'" using p S by (simp add: put_thread_def serving8_def)
  moreover have "tid2pid (processor8 k) i \<noteq> None" by (rule serving8_current [OF S]) simp
  ultimately show ?thesis using put_task_ok [OF S] t by blast
qed

text \<open>Replacing the object of a process, when its wait queues stay as they are.\<close>

lemma put_proc_at_ok:
  assumes S: "serving8 w i k" and g: "ptm_get_proc proc_table_ops p (processor8 k) = Inr (Some pr)"
    and put: "put_proc_at p pr' k = Inr k'" and same: "p8_pid pr' = p8_pid pr" "waits pr' = waits pr"
  shows "serving8 w i k' \<and> next_pid8 k' = next_pid8 k \<and> next_tid8 k' = next_tid8 k"
proof -
  let ?pm = "processor8 k"
  have I: "pr8_inv w (next_pid8 k) (next_tid8 k) ?pm" and c: "pt_current ?pm = Some i"
    using S by (simp_all add: serving8_def k8_inv_def)
  obtain m mp where m: "pt_manager ?pm = Some m" "proc_manager ?pm = Some mp"
    "ch8_inv (next_pid8 k) (next_tid8 k) (mset (tm_ready_queue m)) ?pm" "objects_ok m mp"
    "accounted w (next_tid8 k) (set (tm_ready_queue m)) (pt_current ?pm) (tid2pid ?pm) (waits_at mp)"
    by (rule pr8_invE [OF I])
  let ?mp = "mp\<lparr>procs := (procs mp)(p \<mapsto> pr')\<rparr>"
  have pr: "procs mp p = Some pr" using g m(2) by (simp add: ptm_get_proc_def proc_table_ops_def pt_get_def)
  have k': "k' = k\<lparr>processor8 := ?pm\<lparr>proc_manager := Some ?mp\<rparr>\<rparr>"
    using put m(2) by (simp add: put_proc_at_def proc_table_ops_def pt_insert_def)
  have "ch8_inv (next_pid8 k) (next_tid8 k) (mset (tm_ready_queue m)) (?pm\<lparr>pt_manager := Some m, proc_manager := Some ?mp\<rparr>)"
    using pr by (intro ch8_inv_tables [OF m(3,1,2)]) auto
  moreover have "?pm\<lparr>pt_manager := Some m, proc_manager := Some ?mp\<rparr> = ?pm\<lparr>proc_manager := Some ?mp\<rparr>" using m(1) by simp
  moreover have "objects_ok m ?mp" "waits_at ?mp = waits_at mp"
    using m(4) pr same by (auto simp: objects_ok_def waits_at_def fun_eq_iff)
  ultimately show ?thesis using m c by (simp add: k' serving8_def k8_inv_def pr8_inv_def)
qed

lemma put_proc_eq:
  assumes S: "serving8 w i k" and k0: "processor8 k0 = processor8 k" "k8_proc k0 = Inr pr"
  shows "put_proc pr' k = put_proc_at (p8_pid pr) pr' k" and "ptm_get_proc proc_table_ops (p8_pid pr) (processor8 k) = Inr (Some pr)"
    and "tid2pid (processor8 k) i = Some (p8_pid pr)"
proof -
  obtain p pr0 mp where p: "k8_proc k = Inr pr0" "p8_pid pr0 = p" "tid2pid (processor8 k) i = Some p"
    "proc_manager (processor8 k) = Some mp" "procs mp p = Some pr0"
    by (rule serving8_current [OF S])
  have "pr0 = pr" using k0 p(1) by (simp add: k8_proc_def)
  then show "put_proc pr' k = put_proc_at (p8_pid pr) pr' k" "ptm_get_proc proc_table_ops (p8_pid pr) (processor8 k) = Inr (Some pr)"
    "tid2pid (processor8 k) i = Some (p8_pid pr)"
    using S p by (simp_all add: put_proc_def serving8_def ptm_get_proc_def proc_table_ops_def pt_get_def)
qed

lemma put_proc_ok:
  assumes S: "serving8 w i k" and k0: "processor8 k0 = processor8 k" "k8_proc k0 = Inr pr"
    and put: "put_proc pr' k = Inr k'" and same: "p8_pid pr' = p8_pid pr" "waits pr' = waits pr"
  shows "serving8 w i k' \<and> next_pid8 k' = next_pid8 k \<and> next_tid8 k' = next_tid8 k"
  using put_proc_at_ok [OF S put_proc_eq(2) [OF S k0] _ same] put put_proc_eq(1) [OF S k0] by simp

lemma waits_upd [simp]:
  "waits (p\<lparr>p8_fds := x\<rparr>) = waits p" "waits (p\<lparr>p8_space := sp\<rparr>) = waits p" "waits (p\<lparr>p8_signal := sg\<rparr>) = waits p"
  by (simp_all add: waits_def)

section \<open>System calls keep the invariant\<close>

text \<open>
  A call that returns leaves a kernel that serves the same thread, and gives out at most one process id and one thread id. A call that
  can block (\<open>b\<close>) has put the thread into a wait queue exactly when it returns -1.
\<close>

definition ids_ok :: "('f, 'h, 's) kernel8 \<Rightarrow> bool" where
  "ids_ok k \<longleftrightarrow> next_pid8 k < pid_any \<and> next_tid8 k < pid_any"

definition grows :: "('f, 'h, 's) kernel8 \<Rightarrow> ('f, 'h, 's) kernel8 \<Rightarrow> bool" where
  "grows k k' \<longleftrightarrow> next_pid8 k \<le> next_pid8 k' \<and> next_pid8 k' \<le> next_pid8 k + 1 \<and>
     next_tid8 k \<le> next_tid8 k' \<and> next_tid8 k' \<le> next_tid8 k + 1"

definition keeps8 :: "bool \<Rightarrow> ('f, 'h, 's) call8 \<Rightarrow> bool" where
  "keeps8 b f \<longleftrightarrow> (\<forall>i k r k'. serving8 False i k \<longrightarrow> ids_ok k \<longrightarrow> f k = Some (Inr (r, k')) \<longrightarrow>
     serving8 (b \<and> r = - 1) i k' \<and> grows k k')"

lemma keeps8I:
  "(\<And>i k r k'. serving8 False i k \<Longrightarrow> ids_ok k \<Longrightarrow> f k = Some (Inr (r, k')) \<Longrightarrow> serving8 (b \<and> r = - 1) i k' \<and> grows k k') \<Longrightarrow> keeps8 b f"
  by (simp add: keeps8_def)

text \<open>Calls that leave the processor alone, or replace the object of the current process by one with the same wait queues.\<close>

definition same8 :: "('f, 'h, 's) kernel8 \<Rightarrow> ('f, 'h, 's) kernel8 \<Rightarrow> bool" where
  "same8 k k' \<longleftrightarrow> processor8 k' = processor8 k \<and> next_pid8 k' = next_pid8 k \<and> next_tid8 k' = next_tid8 k"

lemma same8_upd [simp]:
  "same8 k (k'\<lparr>machine8 := mc\<rparr>) = same8 k k'" "same8 k (k'\<lparr>out8 := bs\<rparr>) = same8 k k'" "same8 k (k'\<lparr>in8 := bs\<rparr>) = same8 k k'"
  "same8 k (k'\<lparr>pipes8 := rs\<rparr>) = same8 k k'" "same8 k (k'\<lparr>store8 := s\<rparr>) = same8 k k'" "same8 k (put_user8 pa bs k') = same8 k k'"
  "same8 k k" "same8 k (print_apps8 names k') = same8 k k'"
  by (simp_all add: same8_def put_user8_def print_apps8_def)

lemma same8_serving: "same8 k k' \<Longrightarrow> serving8 w i k' = serving8 w i k"
  by (simp add: same8_def serving8_def k8_inv_def)

lemma same8_grows: "same8 k k' \<Longrightarrow> grows k k'"
  by (simp add: same8_def grows_def)

definition put8 :: "('f, 'h, 's) kernel8 \<Rightarrow> ('f, 'h, 's) kernel8 \<Rightarrow> bool" where
  "put8 k k' \<longleftrightarrow> (\<exists>pr pr' k1 k2. k8_proc k = Inr pr \<and> put_proc pr' k1 = Inr k2 \<and> same8 k k1 \<and> same8 k2 k' \<and>
     p8_pid pr' = p8_pid pr \<and> waits pr' = waits pr)"

definition plain8 :: "('f, 'h, 's) kernel8 \<Rightarrow> ('f, 'h, 's) kernel8 \<Rightarrow> bool" where
  "plain8 k k' \<longleftrightarrow> same8 k k' \<or> put8 k k'"

lemma same8_trans: "same8 k k1 \<Longrightarrow> same8 k1 k' \<Longrightarrow> same8 k k'"
  by (simp add: same8_def)

lemma plain8_same: "plain8 k k1 \<Longrightarrow> same8 k1 k' \<Longrightarrow> plain8 k k'"
  unfolding plain8_def put8_def by (meson same8_trans)

lemma plain8_upd [simp]:
  "plain8 k k" "plain8 k k' \<Longrightarrow> plain8 k (k'\<lparr>machine8 := mc\<rparr>)" "plain8 k k' \<Longrightarrow> plain8 k (k'\<lparr>out8 := bs\<rparr>)"
  "plain8 k k' \<Longrightarrow> plain8 k (k'\<lparr>in8 := bs\<rparr>)" "plain8 k k' \<Longrightarrow> plain8 k (k'\<lparr>pipes8 := rs\<rparr>)"
  "plain8 k k' \<Longrightarrow> plain8 k (k'\<lparr>store8 := s\<rparr>)" "plain8 k k' \<Longrightarrow> plain8 k (put_user8 pa bs k')"
  "plain8 k k' \<Longrightarrow> plain8 k (print_apps8 names k')"
  by (simp add: plain8_def) (rule plain8_same, assumption, simp)+

lemma plain8_put [simp]:
  "put_proc pr' k1 = Inr k' \<Longrightarrow> k8_proc k = Inr pr \<Longrightarrow> same8 k k1 \<Longrightarrow> p8_pid pr' = p8_pid pr \<Longrightarrow> waits pr' = waits pr \<Longrightarrow>
   plain8 k k'"
  unfolding plain8_def put8_def using same8_upd(7) by blast

lemma put8_ok:
  assumes S: "serving8 w i k" and p: "put8 k k'"
  shows "serving8 w i k' \<and> grows k k'"
proof -
  obtain pr pr' k1 k2 where p: "k8_proc k = Inr pr" "put_proc pr' k1 = Inr k2" "same8 k k1" "same8 k2 k'"
    "p8_pid pr' = p8_pid pr" "waits pr' = waits pr" using p unfolding put8_def by blast
  have S1: "serving8 w i k1" using S same8_serving [OF p(3)] by simp
  have "processor8 k = processor8 k1" using p(3) by (simp add: same8_def)
  from put_proc_ok [OF S1 this p(1,2,5,6)] have "serving8 w i k2" "next_pid8 k2 = next_pid8 k1" "next_tid8 k2 = next_tid8 k1" by simp_all
  then show ?thesis using same8_serving [OF p(4)] p(3,4) by (simp add: same8_def grows_def)
qed

lemma keeps8_plain:
  assumes "\<And>k r k'. f k = Some (Inr (r, k')) \<Longrightarrow> plain8 k k'"
  shows "keeps8 False f"
proof (rule keeps8I)
  fix i k r k'
  assume S: "serving8 False i k" and r: "f k = Some (Inr (r, k'))"
  show "serving8 (False \<and> r = - 1) i k' \<and> grows k k'"
    using assms [OF r, unfolded plain8_def] S same8_serving [of k k' False i] same8_grows [of k k'] put8_ok [OF S] by auto
qed

lemmas call_splits = option.split_asm if_split_asm prod.split_asm

lemma keeps8_write: "keeps8 False (sys8_write env L fd buf cnt)"
  by (rule keeps8_plain) (auto simp: sys8_write_def with_store8_def split: call_splits)

lemma keeps8_read: "keeps8 False (sys8_read env L fd buf cnt)"
  by (rule keeps8_plain) (auto simp: sys8_read_def with_store8_def split: call_splits)

lemma keeps8_open: "keeps8 False (sys8_open env L path flags)"
  by (rule keeps8_plain) (auto simp: sys8_open_def with_store8_def Let_def split: call_splits)

lemma keeps8_close: "keeps8 False (sys8_close fd)"
  by (rule keeps8_plain) (auto simp: sys8_close_def split: call_splits)

lemma keeps8_pipe: "keeps8 False (sys8_pipe env pipe)"
  by (rule keeps8_plain) (auto simp: sys8_pipe_def Let_def split: call_splits)

lemma keeps8_getpid: "keeps8 False sys8_getpid"
  by (rule keeps8_plain) (auto simp: sys8_getpid_def)

lemma keeps8_clock: "keeps8 False (clock_gettime8 env clock_id tp)"
  by (rule keeps8_plain) (auto simp: clock_gettime8_def Let_def split: call_splits)

lemma keeps8_sigaction: "keeps8 False (sys8_sigaction env signum action old_action)"
  by (rule keeps8_plain)
    (auto simp: sys8_sigaction_def give_old_action_def take_new_action_def split: call_splits)

lemma keeps8_sigprocmask: "keeps8 False (sys8_sigprocmask msk)"
  by (rule keeps8_plain) (auto simp: sys8_sigprocmask_def split: call_splits)

lemma keeps8_gettid: "keeps8 False sys8_gettid"
  by (rule keeps8_plain) (auto simp: sys8_gettid_def)

lemma keeps8_kill: "keeps8 False (sys8_kill pid signum)"
proof (rule keeps8I)
  fix i k r k'
  assume S: "serving8 False i k" and r: "sys8_kill pid signum k = Some (Inr (r, k'))"
  consider "k' = k" | pr sg where "ptm_get_proc proc_table_ops (isize_as_usize pid) (processor8 k) = Inr (Some pr)"
      "put_proc_at (isize_as_usize pid) (pr\<lparr>p8_signal := sg\<rparr>) k = Inr k'"
    using r by (auto simp: sys8_kill_def split: call_splits)
  then show "serving8 (False \<and> r = - 1) i k' \<and> grows k k'"
  proof cases
    case 2
    from put_proc_at_ok [OF S this] show ?thesis by (simp add: grows_def)
  qed (use S in \<open>simp add: grows_def\<close>)
qed

lemma waits_place [simp]:
  "place (Some (semaphore_new n)) (semaphore_list p) = (i, xs) \<Longrightarrow> waits (p\<lparr>semaphore_list := xs\<rparr>) = waits p"
  "place (if blocking then Some mutex_new else None) (mutex_list p) = (i, ys) \<Longrightarrow> waits (p\<lparr>mutex_list := ys\<rparr>) = waits p"
  "place (Some condvar_new) (condvar_list p) = (i, zs) \<Longrightarrow> waits (p\<lparr>condvar_list := zs\<rparr>) = waits p"
  using queues_place [of _ _ i xs sem_wait_queue] queues_place [of _ _ i ys mutex_wait_queue] queues_place [of _ _ i zs cond_wait_queue]
  by (simp_all add: waits_def semaphore_new_def mutex_new_def condvar_new_def)

lemma keeps8_create:
  "keeps8 False (sys8_semaphore_create n)" "keeps8 False (sys8_mutex_create blocking)" "keeps8 False (sys8_condvar_create n)"
  by (rule keeps8_plain; auto simp: sys8_semaphore_create_def sys8_mutex_create_def sys8_condvar_create_def split: prod.split_asm)+

section \<open>Synchronisation calls\<close>

lemma mset_exchange:
  fixes A :: "nat multiset"
  assumes "A' + Q = A + Q'" "Q' + V = Q + B"
  shows "A' + V = A + B"
proof -
  have "(A' + V) + Q = (A + B) + Q" using assms by (metis add.assoc add.commute)
  then show ?thesis by simp
qed

text \<open>What an operation does to one wait queue it does to the wait queues of the process.\<close>

lemma waits_slot:
  "slot j (mutex_list p) = Inr m \<Longrightarrow> mset (mutex_wait_queue m') + V = mset (mutex_wait_queue m) + B \<Longrightarrow>
   mset (waits (p\<lparr>mutex_list := (mutex_list p)[j := Some m']\<rparr>)) + V = mset (waits p) + B"
  "slot j (semaphore_list p) = Inr s \<Longrightarrow> mset (sem_wait_queue s') + V = mset (sem_wait_queue s) + B \<Longrightarrow>
   mset (waits (p\<lparr>semaphore_list := (semaphore_list p)[j := Some s']\<rparr>)) + V = mset (waits p) + B"
  "slot j (condvar_list p) = Inr c \<Longrightarrow> mset (cond_wait_queue c') + V = mset (cond_wait_queue c) + B \<Longrightarrow>
   mset (waits (p\<lparr>condvar_list := (condvar_list p)[j := Some c']\<rparr>)) + V = mset (waits p) + B"
  using queues_update [of j "mutex_list p" m mutex_wait_queue m'] queues_update [of j "semaphore_list p" s sem_wait_queue s']
    queues_update [of j "condvar_list p" c cond_wait_queue c']
  by (auto simp: slot_Inr waits_def intro: mset_exchange [where Q = "mset (mutex_wait_queue m)" and Q' = "mset (mutex_wait_queue m')"]
      mset_exchange [where Q = "mset (sem_wait_queue s)" and Q' = "mset (sem_wait_queue s')"]
      mset_exchange [where Q = "mset (cond_wait_queue c)" and Q' = "mset (cond_wait_queue c')"])

lemma slot_subset: "slot j (mutex_list p) = Inr m \<Longrightarrow> set (mutex_wait_queue m) \<subseteq> set (waits p)"
  by (fastforce simp: slot_Inr waits_def queues_def dest: nth_mem)

lemma woken_subset: "mset ws' + woken v = mset ws \<Longrightarrow> set_option v \<subseteq> set ws"
  by (drule arg_cong [of _ _ set_mset]) (cases v; auto simp: woken_def)

text \<open>
  The common step of all synchronisation calls: the object of the process is replaced, at most one thread \<open>v\<close> is woken, and the caller
  is in a wait queue afterwards unless \<open>b\<close>.
\<close>

lemma sync_ok:
  assumes S: "serving8 False i k" and p: "k8_proc k = Inr pr" and put: "put_proc pr' k = Inr k1" and wk: "wake v k1 = Inr k2"
    and pid: "p8_pid pr' = p8_pid pr" and ws: "mset (waits pr') + woken v = mset (waits pr) + (if b then {#} else {#i#})"
    and v: "set_option v \<subseteq> set (waits pr)"
  shows "serving8 (\<not> b) i k2 \<and> grows k k2"
proof -
  let ?pm = "processor8 k" and ?n = "next_pid8 k" and ?k = "next_tid8 k"
  have I: "pr8_inv False ?n ?k ?pm" and c: "pt_current ?pm = Some i" using S by (simp_all add: serving8_def k8_inv_def)
  obtain m mp where m: "pt_manager ?pm = Some m" "proc_manager ?pm = Some mp" "ch8_inv ?n ?k (mset (tm_ready_queue m)) ?pm"
    "objects_ok m mp" "accounted False ?k (set (tm_ready_queue m)) (pt_current ?pm) (tid2pid ?pm) (waits_at mp)"
    by (rule pr8_invE [OF I])
  define p where "p = p8_pid pr"
  note eq = put_proc_eq [OF S refl \<open>k8_proc k = Inr pr\<close>, folded p_def]
  have pr: "procs mp p = Some pr" using eq(2) m(2) by (simp add: ptm_get_proc_def proc_table_ops_def pt_get_def)
  define mp' where "mp' = mp\<lparr>procs := (procs mp)(p \<mapsto> pr')\<rparr>"
  have k1: "k1 = k\<lparr>processor8 := ?pm\<lparr>proc_manager := Some mp'\<rparr>\<rparr>"
    using put eq(1) m(2) by (simp add: put_proc_at_def proc_table_ops_def pt_insert_def mp'_def)
  have "ch8_inv ?n ?k (mset (tm_ready_queue m)) (?pm\<lparr>pt_manager := Some m, proc_manager := Some mp'\<rparr>)"
    using pr by (intro ch8_inv_tables [OF m(3,1,2)]) (auto simp: mp'_def)
  moreover have "?pm\<lparr>pt_manager := Some m, proc_manager := Some mp'\<rparr> = ?pm\<lparr>proc_manager := Some mp'\<rparr>" using m(1) by simp
  ultimately have c1: "ch8_inv ?n ?k (mset (tm_ready_queue m)) (?pm\<lparr>proc_manager := Some mp'\<rparr>)" by (simp only:)
  have ob: "objects_ok m mp'" using m(4) pid [folded p_def] by (simp add: objects_ok_def mp'_def)
  have i: "i < ?k" "i \<notin> set (tm_ready_queue m)"
    using m(3) c unfolding ch8_inv_def ptm_inv_def threads_wf_def by auto
  have wp: "waits_at mp p = waits pr" "waits_at mp' = (waits_at mp)(p := waits pr')"
    using pr by (auto simp: waits_at_def mp'_def fun_eq_iff)
  have A: "accounted (\<not> b) ?k (set (tm_ready_queue m) \<union> set_option v) (Some i) (tid2pid ?pm) (waits_at mp')"
    unfolding wp(2) by (rule accounted_sync) (use m(5) c eq(3) i ws v wp(1) in simp_all)
  show ?thesis
  proof (cases v)
    case None
    then have "k2 = k1" using wk by (simp add: wake_def)
    then show ?thesis using None A c c1 ob m(1) by (simp add: k1 serving8_def k8_inv_def pr8_inv_def grows_def)
  next
    case (Some t)
    then have t: "t \<in> set (waits_at mp p)" using v wp(1) by simp
    have tk: "t < ?k" "t \<notin># mset (tm_ready_queue m)" "pt_current (?pm\<lparr>proc_manager := Some mp'\<rparr>) \<noteq> Some t"
      using accountedD(2,3,5) [OF m(5) t] by auto
    define m' where "m' = m\<lparr>tm_ready_queue := tm_ready_queue m @ [t]\<rparr>"
    have e: "ptm_re_enque fifo_ops t (?pm\<lparr>proc_manager := Some mp'\<rparr>) = Inr (?pm\<lparr>proc_manager := Some mp', pt_manager := Some m'\<rparr>)"
      using m(1) by (simp add: ptm_re_enque_def fifo_ops_def tm_add_def m'_def)
    have "ch8_inv ?n ?k (add_mset t (mset (tm_ready_queue m))) (?pm\<lparr>proc_manager := Some mp', pt_manager := Some m'\<rparr>)"
      using ch8.thread_re_enque_inv [folded ch8_inv_def, OF c1 tk] e by simp
    moreover have "objects_ok m' mp'" using ob by (simp add: m'_def objects_ok_def)
    moreover have "k2 = k\<lparr>processor8 := ?pm\<lparr>proc_manager := Some mp', pt_manager := Some m'\<rparr>\<rparr>"
      using wk Some e by (simp add: wake_def k1)
    moreover have "tm_ready_queue m' = tm_ready_queue m @ [t]" by (simp add: m'_def)
    ultimately show ?thesis
      using A c Some by (simp add: serving8_def k8_inv_def pr8_inv_def grows_def)
  qed
qed

lemma waits_release [simp]:
  "slot j (mutex_list p) = Inr m \<Longrightarrow> mutex_unlock m = Inr (v, m') \<Longrightarrow>
   mset (waits (p\<lparr>mutex_list := (mutex_list p)[j := Some m']\<rparr>)) + woken v = mset (waits p)"
  "slot j (semaphore_list p) = Inr s \<Longrightarrow> semaphore_up s = Inr (v, s') \<Longrightarrow>
   mset (waits (p\<lparr>semaphore_list := (semaphore_list p)[j := Some s']\<rparr>)) + woken v = mset (waits p)"
  "slot j (condvar_list p) = Inr c \<Longrightarrow> condvar_signal c = (v, c') \<Longrightarrow>
   mset (waits (p\<lparr>condvar_list := (condvar_list p)[j := Some c']\<rparr>)) + woken v = mset (waits p)"
  by (blast intro: waits_slot [where B = "{#}" and V = "woken v", simplified] release_queue)+

definition released :: "('f, 'h, 's) kernel8 \<Rightarrow> ('f, 'h, 's) kernel8 \<Rightarrow> bool" where
  "released k k' \<longleftrightarrow> (\<exists>pr pr' k1 v. k8_proc k = Inr pr \<and> put_proc pr' k = Inr k1 \<and> wake v k1 = Inr k' \<and> p8_pid pr' = p8_pid pr \<and>
     mset (waits pr') + woken v = mset (waits pr))"

lemma released_wake [simp]:
  "wake v k1 = Inr k' \<Longrightarrow> put_proc pr' k = Inr k1 \<Longrightarrow> k8_proc k = Inr pr \<Longrightarrow> p8_pid pr' = p8_pid pr \<Longrightarrow>
   mset (waits pr') + woken v = mset (waits pr) \<Longrightarrow> released k k'"
  unfolding released_def by blast

lemma keeps8_releases:
  assumes "\<And>k r k'. f k = Some (Inr (r, k')) \<Longrightarrow> released k k'"
  shows "keeps8 False f"
proof (rule keeps8I)
  fix i k r k'
  assume S: "serving8 False i k" and "f k = Some (Inr (r, k'))"
  then obtain pr pr' k1 v where r: "k8_proc k = Inr pr" "put_proc pr' k = Inr k1" "wake v k1 = Inr k'" "p8_pid pr' = p8_pid pr"
    "mset (waits pr') + woken v = mset (waits pr)" using assms unfolding released_def by blast
  show "serving8 (False \<and> r = - 1) i k' \<and> grows k k'"
    using sync_ok [OF S r(1-4), where b = True] r(5) woken_subset [OF r(5)] by simp
qed

lemma keeps8_release:
  "keeps8 False (sys8_semaphore_up j)" "keeps8 False (sys8_mutex_unlock j)" "keeps8 False (sys8_condvar_signal j)"
  by (rule keeps8_releases; auto simp: sys8_semaphore_up_def sys8_mutex_unlock_def sys8_condvar_signal_def split: prod.split_asm)+

text \<open>The calls that can block.\<close>

definition acquired :: "('f, 'h, 's) kernel8 \<Rightarrow> int \<Rightarrow> ('f, 'h, 's) kernel8 \<Rightarrow> bool" where
  "acquired k r k' \<longleftrightarrow> (\<exists>th pr pr' k1 v b. k8_thread k = Inr th \<and> k8_proc k = Inr pr \<and> put_proc pr' k = Inr k1 \<and>
     wake v k1 = Inr k' \<and> p8_pid pr' = p8_pid pr \<and> r = (if b then 0 else - 1) \<and>
     mset (waits pr') + woken v = mset (waits pr) + (if b then {#} else {#thread_tid th#}) \<and> set_option v \<subseteq> set (waits pr))"

lemma acquiredI:
  "k8_thread k = Inr th \<Longrightarrow> k8_proc k = Inr pr \<Longrightarrow> put_proc pr' k = Inr k1 \<Longrightarrow> wake v k1 = Inr k' \<Longrightarrow> p8_pid pr' = p8_pid pr \<Longrightarrow>
   r = (if b then 0 else - 1) \<Longrightarrow> mset (waits pr') + woken v = mset (waits pr) + (if b then {#} else {#thread_tid th#}) \<Longrightarrow>
   set_option v \<subseteq> set (waits pr) \<Longrightarrow> acquired k r k'"
  unfolding acquired_def by blast

lemma keeps8_acquires:
  assumes "\<And>k r k'. f k = Some (Inr (r, k')) \<Longrightarrow> acquired k r k'"
  shows "keeps8 True f"
proof (rule keeps8I)
  fix i k r k'
  assume S: "serving8 False i k" and "f k = Some (Inr (r, k'))"
  then obtain th pr pr' k1 v b where r: "k8_thread k = Inr th" "k8_proc k = Inr pr" "put_proc pr' k = Inr k1" "wake v k1 = Inr k'"
    "p8_pid pr' = p8_pid pr" "r = (if b then 0 else - 1)"
    "mset (waits pr') + woken v = mset (waits pr) + (if b then {#} else {#thread_tid th#})" "set_option v \<subseteq> set (waits pr)"
    using assms unfolding acquired_def by metis
  have "thread_tid th = i" by (rule k8_thread_tid [OF S r(1)])
  then show "serving8 (True \<and> r = - 1) i k' \<and> grows k k'"
    using sync_ok [OF S r(2-5) _ r(8), of b] r(6,7) by (cases b) simp_all
qed

lemma keeps8_mutex_lock: "keeps8 True (sys8_mutex_lock j)"
proof (rule keeps8_acquires)
  fix k r k'
  assume "sys8_mutex_lock j k = Some (Inr (r, k'))"
  then obtain th pr m b m' where c: "k8_thread k = Inr th" "k8_proc k = Inr pr" "slot j (mutex_list pr) = Inr m"
    "mutex_lock (thread_tid th) m = Inr (b, m')" "put_proc (pr\<lparr>mutex_list := (mutex_list pr)[j := Some m']\<rparr>) k = Inr k'"
    "r = (if b then 0 else - 1)"
    by (auto simp: sys8_mutex_lock_def)
  show "acquired k r k'"
    by (rule acquiredI [OF c(1,2,5), where v = None and b = b])
      (use c(6) waits_slot(1) [OF c(3), of m' "woken None"] acquire_queue(2) [OF c(4)] in \<open>simp_all add: wake_def woken_def\<close>)
qed

lemma keeps8_semaphore_down: "keeps8 True (sys8_semaphore_down j)"
proof (rule keeps8_acquires)
  fix k r k'
  assume "sys8_semaphore_down j k = Some (Inr (r, k'))"
  then obtain th pr s b s' where c: "k8_thread k = Inr th" "k8_proc k = Inr pr" "slot j (semaphore_list pr) = Inr s"
    "semaphore_down (thread_tid th) s = Inr (b, s')" "put_proc (pr\<lparr>semaphore_list := (semaphore_list pr)[j := Some s']\<rparr>) k = Inr k'"
    "r = (if b then 0 else - 1)"
    by (auto simp: sys8_semaphore_down_def)
  show "acquired k r k'"
    by (rule acquiredI [OF c(1,2,5), where v = None and b = b])
      (use c(6) waits_slot(2) [OF c(3), of s' "woken None"] acquire_queue(1) [OF c(4)] in \<open>simp_all add: wake_def woken_def\<close>)
qed

lemma keeps8_condvar_wait: "keeps8 True (sys8_condvar_wait j l)"
proof (rule keeps8_acquires)
  fix k r k'
  assume "sys8_condvar_wait j l k = Some (Inr (r, k'))"
  then obtain th pr m b v m' k1 where c: "k8_thread k = Inr th" "k8_proc k = Inr pr" "slot l (mutex_list pr) = Inr m"
    "condvar_wait_with_mutex (thread_tid th) m = Inr ((b, v), m')"
    "put_proc (pr\<lparr>mutex_list := (mutex_list pr)[l := Some m']\<rparr>) k = Inr k1" "wake v k1 = Inr k'" "r = (if b then 0 else - 1)"
    by (auto simp: sys8_condvar_wait_def)
  show "acquired k r k'"
    by (rule acquiredI [OF c(1,2,5,6), of r b])
      (use c(7) waits_slot(1) [OF c(3) condvar_wait_queue(1) [OF c(4)]] condvar_wait_queue(2) [OF c(4)] slot_subset [OF c(3)] in auto)
qed

section \<open>New processes and threads\<close>

lemma serving8_mono:
  assumes "serving8 w i k" "processor8 k' = processor8 k" "next_pid8 k \<le> next_pid8 k'" "next_pid8 k' \<le> pid_any" "next_tid8 k \<le> next_tid8 k'"
  shows "serving8 w i k'"
  using assms pr8_inv_mono [of w "next_pid8 k" "next_tid8 k" "processor8 k" "next_pid8 k'" "next_tid8 k'"]
  by (simp add: serving8_def k8_inv_def)

lemma current_pid_live:
  assumes "serving8 w i k" "k8_proc k = Inr pr"
  shows "p8_pid pr \<in> dom (pt_rel_map (processor8 k))"
proof -
  have "pr8_inv w (next_pid8 k) (next_tid8 k) (processor8 k)" using assms(1) by (simp add: serving8_def k8_inv_def)
  then obtain m mp where "proc_manager (processor8 k) = Some mp" "dom (procs mp) = dom (pt_rel_map (processor8 k))"
    by (rule pr8_invE)
  then show ?thesis
    using put_proc_eq(2) [OF assms(1) refl assms(2)] by (auto simp: ptm_get_proc_def proc_table_ops_def pt_get_def)
qed

text \<open>A thread with the next id is added to a live process.\<close>

lemma thread_added:
  assumes S: "serving8 False i k" and a: "ptm_add fifo_ops (next_tid8 k) th p (processor8 k) = Inr pm"
    and th: "thread_tid th = next_tid8 k" and p: "p \<in> dom (pt_rel_map (processor8 k))"
  shows "serving8 False i (k\<lparr>processor8 := pm, next_tid8 := next_tid8 k + 1\<rparr>)"
proof -
  let ?pm = "processor8 k" and ?n = "next_pid8 k" and ?k = "next_tid8 k"
  have I: "pr8_inv False ?n ?k ?pm" and c: "pt_current ?pm = Some i" using S by (simp_all add: serving8_def k8_inv_def)
  obtain m mp where m: "pt_manager ?pm = Some m" "proc_manager ?pm = Some mp" "ch8_inv ?n ?k (mset (tm_ready_queue m)) ?pm"
    "objects_ok m mp" "accounted False ?k (set (tm_ready_queue m)) (pt_current ?pm) (tid2pid ?pm) (waits_at mp)"
    by (rule pr8_invE [OF I])
  obtain pm' where pm': "ptm_add fifo_ops ?k th p ?pm = Inr pm'" "ch8_inv ?n (?k + 1) (add_mset ?k (mset (tm_ready_queue m))) pm'"
    "pt_current pm' = pt_current ?pm" "tid2pid pm' = (tid2pid ?pm)(?k \<mapsto> p)"
    using ch8.thread_add_inv [folded ch8_inv_def, OF m(3) p] by blast
  let ?m = "m\<lparr>tm_tasks := (tm_tasks m)(?k \<mapsto> th), tm_ready_queue := tm_ready_queue m @ [?k]\<rparr>"
  have t: "pt_manager pm' = Some ?m" "proc_manager pm' = Some mp"
    using pm'(1) m(1,2) by (auto simp: ptm_add_def fifo_ops_def tm_insert_def tm_add_def Let_def split: option.split_asm)
  have fresh: "tid2pid ?pm ?k = None" "i \<noteq> ?k"
    using m(3) c threads_wf_fresh [of ?k "tid2pid ?pm" "pt_rel_map ?pm"] by (auto simp: ch8_inv_def ptm_inv_def)
  have "accounted False (?k + 1) (insert ?k (set (tm_ready_queue m))) (Some i) ((tid2pid ?pm)(?k \<mapsto> p)) (waits_at mp)"
    by (rule accounted_new_thread) (use m(5) c fresh in simp_all)
  moreover have "objects_ok ?m mp" using m(4) th by (simp add: objects_ok_def)
  ultimately show ?thesis using a pm' t c by (simp add: serving8_def k8_inv_def pr8_inv_def)
qed

lemma proc_added:
  assumes S: "serving8 False i k" and a: "ptm_add_proc proc_table_ops (next_pid8 k) pr p (processor8 k) = Inr pm"
    and pr: "p8_pid pr = next_pid8 k" "waits pr = []" and p: "p \<in> dom (pt_rel_map (processor8 k))" and n: "next_pid8 k < pid_any"
  shows "serving8 False i (k\<lparr>processor8 := pm, next_pid8 := next_pid8 k + 1\<rparr>)" and "next_pid8 k \<in> dom (pt_rel_map pm)"
proof -
  let ?pm = "processor8 k" and ?n = "next_pid8 k" and ?k = "next_tid8 k"
  have I: "pr8_inv False ?n ?k ?pm" and c: "pt_current ?pm = Some i" using S by (simp_all add: serving8_def k8_inv_def)
  obtain m mp where m: "pt_manager ?pm = Some m" "proc_manager ?pm = Some mp" "ch8_inv ?n ?k (mset (tm_ready_queue m)) ?pm"
    "objects_ok m mp" "accounted False ?k (set (tm_ready_queue m)) (pt_current ?pm) (tid2pid ?pm) (waits_at mp)"
    "dom (procs mp) = dom (pt_rel_map ?pm)"
    by (rule pr8_invE [OF I])
  obtain pm' where pm': "ptm_add_proc proc_table_ops ?n pr p ?pm = Inr pm'" "ch8_inv (?n + 1) ?k (mset (tm_ready_queue m)) pm'"
    "pt_current pm' = pt_current ?pm" "tid2pid pm' = tid2pid ?pm" "dom (pt_rel_map pm') = insert ?n (dom (pt_rel_map ?pm))"
    using ch8.thread_add_proc_inv [folded ch8_inv_def, OF m(3) p n, of pr] by blast
  let ?mp = "mp\<lparr>procs := (procs mp)(?n \<mapsto> pr)\<rparr>"
  have t: "pt_manager pm' = Some m" "proc_manager pm' = Some ?mp"
    using pm'(1) m(1,2) by (auto simp: ptm_add_proc_def proc_table_ops_def pt_insert_def Let_def)
  have "tree_wf ?n (pt_rel_map ?pm)" using m(3) by (simp add: ch8_inv_def ptm_inv_def)
  then have "procs mp ?n = None" using m(6) tree_wf_node [of ?n "pt_rel_map ?pm" ?n] by (fastforce simp: node_wf_def)
  then have "waits_at ?mp = waits_at mp" using pr(2) by (auto simp: waits_at_def fun_eq_iff)
  moreover have "objects_ok m ?mp" using m(4) pr(1) by (simp add: objects_ok_def)
  ultimately show "serving8 False i (k\<lparr>processor8 := pm, next_pid8 := next_pid8 k + 1\<rparr>)" "next_pid8 k \<in> dom (pt_rel_map pm)"
    using a pm' t c m(5) by (simp_all add: serving8_def k8_inv_def pr8_inv_def)
qed

lemma id_new_small: "n < pid_any \<Longrightarrow> proc_id_new n = (n, n + 1)" "n < pid_any \<Longrightarrow> thread_id_new n = (n, n + 1)"
  by (simp_all add: proc_id_new_def thread_id_new_def)

definition fresh8 :: "('f, 'h, 's) kernel8 \<Rightarrow> 'f process8 \<Rightarrow> thread \<Rightarrow> ('f, 'h, 's) kernel8 \<Rightarrow> bool" where
  "fresh8 k pr th k' \<longleftrightarrow> processor8 k' = processor8 k \<and> next_pid8 k' = next_pid8 k + 1 \<and> next_tid8 k' = next_tid8 k + 1 \<and>
     p8_pid pr = next_pid8 k \<and> thread_tid th = next_tid8 k \<and> waits pr = []"

lemma from_elf8_ok:
  "from_elf8 env elf k = Some (Inr (Some (pr, th), k')) \<Longrightarrow> ids_ok k \<Longrightarrow> fresh8 k pr th k'"
  by (auto simp: from_elf8_def ids_ok_def fresh8_def thread_new_def id_new_small waits_def queues_def Let_def split: call_splits)

lemma fork8_ok:
  "fork8 env p k = Some (Inr ((pr, th), k')) \<Longrightarrow> ids_ok k \<Longrightarrow> fresh8 k pr th k'"
  by (auto simp: fork8_def ids_ok_def fresh8_def thread_new_def id_new_small waits_def queues_def Let_def split: call_splits)

lemma main_thread_ok:
  assumes S: "serving8 w i k" and t: "main_thread p k = Inr (t, th)"
  shows "thread_tid th = t \<and> tid2pid (processor8 k) t \<noteq> None"
proof -
  have I: "pr8_inv w (next_pid8 k) (next_tid8 k) (processor8 k)" using S by (simp add: serving8_def k8_inv_def)
  obtain m mp where m: "pt_manager (processor8 k) = Some m" "objects_ok m mp" "dom (tm_tasks m) = dom (tid2pid (processor8 k))"
    "proc_manager (processor8 k) = Some mp"
    by (rule pr8_invE [OF I])
  moreover have "tm_tasks m t = Some th"
    using t m(1) by (auto simp: main_thread_def ptm_get_task_def fifo_ops_def tm_get_def)
  ultimately show ?thesis by (auto simp: objects_ok_def)
qed

lemma keeps8_sigreturn: "keeps8 False sys8_sigreturn"
proof (rule keeps8I)
  fix i k r k'
  assume S: "serving8 False i k" and r: "sys8_sigreturn k = Some (Inr (r, k'))"
  obtain pr th sg ctx k1 where c: "k8_proc k = Inr pr" "k8_thread k = Inr th" "put_proc (pr\<lparr>p8_signal := sg\<rparr>) k = Inr k1"
    "put_thread (th\<lparr>thread_context := (thread_context th)\<lparr>fc_context := ctx\<rparr>\<rparr>) k1 = Inr k'"
    using r by (auto simp: sys8_sigreturn_def split: prod.split_asm)
  have "thread_tid th = i" by (rule k8_thread_tid [OF S c(2)])
  then show "serving8 (False \<and> r = - 1) i k' \<and> grows k k'"
    using put_proc_ok [OF S refl c(1,3)] put_thread_ok [OF _ c(4), of False i] by (simp add: grows_def)
qed

lemma keeps8_fork: "keeps8 False (sys8_fork env)"
proof (rule keeps8I)
  fix i k r k'
  assume S: "serving8 False i k" and ids: "ids_ok k" and r: "sys8_fork env k = Some (Inr (r, k'))"
  obtain p pr th k1 ctx pm1 pm2 where c: "k8_proc k = Inr p" "fork8 env p k = Some (Inr ((pr, th), k1))"
    "ptm_add_proc proc_table_ops (p8_pid pr) pr (p8_pid p) (processor8 k1) = Inr pm1"
    "ptm_add fifo_ops (thread_tid th) (th\<lparr>thread_context := (thread_context th)\<lparr>fc_context := ctx\<rparr>\<rparr>) (p8_pid pr) pm1 = Inr pm2"
    "k' = k1\<lparr>processor8 := pm2\<rparr>"
    using r by (auto simp: sys8_fork_def)
  have f: "processor8 k1 = processor8 k" "next_pid8 k1 = next_pid8 k + 1" "next_tid8 k1 = next_tid8 k + 1"
    "p8_pid pr = next_pid8 k" "thread_tid th = next_tid8 k" "waits pr = []"
    using fork8_ok [OF c(2) ids] by (simp_all add: fresh8_def)
  have n: "next_pid8 k < pid_any" using ids by (simp add: ids_ok_def)
  let ?k2 = "k\<lparr>processor8 := pm1, next_pid8 := next_pid8 k + 1\<rparr>"
  have a: "ptm_add_proc proc_table_ops (next_pid8 k) pr (p8_pid p) (processor8 k) = Inr pm1" using c(3) f by simp
  have S2: "serving8 False i ?k2" and d: "next_pid8 k \<in> dom (pt_rel_map pm1)"
    using proc_added [OF S a f(4,6) current_pid_live [OF S c(1)] n] by simp_all
  have "serving8 False i (?k2\<lparr>processor8 := pm2, next_tid8 := next_tid8 ?k2 + 1\<rparr>)"
    using thread_added [OF S2, of "th\<lparr>thread_context := (thread_context th)\<lparr>fc_context := ctx\<rparr>\<rparr>" "next_pid8 k" pm2] c(4) f d by simp
  then have "serving8 False i k'" using f(2,3) by (simp add: c(5) serving8_def k8_inv_def)
  then show "serving8 (False \<and> r = - 1) i k' \<and> grows k k'" using f by (simp add: c(5) grows_def)
qed

lemma keeps8_thread_create: "keeps8 False (sys8_thread_create env entry arg)"
proof (rule keeps8I)
  fix i k r k'
  assume S: "serving8 False i k" and ids: "ids_ok k" and r: "sys8_thread_create env entry arg k = Some (Inr (r, k'))"
  obtain p sp mc k1 ctx th k2 pm where c: "k8_proc k = Inr p"
    "put_proc (p\<lparr>p8_space := (p8_space p)\<lparr>us_space := sp\<rparr>\<rparr>) (k\<lparr>machine8 := mc\<rparr>) = Inr k1"
    "thread_new (satp_of (us_root (p8_space p))) ctx k1 = (th, k2)"
    "ptm_add fifo_ops (thread_tid th) th (p8_pid p) (processor8 k2) = Inr pm" "k' = k2\<lparr>processor8 := pm\<rparr>"
    using r by (auto simp: sys8_thread_create_def Let_def split: option.split_asm prod.split_asm)
  have S1: "serving8 False i (k\<lparr>machine8 := mc\<rparr>)" using S by simp
  have k1: "serving8 False i k1" "next_pid8 k1 = next_pid8 k" "next_tid8 k1 = next_tid8 k"
    using put_proc_ok [OF S1 _ c(1) c(2)] by simp_all
  have rm: "pt_rel_map (processor8 k1) = pt_rel_map (processor8 k)"
    using c(2) by (auto simp: put_proc_def put_proc_at_def)
  have t: "thread_tid th = next_tid8 k1" "k2 = k1\<lparr>next_tid8 := next_tid8 k1 + 1\<rparr>"
    using c(3) ids k1(3) by (auto simp: ids_ok_def id_new_small thread_new_def)
  have "serving8 False i (k1\<lparr>processor8 := pm, next_tid8 := next_tid8 k1 + 1\<rparr>)"
    by (rule thread_added [OF k1(1), of th "p8_pid p"]) (use c(4) t current_pid_live [OF S c(1)] rm in simp_all)
  then have "serving8 False i k'" by (simp add: c(5) t(2) serving8_def k8_inv_def)
  then show "serving8 (False \<and> r = - 1) i k' \<and> grows k k'" using k1(2,3) by (simp add: c(5) t(2) grows_def)
qed

lemma keeps8_exec: "keeps8 False (sys8_exec env L path cnt)"
proof (rule keeps8I)
  fix i k r k'
  assume S: "serving8 False i k" and ids: "ids_ok k" and r: "sys8_exec env L path cnt k = Some (Inr (r, k'))"
  obtain p where p: "k8_proc k = Inr p" using r by (auto simp: sys8_exec_def)
  consider "same8 k k'" | elf s where "exec8 env elf p (k\<lparr>store8 := s\<rparr>) = Some (Inr k')"
    using r p by (auto simp: sys8_exec_def with_store8_def split: option.split_asm)
  then show "serving8 (False \<and> r = - 1) i k' \<and> grows k k'"
  proof cases
    case 2
    define k1 where "k1 = k\<lparr>store8 := s\<rparr>"
    have k1: "processor8 k1 = processor8 k" "next_pid8 k1 = next_pid8 k" "next_tid8 k1 = next_tid8 k" by (simp_all add: k1_def)
    obtain pr th k2 k3 t main where c: "from_elf8 env elf k1 = Some (Inr (Some (pr, th), k2))"
      "put_proc (p\<lparr>p8_space := p8_space pr\<rparr>) k2 = Inr k3" "main_thread (p8_pid p) k3 = Inr (t, main)"
      "put_task t (main\<lparr>thread_context := thread_context th\<rparr>) k3 = Inr k'"
      using 2 [folded k1_def] by (auto simp: exec8_def)
    have f: "processor8 k2 = processor8 k" "next_pid8 k2 = next_pid8 k + 1" "next_tid8 k2 = next_tid8 k + 1"
      using from_elf8_ok [OF c(1)] ids k1 by (simp_all add: fresh8_def ids_ok_def)
    have S2: "serving8 False i k2" by (rule serving8_mono [OF S]) (use f ids in \<open>simp_all add: ids_ok_def\<close>)
    have S3: "serving8 False i k3" "next_pid8 k3 = next_pid8 k2" "next_tid8 k3 = next_tid8 k2"
      using put_proc_ok [OF S2 _ p c(2)] f(1) by simp_all
    have "thread_tid main = t" "tid2pid (processor8 k3) t \<noteq> None" using main_thread_ok [OF S3(1) c(3)] by simp_all
    then show ?thesis using put_task_ok [OF S3(1) c(4)] S3(2,3) f by (simp add: grows_def)
  qed (use S same8_serving [of k k' False i] same8_grows [of k k'] in simp)
qed

text \<open>The two wait calls change only the relations.\<close>

lemma relations_changed:
  assumes S: "serving8 w i k" and q: "ch8_inv (next_pid8 k) (next_tid8 k) (tm_ready (the (pt_manager (processor8 k)))) pm"
    and same: "pt_manager pm = pt_manager (processor8 k)" "proc_manager pm = proc_manager (processor8 k)"
      "pt_current pm = pt_current (processor8 k)" "tid2pid pm = tid2pid (processor8 k)"
  shows "serving8 w i (k\<lparr>processor8 := pm\<rparr>)"
  using assms by (auto simp: serving8_def k8_inv_def pr8_inv_def tm_ready_def)

lemma serving8_tinv:
  "serving8 w i k \<Longrightarrow> ch8_inv (next_pid8 k) (next_tid8 k) (tm_ready (the (pt_manager (processor8 k)))) (processor8 k)"
  by (auto simp: serving8_def k8_inv_def pr8_inv_def tm_ready_def)

lemma keeps8_wait: "keeps8 False (sys8_wait env pid ptr)"
proof (rule keeps8I)
  fix i k r k'
  assume S: "serving8 False i k" and r: "sys8_wait env pid ptr k = Some (Inr (r, k'))"
  have c: "pt_current (processor8 k) = Some i" using S by (simp add: serving8_def)
  obtain w pm where w: "ptm_wait (isize_as_usize pid) (processor8 k) = Inr (w, pm)"
    "ch8_inv (next_pid8 k) (next_tid8 k) (tm_ready (the (pt_manager (processor8 k)))) pm" "pt_current pm = Some i"
    "tid2pid pm = tid2pid (processor8 k)"
    using ch8.thread_wait_inv [folded ch8_inv_def, OF serving8_tinv [OF S] c] by blast
  have "pt_manager pm = pt_manager (processor8 k)" "proc_manager pm = proc_manager (processor8 k)"
    using w(1) by (auto simp: ptm_wait_def split: prod.split_asm)
  then have S1: "serving8 False i (k\<lparr>processor8 := pm\<rparr>)" using relations_changed [OF S w(2)] w(3,4) c by simp
  have "same8 (k\<lparr>processor8 := pm\<rparr>) k'" using r w(1) by (auto simp: sys8_wait_def Let_def split: option.split_asm option.split)
  then show "serving8 (False \<and> r = - 1) i k' \<and> grows k k'"
    using S1 same8_serving [of "k\<lparr>processor8 := pm\<rparr>" k' False i] by (simp add: same8_def grows_def)
qed

lemma keeps8_waittid: "keeps8 False (sys8_waittid tid)"
proof (rule keeps8I)
  fix i k r k'
  assume S: "serving8 False i k" and r: "sys8_waittid tid k = Some (Inr (r, k'))"
  have c: "pt_current (processor8 k) = Some i" using S by (simp add: serving8_def)
  obtain w pm where w: "ptm_waittid tid (processor8 k) = Inr (w, pm)"
    "ch8_inv (next_pid8 k) (next_tid8 k) (tm_ready (the (pt_manager (processor8 k)))) pm" "pt_current pm = Some i"
    "tid2pid pm = tid2pid (processor8 k)"
    using ch8.thread_waittid_inv [folded ch8_inv_def, OF serving8_tinv [OF S] c] by blast
  have "pt_manager pm = pt_manager (processor8 k)" "proc_manager pm = proc_manager (processor8 k)"
    using w(1) by (auto simp: ptm_waittid_def split: prod.split_asm)
  then have "serving8 False i (k\<lparr>processor8 := pm\<rparr>)" using relations_changed [OF S w(2)] w(3,4) c by simp
  moreover have "k' = k \<or> k' = k\<lparr>processor8 := pm\<rparr>" using r w(1) by (auto simp: sys8_waittid_def split: if_split_asm)
  ultimately show "serving8 (False \<and> r = - 1) i k' \<and> grows k k'" using S by (auto simp: grows_def)
qed

section \<open>All calls\<close>

lemmas keeps8_calls = keeps8_write keeps8_read keeps8_open keeps8_close keeps8_pipe keeps8_fork keeps8_exec keeps8_wait keeps8_getpid
  keeps8_clock keeps8_kill keeps8_sigaction keeps8_sigprocmask keeps8_sigreturn keeps8_thread_create keeps8_gettid keeps8_waittid
  keeps8_create keeps8_release keeps8_mutex_lock keeps8_semaphore_down keeps8_condvar_wait

fun blocking_call :: "syscall \<Rightarrow> bool" where
  "blocking_call (SysSemaphoreDown _) = True"
| "blocking_call (SysMutexLock _) = True"
| "blocking_call (SysCondvarWait _ _) = True"
| "blocking_call _ = False"

lemma decode_blocking: "decode j args = Some c \<Longrightarrow> blocking_call c \<longleftrightarrow> j \<in> set blocking_ids"
  by (auto simp: decode_def blocking_ids_def Let_def split: if_split_asm)

lemma keeps8_syscall: "keeps8 (blocking_call c) (syscall8 env L c)"
proof -
  have "keeps8 False (\<lambda>k. Some (Inr (v, k)))" "keeps8 False (\<lambda>k. Some (Inl Unimplemented))" for v
    by (rule keeps8_plain, simp)+
  then show ?thesis using keeps8_calls by (cases c) (simp_all add: syscall8.simps [abs_def])
qed

text \<open>What \<^verbatim>\<open>handle\<close> returns: the thread waits exactly when the loop is about to block it.\<close>

definition to_block :: "nat \<Rightarrow> syscall_result \<Rightarrow> bool" where
  "to_block j r \<longleftrightarrow> j \<in> set blocking_ids \<and> r = Done (- 1)"

lemma handle8_ok:
  assumes S: "serving8 False i k" and ids: "ids_ok k"
    and h: "handle subsystems8 (syscall8 env L) j args k = Some (Inr (r, k'))"
  shows "serving8 (to_block j r) i k' \<and> grows k k'"
proof (cases "decode j args")
  case None
  then show ?thesis using h S by (auto simp: handle_def to_block_def grows_def)
next
  case (Some c)
  note b = decode_blocking [OF Some]
  show ?thesis
  proof (cases "subsystem_of c \<in> subsystems8")
    case True
    then obtain ret where "syscall8 env L c k = Some (Inr (ret, k'))" "r = Done ret"
      using h Some by (auto simp: handle_def)
    then show ?thesis using keeps8_syscall [of c env L] S ids b unfolding keeps8_def to_block_def by auto
  next
    case False
    then show ?thesis using h Some S by (auto simp: handle_def to_block_def grows_def split: if_split_asm)
  qed
qed

section \<open>A turn of the main loop\<close>

lemma signal_step_ok:
  assumes S: "serving8 w i k" and r: "signal_step k = Inr (sr, k')"
  shows "serving8 w i k' \<and> next_pid8 k' = next_pid8 k \<and> next_tid8 k' = next_tid8 k"
proof -
  obtain pr th sg ctx k1 where c: "k8_proc k = Inr pr" "k8_thread k = Inr th" "put_proc (pr\<lparr>p8_signal := sg\<rparr>) k = Inr k1"
    "put_thread (th\<lparr>thread_context := (thread_context th)\<lparr>fc_context := ctx\<rparr>\<rparr>) k1 = Inr k'"
    using r by (auto simp: signal_step_def)
  have "thread_tid th = i" by (rule k8_thread_tid [OF S c(2)])
  then show ?thesis using put_proc_ok [OF S refl c(1,3)] put_thread_ok [OF _ c(4), of w i] by simp
qed

text \<open>The kernel between two turns.\<close>

definition idle8 :: "('f, 'h, 's) kernel8 \<Rightarrow> bool" where
  "idle8 k \<longleftrightarrow> k8_inv False k \<and> pt_current (processor8 k) = None"

lemma k8_exited_ok:
  assumes S: "serving8 w i k" and e: "k8_exited e k = Inr k'"
  shows "idle8 k' \<and> next_pid8 k' = next_pid8 k \<and> next_tid8 k' = next_tid8 k"
proof -
  let ?pm = "processor8 k" and ?n = "next_pid8 k" and ?k = "next_tid8 k"
  have I: "pr8_inv w ?n ?k ?pm" and c: "pt_current ?pm = Some i" using S by (simp_all add: serving8_def k8_inv_def)
  obtain m mp where m: "pt_manager ?pm = Some m" "proc_manager ?pm = Some mp" "ch8_inv ?n ?k (mset (tm_ready_queue m)) ?pm"
    "objects_ok m mp" "accounted w ?k (set (tm_ready_queue m)) (pt_current ?pm) (tid2pid ?pm) (waits_at mp)"
    by (rule pr8_invE [OF I])
  obtain pm rs where pm: "ptm_make_current_exited fifo_ops proc_table_ops e ?pm = Inr pm" "k' = k\<lparr>processor8 := pm, pipes8 := rs\<rparr>"
    using e by (auto simp: k8_exited_def)
  obtain p r where p: "tid2pid ?pm i = Some p" "pt_rel_map ?pm p = Some r"
    and x: "ch8_inv ?n ?k (mset (tm_ready_queue m)) pm" "pt_current pm = None" "tid2pid pm = (tid2pid ?pm)(i := None)"
      "ch8.exit_tables i p r ?pm pm"
    using ch8.thread_exited_cases [folded ch8_inv_def, OF m(3) c, of e] pm(1) by (metis Inl_Inr_False Inr_inject)
  let ?m = "m\<lparr>tm_tasks := (tm_tasks m)(i := None)\<rparr>"
  define mp' where "mp' = (if threads r = [i] then mp\<lparr>procs := (procs mp)(p := None)\<rparr> else mp)"
  have t: "pt_manager pm = Some ?m" "proc_manager pm = Some mp'"
    using x(4) [unfolded ch8.exit_tables_def] m(1,2) by (simp_all add: fifo_ops_def tm_delete_def proc_table_ops_def pt_delete_def mp'_def)
  have ob: "objects_ok ?m mp'" using m(4) by (simp add: objects_ok_def mp'_def)
  have A: "accounted False ?k (set (tm_ready_queue m)) None (tid2pid pm) (waits_at mp)"
    unfolding x(3) by (rule accounted_exit) (use m(5) c in simp)
  have "accounted False ?k (set (tm_ready_queue m)) None (tid2pid pm) (waits_at mp')"
  proof (cases "threads r = [i]")
    case True
    have "threads_node ?k (tid2pid ?pm) p r"
      using m(3) p(2) by (auto simp: ch8_inv_def ptm_inv_def intro: threads_wf_node)
    then have "tid2pid pm t \<noteq> Some p" for t using True x(3) by (auto simp: threads_node_def)
    moreover have "waits_at mp' = (waits_at mp)(p := [])" using True by (auto simp: waits_at_def mp'_def fun_eq_iff)
    ultimately show ?thesis using accounted_drop [OF A] by simp
  next
    case False
    then show ?thesis using A by (simp add: mp'_def)
  qed
  then show ?thesis using t x(1,2) ob by (simp add: pm(2) idle8_def k8_inv_def pr8_inv_def)
qed

lemma k8_suspend_ok:
  assumes S: "serving8 False i k" and e: "k8_suspend k = Inr k'"
  shows "idle8 k' \<and> next_pid8 k' = next_pid8 k \<and> next_tid8 k' = next_tid8 k"
proof -
  let ?pm = "processor8 k" and ?n = "next_pid8 k" and ?k = "next_tid8 k"
  have I: "pr8_inv False ?n ?k ?pm" and c: "pt_current ?pm = Some i" using S by (simp_all add: serving8_def k8_inv_def)
  obtain m mp where m: "pt_manager ?pm = Some m" "proc_manager ?pm = Some mp" "ch8_inv ?n ?k (mset (tm_ready_queue m)) ?pm"
    "objects_ok m mp" "accounted False ?k (set (tm_ready_queue m)) (pt_current ?pm) (tid2pid ?pm) (waits_at mp)"
    by (rule pr8_invE [OF I])
  let ?m = "m\<lparr>tm_ready_queue := tm_ready_queue m @ [i]\<rparr>"
  let ?pm' = "?pm\<lparr>pt_manager := Some ?m, pt_current := None\<rparr>"
  have s: "ptm_make_current_suspend fifo_ops ?pm = Inr ?pm'"
    using c m(1) by (simp add: ptm_make_current_suspend_def fifo_ops_def tm_add_def)
  then have "ch8_inv ?n ?k (add_mset i (mset (tm_ready_queue m))) ?pm'"
    using ch8.thread_suspend_inv [folded ch8_inv_def, OF m(3) c] by simp
  moreover have "objects_ok ?m mp" using m(4) by (simp add: objects_ok_def)
  moreover have "accounted False ?k (insert i (set (tm_ready_queue m))) None (tid2pid ?pm) (waits_at mp)"
    by (rule accounted_suspend) (use m(5) c in simp)
  moreover have "k' = k\<lparr>processor8 := ?pm'\<rparr>" using e s by (simp add: k8_suspend_def)
  ultimately show ?thesis using m(2) by (simp add: idle8_def k8_inv_def pr8_inv_def)
qed

lemma k8_block_ok:
  assumes S: "serving8 True i k"
  shows "idle8 (k8_block k) \<and> next_pid8 (k8_block k) = next_pid8 k \<and> next_tid8 (k8_block k) = next_tid8 k"
proof -
  let ?pm = "processor8 k" and ?n = "next_pid8 k" and ?k = "next_tid8 k"
  have I: "pr8_inv True ?n ?k ?pm" and c: "pt_current ?pm = Some i" using S by (simp_all add: serving8_def k8_inv_def)
  obtain m mp where m: "pt_manager ?pm = Some m" "proc_manager ?pm = Some mp" "ch8_inv ?n ?k (mset (tm_ready_queue m)) ?pm"
    "objects_ok m mp" "accounted True ?k (set (tm_ready_queue m)) (pt_current ?pm) (tid2pid ?pm) (waits_at mp)"
    by (rule pr8_invE [OF I])
  have "accounted False ?k (set (tm_ready_queue m)) None (tid2pid ?pm) (waits_at mp)"
    by (rule accounted_block [of _ _ i]) (use m(5) c in simp)
  moreover have "ptm_make_current_blocked ?pm = ?pm\<lparr>pt_current := None\<rparr>" using c by (simp add: ptm_make_current_blocked_def)
  ultimately show ?thesis
    using m ch8.thread_blocked_inv [folded ch8_inv_def, OF m(3)] by (simp add: k8_block_def idle8_def k8_inv_def pr8_inv_def)
qed

lemma finish8_ok:
  assumes S: "serving8 (to_block j r) i k" and f: "finish8 j r k = Inr k'"
  shows "idle8 k' \<and> next_pid8 k' = next_pid8 k \<and> next_tid8 k' = next_tid8 k"
proof (cases "\<exists>ret. r = Done ret \<and> j \<noteq> 93")
  case False
  then have "\<exists>e. k8_exited e k = Inr k'" using f by (auto simp: finish8_def split: syscall_result.split_asm)
  then show ?thesis using k8_exited_ok [OF S] by blast
next
  case True
  then obtain ret where r: "r = Done ret" "j \<noteq> 93" by blast
  obtain th ctx k1 where c: "k8_thread k = Inr th"
    "put_thread (th\<lparr>thread_context := (thread_context th)\<lparr>fc_context := ctx\<rparr>\<rparr>) k = Inr k1"
    "(if to_block j r then Inr (k8_block k1) else k8_suspend k1) = Inr k'"
    using f r by (auto simp: finish8_def to_block_def)
  have "thread_tid th = i" by (rule k8_thread_tid [OF S c(1)])
  then have k1: "serving8 (to_block j r) i k1" "next_pid8 k1 = next_pid8 k" "next_tid8 k1 = next_tid8 k"
    using put_thread_ok [OF S c(2)] by simp_all
  show ?thesis
  proof (cases "to_block j r")
    case True
    then show ?thesis using k1 c(3) k8_block_ok [of i k1] by auto
  next
    case False
    then show ?thesis using k1 c(3) k8_suspend_ok [of i k1 k'] by simp
  qed
qed

lemma serve8_ok:
  assumes S: "serving8 False i k" and ids: "ids_ok k" and r: "serve8 env L k = Some (Inr k')"
  shows "idle8 k' \<and> grows k k'"
proof -
  obtain th ctx k1 j args res k2 sr k3 where c: "k8_thread k = Inr th"
    "put_thread (th\<lparr>thread_context := (thread_context th)\<lparr>fc_context := ctx\<rparr>\<rparr>) k = Inr k1"
    "handle subsystems8 (syscall8 env L) j args k1 = Some (Inr (res, k2))" "signal_step k2 = Inr (sr, k3)"
    "(case sr of ProcessKilled exit_code \<Rightarrow> Some (k8_exited exit_code k3) | _ \<Rightarrow> Some (finish8 j res k3)) = Some (Inr k')"
    using r by (auto simp: serve8_def Let_def)
  then have c5: "(\<exists>e. k8_exited e k3 = Inr k') \<or> finish8 j res k3 = Inr k'" by (cases sr) auto
  have "thread_tid th = i" by (rule k8_thread_tid [OF S c(1)])
  then have k1: "serving8 False i k1" "next_pid8 k1 = next_pid8 k" "next_tid8 k1 = next_tid8 k"
    using put_thread_ok [OF S c(2)] by simp_all
  have k2: "serving8 (to_block j res) i k2" "grows k1 k2"
    using handle8_ok [OF k1(1) _ c(3)] ids k1(2,3) by (simp_all add: ids_ok_def)
  have k3: "serving8 (to_block j res) i k3" "next_pid8 k3 = next_pid8 k2" "next_tid8 k3 = next_tid8 k2"
    using signal_step_ok [OF k2(1) c(4)] by simp_all
  have "idle8 k' \<and> next_pid8 k' = next_pid8 k3 \<and> next_tid8 k' = next_tid8 k3"
    using c5 k8_exited_ok [OF k3(1)] finish8_ok [OF k3(1)] by blast
  then show ?thesis using k1 k2(2) k3 by (simp add: grows_def)
qed

text \<open>Fetching a thread: none is ready, the first id in the queue is gone, or its thread runs.\<close>

lemma find_next8:
  assumes K: "idle8 k"
  shows "ptm_find_next fifo_ops (processor8 k) = Inr (None, processor8 k) \<or>
    (\<exists>pm. ptm_find_next fifo_ops (processor8 k) = Inr (None, pm) \<and> idle8 (k\<lparr>processor8 := pm\<rparr>)) \<or>
    (\<exists>i th pm. ptm_find_next fifo_ops (processor8 k) = Inr (Some th, pm) \<and> serving8 False i (k\<lparr>processor8 := pm\<rparr>) \<and> thread_tid th = i)"
proof -
  let ?pm = "processor8 k" and ?n = "next_pid8 k" and ?k = "next_tid8 k"
  have I: "pr8_inv False ?n ?k ?pm" and c: "pt_current ?pm = None" using K by (simp_all add: idle8_def k8_inv_def)
  obtain m mp where m: "pt_manager ?pm = Some m" "proc_manager ?pm = Some mp" "ch8_inv ?n ?k (mset (tm_ready_queue m)) ?pm"
    "objects_ok m mp" "accounted False ?k (set (tm_ready_queue m)) (pt_current ?pm) (tid2pid ?pm) (waits_at mp)"
    "dom (tm_tasks m) = dom (tid2pid ?pm)"
    by (rule pr8_invE [OF I])
  show ?thesis
  proof (cases "tm_ready_queue m")
    case Nil
    then show ?thesis using m(1) by (simp add: ptm_find_next_def fifo_ops_def tm_fetch_def)
  next
    case (Cons i q)
    define m' where "m' = m\<lparr>tm_ready_queue := q\<rparr>"
    have "count (mset (tm_ready_queue m)) i \<le> 1" using m(3) by (simp add: ch8_inv_def ptm_inv_def)
    then have dist: "i \<notin> set q" using Cons by simp
    have q: "mset (tm_ready_queue m) - {#i#} = mset (tm_ready_queue m')" "set q = set (tm_ready_queue m) - {i}"
      using Cons dist by (auto simp: m'_def)
    have f: "op_fetch fifo_ops m = Inr (Some i, m')" using Cons by (simp add: fifo_ops_def tm_fetch_def m'_def)
    have ob: "objects_ok m' mp" using m(4) by (simp add: objects_ok_def m'_def)
    have "mset (tm_ready_queue m) \<noteq> {#}" using Cons by simp
    with ch8.thread_find_next_inv [folded ch8_inv_def, OF m(3) c]
    obtain i0 m0 m0' where fn: "pt_manager ?pm = Some m0" "op_fetch fifo_ops m0 = Inr (Some i0, m0')"
      "case tm_tasks m0 i0 of
         None \<Rightarrow> ptm_find_next fifo_ops ?pm = Inr (None, ?pm\<lparr>pt_manager := Some m0'\<rparr>) \<and>
           ch8_inv ?n ?k (mset (tm_ready_queue m) - {#i0#}) (?pm\<lparr>pt_manager := Some m0'\<rparr>)
       | Some task \<Rightarrow> ptm_find_next fifo_ops ?pm = Inr (Some task, ?pm\<lparr>pt_manager := Some m0', pt_current := Some i0\<rparr>) \<and>
           ch8_inv ?n ?k (mset (tm_ready_queue m) - {#i0#}) (?pm\<lparr>pt_manager := Some m0', pt_current := Some i0\<rparr>)"
      by (metis (no_types, lifting))
    have e: "m0 = m" using fn(1) m(1) by simp
    with fn(2) f have e': "i0 = i" "m0' = m'" by simp_all
    have g: "case tm_tasks m i of
         None \<Rightarrow> ptm_find_next fifo_ops ?pm = Inr (None, ?pm\<lparr>pt_manager := Some m'\<rparr>) \<and>
           ch8_inv ?n ?k (mset (tm_ready_queue m')) (?pm\<lparr>pt_manager := Some m'\<rparr>)
       | Some task \<Rightarrow> ptm_find_next fifo_ops ?pm = Inr (Some task, ?pm\<lparr>pt_manager := Some m', pt_current := Some i\<rparr>) \<and>
           ch8_inv ?n ?k (mset (tm_ready_queue m')) (?pm\<lparr>pt_manager := Some m', pt_current := Some i\<rparr>)"
      using fn(3) unfolding e e' q(1) .
    show ?thesis
    proof (cases "tm_tasks m i")
      case None
      then have "tid2pid ?pm i = None" using m(6) by blast
      then have "accounted False ?k (set q) None (tid2pid ?pm) (waits_at mp)"
        unfolding q(2) by (intro accounted_fetch_gone) (use m(5) c in simp_all)
      then have "idle8 (k\<lparr>processor8 := ?pm\<lparr>pt_manager := Some m'\<rparr>\<rparr>)"
        using g None ob m(2) c by (simp add: idle8_def k8_inv_def pr8_inv_def) (simp add: m'_def)
      then show ?thesis using g None by auto
    next
      case (Some th)
      have "accounted False ?k (set q) (Some i) (tid2pid ?pm) (waits_at mp)"
        unfolding q(2) by (intro accounted_fetch) (use m(5) c Cons in simp_all)
      then have "serving8 False i (k\<lparr>processor8 := ?pm\<lparr>pt_manager := Some m', pt_current := Some i\<rparr>\<rparr>)"
        using g Some ob m(2) by (simp add: serving8_def k8_inv_def pr8_inv_def) (simp add: m'_def)
      moreover have "thread_tid th = i" using Some m(4) by (simp add: objects_ok_def)
      ultimately show ?thesis using g Some by auto
    qed
  qed
qed

lemma kernel8_turn_ok:
  assumes K: "idle8 k" and ids: "ids_ok k" and t: "kernel8_turn env L user k = Some (Inr (go, k'))"
  shows "idle8 k' \<and> grows k k'"
  using find_next8 [OF K]
proof (elim disjE exE conjE)
  assume "ptm_find_next fifo_ops (processor8 k) = Inr (None, processor8 k)"
  then show ?thesis using t K by (simp add: kernel8_turn_def grows_def)
next
  fix pm
  assume "ptm_find_next fifo_ops (processor8 k) = Inr (None, pm)" "idle8 (k\<lparr>processor8 := pm\<rparr>)"
  then show ?thesis using t by (auto simp: kernel8_turn_def grows_def)
next
  fix i th pm
  assume n: "ptm_find_next fifo_ops (processor8 k) = Inr (Some th, pm)" "serving8 False i (k\<lparr>processor8 := pm\<rparr>)" "thread_tid th = i"
  obtain fc fr ecall where u: "user (thread_context th) (frames (machine8 k)) = (fc, fr, ecall)" by (metis prod.exhaust)
  let ?k1 = "k\<lparr>processor8 := pm, machine8 := (machine8 k)\<lparr>frames := fr\<rparr>\<rparr>"
  obtain k2 where k2: "put_thread (th\<lparr>thread_context := fc\<rparr>) ?k1 = Inr k2"
    "(if ecall then serve8 env L k2 else Some (k8_exited (- 3) k2)) = Some (Inr k')"
    using t n(1) u by (auto simp: kernel8_turn_def)
  have S2: "serving8 False i k2" "next_pid8 k2 = next_pid8 k" "next_tid8 k2 = next_tid8 k"
    using put_thread_ok [OF _ k2(1), of False i] n(2,3) by simp_all
  then have i2: "ids_ok k2" using ids by (simp add: ids_ok_def)
  show ?thesis
    using k2(2) serve8_ok [OF S2(1) i2] k8_exited_ok [OF S2(1), of "- 3" k'] S2(2,3) by (cases ecall) (auto simp: grows_def)
qed

end
