(* ===== verification/Spec2Isabelle.thy ===== *)
theory Spec2Isabelle
  imports Pipe_Invariant Thread_Properties
begin

text \<open>
  Verification of the TanGram rCore tutorial kernels (\<^verbatim>\<open>part1/\<close> of the repository): small RISC-V kernels in Rust, built from
  component crates. Chapter 5 is the kernel with processes, chapter 6 adds files, chapter 7 signals and pipes, chapter 8 threads.
  File names below are relative to \<^verbatim>\<open>src/part1/\<close>, with the prefix \<^verbatim>\<open>tg-rcore-tutorial-\<close> of every crate left out.

  \<^bold>\<open>How the parts interact.\<close> The main loop (\<^verbatim>\<open>rust_main\<close>) asks the process manager (\<^verbatim>\<open>task-manage\<close>) for the next process, which asks
  the scheduler of the chapter; it runs the process until it traps (\<^verbatim>\<open>kernel-context\<close>), decodes the system call (\<^verbatim>\<open>syscall\<close>) and calls the
  implementation in \<^verbatim>\<open>main.rs\<close>, which works on the address space (\<^verbatim>\<open>kernel-vm\<close>) and the descriptors of the process and on the file
  system (\<^verbatim>\<open>easy-fs\<close>); then it puts the process back into the queue or ends it. \<^verbatim>\<open>easy-fs\<close> keeps its blocks in a cache of 16 blocks in
  front of the device.

  \<^bold>\<open>Conventions\<close> (theory \<open>Rcore_Prelude\<close>). State is passed explicitly as records that have the fields of the source. Everything that stops the kernel
  (a failed \<^verbatim>\<open>unwrap\<close>, an index out of range, an arithmetic overflow, an assertion, \<^verbatim>\<open>unimplemented!\<close>, an exhausted heap, a lock that its holder takes
  again) is a value of \<open>fault\<close>, so a fallible operation returns \<open>'a res\<close>. Code that need not return (\<^verbatim>\<open>'a run\<close>: page table walks, reading a path up
  to a zero byte, waiting for input, \<^verbatim>\<open>read_all\<close>) gives \<open>None\<close> when it does not. Integers are \<open>nat\<close> or \<open>int\<close> with the bounds and
  casts of the source written out, bit sets are words. There is no fuel: loops are structural recursions on the data they run through,
  recursions with a measure, or \<^verbatim>\<open>partial_function (option)\<close>.

  \<^bold>\<open>Processes.\<close>
  \<^item> \<open>Task_Relations\<close>: identifiers and the process tree (\<^verbatim>\<open>task-manage/src/proc_rel.rs\<close>, \<^verbatim>\<open>proc_thread_rel.rs\<close>, \<^verbatim>\<open>id.rs\<close>), with the invariant
    \<open>tree_wf\<close> that creating, ending and waiting keep.
  \<^item> \<open>Proc_Manager\<close>: \<^verbatim>\<open>PManager\<close> (\<^verbatim>\<open>proc_manage.rs\<close>) over the traits \<^verbatim>\<open>Manage\<close> and \<^verbatim>\<open>Schedule\<close>, which are the locale \<open>process_scheduler\<close>.
  \<^item> \<open>Binary_Heap\<close>, \<open>Stride_Scheduler\<close>: the stride scheduler (\<^verbatim>\<open>ch5/src/processor.rs\<close>), an interpretation of that locale; no process starves while the
    priorities are at most 200, and one does above.
  \<^item> \<open>Fifo_Scheduler\<close>, \<open>Thread_Manager\<close>: the queue of chapters 7 and 8 and \<^verbatim>\<open>PThreadManager\<close> (\<^verbatim>\<open>thread_manager.rs\<close>).
  \<^item> \<open>Kernel_Context\<close>, \<open>Syscall_Dispatch\<close>: saved registers, the portal, decoding of system calls.
  \<^item> \<open>Process_Kernel\<close>: \<^verbatim>\<open>ch5/src/process.rs\<close> and the system calls and main loop of \<^verbatim>\<open>ch5/src/main.rs\<close>. \<open>Process_Invariant\<close> shows what every
    reachable state satisfies, \<open>Process_Lifecycle\<close> what fork, exec, exit and wait do.

  \<^bold>\<open>Memory.\<close> \<open>Vm_Space\<close> (\<^verbatim>\<open>kernel-vm/src/space/\<close>): address spaces as areas and page table entries, the invariant that both agree, and that
  the copy that fork makes is deep. \<open>Memory_Syscalls\<close>: \<^verbatim>\<open>mmap\<close>, \<^verbatim>\<open>munmap\<close> and \<^verbatim>\<open>sbrk\<close>.

  \<^bold>\<open>Files.\<close>
  \<^item> \<open>Block_Cache\<close> (\<^verbatim>\<open>block_cache.rs\<close> of \<^verbatim>\<open>ch6/tg-rcore-tutorial-easy-fs/src\<close>): the cache is invisible behind the interface \<open>block_store\<close>, a locale in which everything
    above is proved and which the cache interprets.
  \<^item> \<open>Byte_Codec\<close>, \<open>Bitmap_Alloc\<close>, \<open>Disk_Layout\<close>, \<open>Layout_Codec\<close>, \<open>Easy_Fs\<close>, \<open>Vfs_Inode\<close>: the definitions of \<^verbatim>\<open>bitmap.rs\<close>, \<^verbatim>\<open>layout.rs\<close>, \<^verbatim>\<open>efs.rs\<close>, \<^verbatim>\<open>vfs.rs\<close> and \<^verbatim>\<open>file.rs\<close>
    with their encodings.
  \<^item> \<open>File_Blocks\<close>, \<open>File_Growth\<close>, \<open>File_Clearing\<close>, \<open>File_Contents\<close>: one inode, its direct and indirect blocks, its bytes.
  \<^item> \<open>Fs_State\<close>, \<open>Fs_Edit\<close>, \<open>Fs_Format\<close>, \<open>Fs_Write\<close>, \<open>Fs_Read\<close>, \<open>Fs_Create\<close>, \<open>Fs_Unlink\<close>: the invariant of the device contents (files share no block, the bitmaps mark
    exactly what is in use) and what each operation does to the abstract files.
  \<^item> \<open>Fs_Refinement\<close>: the file system refines \<open>spec_op\<close>, a directory of names and files with a link count and contents.
    \<open>Fs_Properties\<close>: further properties of the parts. \<open>Fs_Discipline\<close>: on any device, every operation that returns has released its blocks.
  \<^item> \<open>User_Buffer\<close>, \<open>Pipe_Ring\<close> (\<^verbatim>\<open>file.rs\<close>, \<^verbatim>\<open>pipe.rs\<close>): the pipe as an interpretation of a bounded queue.
  \<^item> \<open>File_Kernel\<close>: \<^verbatim>\<open>ch6/src/fs.rs\<close>, \<^verbatim>\<open>process.rs\<close> and the file calls and main loop of \<^verbatim>\<open>main.rs\<close>; \<open>File_Calls\<close> and \<open>File_Invariant\<close> show what the
    calls do and what every reachable state satisfies.

  \<^bold>\<open>Synchronisation and signals.\<close> \<open>Sync_Primitives\<close> (\<^verbatim>\<open>sync/src/\<close>): mutex and semaphore interpret the locale \<open>wait_queue\<close>, from which mutual exclusion,
  conservation of permits and first-come-first-served wake-ups follow. \<open>Signal_Delivery\<close> (\<^verbatim>\<open>signal-impl/src/\<close>): delivery, handlers and their return.

  \<^bold>\<open>Processes that communicate.\<close> \<open>Descriptors\<close> has the descriptors of chapters 7 and 8 (\<^verbatim>\<open>Fd\<close> of \<^verbatim>\<open>fs.rs\<close>): files and ends of pipes. \<open>Pipe_Kernel\<close> is the
  kernel of chapter 7 (\<^verbatim>\<open>ch7/src/process.rs\<close>, the system calls and main loop of \<^verbatim>\<open>main.rs\<close>). \<open>Pipe_Invariant\<close> shows that the tables of the processes stay
  consistent and that the strong references to the write end of every pipe are exactly the descriptors for it (\<open>pipes_ok\<close>), through \<^verbatim>\<open>pipe\<close>,
  \<^verbatim>\<open>fork\<close>, \<^verbatim>\<open>close\<close> and the end of processes, so a reader sees the end of the file exactly when nobody can write any more.

  \<^bold>\<open>Threads.\<close> \<open>Thread_Kernel\<close> is the kernel of chapter 8 (\<^verbatim>\<open>ch8/src/process.rs\<close> and the system calls and main loop of
  \<^verbatim>\<open>main.rs\<close>): threads, pipes, mutexes, semaphores and condition variables as objects of a process, signals between a call and its return, and blocking.
  \<open>Thread_Invariant\<close> shows that every call and every turn keeps the tables consistent and gives every thread exactly one place (\<open>accounted\<close>);
  \<open>Thread_Properties\<close> has the invariant of the reachable states, and the run in which a thread that is killed while it waits stops the kernel.

  \<^bold>\<open>Bounds.\<close> Reachability counts the turns \<open>n\<close> of the main loop; \<open>100 * n + 100 < usize_bound\<close> keeps strides (which grow by at most 100 a turn)
  and process ids inside 64 bits; in chapters 7 and 8, \<open>n < pid_any\<close> does so for process and thread ids. Sizes on disk are bounded by what the layout supports (\<open>spec_op\<close> says when an operation fits).

  \<^bold>\<open>Parameters.\<close> Code that is not in the repository is an argument: the page table crate and the heap (\<open>vm_env\<close>, with the hypotheses \<open>walk_spec\<close> and
  \<open>alloc_spec\<close>), the ELF parser, the linked-in programs, and what a user program does between two traps. The witnesses instantiate them by concrete
  functions (\<open>flat_env\<close>, \<open>sample_env\<close>). The block device is a function from block numbers to blocks. The kernels of chapters 7
  and 8 have the file system as an argument (\<open>file_layer\<close>) with no hypotheses, since they link the second copy of \<^verbatim>\<open>easy-fs\<close>; \<open>efs_layer\<close> is the instance for the
  modelled copy.

  \<^bold>\<open>What the model takes as given.\<close> A reference that the code keeps into a table is the entry of that key; log output is left out; the kernels run on
  one hart with interrupts off in the kernel, so locks matter only where a holder could take them twice.

  \<^bold>\<open>Not modelled\<close>: assembly, firmware, drivers and start-up code (no data to reason about above the hardware), the console formatting, the kernel
  heap (a third-party allocator), user programs and the user side of the system calls, chapters 1 to 4 (earlier stages of the same code),
  the output checker, and the second copies of \<^verbatim>\<open>easy-fs\<close> and \<^verbatim>\<open>kernel-vm\<close>.
\<close>

end
